(* ===== verification/Kconf_Prelude.thy ===== *)
theory Kconf_Prelude
  imports Main "HOL-Library.Monad_Syntax"
begin

text \<open>
  Shared vocabulary of the development: the three-valued logic of Kconfig
  (\<^verbatim>\<open>tristate\<close> of \<^verbatim>\<open>expr.h\<close>) with its order, the collections of rewrite rules the
  component theories extend, and generic facts on lists, options and strings.
\<close>

named_theorems kconf_simps \<open>rewrite rules of the Kconfig model\<close>
named_theorems kconf_frame \<open>what an operation leaves unchanged\<close>

section \<open>The tristate type\<close>

text \<open>
  \<^verbatim>\<open>typedef enum tristate { no, mod, yes } tristate;\<close> (\<^verbatim>\<open>expr.h\<close>): the enumeration
  order is the order the C comparisons use.
\<close>

datatype tristate = No | Mod | Yes

fun tri_num :: "tristate \<Rightarrow> nat" where
  "tri_num No = 0"
| "tri_num Mod = 1"
| "tri_num Yes = 2"

lemma tri_num_inject [simp]: "tri_num a = tri_num b \<longleftrightarrow> a = b"
  by (cases a; cases b) simp_all

instantiation tristate :: linorder
begin

definition less_eq_tristate :: "tristate \<Rightarrow> tristate \<Rightarrow> bool" where
  "less_eq_tristate a b \<longleftrightarrow> tri_num a \<le> tri_num b"

definition less_tristate :: "tristate \<Rightarrow> tristate \<Rightarrow> bool" where
  "less_tristate a b \<longleftrightarrow> tri_num a < tri_num b"

instance
  by standard (auto simp: less_eq_tristate_def less_tristate_def)

end

instantiation tristate :: order_bot
begin

definition bot_tristate :: tristate where
  "bot_tristate = No"

instance
  by standard (simp add: bot_tristate_def less_eq_tristate_def)

end

instantiation tristate :: order_top
begin

definition top_tristate :: tristate where
  "top_tristate = Yes"

instance
proof
  fix a :: tristate
  show "a \<le> top" by (cases a) (simp_all add: top_tristate_def less_eq_tristate_def)
qed

end

text \<open>The comparisons between enumeration constants, as rewrite rules.\<close>

lemma tri_order [simp]:
  "No \<le> a" "a \<le> Yes"
  "a \<le> No \<longleftrightarrow> a = No" "Yes \<le> a \<longleftrightarrow> a = Yes"
  "\<not> a < No" "\<not> Yes < a"
  "No < a \<longleftrightarrow> a \<noteq> No" "a < Yes \<longleftrightarrow> a \<noteq> Yes"
  by (cases a; simp add: less_eq_tristate_def less_tristate_def)+

lemma tri_max_min [simp]:
  "max No a = a" "max a No = a" "max Yes a = Yes" "max a Yes = Yes"
  "min No a = No" "min a No = No" "min Yes a = a" "min a Yes = a"
  by (cases a; simp add: max_def min_def)+

lemma max_eq_No [simp]: "max a b = No \<longleftrightarrow> a = No \<and> b = No"
  by (cases a; cases b) (simp_all add: max_def less_eq_tristate_def)

lemma min_eq_Yes [simp]: "min a b = Yes \<longleftrightarrow> a = Yes \<and> b = Yes"
  by (cases a; cases b) (simp_all add: min_def less_eq_tristate_def)

lemma max_eq_Yes [simp]: "max a b = Yes \<longleftrightarrow> a = Yes \<or> b = Yes"
  by (cases a; cases b) (simp_all add: max_def less_eq_tristate_def)

lemma min_eq_No [simp]: "min a b = No \<longleftrightarrow> a = No \<or> b = No"
  by (cases a; cases b) (simp_all add: min_def less_eq_tristate_def)

lemma Mod_order [simp]:
  "Mod \<le> a \<longleftrightarrow> a \<noteq> No" "a \<le> Mod \<longleftrightarrow> a \<noteq> Yes"
  "Mod < a \<longleftrightarrow> a = Yes" "a < Mod \<longleftrightarrow> a = No"
  by (cases a; simp add: less_eq_tristate_def less_tristate_def)+

text \<open>
  The operators of \<^verbatim>\<open>expr.h\<close>:
  \<^verbatim>\<open>#define EXPR_OR(dep1, dep2) (((dep1)>(dep2))?(dep1):(dep2))\<close>,
  \<^verbatim>\<open>#define EXPR_AND(dep1, dep2) (((dep1)<(dep2))?(dep1):(dep2))\<close>,
  \<^verbatim>\<open>#define EXPR_NOT(dep) (2-(dep))\<close>.
\<close>

definition EXPR_OR :: "tristate \<Rightarrow> tristate \<Rightarrow> tristate" where
  "EXPR_OR dep1 dep2 = (if dep1 > dep2 then dep1 else dep2)"

definition EXPR_AND :: "tristate \<Rightarrow> tristate \<Rightarrow> tristate" where
  "EXPR_AND dep1 dep2 = (if dep1 < dep2 then dep1 else dep2)"

fun EXPR_NOT :: "tristate \<Rightarrow> tristate" where
  "EXPR_NOT No = Yes"
| "EXPR_NOT Mod = Mod"
| "EXPR_NOT Yes = No"

lemma EXPR_NOT_num: "tri_num (EXPR_NOT a) = 2 - tri_num a"
  by (cases a) simp_all

lemma EXPR_OR_max [kconf_simps]: "EXPR_OR a b = max a b"
  by (auto simp: EXPR_OR_def max_def)

lemma EXPR_AND_min [kconf_simps]: "EXPR_AND a b = min a b"
  by (auto simp: EXPR_AND_def min_def)

lemma EXPR_NOT_NOT [simp]: "EXPR_NOT (EXPR_NOT a) = a"
  by (cases a) simp_all

lemma EXPR_NOT_eq [simp]:
  "EXPR_NOT a = No \<longleftrightarrow> a = Yes" "EXPR_NOT a = Yes \<longleftrightarrow> a = No" "EXPR_NOT a = Mod \<longleftrightarrow> a = Mod"
  by (cases a; simp)+

lemma EXPR_NOT_max: "EXPR_NOT (max a b) = min (EXPR_NOT a) (EXPR_NOT b)"
  by (cases a; cases b) (simp_all add: max_def min_def)

lemma EXPR_NOT_min: "EXPR_NOT (min a b) = max (EXPR_NOT a) (EXPR_NOT b)"
  by (cases a; cases b) (simp_all add: max_def min_def)

text \<open>The Boolean part of the type: a value that is not \<^verbatim>\<open>mod\<close>.\<close>

abbreviation tri_bool :: "bool \<Rightarrow> tristate" where
  "tri_bool b \<equiv> (if b then Yes else No)"

lemma not_Mod_iff: "a \<noteq> Mod \<longleftrightarrow> a = No \<or> a = Yes"
  by (cases a) simp_all

section \<open>Generic facts\<close>

lemma bind_eq_SomeE:
  assumes "Option.bind m f = Some y"
  obtains x where "m = Some x" and "f x = Some y"
  using assms by (cases m) auto

section \<open>Running computations that may fail\<close>

text \<open>
  \<open>run b m P\<close>: the computation \<open>m\<close> returns a value that satisfies \<open>P\<close>, or it fails and \<open>b\<close>
  allows that. With \<open>b = False\<close> this is total correctness, with \<open>b = True\<close> partial correctness.
\<close>

definition run :: "bool \<Rightarrow> 'a option \<Rightarrow> ('a \<Rightarrow> bool) \<Rightarrow> bool" where
  "run b m P = (case m of None \<Rightarrow> b | Some x \<Rightarrow> P x)"

lemma run_simps [simp]: "run b None P = b" "run b (Some x) P = P x"
  by (simp_all add: run_def)

lemma run_bind [simp]: "run b (Option.bind m f) P = run b m (\<lambda>x. run b (f x) P)"
  by (cases m) simp_all

lemma run_mono: "run b m Q \<Longrightarrow> (\<And>x. Q x \<Longrightarrow> P x) \<Longrightarrow> run b m P"
  by (cases m) simp_all

lemma run_conj: "run b m P \<Longrightarrow> run b m Q \<Longrightarrow> run b m (\<lambda>x. P x \<and> Q x)"
  by (cases m) simp_all

lemma run_False: "run False m P \<longleftrightarrow> (\<exists>x. m = Some x \<and> P x)"
  by (cases m) simp_all

lemma run_True: "run True m P \<longleftrightarrow> (\<forall>x. m = Some x \<longrightarrow> P x)"
  by (cases m) simp_all

lemma fold_closed:
  assumes "\<And>x s. x \<in> set xs \<Longrightarrow> Q s \<Longrightarrow> Q (f x s)" "Q s"
  shows "Q (fold f xs s)"
  using assms by (induction xs arbitrary: s) auto

section \<open>Splitting a list at an element\<close>

lemma split_at [simp]:
  "c \<notin> set x \<Longrightarrow> takeWhile (\<lambda>d. d \<noteq> c) (x @ c # r) = x"
  "c \<notin> set x \<Longrightarrow> dropWhile (\<lambda>d. d \<noteq> c) (x @ c # r) = c # r"
  by (induction x) auto

lemma no_split [simp]:
  "c \<notin> set x \<Longrightarrow> takeWhile (\<lambda>d. d \<noteq> c) x = x"
  "c \<notin> set x \<Longrightarrow> dropWhile (\<lambda>d. d \<noteq> c) x = []"
  by (induction x) auto

section \<open>Searching a list\<close>

lemma find_unique:
  assumes "\<And>s. s \<in> set xs \<Longrightarrow> P s \<longleftrightarrow> s = t" "t \<in> set xs"
  shows "List.find P xs = Some t"
  using assms by (induction xs) auto

lemma find_none: "(\<And>s. s \<in> set xs \<Longrightarrow> \<not> P s) \<Longrightarrow> List.find P xs = None"
  by (induction xs) auto

lemma find_SomeD: "List.find P xs = Some t \<Longrightarrow> t \<in> set xs \<and> P t"
  by (induction xs) (auto split: if_splits)

lemma find_NoneD: "List.find P xs = None \<Longrightarrow> s \<in> set xs \<Longrightarrow> \<not> P s"
  by (induction xs) (auto split: if_splits)

end
