(* ===== verification/Kconf_Data.thy ===== *)
theory Kconf_Data
  imports Kconf_Prelude
begin

text \<open>
  The data model of Kconfig, from \<^verbatim>\<open>support/kconfig/expr.h\<close> and \<^verbatim>\<open>lkc.h\<close>: expressions,
  symbols, properties, menus, and the program's global state. Pointers to symbols,
  properties and menus are identifiers into stores of the state, since the code shares
  and updates these objects in place; expression trees are owned by one holder and are
  values. A pointer the code tests for \<^verbatim>\<open>NULL\<close> has an \<open>option\<close> type.
\<close>

section \<open>Identifiers\<close>

type_synonym symid = nat
type_synonym propid = nat
type_synonym menuid = nat

text \<open>
  The four statically allocated symbols of \<^verbatim>\<open>symbol.c\<close> have fixed identifiers; symbols
  made by \<^verbatim>\<open>sym_lookup\<close> get the following ones.
\<close>

abbreviation (input) symbol_yes :: symid where "symbol_yes \<equiv> 2"
abbreviation (input) symbol_mod :: symid where "symbol_mod \<equiv> 3"
abbreviation (input) symbol_no :: symid where "symbol_no \<equiv> 4"
abbreviation (input) symbol_empty :: symid where "symbol_empty \<equiv> 5"

section \<open>Expressions\<close>

datatype expr_type =
  E_NONE | E_OR | E_AND | E_NOT | E_EQUAL | E_UNEQUAL | E_LIST | E_SYMBOL | E_RANGE

text \<open>
  \<^verbatim>\<open>struct expr\<close>: the tag with the members of the unions \<^verbatim>\<open>left\<close> and \<^verbatim>\<open>right\<close> that the
  tag makes meaningful. The operands of \<^verbatim>\<open>E_OR\<close>, \<^verbatim>\<open>E_AND\<close> and \<^verbatim>\<open>E_NOT\<close> are never
  \<^verbatim>\<open>NULL\<close>. A chain of \<^verbatim>\<open>E_LIST\<close> nodes linked through \<^verbatim>\<open>left.expr\<close>, each holding
  \<^verbatim>\<open>right.sym\<close>, is the list of these symbols.
\<close>

datatype expr =
    XNone
  | XOr expr expr
  | XAnd expr expr
  | XNot expr
  | XEqual symid symid
  | XUnequal symid symid
  | XList "symid list"
  | XSymbol symid
  | XRange symid symid

fun etype :: "expr \<Rightarrow> expr_type" where
  "etype XNone = E_NONE"
| "etype (XOr _ _) = E_OR"
| "etype (XAnd _ _) = E_AND"
| "etype (XNot _) = E_NOT"
| "etype (XEqual _ _) = E_EQUAL"
| "etype (XUnequal _ _) = E_UNEQUAL"
| "etype (XList _) = E_LIST"
| "etype (XSymbol _) = E_SYMBOL"
| "etype (XRange _ _) = E_RANGE"

text \<open>
  The expressions that the grammar's boolean rules build: no list, range or empty node
  inside. Conditions (\<^verbatim>\<open>depends on\<close>, \<^verbatim>\<open>if\<close>, \<^verbatim>\<open>visible if\<close>) are of this form.
\<close>

fun bool_expr :: "expr \<Rightarrow> bool" where
  "bool_expr (XOr a b) = (bool_expr a \<and> bool_expr b)"
| "bool_expr (XAnd a b) = (bool_expr a \<and> bool_expr b)"
| "bool_expr (XNot a) = bool_expr a"
| "bool_expr (XEqual _ _) = True"
| "bool_expr (XUnequal _ _) = True"
| "bool_expr (XSymbol _) = True"
| "bool_expr _ = False"

text \<open>\<^verbatim>\<open>struct expr_value\<close>: a condition with its last calculated value.\<close>

record expr_value =
  ev_expr :: "expr option"
  ev_tri :: tristate

section \<open>Symbols\<close>

datatype symbol_type =
  S_UNKNOWN | S_BOOLEAN | S_TRISTATE | S_INT | S_HEX | S_STRING | S_OTHER

text \<open>
  \<^verbatim>\<open>struct symbol_value\<close>: the member \<^verbatim>\<open>void *val\<close> is null, a C string, or (for a
  choice) a pointer to the selected symbol.
\<close>

datatype cval = VNull | VStr string | VSym symid

record symbol_value =
  sv_val :: cval
  sv_tri :: tristate

text \<open>The indices of \<^verbatim>\<open>symbol.def[]\<close>.\<close>

datatype def_index = S_DEF_USER | S_DEF_AUTO | S_DEF_DEF3 | S_DEF_DEF4

text \<open>The bits of \<^verbatim>\<open>symbol.flags\<close>; a bit mask is the set of its bits.\<close>

datatype sym_flag =
    SYMBOL_CONST | SYMBOL_CHECK | SYMBOL_CHOICE | SYMBOL_CHOICEVAL | SYMBOL_VALID
  | SYMBOL_OPTIONAL | SYMBOL_WRITE | SYMBOL_CHANGED | SYMBOL_AUTO | SYMBOL_CHECKED
  | SYMBOL_WARNED | SYMBOL_DEF_USER | SYMBOL_DEF_AUTO | SYMBOL_DEF3 | SYMBOL_DEF4
  | SYMBOL_NEED_SET_CHOICE_VALUES

text \<open>\<^verbatim>\<open>SYMBOL_DEF << def\<close>: the flag that says \<^verbatim>\<open>def[def]\<close> is valid.\<close>

fun def_flag :: "def_index \<Rightarrow> sym_flag" where
  "def_flag S_DEF_USER = SYMBOL_DEF_USER"
| "def_flag S_DEF_AUTO = SYMBOL_DEF_AUTO"
| "def_flag S_DEF_DEF3 = SYMBOL_DEF3"
| "def_flag S_DEF_DEF4 = SYMBOL_DEF4"

record symbol =
  sym_name :: "string option"
  sym_type :: symbol_type
  curr :: symbol_value
  sdef :: "def_index \<Rightarrow> symbol_value"
  visible :: tristate
  flags :: "sym_flag set"
  sym_prop :: "propid list"
  dir_dep :: expr_value
  rev_dep :: expr_value

section \<open>Properties and menus\<close>

datatype prop_type =
    P_UNKNOWN | P_PROMPT | P_COMMENT | P_MENU | P_DEFAULT | P_CHOICE | P_SELECT
  | P_RANGE | P_ENV | P_SYMBOL

text \<open>
  \<^verbatim>\<open>struct property\<close> and \<^verbatim>\<open>struct menu\<close> without the members that only serve
  diagnostics (\<^verbatim>\<open>file\<close>, \<^verbatim>\<open>lineno\<close>) or a user interface (\<^verbatim>\<open>menu.data\<close>). The list linked
  through \<^verbatim>\<open>property.next\<close> is \<open>sym_prop\<close> of the owning symbol.
\<close>

record property =
  p_sym :: "symid option"
  p_type :: prop_type
  p_text :: "string option"
  p_visible :: expr_value
  p_expr :: "expr option"
  p_menu :: "menuid option"

datatype menu_flag = MENU_CHANGED | MENU_ROOT

record menu =
  m_next :: "menuid option"
  m_parent :: "menuid option"
  m_list :: "menuid option"
  m_sym :: "symid option"
  m_prompt :: "propid option"
  m_visibility :: "expr option"
  m_dep :: "expr option"
  m_flags :: "menu_flag set"
  m_help :: "string option"

section \<open>The global state\<close>

definition SYMBOL_HASHSIZE :: nat where
  "SYMBOL_HASHSIZE = 9973"

text \<open>
  The file-level variables of \<^verbatim>\<open>symbol.c\<close>, \<^verbatim>\<open>menu.c\<close> and \<^verbatim>\<open>confdata.c\<close> that the model
  reads or writes. \<open>unmet\<close> records, in order, the symbols for which
  \<^verbatim>\<open>sym_calc_value\<close> printed the unmet-dependency warning. \<^verbatim>\<open>last_entry_ptr\<close> points to the
  \<^verbatim>\<open>list\<close> or to the \<^verbatim>\<open>next\<close> member of a menu. The environment list \<^verbatim>\<open>sym_env_list\<close>, a chain of
  \<^verbatim>\<open>E_LIST\<close> nodes, is the list of its symbols.
\<close>

datatype entry_ptr = AtList menuid | AtNext menuid

record kstate =
  syms :: "symid \<Rightarrow> symbol"
  props :: "propid \<Rightarrow> property"
  menus :: "menuid \<Rightarrow> menu"
  symbol_hash :: "nat \<Rightarrow> symid list"
  next_sym :: symid
  next_prop :: propid
  next_menu :: menuid
  current_menu :: "menuid option"
  current_entry :: menuid
  last_entry :: entry_ptr
  sym_env_list :: "symid list"
  sym_defconfig_list :: "symid option"
  modules_sym :: "symid option"
  modules_val :: tristate
  sym_change_count :: int
  conf_warnings :: nat
  conf_unsaved :: nat
  unmet :: "symid list"

text \<open>
  \<^verbatim>\<open>for_all_symbols\<close>: the buckets in order, each chain from its head, leaving out
  symbols of type \<^verbatim>\<open>S_OTHER\<close>.
\<close>

definition hash_syms :: "kstate \<Rightarrow> symid list" where
  "hash_syms st = concat (map (symbol_hash st) [0..<SYMBOL_HASHSIZE])"

definition for_all_symbols :: "kstate \<Rightarrow> symid list" where
  "for_all_symbols st = filter (\<lambda>s. sym_type (syms st s) \<noteq> S_OTHER) (hash_syms st)"

definition upd_sym :: "symid \<Rightarrow> (symbol \<Rightarrow> symbol) \<Rightarrow> kstate \<Rightarrow> kstate" where
  "upd_sym s f st = st\<lparr>syms := (syms st)(s := f (syms st s))\<rparr>"

definition upd_prop :: "propid \<Rightarrow> (property \<Rightarrow> property) \<Rightarrow> kstate \<Rightarrow> kstate" where
  "upd_prop p f st = st\<lparr>props := (props st)(p := f (props st p))\<rparr>"

definition upd_menu :: "menuid \<Rightarrow> (menu \<Rightarrow> menu) \<Rightarrow> kstate \<Rightarrow> kstate" where
  "upd_menu m f st = st\<lparr>menus := (menus st)(m := f (menus st m))\<rparr>"

definition set_flag :: "symid \<Rightarrow> sym_flag set \<Rightarrow> kstate \<Rightarrow> kstate" where
  "set_flag s fs st = upd_sym s (\<lambda>sy. sy\<lparr>flags := flags sy \<union> fs\<rparr>) st"

definition clear_flag :: "symid \<Rightarrow> sym_flag set \<Rightarrow> kstate \<Rightarrow> kstate" where
  "clear_flag s fs st = upd_sym s (\<lambda>sy. sy\<lparr>flags := flags sy - fs\<rparr>) st"

abbreviation has_flag :: "kstate \<Rightarrow> symid \<Rightarrow> sym_flag \<Rightarrow> bool" where
  "has_flag st s f \<equiv> f \<in> flags (syms st s)"

section \<open>Store lemmas\<close>

lemma syms_upd_sym [simp]: "syms (upd_sym s f st) = (syms st)(s := f (syms st s))"
  by (simp add: upd_sym_def)

lemma upd_sym_other [simp]:
  "props (upd_sym s f st) = props st" "menus (upd_sym s f st) = menus st"
  "symbol_hash (upd_sym s f st) = symbol_hash st" "next_sym (upd_sym s f st) = next_sym st"
  "next_prop (upd_sym s f st) = next_prop st" "next_menu (upd_sym s f st) = next_menu st"
  "current_menu (upd_sym s f st) = current_menu st" "current_entry (upd_sym s f st) = current_entry st"
  "last_entry (upd_sym s f st) = last_entry st" "sym_env_list (upd_sym s f st) = sym_env_list st"
  "sym_defconfig_list (upd_sym s f st) = sym_defconfig_list st" "modules_sym (upd_sym s f st) = modules_sym st"
  "modules_val (upd_sym s f st) = modules_val st" "sym_change_count (upd_sym s f st) = sym_change_count st"
  "conf_warnings (upd_sym s f st) = conf_warnings st" "conf_unsaved (upd_sym s f st) = conf_unsaved st"
  "unmet (upd_sym s f st) = unmet st"
  by (simp_all add: upd_sym_def)

lemma upd_prop_simps [simp]:
  "props (upd_prop p g st) = (props st)(p := g (props st p))"
  "syms (upd_prop p g st) = syms st" "menus (upd_prop p g st) = menus st"
  "symbol_hash (upd_prop p g st) = symbol_hash st" "next_sym (upd_prop p g st) = next_sym st"
  "next_prop (upd_prop p g st) = next_prop st" "next_menu (upd_prop p g st) = next_menu st"
  "current_menu (upd_prop p g st) = current_menu st" "current_entry (upd_prop p g st) = current_entry st"
  "last_entry (upd_prop p g st) = last_entry st" "sym_env_list (upd_prop p g st) = sym_env_list st"
  "sym_defconfig_list (upd_prop p g st) = sym_defconfig_list st" "modules_sym (upd_prop p g st) = modules_sym st"
  "modules_val (upd_prop p g st) = modules_val st" "sym_change_count (upd_prop p g st) = sym_change_count st"
  "conf_warnings (upd_prop p g st) = conf_warnings st" "conf_unsaved (upd_prop p g st) = conf_unsaved st"
  "unmet (upd_prop p g st) = unmet st"
  by (simp_all add: upd_prop_def)

lemma upd_menu_simps [simp]:
  "menus (upd_menu m h st) = (menus st)(m := h (menus st m))"
  "syms (upd_menu m h st) = syms st" "props (upd_menu m h st) = props st"
  "symbol_hash (upd_menu m h st) = symbol_hash st" "next_sym (upd_menu m h st) = next_sym st"
  "next_prop (upd_menu m h st) = next_prop st" "next_menu (upd_menu m h st) = next_menu st"
  "current_menu (upd_menu m h st) = current_menu st" "current_entry (upd_menu m h st) = current_entry st"
  "last_entry (upd_menu m h st) = last_entry st" "sym_env_list (upd_menu m h st) = sym_env_list st"
  "sym_defconfig_list (upd_menu m h st) = sym_defconfig_list st" "modules_sym (upd_menu m h st) = modules_sym st"
  "modules_val (upd_menu m h st) = modules_val st" "sym_change_count (upd_menu m h st) = sym_change_count st"
  "conf_warnings (upd_menu m h st) = conf_warnings st" "conf_unsaved (upd_menu m h st) = conf_unsaved st"
  "unmet (upd_menu m h st) = unmet st"
  by (simp_all add: upd_menu_def)

lemma set_flag_simps [simp]:
  "syms (set_flag s fs st) = (syms st)(s := (syms st s)\<lparr>flags := flags (syms st s) \<union> fs\<rparr>)"
  "props (set_flag s fs st) = props st" "menus (set_flag s fs st) = menus st"
  "symbol_hash (set_flag s fs st) = symbol_hash st" "next_sym (set_flag s fs st) = next_sym st"
  "next_prop (set_flag s fs st) = next_prop st" "next_menu (set_flag s fs st) = next_menu st"
  "current_menu (set_flag s fs st) = current_menu st" "current_entry (set_flag s fs st) = current_entry st"
  "last_entry (set_flag s fs st) = last_entry st" "sym_env_list (set_flag s fs st) = sym_env_list st"
  "sym_defconfig_list (set_flag s fs st) = sym_defconfig_list st" "modules_sym (set_flag s fs st) = modules_sym st"
  "modules_val (set_flag s fs st) = modules_val st" "sym_change_count (set_flag s fs st) = sym_change_count st"
  "conf_warnings (set_flag s fs st) = conf_warnings st" "conf_unsaved (set_flag s fs st) = conf_unsaved st"
  "unmet (set_flag s fs st) = unmet st"
  by (simp_all add: set_flag_def)

lemma clear_flag_simps [simp]:
  "syms (clear_flag s fs st) = (syms st)(s := (syms st s)\<lparr>flags := flags (syms st s) - fs\<rparr>)"
  "props (clear_flag s fs st) = props st" "menus (clear_flag s fs st) = menus st"
  "symbol_hash (clear_flag s fs st) = symbol_hash st" "next_sym (clear_flag s fs st) = next_sym st"
  "next_prop (clear_flag s fs st) = next_prop st" "next_menu (clear_flag s fs st) = next_menu st"
  "current_menu (clear_flag s fs st) = current_menu st" "current_entry (clear_flag s fs st) = current_entry st"
  "last_entry (clear_flag s fs st) = last_entry st" "sym_env_list (clear_flag s fs st) = sym_env_list st"
  "sym_defconfig_list (clear_flag s fs st) = sym_defconfig_list st" "modules_sym (clear_flag s fs st) = modules_sym st"
  "modules_val (clear_flag s fs st) = modules_val st" "sym_change_count (clear_flag s fs st) = sym_change_count st"
  "conf_warnings (clear_flag s fs st) = conf_warnings st" "conf_unsaved (clear_flag s fs st) = conf_unsaved st"
  "unmet (clear_flag s fs st) = unmet st"
  by (simp_all add: clear_flag_def)

section \<open>The initial state\<close>

text \<open>
  The statically allocated symbols, and the state before a \<^verbatim>\<open>Kconfig\<close> file is read. An
  identifier that is not allocated holds \<open>free_symbol\<close>; it is marked valid, so that the
  symbols still to be calculated are always finitely many.
\<close>

definition free_symbol :: symbol where
  "free_symbol = \<lparr>sym_name = None, sym_type = S_UNKNOWN,
     curr = \<lparr>sv_val = VNull, sv_tri = No\<rparr>, sdef = (\<lambda>_. \<lparr>sv_val = VNull, sv_tri = No\<rparr>),
     visible = No, flags = {SYMBOL_VALID}, sym_prop = [],
     dir_dep = \<lparr>ev_expr = None, ev_tri = No\<rparr>, rev_dep = \<lparr>ev_expr = None, ev_tri = No\<rparr>\<rparr>"

definition const_symbol :: "string \<Rightarrow> tristate \<Rightarrow> sym_flag set \<Rightarrow> symbol" where
  "const_symbol n v fl =
    free_symbol\<lparr>sym_name := Some n, curr := \<lparr>sv_val = VStr n, sv_tri = v\<rparr>, flags := fl\<rparr>"

definition free_property :: property where
  "free_property = \<lparr>p_sym = None, p_type = P_UNKNOWN, p_text = None,
     p_visible = \<lparr>ev_expr = None, ev_tri = No\<rparr>, p_expr = None, p_menu = None\<rparr>"

definition free_menu :: menu where
  "free_menu = \<lparr>m_next = None, m_parent = None, m_list = None, m_sym = None, m_prompt = None,
     m_visibility = None, m_dep = None, m_flags = {}, m_help = None\<rparr>"

definition init_state :: kstate where
  "init_state = \<lparr>
     syms = (\<lambda>_. free_symbol)
       (symbol_yes := const_symbol ''y'' Yes {SYMBOL_CONST, SYMBOL_VALID},
        symbol_mod := const_symbol ''m'' Mod {SYMBOL_CONST, SYMBOL_VALID},
        symbol_no := const_symbol ''n'' No {SYMBOL_CONST, SYMBOL_VALID},
        symbol_empty := const_symbol [] No {SYMBOL_VALID}),
     props = (\<lambda>_. free_property), menus = (\<lambda>_. free_menu), symbol_hash = (\<lambda>_. []),
     next_sym = 6, next_prop = 0, next_menu = 1, current_menu = Some 0, current_entry = 0,
     last_entry = AtList 0, sym_env_list = [], sym_defconfig_list = None, modules_sym = None,
     modules_val = No, sym_change_count = 0, conf_warnings = 0, conf_unsaved = 0, unmet = []\<rparr>"

text \<open>The text of a symbol's name; only symbols of choices have none.\<close>

definition name_of :: "kstate \<Rightarrow> symid \<Rightarrow> string" where
  "name_of st s = (case sym_name (syms st s) of None \<Rightarrow> [] | Some n \<Rightarrow> n)"

end
