(* ===== verification/Kconf_Expr.thy ===== *)
theory Kconf_Expr
  imports Kconf_Data
begin

text \<open>
  The expression operations of \<^verbatim>\<open>support/kconfig/expr.c\<close> that work on one or two trees:
  allocation, copying, freeing, comparison, elimination of equal operands and of the
  constants \<^verbatim>\<open>y\<close> and \<^verbatim>\<open>n\<close>, the transformation to negation normal form, and the
  translation of comparisons. The C code updates trees in place; here an operation returns
  the tree that its caller's pointer designates afterwards.
\<close>

section \<open>Allocation, copying, freeing\<close>

definition expr_alloc_symbol :: "symid \<Rightarrow> expr" where
  "expr_alloc_symbol s = XSymbol s"

text \<open>
  \<^verbatim>\<open>expr_alloc_one\<close>, \<^verbatim>\<open>expr_alloc_two\<close> and \<^verbatim>\<open>expr_alloc_comp\<close> store a tag and operands;
  the callers pass the tags below, and the node of any other tag is not a condition.
\<close>

fun expr_alloc_one :: "expr_type \<Rightarrow> expr \<Rightarrow> expr" where
  "expr_alloc_one E_NOT ce = XNot ce"
| "expr_alloc_one _ ce = XNone"

fun expr_alloc_two :: "expr_type \<Rightarrow> expr \<Rightarrow> expr \<Rightarrow> expr" where
  "expr_alloc_two E_OR e1 e2 = XOr e1 e2"
| "expr_alloc_two E_AND e1 e2 = XAnd e1 e2"
| "expr_alloc_two _ e1 e2 = XNone"

fun expr_alloc_comp :: "expr_type \<Rightarrow> symid \<Rightarrow> symid \<Rightarrow> expr" where
  "expr_alloc_comp E_EQUAL s1 s2 = XEqual s1 s2"
| "expr_alloc_comp E_UNEQUAL s1 s2 = XUnequal s1 s2"
| "expr_alloc_comp E_RANGE s1 s2 = XRange s1 s2"
| "expr_alloc_comp _ s1 s2 = XNone"

fun expr_alloc_and :: "expr option \<Rightarrow> expr option \<Rightarrow> expr option" where
  "expr_alloc_and None e2 = e2"
| "expr_alloc_and (Some e1) None = Some e1"
| "expr_alloc_and (Some e1) (Some e2) = Some (expr_alloc_two E_AND e1 e2)"

fun expr_alloc_or :: "expr option \<Rightarrow> expr option \<Rightarrow> expr option" where
  "expr_alloc_or None e2 = e2"
| "expr_alloc_or (Some e1) None = Some e1"
| "expr_alloc_or (Some e1) (Some e2) = Some (expr_alloc_two E_OR e1 e2)"

text \<open>
  \<^verbatim>\<open>expr_copy\<close> on a non-null tree. A range or an empty node cannot be copied: the
  function prints a message and returns \<^verbatim>\<open>NULL\<close>. For a list node it follows \<^verbatim>\<open>right.expr\<close>,
  which holds a symbol there, so that case is left out as well; a copy with such a node
  inside is not a tree of this model and is \<open>None\<close>.
\<close>

fun expr_copy :: "expr \<Rightarrow> expr option" where
  "expr_copy (XSymbol s) = Some (XSymbol s)"
| "expr_copy (XNot a) = map_option XNot (expr_copy a)"
| "expr_copy (XEqual a b) = Some (XEqual a b)"
| "expr_copy (XUnequal a b) = Some (XUnequal a b)"
| "expr_copy (XAnd a b) =
     (case (expr_copy a, expr_copy b) of (Some a', Some b') \<Rightarrow> Some (XAnd a' b') | _ \<Rightarrow> None)"
| "expr_copy (XOr a b) =
     (case (expr_copy a, expr_copy b) of (Some a', Some b') \<Rightarrow> Some (XOr a' b') | _ \<Rightarrow> None)"
| "expr_copy _ = None"

text \<open>
  \<^verbatim>\<open>expr_free\<close>: the number of nodes it hands to \<^verbatim>\<open>free\<close>. The case \<^verbatim>\<open>E_NOT\<close> returns
  after freeing the operand, without freeing the node.
\<close>

fun expr_free :: "expr \<Rightarrow> nat" where
  "expr_free (XSymbol _) = 1"
| "expr_free (XNot a) = expr_free a"
| "expr_free (XEqual _ _) = 1"
| "expr_free (XUnequal _ _) = 1"
| "expr_free (XOr a b) = expr_free a + expr_free b + 1"
| "expr_free (XAnd a b) = expr_free a + expr_free b + 1"
| "expr_free _ = 1"

fun nodes :: "expr \<Rightarrow> nat" where
  "nodes (XNot a) = nodes a + 1"
| "nodes (XOr a b) = nodes a + nodes b + 1"
| "nodes (XAnd a b) = nodes a + nodes b + 1"
| "nodes _ = 1"

fun not_nodes :: "expr \<Rightarrow> nat" where
  "not_nodes (XNot a) = not_nodes a + 1"
| "not_nodes (XOr a b) = not_nodes a + not_nodes b"
| "not_nodes (XAnd a b) = not_nodes a + not_nodes b"
| "not_nodes _ = 0"

text \<open>\<^verbatim>\<open>expr_is_yes\<close> and \<^verbatim>\<open>expr_is_no\<close> of \<^verbatim>\<open>expr.h\<close>.\<close>

fun expr_is_yes :: "expr option \<Rightarrow> bool" where
  "expr_is_yes None = True"
| "expr_is_yes (Some (XSymbol s)) = (s = symbol_yes)"
| "expr_is_yes (Some _) = False"

fun expr_is_no :: "expr option \<Rightarrow> bool" where
  "expr_is_no None = False"
| "expr_is_no (Some (XSymbol s)) = (s = symbol_no)"
| "expr_is_no (Some _) = False"

section \<open>Eliminating the constants y and n\<close>

text \<open>What \<^verbatim>\<open>expr_eliminate_yn\<close> does at an \<^verbatim>\<open>E_AND\<close> (\<^verbatim>\<open>E_OR\<close>) node once both operands are done.\<close>

fun yn_and :: "expr \<Rightarrow> expr \<Rightarrow> expr" where
  "yn_and l r =
    (if l = XSymbol symbol_no then XSymbol symbol_no
     else if l = XSymbol symbol_yes then r
     else if r = XSymbol symbol_no then XSymbol symbol_no
     else if r = XSymbol symbol_yes then l
     else XAnd l r)"

fun yn_or :: "expr \<Rightarrow> expr \<Rightarrow> expr" where
  "yn_or l r =
    (if l = XSymbol symbol_no then r
     else if l = XSymbol symbol_yes then XSymbol symbol_yes
     else if r = XSymbol symbol_no then l
     else if r = XSymbol symbol_yes then XSymbol symbol_yes
     else XOr l r)"

fun expr_eliminate_yn :: "expr \<Rightarrow> expr" where
  "expr_eliminate_yn (XAnd l r) = yn_and (expr_eliminate_yn l) (expr_eliminate_yn r)"
| "expr_eliminate_yn (XOr l r) = yn_or (expr_eliminate_yn l) (expr_eliminate_yn r)"
| "expr_eliminate_yn e = e"

section \<open>Comparing expressions and eliminating equal operands\<close>

text \<open>\<^verbatim>\<open>e->type == type\<close> for the types the callers pass, with the two operands.\<close>

fun dest_two :: "expr_type \<Rightarrow> expr \<Rightarrow> (expr \<times> expr) option" where
  "dest_two E_OR (XOr l r) = Some (l, r)"
| "dest_two E_AND (XAnd l r) = Some (l, r)"
| "dest_two _ _ = None"

definition is_two :: "expr_type \<Rightarrow> bool" where
  "is_two ty \<longleftrightarrow> ty = E_OR \<or> ty = E_AND"

lemma dest_two_Some:
  "dest_two ty e = Some (l, r) \<longleftrightarrow> is_two ty \<and> e = expr_alloc_two ty l r"
  by (cases "(ty, e)" rule: dest_two.cases) (auto simp: is_two_def)

lemma dest_two_size [termination_simp]:
  "dest_two ty e = Some (l, r) \<Longrightarrow> size e = size l + size r + 1"
  by (cases "(ty, e)" rule: dest_two.cases) auto

text \<open>
  The replacement both operands get when they are found equal: \<^verbatim>\<open>n\<close> in a disjunction,
  \<^verbatim>\<open>y\<close> in a conjunction.
\<close>

fun neutral :: "expr_type \<Rightarrow> expr" where
  "neutral E_OR = XSymbol symbol_no"
| "neutral _ = XSymbol symbol_yes"

text \<open>
  The cases of \<^verbatim>\<open>expr_eq\<close> that compare symbols. Lists, ranges and empty nodes are never
  equal (the \<^verbatim>\<open>/* panic */\<close> cases fall through to \<^verbatim>\<open>return 0\<close>).
\<close>

fun leaf_eq :: "expr \<Rightarrow> expr \<Rightarrow> bool" where
  "leaf_eq (XEqual a b) (XEqual c d) = (a = c \<and> b = d)"
| "leaf_eq (XUnequal a b) (XUnequal c d) = (a = c \<and> b = d)"
| "leaf_eq (XSymbol a) (XSymbol c) = (a = c)"
| "leaf_eq _ _ = False"

fun dest_not :: "expr \<Rightarrow> expr option" where
  "dest_not (XNot a) = Some a"
| "dest_not _ = None"

lemma dest_not_Some [simp]: "dest_not e = Some a \<longleftrightarrow> e = XNot a"
  by (cases e) auto

text \<open>
  \<^verbatim>\<open>expr_eq\<close>, \<^verbatim>\<open>__expr_eliminate_eq\<close> (here \<open>elim_eq\<close>) and \<^verbatim>\<open>expr_eliminate_eq\<close> call each
  other. \<^verbatim>\<open>expr_eq\<close> works on copies of conjunctions and disjunctions; the copies die with
  it. \<open>elim_rank\<close> orders the three within one pair of trees for the termination proof.
\<close>

fun elim_rank :: "expr_type \<Rightarrow> expr \<Rightarrow> expr \<Rightarrow> nat" where
  "elim_rank ty e1 e2 = (if dest_two ty e1 = None \<and> dest_two ty e2 = None then 3 else 0)"

function (sequential)
  expr_eq :: "expr \<Rightarrow> expr \<Rightarrow> bool"
and elim_eq :: "expr_type \<Rightarrow> expr \<Rightarrow> expr \<Rightarrow> expr \<times> expr"
and expr_eliminate_eq :: "expr \<Rightarrow> expr \<Rightarrow> expr \<times> expr" where
  "expr_eq e1 e2 =
    (if etype e1 \<noteq> etype e2 then False
     else if is_two (etype e1)
     then (case expr_eliminate_eq e1 e2 of
             (XSymbol a, XSymbol c) \<Rightarrow> a = c
           | _ \<Rightarrow> False)
     else case dest_not e1 of
            Some a \<Rightarrow> (case dest_not e2 of Some c \<Rightarrow> expr_eq a c | None \<Rightarrow> False)
          | None \<Rightarrow> leaf_eq e1 e2)"
| "elim_eq ty e1 e2 =
    (case dest_two ty e1 of
       Some (l, r) \<Rightarrow>
         (case elim_eq ty l e2 of (l', e2') \<Rightarrow>
          case elim_eq ty r e2' of (r', e2'') \<Rightarrow> (expr_alloc_two ty l' r', e2''))
     | None \<Rightarrow>
       (case dest_two ty e2 of
          Some (l, r) \<Rightarrow>
            (case elim_eq ty e1 l of (e1', l') \<Rightarrow>
             case elim_eq ty e1' r of (e1'', r') \<Rightarrow> (e1'', expr_alloc_two ty l' r'))
        | None \<Rightarrow>
            (if e1 = e2 \<and> (e1 = XSymbol symbol_yes \<or> e1 = XSymbol symbol_no) then (e1, e2)
             else if \<not> expr_eq e1 e2 then (e1, e2)
             else if is_two ty then (neutral ty, neutral ty)
             else (e1, e2))))"
| "expr_eliminate_eq e1 e2 =
    (case (if is_two (etype e1) then elim_eq (etype e1) e1 e2 else (e1, e2)) of (f1, f2) \<Rightarrow>
     case (if etype f1 \<noteq> etype f2 \<and> is_two (etype f2) then elim_eq (etype f2) f1 f2
           else (f1, f2)) of (g1, g2) \<Rightarrow>
       (expr_eliminate_yn g1, expr_eliminate_yn g2))"
  by pat_completeness auto

lemma size_neutral [simp]: "size (neutral ty) = 0"
  by (cases ty) simp_all

lemma size_alloc_two: "is_two ty \<Longrightarrow> size (expr_alloc_two ty l r) = size l + size r + 1"
  by (auto simp: is_two_def)

lemma dest_two_etype: "is_two (etype e) \<Longrightarrow> \<exists>l r. dest_two (etype e) e = Some (l, r)"
  by (cases e) (auto simp: is_two_def)

lemma elim_eq_size_dom:
  "expr_eq_elim_eq_expr_eliminate_eq_dom (Inr (Inl (ty, e1, e2))) \<Longrightarrow>
   size (fst (elim_eq ty e1 e2)) \<le> size e1 \<and> size (snd (elim_eq ty e1 e2)) \<le> size e2"
proof (induction ty e1 e2 rule: expr_eq_elim_eq_expr_eliminate_eq.pinduct(2)
    [where P = "\<lambda>_ _. True" and R = "\<lambda>_ _. True"])
  case (2 ty e1 e2)
  note unfold = elim_eq.psimps [OF 2(1)]
  show ?case
  proof (cases "dest_two ty e1")
    case (Some p)
    obtain l r where p: "p = (l, r)" by (cases p)
    note p' = p [symmetric]
    obtain l' e2' where 1: "elim_eq ty l e2 = (l', e2')" by (cases "elim_eq ty l e2")
    obtain r' e2'' where r: "elim_eq ty r e2' = (r', e2'')" by (cases "elim_eq ty r e2'")
    have "size l' \<le> size l \<and> size e2' \<le> size e2" "size r' \<le> size r \<and> size e2'' \<le> size e2'"
      using 2(5) [OF Some p'] 2(6) [OF Some p' 1 [symmetric]] 1 r by auto
    moreover have "size e1 = size l + size r + 1" "is_two ty"
      using Some p dest_two_size [of ty e1 l r] by (simp_all add: dest_two_Some)
    ultimately show ?thesis
      using Some p 1 r by (simp add: unfold size_alloc_two)
  next
    case None
    show ?thesis
    proof (cases "dest_two ty e2")
      case (Some p)
      obtain l r where p: "p = (l, r)" by (cases p)
      note p' = p [symmetric]
      obtain e1' l' where 1: "elim_eq ty e1 l = (e1', l')" by (cases "elim_eq ty e1 l")
      obtain e1'' r' where r: "elim_eq ty e1' r = (e1'', r')" by (cases "elim_eq ty e1' r")
      have "size l' \<le> size l \<and> size e1' \<le> size e1" "size r' \<le> size r \<and> size e1'' \<le> size e1'"
        using 2(3) [OF None Some p'] 2(4) [OF None Some p' 1 [symmetric]] 1 r by auto
      moreover have "size e2 = size l + size r + 1" "is_two ty"
        using Some p dest_two_size [of ty e2 l r] by (simp_all add: dest_two_Some)
      ultimately show ?thesis
        using None Some p 1 r by (simp add: unfold size_alloc_two)
    next
      case None2: None
      show ?thesis using None None2 by (simp add: unfold)
    qed
  qed
qed auto

lemma elim_eq_size_dom':
  assumes "(x, y) = elim_eq ty e1 e2"
    and "expr_eq_elim_eq_expr_eliminate_eq_dom (Inr (Inl (ty, e1, e2)))"
  shows "size x \<le> size e1" and "size y \<le> size e2"
  using elim_eq_size_dom [OF assms(2)] assms(1) [symmetric] by simp_all

definition pair_mu :: "nat \<Rightarrow> expr \<Rightarrow> expr \<Rightarrow> nat" where
  "pair_mu k e1 e2 = 4 * (size e1 + size e2) + k"

lemma pair_mu_less:
  "size f1 + size f2 < size e1 + size e2 \<Longrightarrow> pair_mu (elim_rank ty f1 f2) f1 f2 < pair_mu k e1 e2"
  "k < j \<Longrightarrow> pair_mu k e1 e2 < pair_mu j e1 e2"
  by (simp_all add: pair_mu_def)

lemma pair_mu_etype:
  assumes "is_two ty" "ty = etype f1 \<or> ty = etype f2" "size f1 \<le> size e1" "size f2 \<le> size e2"
  shows "pair_mu (elim_rank ty f1 f2) f1 f2 < pair_mu 1 e1 e2"
proof -
  have "elim_rank ty f1 f2 = 0"
    using assms(1,2) dest_two_etype [of f1] dest_two_etype [of f2] by auto
  with assms(3,4) show ?thesis by (simp add: pair_mu_def)
qed

lemma elim_nest:
  assumes "(x, y) = elim_eq ty f1 f2" "expr_eq_elim_eq_expr_eliminate_eq_dom (Inr (Inl (ty, f1, f2)))"
  shows "dest_two ty e1 = Some (f1, b) \<Longrightarrow>
      pair_mu (elim_rank ty b y) b y < pair_mu (elim_rank ty e1 f2) e1 f2"
    and "dest_two ty e2 = Some (f2, b) \<Longrightarrow>
      pair_mu (elim_rank ty x b) x b < pair_mu (elim_rank ty f1 e2) f1 e2"
    and "ty = etype f1 \<Longrightarrow> is_two (etype y) \<Longrightarrow>
      pair_mu (elim_rank (etype y) x y) x y < pair_mu 1 f1 f2"
  using elim_eq_size_dom' [OF assms] pair_mu_etype [of "etype y" x y f1 f2]
  by (auto simp: pair_mu_def dest!: dest_two_size)

lemma elim_nest_case:
  assumes "(x, y) = elim_eq (etype e1) e1 e2" "is_two (etype y)"
    "expr_eq_elim_eq_expr_eliminate_eq_dom (Inr (Inl (etype e1, e1, e2)))"
  shows "(case elim_eq (etype e1) e1 e2 of (a, b) \<Rightarrow> pair_mu (elim_rank (etype y) a b) a b)
    < pair_mu 1 e1 e2"
  using elim_nest(3) [OF assms(1,3) refl assms(2)] assms(1) [symmetric] by simp

lemma elim_step:
  "dest_two ty e1 = Some (a, b) \<Longrightarrow>
     pair_mu (elim_rank ty a e2) a e2 < pair_mu (elim_rank ty e1 e2) e1 e2"
  "dest_two ty e2 = Some (a, b) \<Longrightarrow>
     pair_mu (elim_rank ty e1 a) e1 a < pair_mu (elim_rank ty e1 e2) e1 e2"
  "dest_two ty e1 = None \<Longrightarrow> dest_two ty e2 = None \<Longrightarrow>
     pair_mu 2 e1 e2 < pair_mu (elim_rank ty e1 e2) e1 e2"
  "pair_mu 2 f1 f2 < pair_mu 2 (XNot f1) (XNot f2)"
  by (auto simp: pair_mu_def dest!: dest_two_size)

declare elim_rank.simps [simp del]

termination expr_eq
proof (relation "measure (\<lambda>x. case x of
      Inl (e1, e2) \<Rightarrow> pair_mu 2 e1 e2
    | Inr (Inl (ty, e1, e2)) \<Rightarrow> pair_mu (elim_rank ty e1 e2) e1 e2
    | Inr (Inr (e1, e2)) \<Rightarrow> pair_mu 1 e1 e2)", goal_cases)
qed (auto intro: pair_mu_etype elim_step elim_nest elim_nest_case pair_mu_less(2)
    simp del: One_nat_def split: if_splits)

declare expr_eq.simps [simp del] elim_eq.simps [simp del] expr_eliminate_eq.simps [simp del]

section \<open>Translations of single nodes\<close>

text \<open>\<^verbatim>\<open>expr_trans_bool\<close>: \<^verbatim>\<open>FOO!=n -> FOO\<close> for a tristate symbol.\<close>

fun expr_trans_bool :: "kstate \<Rightarrow> expr \<Rightarrow> expr" where
  "expr_trans_bool st (XAnd l r) = XAnd (expr_trans_bool st l) (expr_trans_bool st r)"
| "expr_trans_bool st (XOr l r) = XOr (expr_trans_bool st l) (expr_trans_bool st r)"
| "expr_trans_bool st (XNot a) = XNot (expr_trans_bool st a)"
| "expr_trans_bool st (XUnequal a b) =
     (if sym_type (syms st a) = S_TRISTATE \<and> b = symbol_no then XSymbol a else XUnequal a b)"
| "expr_trans_bool st e = e"

text \<open>
  The symbol \<^verbatim>\<open>expr_join_or\<close> and \<^verbatim>\<open>expr_join_and\<close> find in their first operand (also below
  a negation of a comparison) and in their second (below a negation of a symbol only);
  \<open>None\<close> where they return \<^verbatim>\<open>NULL\<close>.
\<close>

fun join_sym1 :: "expr \<Rightarrow> symid option" where
  "join_sym1 (XEqual a _) = Some a"
| "join_sym1 (XUnequal a _) = Some a"
| "join_sym1 (XSymbol a) = Some a"
| "join_sym1 (XNot (XEqual a _)) = Some a"
| "join_sym1 (XNot (XUnequal a _)) = Some a"
| "join_sym1 (XNot (XSymbol a)) = Some a"
| "join_sym1 _ = None"

fun join_sym2 :: "expr \<Rightarrow> symid option" where
  "join_sym2 (XEqual a _) = Some a"
| "join_sym2 (XUnequal a _) = Some a"
| "join_sym2 (XSymbol a) = Some a"
| "join_sym2 (XNot (XSymbol a)) = Some a"
| "join_sym2 _ = None"

text \<open>\<^verbatim>\<open>e1->type == t && e2->type == t\<close> with the right symbols \<^verbatim>\<open>x\<close> and \<^verbatim>\<open>y\<close> in either order.\<close>

fun both_equal :: "expr \<Rightarrow> expr \<Rightarrow> symid \<Rightarrow> symid \<Rightarrow> bool" where
  "both_equal (XEqual _ b) (XEqual _ d) x y = ((b = x \<and> d = y) \<or> (b = y \<and> d = x))"
| "both_equal _ _ x y = False"

fun both_unequal :: "expr \<Rightarrow> expr \<Rightarrow> symid \<Rightarrow> symid \<Rightarrow> bool" where
  "both_unequal (XUnequal _ b) (XUnequal _ d) x y = ((b = x \<and> d = y) \<or> (b = y \<and> d = x))"
| "both_unequal _ _ x y = False"

fun sym_and_equal :: "expr \<Rightarrow> expr \<Rightarrow> symid \<Rightarrow> bool" where
  "sym_and_equal (XSymbol _) (XEqual _ d) x = (d = x)"
| "sym_and_equal (XEqual _ b) (XSymbol _) x = (b = x)"
| "sym_and_equal _ _ x = False"

fun sym_and_unequal :: "expr \<Rightarrow> expr \<Rightarrow> symid \<Rightarrow> bool" where
  "sym_and_unequal (XSymbol _) (XUnequal _ d) x = (d = x)"
| "sym_and_unequal (XUnequal _ b) (XSymbol _) x = (b = x)"
| "sym_and_unequal _ _ x = False"

fun sym_and_not :: "expr \<Rightarrow> expr \<Rightarrow> bool" where
  "sym_and_not (XNot (XSymbol _)) (XSymbol _) = True"
| "sym_and_not (XSymbol _) (XNot (XSymbol _)) = True"
| "sym_and_not _ _ = False"

definition expr_join_or :: "kstate \<Rightarrow> expr \<Rightarrow> expr \<Rightarrow> expr option" where
  "expr_join_or st e1 e2 =
    (if expr_eq e1 e2 then expr_copy e1
     else case (join_sym1 e1, join_sym2 e2) of
       (Some sym1, Some sym2) \<Rightarrow>
         (let ty = sym_type (syms st sym1) in
          if sym1 \<noteq> sym2 then None
          else if ty \<noteq> S_BOOLEAN \<and> ty \<noteq> S_TRISTATE then None
          else if ty = S_TRISTATE \<and> both_equal e1 e2 symbol_yes symbol_mod
            then Some (expr_alloc_comp E_UNEQUAL sym1 symbol_no)
          else if ty = S_TRISTATE \<and> both_equal e1 e2 symbol_yes symbol_no
            then Some (expr_alloc_comp E_UNEQUAL sym1 symbol_mod)
          else if ty = S_TRISTATE \<and> both_equal e1 e2 symbol_mod symbol_no
            then Some (expr_alloc_comp E_UNEQUAL sym1 symbol_yes)
          else if ty = S_BOOLEAN \<and> sym_and_not e1 e2
            then Some (expr_alloc_symbol symbol_yes)
          else None)
     | _ \<Rightarrow> None)"

text \<open>The case \<^verbatim>\<open>(a='b') && (a!='c') -> 'b'='c' ? 'n' : a='b'\<close> for constant symbols.\<close>

fun join_equal_unequal :: "kstate \<Rightarrow> symid \<Rightarrow> expr \<Rightarrow> expr \<Rightarrow> expr option" where
  "join_equal_unequal st sym1 (XEqual _ b) (XUnequal _ d) =
     (if SYMBOL_CONST \<in> flags (syms st d) \<and> SYMBOL_CONST \<in> flags (syms st b)
      then Some (if b \<noteq> d then expr_alloc_comp E_EQUAL sym1 b else expr_alloc_symbol symbol_no)
      else None)"
| "join_equal_unequal st sym1 (XUnequal _ b) (XEqual _ d) =
     (if SYMBOL_CONST \<in> flags (syms st b) \<and> SYMBOL_CONST \<in> flags (syms st d)
      then Some (if d \<noteq> b then expr_alloc_comp E_EQUAL sym1 d else expr_alloc_symbol symbol_no)
      else None)"
| "join_equal_unequal st sym1 _ _ = None"

definition expr_join_and :: "kstate \<Rightarrow> expr \<Rightarrow> expr \<Rightarrow> expr option" where
  "expr_join_and st e1 e2 =
    (if expr_eq e1 e2 then expr_copy e1
     else case (join_sym1 e1, join_sym2 e2) of
       (Some sym1, Some sym2) \<Rightarrow>
         (let ty = sym_type (syms st sym1) in
          if sym1 \<noteq> sym2 then None
          else if ty \<noteq> S_BOOLEAN \<and> ty \<noteq> S_TRISTATE then None
          else if sym_and_equal e1 e2 symbol_yes
            then Some (expr_alloc_comp E_EQUAL sym1 symbol_yes)
          else if sym_and_unequal e1 e2 symbol_no
            then Some (expr_alloc_symbol sym1)
          else if sym_and_unequal e1 e2 symbol_mod
            then Some (expr_alloc_comp E_EQUAL sym1 symbol_yes)
          else if ty = S_TRISTATE \<and> join_equal_unequal st sym1 e1 e2 \<noteq> None
            then join_equal_unequal st sym1 e1 e2
          else if ty = S_TRISTATE \<and> both_unequal e1 e2 symbol_yes symbol_no
            then Some (expr_alloc_comp E_EQUAL sym1 symbol_mod)
          else if ty = S_TRISTATE \<and> both_unequal e1 e2 symbol_yes symbol_mod
            then Some (expr_alloc_comp E_EQUAL sym1 symbol_no)
          else if ty = S_TRISTATE \<and> both_unequal e1 e2 symbol_mod symbol_no
            then Some (expr_alloc_comp E_EQUAL sym1 symbol_yes)
          else None)
     | _ \<Rightarrow> None)"

end
