(* ===== verification/Kconf_Transform.thy ===== *)
theory Kconf_Transform
  imports Kconf_Expr
begin

text \<open>
  The rest of the tree operations of \<^verbatim>\<open>support/kconfig/expr.c\<close>: \<^verbatim>\<open>expr_transform\<close> (comparisons
  of boolean symbols and negations pushed to the leaves), \<^verbatim>\<open>expr_trans_compare\<close>, the
  extraction of common operands and symbol occurrence tests.
\<close>

section \<open>Normal form\<close>

text \<open>
  The second \<^verbatim>\<open>switch\<close> of \<^verbatim>\<open>expr_transform\<close> for comparisons, on a node whose left symbol
  is boolean.
\<close>

fun transform_equal :: "kstate \<Rightarrow> symid \<Rightarrow> symid \<Rightarrow> expr" where
  "transform_equal st a b =
    (if sym_type (syms st a) \<noteq> S_BOOLEAN then XEqual a b
     else if b = symbol_no then XNot (XSymbol a)
     else if b = symbol_mod then XSymbol symbol_no
     else if b = symbol_yes then XSymbol a
     else XEqual a b)"

fun transform_unequal :: "kstate \<Rightarrow> symid \<Rightarrow> symid \<Rightarrow> expr" where
  "transform_unequal st a b =
    (if sym_type (syms st a) \<noteq> S_BOOLEAN then XUnequal a b
     else if b = symbol_no then XSymbol a
     else if b = symbol_mod then XSymbol symbol_yes
     else if b = symbol_yes then XNot (XSymbol a)
     else XUnequal a b)"

text \<open>
  \<^verbatim>\<open>expr_transform\<close>. The operand of a negation is transformed first, and the negation is
  then pushed into the result, whose parts go through the function again.
\<close>

function (sequential) expr_transform :: "kstate \<Rightarrow> expr \<Rightarrow> expr" where
  "expr_transform st (XEqual a b) = transform_equal st a b"
| "expr_transform st (XUnequal a b) = transform_unequal st a b"
| "expr_transform st (XAnd l r) = XAnd (expr_transform st l) (expr_transform st r)"
| "expr_transform st (XOr l r) = XOr (expr_transform st l) (expr_transform st r)"
| "expr_transform st (XNot a) =
    (case expr_transform st a of
       XNot b \<Rightarrow> expr_transform st b
     | XEqual x y \<Rightarrow> XUnequal x y
     | XUnequal x y \<Rightarrow> XEqual x y
     | XOr l r \<Rightarrow> expr_transform st (XAnd (XNot l) (XNot r))
     | XAnd l r \<Rightarrow> expr_transform st (XOr (XNot l) (XNot r))
     | XSymbol s \<Rightarrow>
         (if s = symbol_yes then XSymbol symbol_no
          else if s = symbol_mod then XSymbol symbol_mod
          else if s = symbol_no then XSymbol symbol_yes
          else XNot (XSymbol s))
     | e \<Rightarrow> XNot e)"
| "expr_transform st e = e"
  by pat_completeness auto

text \<open>
  Pushing a negation below a disjunction makes the tree larger; this weight falls, since
  a negation doubles the weight of what it covers.
\<close>

fun weight :: "expr \<Rightarrow> nat" where
  "weight (XNot a) = 2 * weight a"
| "weight (XAnd a b) = weight a + weight b + 1"
| "weight (XOr a b) = weight a + weight b + 1"
| "weight (XEqual _ _) = 2"
| "weight (XUnequal _ _) = 2"
| "weight _ = 1"

lemma weight_pos [simp]: "0 < weight e"
  by (induction e) simp_all

lemma expr_transform_weight_dom:
  "expr_transform_dom (st, e) \<Longrightarrow> weight (expr_transform st e) \<le> weight e"
proof (induction st e rule: expr_transform.pinduct)
  case (5 st a)
  show ?case
  proof (cases "expr_transform st a")
    case (XNot b)
    then show ?thesis
      using 5(2) 5(5) [OF XNot] by (simp add: expr_transform.psimps 5(1))
  next
    case (XOr l r)
    then show ?thesis
      using 5(2) 5(3) [OF XOr] by (simp add: expr_transform.psimps 5(1))
  next
    case (XAnd l r)
    then show ?thesis
      using 5(2) 5(4) [OF XAnd] by (simp add: expr_transform.psimps 5(1))
  next
    case (XList ss)
    then show ?thesis
      using 5(2) by (simp add: expr_transform.psimps 5(1))
  qed (use 5(2) in \<open>auto simp: expr_transform.psimps 5(1)\<close>)
qed (auto simp: expr_transform.psimps)

termination expr_transform
proof (relation "measure (\<lambda>(st, e). weight e)", goal_cases)
  case (7 st a l r)
  then show ?case
    using expr_transform_weight_dom [of st a] by simp
next
  case (8 st a l r)
  then show ?case
    using expr_transform_weight_dom [of st a] by simp
next
  case (9 st a b)
  then show ?case
    using expr_transform_weight_dom [of st a] weight_pos [of a] by (auto simp del: weight_pos)
qed auto

declare expr_transform.simps(5) [simp del]

section \<open>Occurrence of a symbol\<close>

fun expr_contains_symbol :: "expr option \<Rightarrow> symid \<Rightarrow> bool" where
  "expr_contains_symbol None s = False"
| "expr_contains_symbol (Some (XAnd l r)) s =
     (expr_contains_symbol (Some l) s \<or> expr_contains_symbol (Some r) s)"
| "expr_contains_symbol (Some (XOr l r)) s =
     (expr_contains_symbol (Some l) s \<or> expr_contains_symbol (Some r) s)"
| "expr_contains_symbol (Some (XSymbol a)) s = (a = s)"
| "expr_contains_symbol (Some (XEqual a b)) s = (a = s \<or> b = s)"
| "expr_contains_symbol (Some (XUnequal a b)) s = (a = s \<or> b = s)"
| "expr_contains_symbol (Some (XNot a)) s = expr_contains_symbol (Some a) s"
| "expr_contains_symbol (Some _) s = False"

fun expr_depends_symbol :: "expr option \<Rightarrow> symid \<Rightarrow> bool" where
  "expr_depends_symbol None s = False"
| "expr_depends_symbol (Some (XAnd l r)) s =
     (expr_depends_symbol (Some l) s \<or> expr_depends_symbol (Some r) s)"
| "expr_depends_symbol (Some (XSymbol a)) s = (a = s)"
| "expr_depends_symbol (Some (XEqual a b)) s = (a = s \<and> (b = symbol_yes \<or> b = symbol_mod))"
| "expr_depends_symbol (Some (XUnequal a b)) s = (a = s \<and> b = symbol_no)"
| "expr_depends_symbol (Some _) s = False"

section \<open>Extraction of common operands\<close>

text \<open>
  \<^verbatim>\<open>expr_extract_eq\<close>: the operands of type \<^verbatim>\<open>type\<close> that both trees share are collected in
  \<^verbatim>\<open>*ep\<close> and replaced by the neutral constant. The recursion on the second tree uses the
  first tree as the previous call left it; \<open>acc\<close> is \<^verbatim>\<open>*ep\<close>.
\<close>

definition collect :: "expr_type \<Rightarrow> expr option \<Rightarrow> expr \<Rightarrow> expr option" where
  "collect ty acc e = Some (case acc of None \<Rightarrow> e | Some a \<Rightarrow> expr_alloc_two ty a e)"

function (sequential) expr_extract_eq ::
    "expr_type \<Rightarrow> expr option \<Rightarrow> expr \<Rightarrow> expr \<Rightarrow> expr option \<times> expr \<times> expr" where
  "expr_extract_eq ty acc e1 e2 =
    (case dest_two ty e1 of
       Some (l, r) \<Rightarrow>
         (case expr_extract_eq ty acc l e2 of (acc', l', e2') \<Rightarrow>
          case expr_extract_eq ty acc' r e2' of (acc'', r', e2'') \<Rightarrow>
            (acc'', expr_alloc_two ty l' r', e2''))
     | None \<Rightarrow>
       (case dest_two ty e2 of
          Some (l, r) \<Rightarrow>
            (case expr_extract_eq ty acc e1 l of (acc', e1', l') \<Rightarrow>
             case expr_extract_eq ty acc' e1' r of (acc'', e1'', r') \<Rightarrow>
               (acc'', e1'', expr_alloc_two ty l' r'))
        | None \<Rightarrow>
            (if expr_eq e1 e2 then (collect ty acc e1, neutral ty, neutral ty)
             else (acc, e1, e2))))"
  by pat_completeness auto

lemma expr_extract_eq_size_dom:
  "expr_extract_eq_dom (ty, acc, e1, e2) \<Longrightarrow> expr_extract_eq ty acc e1 e2 = (acc', f1, f2) \<Longrightarrow>
   size f1 \<le> size e1 \<and> size f2 \<le> size e2"
proof (induction ty acc e1 e2 arbitrary: acc' f1 f2 rule: expr_extract_eq.pinduct)
  case (1 ty acc e1 e2)
  note unfold = expr_extract_eq.psimps [OF 1(1)]
  show ?case
  proof (cases "dest_two ty e1")
    case (Some p)
    obtain l r where p: "p = (l, r)" by (cases p)
    obtain a' l' e2' where 11: "expr_extract_eq ty acc l e2 = (a', l', e2')"
      by (cases "expr_extract_eq ty acc l e2")
    obtain a'' r' e2'' where 12: "expr_extract_eq ty a' r e2' = (a'', r', e2'')"
      by (cases "expr_extract_eq ty a' r e2'")
    have "size l' \<le> size l \<and> size e2' \<le> size e2" "size r' \<le> size r \<and> size e2'' \<le> size e2'"
      using 1(4) [OF Some p [symmetric] 11] 1(5) [OF Some p [symmetric] 11 [symmetric] refl 12] by auto
    moreover have "size e1 = size l + size r + 1" "is_two ty"
      using Some p dest_two_size [of ty e1 l r] by (simp_all add: dest_two_Some)
    ultimately show ?thesis
      using Some p 11 12 1(6) by (auto simp: unfold size_alloc_two)
  next
    case None
    show ?thesis
    proof (cases "dest_two ty e2")
      case (Some p)
      obtain l r where p: "p = (l, r)" by (cases p)
      obtain a' e1' l' where 11: "expr_extract_eq ty acc e1 l = (a', e1', l')"
        by (cases "expr_extract_eq ty acc e1 l")
      obtain a'' e1'' r' where 12: "expr_extract_eq ty a' e1' r = (a'', e1'', r')"
        by (cases "expr_extract_eq ty a' e1' r")
      have "size l' \<le> size l \<and> size e1' \<le> size e1" "size r' \<le> size r \<and> size e1'' \<le> size e1'"
        using 1(2) [OF None Some p [symmetric] 11] 1(3) [OF None Some p [symmetric] 11 [symmetric] refl 12]
        by auto
      moreover have "size e2 = size l + size r + 1" "is_two ty"
        using Some p dest_two_size [of ty e2 l r] by (simp_all add: dest_two_Some)
      ultimately show ?thesis
        using None Some p 11 12 1(6) by (auto simp: unfold size_alloc_two)
    next
      case None2: None
      then show ?thesis using None 1(6) by (auto simp: unfold split: if_splits)
    qed
  qed
qed

lemma expr_extract_eq_smaller:
  assumes "(acc', x, y) = expr_extract_eq ty acc f1 f2" "expr_extract_eq_dom (ty, acc, f1, f2)"
  shows "dest_two ty e1 = Some (f1, b) \<Longrightarrow> size b + size y < size e1 + size f2"
    and "dest_two ty e2 = Some (f2, b) \<Longrightarrow> size x + size b < size f1 + size e2"
  using expr_extract_eq_size_dom [OF assms(2) assms(1) [symmetric]] by (auto dest!: dest_two_size)

termination expr_extract_eq
  by (relation "measure (\<lambda>(ty, acc, e1, e2). size e1 + size e2)")
    (auto dest: dest_two_size intro: expr_extract_eq_smaller)

declare expr_extract_eq.simps [simp del]

definition extract_yn :: "expr option \<times> expr \<times> expr \<Rightarrow> expr option \<times> expr \<times> expr" where
  "extract_yn x =
    (case x of (tmp, e1, e2) \<Rightarrow>
       (if tmp = None then (tmp, e1, e2)
        else (tmp, expr_eliminate_yn e1, expr_eliminate_yn e2)))"

definition expr_extract_eq_and :: "expr \<Rightarrow> expr \<Rightarrow> expr option \<times> expr \<times> expr" where
  "expr_extract_eq_and e1 e2 = extract_yn (expr_extract_eq E_AND None e1 e2)"

definition expr_extract_eq_or :: "expr \<Rightarrow> expr \<Rightarrow> expr option \<times> expr \<times> expr" where
  "expr_extract_eq_or e1 e2 = extract_yn (expr_extract_eq E_OR None e1 e2)"

section \<open>Comparisons with a constant\<close>

text \<open>
  \<^verbatim>\<open>expr_trans_compare(e, type, sym)\<close>: an expression for \<^verbatim>\<open>e = sym\<close> or \<^verbatim>\<open>e != sym\<close>. In the
  cases \<^verbatim>\<open>E_AND\<close> and \<^verbatim>\<open>E_OR\<close> the tree stays as it is when \<^verbatim>\<open>sym\<close> is neither \<^verbatim>\<open>y\<close> nor \<^verbatim>\<open>n\<close>.
\<close>

fun negate_if :: "bool \<Rightarrow> expr \<Rightarrow> expr" where
  "negate_if c e = (if c then expr_alloc_one E_NOT e else e)"

fun combine :: "expr_type \<Rightarrow> expr option \<Rightarrow> expr option \<Rightarrow> expr option" where
  "combine ty (Some e1) (Some e2) = Some (expr_alloc_two ty e1 e2)"
| "combine ty _ _ = None"

fun flip_type :: "expr_type \<Rightarrow> expr_type" where
  "flip_type ty = (if ty = E_EQUAL then E_UNEQUAL else E_EQUAL)"

definition trans_comparison :: "expr \<Rightarrow> expr_type \<Rightarrow> symid \<Rightarrow> expr option" where
  "trans_comparison e ty s =
    (if ty = E_EQUAL then
       (if s = symbol_yes then expr_copy e
        else if s = symbol_mod then Some (expr_alloc_symbol symbol_no)
        else if s = symbol_no then map_option XNot (expr_copy e)
        else None)
     else
       (if s = symbol_yes then map_option XNot (expr_copy e)
        else if s = symbol_mod then Some (expr_alloc_symbol symbol_yes)
        else if s = symbol_no then expr_copy e
        else None))"

fun trans_compare :: "expr \<Rightarrow> expr_type \<Rightarrow> symid \<Rightarrow> expr option" where
  "trans_compare (XAnd l r) ty s =
    map_option (negate_if (ty = E_UNEQUAL))
      (let e1 = trans_compare l E_EQUAL s; e2 = trans_compare r E_EQUAL s in
       if s = symbol_yes then combine E_AND e1 e2
       else if s = symbol_no then combine E_OR e1 e2
       else Some (XAnd l r))"
| "trans_compare (XOr l r) ty s =
    map_option (negate_if (ty = E_UNEQUAL))
      (let e1 = trans_compare l E_EQUAL s; e2 = trans_compare r E_EQUAL s in
       if s = symbol_yes then combine E_OR e1 e2
       else if s = symbol_no then combine E_AND e1 e2
       else Some (XOr l r))"
| "trans_compare (XNot a) ty s = trans_compare a (flip_type ty) s"
| "trans_compare (XUnequal a b) ty s = trans_comparison (XUnequal a b) ty s"
| "trans_compare (XEqual a b) ty s = trans_comparison (XEqual a b) ty s"
| "trans_compare (XSymbol a) ty s = Some (expr_alloc_comp ty a s)"
| "trans_compare _ ty s = None"

fun expr_trans_compare :: "expr option \<Rightarrow> expr_type \<Rightarrow> symid \<Rightarrow> expr option" where
  "expr_trans_compare None ty s = Some (negate_if (ty = E_UNEQUAL) (expr_alloc_symbol s))"
| "expr_trans_compare (Some e) ty s = trans_compare e ty s"

end
