(* ===== verification/Kconf_Expr_Value.thy ===== *)
theory Kconf_Expr_Value
  imports Kconf_Transform
begin

text \<open>
  What the expression operations do to the value of an expression. \<open>expr_val\<close> is the value
  \<^verbatim>\<open>expr_calc_value\<close> returns when every symbol of the expression has been calculated; the
  stateful function itself is in theory \<open>Kconf_Calc\<close>, which proves that agreement.
\<close>

section \<open>Values of calculated symbols\<close>

fun cstr :: "cval \<Rightarrow> string" where
  "cstr (VStr x) = x"
| "cstr _ = []"

definition modules_on :: "kstate \<Rightarrow> bool" where
  "modules_on st =
    (case modules_sym st of None \<Rightarrow> False | Some m \<Rightarrow> sv_tri (curr (syms st m)) \<noteq> No)"

definition is_bool_type :: "symbol_type \<Rightarrow> bool" where
  "is_bool_type ty \<longleftrightarrow> ty = S_BOOLEAN \<or> ty = S_TRISTATE"

abbreviation tri_of :: "kstate \<Rightarrow> symid \<Rightarrow> tristate" where
  "tri_of st s \<equiv> sv_tri (curr (syms st s))"

definition sym_str :: "kstate \<Rightarrow> symid \<Rightarrow> string" where
  "sym_str st s =
    (if is_bool_type (sym_type (syms st s))
     then (case tri_of st s of
             No \<Rightarrow> ''n''
           | Mod \<Rightarrow> (if modules_on st then ''m'' else ''n'')
           | Yes \<Rightarrow> ''y'')
     else cstr (sv_val (curr (syms st s))))"

fun expr_val :: "kstate \<Rightarrow> expr \<Rightarrow> tristate" where
  "expr_val st (XSymbol s) = tri_of st s"
| "expr_val st (XAnd l r) = EXPR_AND (expr_val st l) (expr_val st r)"
| "expr_val st (XOr l r) = EXPR_OR (expr_val st l) (expr_val st r)"
| "expr_val st (XNot a) = EXPR_NOT (expr_val st a)"
| "expr_val st (XEqual a b) = tri_bool (sym_str st a = sym_str st b)"
| "expr_val st (XUnequal a b) = tri_bool (sym_str st a \<noteq> sym_str st b)"
| "expr_val st _ = No"

fun expr_val_opt :: "kstate \<Rightarrow> expr option \<Rightarrow> tristate" where
  "expr_val_opt st None = Yes"
| "expr_val_opt st (Some e) = expr_val st e"

text \<open>The symbols whose values the value of an expression depends on.\<close>

fun expr_syms :: "expr \<Rightarrow> symid set" where
  "expr_syms (XOr a b) = expr_syms a \<union> expr_syms b"
| "expr_syms (XAnd a b) = expr_syms a \<union> expr_syms b"
| "expr_syms (XNot a) = expr_syms a"
| "expr_syms (XEqual a b) = {a, b}"
| "expr_syms (XUnequal a b) = {a, b}"
| "expr_syms (XSymbol a) = {a}"
| "expr_syms _ = {}"

definition opt_syms :: "expr option \<Rightarrow> symid set" where
  "opt_syms e = (case e of None \<Rightarrow> {} | Some e \<Rightarrow> expr_syms e)"

lemma opt_syms_simps [simp]: "opt_syms None = {}" "opt_syms (Some e) = expr_syms e"
  by (simp_all add: opt_syms_def)

lemma expr_val_cong:
  assumes "\<forall>s \<in> expr_syms e. curr (syms st' s) = curr (syms st s) \<and> sym_type (syms st' s) = sym_type (syms st s)"
    and "modules_on st' = modules_on st"
  shows "expr_val st' e = expr_val st e"
  using assms by (induction e) (auto simp: sym_str_def)

text \<open>
  The constants as \<^verbatim>\<open>symbol.c\<close> initialises them, and what \<^verbatim>\<open>sym_calc_value\<close> establishes
  for calculated symbols: a boolean is never \<^verbatim>\<open>m\<close>, a tristate is \<^verbatim>\<open>m\<close> only with modules
  enabled, and distinct constant symbols (interned by name) have distinct values.
\<close>

definition const_symbols :: "kstate \<Rightarrow> bool" where
  "const_symbols st \<longleftrightarrow>
    curr (syms st symbol_yes) = \<lparr>sv_val = VStr ''y'', sv_tri = Yes\<rparr> \<and>
    curr (syms st symbol_mod) = \<lparr>sv_val = VStr ''m'', sv_tri = Mod\<rparr> \<and>
    curr (syms st symbol_no) = \<lparr>sv_val = VStr ''n'', sv_tri = No\<rparr> \<and>
    (\<forall>s \<in> {symbol_yes, symbol_mod, symbol_no}.
       sym_type (syms st s) = S_UNKNOWN \<and> SYMBOL_CONST \<in> flags (syms st s))"

definition settled :: "kstate \<Rightarrow> bool" where
  "settled st \<longleftrightarrow> const_symbols st \<and>
    (\<forall>s. sym_type (syms st s) = S_BOOLEAN \<longrightarrow> tri_of st s \<noteq> Mod) \<and>
    (\<forall>s. sym_type (syms st s) = S_TRISTATE \<and> tri_of st s = Mod \<longrightarrow> modules_on st) \<and>
    (\<forall>s t. SYMBOL_CONST \<in> flags (syms st s) \<and> SYMBOL_CONST \<in> flags (syms st t) \<and> s \<noteq> t
       \<longrightarrow> sym_str st s \<noteq> sym_str st t)"

lemma settled_const [intro]: "settled st \<Longrightarrow> const_symbols st"
  by (simp add: settled_def)

lemma const_tri [simp]:
  assumes "const_symbols st"
  shows "tri_of st symbol_yes = Yes" "tri_of st symbol_mod = Mod" "tri_of st symbol_no = No"
  using assms by (simp_all add: const_symbols_def)

lemma const_str [simp]:
  assumes "const_symbols st"
  shows "sym_str st symbol_yes = ''y''" "sym_str st symbol_mod = ''m''"
    "sym_str st symbol_no = ''n''"
  using assms by (simp_all add: const_symbols_def sym_str_def is_bool_type_def)

text \<open>The string of a boolean or tristate symbol says its value.\<close>

lemma sym_str_bool:
  assumes "settled st" "sym_type (syms st s) = S_BOOLEAN"
  shows "sym_str st s = (if tri_of st s = Yes then ''y'' else ''n'')" "tri_of st s \<noteq> Mod"
  using assms by (auto simp: settled_def sym_str_def is_bool_type_def split: tristate.splits)

lemma sym_str_tristate:
  assumes "settled st" "is_bool_type (sym_type (syms st s))"
  shows "sym_str st s = (case tri_of st s of No \<Rightarrow> ''n'' | Mod \<Rightarrow> ''m'' | Yes \<Rightarrow> ''y'')"
proof (cases "sym_type (syms st s) = S_BOOLEAN")
  case True
  then show ?thesis using sym_str_bool [OF assms(1) True] by (simp split: tristate.splits)
next
  case False
  then show ?thesis using assms
    by (auto simp: settled_def sym_str_def is_bool_type_def split: tristate.splits)
qed

section \<open>A calculated configuration\<close>

text \<open>
  Three calculated symbols on top of the initial state, on which the facts below are
  exercised: \<^verbatim>\<open>MODULES=y\<close> (6), the tristate \<^verbatim>\<open>FOO=m\<close> (7), the boolean \<^verbatim>\<open>BAR=y\<close> (8).
\<close>

definition ex_sym :: "string \<Rightarrow> symbol_type \<Rightarrow> tristate \<Rightarrow> symbol" where
  "ex_sym n ty v = free_symbol\<lparr>sym_name := Some n, sym_type := ty, curr := \<lparr>sv_val = VStr ''n'', sv_tri = v\<rparr>\<rparr>"

definition ex_state :: kstate where
  "ex_state = init_state\<lparr>
     syms := (syms init_state)
       (6 := ex_sym ''MODULES'' S_BOOLEAN Yes, 7 := ex_sym ''FOO'' S_TRISTATE Mod,
        8 := ex_sym ''BAR'' S_BOOLEAN Yes),
     next_sym := 9, modules_sym := Some 6, modules_val := Yes\<rparr>"

lemmas ex_state_defs = ex_state_def init_state_def ex_sym_def const_symbol_def free_symbol_def

lemma ex_state_settled: "settled ex_state"
  by (auto simp: settled_def const_symbols_def ex_state_defs modules_on_def sym_str_def
      is_bool_type_def split: if_splits)

section \<open>Equality and elimination\<close>

fun bop :: "expr_type \<Rightarrow> tristate \<Rightarrow> tristate \<Rightarrow> tristate" where
  "bop E_OR a b = max a b"
| "bop _ a b = min a b"

lemma bop_laws:
  "bop ty (bop ty a b) c = bop ty a (bop ty b c)"
  "bop ty a b = bop ty b a"
  "bop ty b (bop ty a c) = bop ty a (bop ty b c)"
  by (cases ty; simp add: ac_simps)+

lemma expr_val_alloc_two:
  "is_two ty \<Longrightarrow> expr_val st (expr_alloc_two ty l r) = bop ty (expr_val st l) (expr_val st r)"
  by (auto simp: is_two_def kconf_simps)

lemma expr_val_neutral:
  assumes "const_symbols st" "is_two ty"
  shows "bop ty a (expr_val st (neutral ty)) = a"
  using assms by (auto simp: is_two_def)

lemma yn_and_val: "const_symbols st \<Longrightarrow> expr_val st (yn_and l r) = min (expr_val st l) (expr_val st r)"
  by (auto simp: kconf_simps)

lemma yn_or_val: "const_symbols st \<Longrightarrow> expr_val st (yn_or l r) = max (expr_val st l) (expr_val st r)"
  by (auto simp: kconf_simps)

declare yn_and.simps [simp del] yn_or.simps [simp del]

lemma expr_eliminate_yn_val:
  assumes "const_symbols st"
  shows "expr_val st (expr_eliminate_yn e) = expr_val st e"
  by (induction e) (simp_all add: assms yn_and_val yn_or_val kconf_simps)

lemma expr_copy_bool: "bool_expr e \<Longrightarrow> expr_copy e = Some e"
  by (induction e) simp_all

lemma expr_copy_Some: "expr_copy e = Some e' \<Longrightarrow> e' = e"
  by (induction e arbitrary: e') (auto split: option.splits)

text \<open>
  The invariant of \<open>elim_eq\<close>: both operands lose the same part \<open>c\<close>, so equal remainders
  mean equal originals.
\<close>

definition common_part :: "kstate \<Rightarrow> expr_type \<Rightarrow> expr \<Rightarrow> expr \<Rightarrow> expr \<Rightarrow> expr \<Rightarrow> bool" where
  "common_part st ty f1 f2 g1 g2 \<longleftrightarrow>
    (\<exists>c. expr_val st f1 = bop ty c (expr_val st g1) \<and> expr_val st f2 = bop ty c (expr_val st g2))"

lemma common_part_eq:
  "common_part st ty f1 f2 g1 g2 \<Longrightarrow> expr_val st g1 = expr_val st g2 \<Longrightarrow>
   expr_val st f1 = expr_val st f2"
  by (auto simp: common_part_def)

lemma common_part_refl: "is_two ty \<Longrightarrow> common_part st ty f1 f2 f1 f2"
  by (auto simp: common_part_def is_two_def intro: exI [of _ No] exI [of _ Yes])

lemma common_part_sym: "common_part st ty f1 f2 g1 g2 \<Longrightarrow> common_part st ty f2 f1 g2 g1"
  by (auto simp: common_part_def)

lemma common_part_neutral:
  "const_symbols st \<Longrightarrow> is_two ty \<Longrightarrow> expr_val st f1 = expr_val st f2 \<Longrightarrow>
   common_part st ty f1 f2 (neutral ty) (neutral ty)"
  using expr_val_neutral [of st ty "expr_val st f1"]
  by (auto simp: common_part_def intro!: exI [of _ "expr_val st f1"])

lemma common_part_two:
  assumes "is_two ty" "common_part st ty l e l' e'" "common_part st ty r e' r' e''"
  shows "common_part st ty (expr_alloc_two ty l r) e (expr_alloc_two ty l' r') e''"
proof -
  obtain c where c: "expr_val st l = bop ty c (expr_val st l')" "expr_val st e = bop ty c (expr_val st e')"
    using assms(2) by (auto simp: common_part_def)
  obtain d where d: "expr_val st r = bop ty d (expr_val st r')" "expr_val st e' = bop ty d (expr_val st e'')"
    using assms(3) by (auto simp: common_part_def)
  have "expr_val st (expr_alloc_two ty l r) = bop ty (bop ty c d) (expr_val st (expr_alloc_two ty l' r'))"
    "expr_val st e = bop ty (bop ty c d) (expr_val st e'')"
    using assms(1) by (simp_all add: c d expr_val_alloc_two bop_laws)
  then show ?thesis by (auto simp: common_part_def)
qed

lemma leaf_eq_val: "leaf_eq e1 e2 \<Longrightarrow> e1 = e2"
  by (induction e1 e2 rule: leaf_eq.induct) simp_all

lemma eq_elim_val:
  assumes const: "const_symbols st"
  shows "expr_eq e1 e2 \<Longrightarrow> expr_val st e1 = expr_val st e2"
    and "is_two ty \<Longrightarrow> elim_eq ty f1 f2 = (g1, g2) \<Longrightarrow> common_part st ty f1 f2 g1 g2"
    and "expr_eliminate_eq h1 h2 = (k1, k2) \<Longrightarrow> expr_val st k1 = expr_val st k2 \<Longrightarrow>
      expr_val st h1 = expr_val st h2"
proof (induction e1 e2 and ty f1 f2 and h1 h2 arbitrary: and g1 g2 and k1 k2
    rule: expr_eq_elim_eq_expr_eliminate_eq.induct)
  case (1 e1 e2)
  from 1(3) have ty: "etype e1 = etype e2" by (auto simp: expr_eq.simps split: if_splits)
  show ?case
  proof (cases "is_two (etype e1)")
    case True
    obtain k1 k2 where k: "expr_eliminate_eq e1 e2 = (k1, k2)" by (cases "expr_eliminate_eq e1 e2")
    with 1(3) ty True have "k1 = k2"
      by (simp add: expr_eq.simps [of e1 e2] split: expr.splits)
    with 1(1) ty True k show ?thesis by simp
  next
    case False
    show ?thesis
    proof (cases "dest_not e1")
      case None
      with 1(3) ty False have "leaf_eq e1 e2" by (simp add: expr_eq.simps [of e1 e2])
      then show ?thesis by (auto dest: leaf_eq_val)
    next
      case (Some a)
      with 1(3) ty False obtain c where c: "dest_not e2 = Some c" and eq: "expr_eq a c"
        by (auto simp: expr_eq.simps [of e1 e2] split: option.splits)
      have "expr_val st a = expr_val st c"
        using 1(2) [OF _ False Some c eq] ty by simp
      with Some c show ?thesis by simp
    qed
  qed
next
  case (2 ty e1 e2)
  note unfold = elim_eq.simps [of ty e1 e2]
  show ?case
  proof (cases "dest_two ty e1")
    case (Some p)
    obtain l r where p: "p = (l, r)" by (cases p)
    obtain l' e2' where l: "elim_eq ty l e2 = (l', e2')" by (cases "elim_eq ty l e2")
    obtain r' e2'' where r: "elim_eq ty r e2' = (r', e2'')" by (cases "elim_eq ty r e2'")
    from 2(7) Some p l r have "g1 = expr_alloc_two ty l' r'" "g2 = e2''" "e1 = expr_alloc_two ty l r"
      by (auto simp: unfold dest_two_Some)
    then show ?thesis
      using common_part_two [OF 2(6) 2(4) [OF Some p [symmetric] 2(6) l]
          2(5) [OF Some p [symmetric] l [symmetric] 2(6) r]] by simp
  next
    case None
    show ?thesis
    proof (cases "dest_two ty e2")
      case (Some p)
      obtain l r where p: "p = (l, r)" by (cases p)
      obtain e1' l' where l: "elim_eq ty e1 l = (e1', l')" by (cases "elim_eq ty e1 l")
      obtain e1'' r' where r: "elim_eq ty e1' r = (e1'', r')" by (cases "elim_eq ty e1' r")
      from 2(7) None Some p l r have "g1 = e1''" "g2 = expr_alloc_two ty l' r'" "e2 = expr_alloc_two ty l r"
        by (auto simp: unfold dest_two_Some)
      then show ?thesis
        using common_part_two [OF 2(6) 2(2) [OF None Some p [symmetric] 2(6) l, THEN common_part_sym]
            2(3) [OF None Some p [symmetric] l [symmetric] 2(6) r, THEN common_part_sym]]
        by (auto intro: common_part_sym)
    next
      case None2: None
      from 2(7) None None2 consider "g1 = e1" "g2 = e2"
        | "\<not> (e1 = e2 \<and> (e1 = XSymbol symbol_yes \<or> e1 = XSymbol symbol_no))" "expr_eq e1 e2"
          "g1 = neutral ty" "g2 = neutral ty"
        by (auto simp: unfold split: if_splits)
      then show ?thesis
        using 2(1) [OF None None2] common_part_refl [OF 2(6)] common_part_neutral [OF const 2(6)]
        by cases auto
    qed
  qed
next
  case (3 e1 e2)
  define p where "p = (if is_two (etype e1) then elim_eq (etype e1) e1 e2 else (e1, e2))"
  obtain f1 f2 where f: "p = (f1, f2)" by (cases p)
  define q where "q = (if etype f1 \<noteq> etype f2 \<and> is_two (etype f2) then elim_eq (etype f2) f1 f2
    else (f1, f2))"
  obtain g1 g2 where g: "q = (g1, g2)" by (cases q)
  from 3(3) f g have k: "k1 = expr_eliminate_yn g1" "k2 = expr_eliminate_yn g2"
    by (simp_all add: expr_eliminate_eq.simps [of e1 e2] flip: p_def) (simp_all add: q_def)
  have fg: "expr_val st g1 = expr_val st g2 \<Longrightarrow> expr_val st f1 = expr_val st f2"
    using g 3(2) [OF f [unfolded p_def, symmetric]] by (auto simp: q_def dest: common_part_eq split: if_splits)
  have "expr_val st f1 = expr_val st f2 \<Longrightarrow> expr_val st e1 = expr_val st e2"
    using f 3(1) by (auto simp: p_def dest: common_part_eq split: if_splits)
  with fg 3(4) show ?case by (simp add: k expr_eliminate_yn_val const)
qed

section \<open>Joining two operands\<close>

lemma join_both_equal:
  "join_sym1 e1 = Some s \<Longrightarrow> join_sym2 e2 = Some s \<Longrightarrow> both_equal e1 e2 x y \<Longrightarrow>
   (e1 = XEqual s x \<and> e2 = XEqual s y) \<or> (e1 = XEqual s y \<and> e2 = XEqual s x)"
  by (cases "(e1, e2, x, y)" rule: both_equal.cases) auto

lemma join_both_unequal:
  "join_sym1 e1 = Some s \<Longrightarrow> join_sym2 e2 = Some s \<Longrightarrow> both_unequal e1 e2 x y \<Longrightarrow>
   (e1 = XUnequal s x \<and> e2 = XUnequal s y) \<or> (e1 = XUnequal s y \<and> e2 = XUnequal s x)"
  by (cases "(e1, e2, x, y)" rule: both_unequal.cases) auto

lemma join_sym_and_equal:
  "join_sym1 e1 = Some s \<Longrightarrow> join_sym2 e2 = Some s \<Longrightarrow> sym_and_equal e1 e2 x \<Longrightarrow>
   (e1 = XSymbol s \<and> e2 = XEqual s x) \<or> (e1 = XEqual s x \<and> e2 = XSymbol s)"
  by (cases "(e1, e2, x)" rule: sym_and_equal.cases) auto

lemma join_sym_and_unequal:
  "join_sym1 e1 = Some s \<Longrightarrow> join_sym2 e2 = Some s \<Longrightarrow> sym_and_unequal e1 e2 x \<Longrightarrow>
   (e1 = XSymbol s \<and> e2 = XUnequal s x) \<or> (e1 = XUnequal s x \<and> e2 = XSymbol s)"
  by (cases "(e1, e2, x)" rule: sym_and_unequal.cases) auto

lemma join_sym_and_not:
  "join_sym1 e1 = Some s \<Longrightarrow> join_sym2 e2 = Some s \<Longrightarrow> sym_and_not e1 e2 \<Longrightarrow>
   (e1 = XNot (XSymbol s) \<and> e2 = XSymbol s) \<or> (e1 = XSymbol s \<and> e2 = XNot (XSymbol s))"
  by (cases "(e1, e2)" rule: sym_and_not.cases) auto

lemmas join_patterns = join_both_equal join_both_unequal join_sym_and_equal join_sym_and_unequal
  join_sym_and_not

lemma join_equal_unequal_pattern:
  assumes "join_sym1 e1 = Some s" "join_sym2 e2 = Some s" "join_equal_unequal st s e1 e2 = Some t"
  obtains b d where "SYMBOL_CONST \<in> flags (syms st b)" "SYMBOL_CONST \<in> flags (syms st d)"
    and "(e1 = XEqual s b \<and> e2 = XUnequal s d) \<or> (e1 = XUnequal s d \<and> e2 = XEqual s b)"
    and "t = (if b \<noteq> d then XEqual s b else XSymbol symbol_no)"
  using assms by (cases "(st, s, e1, e2)" rule: join_equal_unequal.cases)
    (auto simp: expr_alloc_symbol_def split: if_splits)

lemma join_equal_unequal_val:
  assumes st: "settled st" and "join_sym1 e1 = Some s" "join_sym2 e2 = Some s"
    and "join_equal_unequal st s e1 e2 = Some t"
  shows "expr_val st t = min (expr_val st e1) (expr_val st e2)"
proof -
  from assms(2-4) obtain b d where c: "SYMBOL_CONST \<in> flags (syms st b)" "SYMBOL_CONST \<in> flags (syms st d)"
    and e: "(e1 = XEqual s b \<and> e2 = XUnequal s d) \<or> (e1 = XUnequal s d \<and> e2 = XEqual s b)"
    and t: "t = (if b \<noteq> d then XEqual s b else XSymbol symbol_no)"
    by (rule join_equal_unequal_pattern)
  have "b \<noteq> d \<Longrightarrow> sym_str st b \<noteq> sym_str st d"
    using st c by (auto simp: settled_def)
  then show ?thesis using e t settled_const [OF st] by auto
qed

lemma join_or_val:
  assumes st: "settled st" and j: "expr_join_or st e1 e2 = Some t"
  shows "expr_val st t = EXPR_OR (expr_val st e1) (expr_val st e2)"
proof (cases "expr_eq e1 e2")
  case True
  with j show ?thesis
    using eq_elim_val(1) [OF settled_const [OF st] True] expr_copy_Some [of e1 t]
    by (auto simp: expr_join_or_def kconf_simps)
next
  case False
  with j obtain s where s: "join_sym1 e1 = Some s" "join_sym2 e2 = Some s"
    and ty: "is_bool_type (sym_type (syms st s))"
    by (auto simp: expr_join_or_def Let_def is_bool_type_def split: option.splits if_splits)
  note P = join_patterns [OF s] and S = sym_str_tristate [OF st ty] and C = settled_const [OF st]
  from j False s consider
      "both_equal e1 e2 symbol_yes symbol_mod" "t = XUnequal s symbol_no"
    | "both_equal e1 e2 symbol_yes symbol_no" "t = XUnequal s symbol_mod"
    | "both_equal e1 e2 symbol_mod symbol_no" "t = XUnequal s symbol_yes"
    | "sym_type (syms st s) = S_BOOLEAN" "sym_and_not e1 e2" "t = XSymbol symbol_yes"
    by (auto simp: expr_join_or_def Let_def expr_alloc_symbol_def split: if_splits)
  then show ?thesis
  proof cases
    case 1
    with P(1) [OF 1(1)] S C show ?thesis by (cases "tri_of st s") (auto simp: kconf_simps)
  next
    case 2
    with P(1) [OF 2(1)] S C show ?thesis by (cases "tri_of st s") (auto simp: kconf_simps)
  next
    case 3
    with P(1) [OF 3(1)] S C show ?thesis by (cases "tri_of st s") (auto simp: kconf_simps)
  next
    case 4
    with P(5) [OF 4(2)] C sym_str_bool [OF st 4(1)] show ?thesis
      by (cases "tri_of st s") (auto simp: kconf_simps)
  qed
qed

lemma join_and_val:
  assumes st: "settled st" and j: "expr_join_and st e1 e2 = Some t"
  shows "expr_val st t = EXPR_AND (expr_val st e1) (expr_val st e2)"
proof (cases "expr_eq e1 e2")
  case True
  with j show ?thesis
    using eq_elim_val(1) [OF settled_const [OF st] True] expr_copy_Some [of e1 t]
    by (auto simp: expr_join_and_def kconf_simps)
next
  case False
  with j obtain s where s: "join_sym1 e1 = Some s" "join_sym2 e2 = Some s"
    and ty: "is_bool_type (sym_type (syms st s))"
    by (auto simp: expr_join_and_def Let_def is_bool_type_def split: option.splits if_splits)
  note P = join_patterns [OF s] and S = sym_str_tristate [OF st ty] and C = settled_const [OF st]
  from j False s consider
      "sym_and_equal e1 e2 symbol_yes" "t = XEqual s symbol_yes"
    | "sym_and_unequal e1 e2 symbol_no" "t = XSymbol s"
    | "sym_and_unequal e1 e2 symbol_mod" "t = XEqual s symbol_yes"
    | "join_equal_unequal st s e1 e2 = Some t"
    | "both_unequal e1 e2 symbol_yes symbol_no" "t = XEqual s symbol_mod"
    | "both_unequal e1 e2 symbol_yes symbol_mod" "t = XEqual s symbol_no"
    | "both_unequal e1 e2 symbol_mod symbol_no" "t = XEqual s symbol_yes"
    by (auto simp: expr_join_and_def Let_def expr_alloc_symbol_def split: if_splits)
  then show ?thesis
  proof cases
    case 1
    with P(3) [OF 1(1)] S C show ?thesis by (cases "tri_of st s") (auto simp: kconf_simps)
  next
    case 2
    with P(4) [OF 2(1)] S C show ?thesis by (cases "tri_of st s") (auto simp: kconf_simps)
  next
    case 3
    with P(4) [OF 3(1)] S C show ?thesis by (cases "tri_of st s") (auto simp: kconf_simps)
  next
    case 4
    then show ?thesis using join_equal_unequal_val [OF st s 4] by (simp add: kconf_simps)
  next
    case 5
    with P(2) [OF 5(1)] S C show ?thesis by (cases "tri_of st s") (auto simp: kconf_simps)
  next
    case 6
    with P(2) [OF 6(1)] S C show ?thesis by (cases "tri_of st s") (auto simp: kconf_simps)
  next
    case 7
    with P(2) [OF 7(1)] S C show ?thesis by (cases "tri_of st s") (auto simp: kconf_simps)
  qed
qed

text \<open>
  Property C5: when \<^verbatim>\<open>expr_join_and\<close> replaces two operands by one, the new expression has the
  value of their conjunction in every calculated configuration.
\<close>

theorem expr_join_and_value:
  assumes "settled st" "expr_join_and st e1 e2 = Some t"
  shows "expr_val st t = EXPR_AND (expr_val st e1) (expr_val st e2)"
  by (rule join_and_val [OF assms])

theorem expr_join_and_value_witness:
  "expr_join_and ex_state (XEqual 7 symbol_mod) (XUnequal 7 symbol_yes) = Some (XEqual 7 symbol_mod) \<and>
   expr_val ex_state (XEqual 7 symbol_mod)
     = EXPR_AND (expr_val ex_state (XEqual 7 symbol_mod)) (expr_val ex_state (XUnequal 7 symbol_yes))"
proof
  show j: "expr_join_and ex_state (XEqual 7 symbol_mod) (XUnequal 7 symbol_yes) = Some (XEqual 7 symbol_mod)"
    by (simp add: expr_join_and_def expr_eq.simps is_two_def Let_def ex_state_defs)
  show "expr_val ex_state (XEqual 7 symbol_mod)
     = EXPR_AND (expr_val ex_state (XEqual 7 symbol_mod)) (expr_val ex_state (XUnequal 7 symbol_yes))"
    by (rule expr_join_and_value [OF ex_state_settled j])
qed

end
