(* ===== verification/Kconf_Expr_Props.thy ===== *)
theory Kconf_Expr_Props
  imports Kconf_Expr_Value
begin

text \<open>
  Correctness of the normalising operations of \<^verbatim>\<open>support/kconfig/expr.c\<close>: values are kept,
  normal forms are reached, and the syntactic tests on which \<^verbatim>\<open>menu_finalize\<close> bases the menu
  structure mean what they are used for.
\<close>

section \<open>Negation normal form\<close>

text \<open>
  What \<^verbatim>\<open>expr_transform\<close> establishes: negation only in front of a symbol other than
  \<^verbatim>\<open>y\<close>, \<^verbatim>\<open>m\<close> and \<^verbatim>\<open>n\<close>, and no comparison of a boolean symbol with one of these.
\<close>

definition tri_const :: "symid \<Rightarrow> bool" where
  "tri_const s \<longleftrightarrow> s = symbol_yes \<or> s = symbol_mod \<or> s = symbol_no"

fun nnf :: "kstate \<Rightarrow> expr \<Rightarrow> bool" where
  "nnf st (XNot (XSymbol s)) = (\<not> tri_const s)"
| "nnf st (XNot _) = False"
| "nnf st (XAnd l r) = (nnf st l \<and> nnf st r)"
| "nnf st (XOr l r) = (nnf st l \<and> nnf st r)"
| "nnf st (XEqual a b) = (sym_type (syms st a) = S_BOOLEAN \<longrightarrow> \<not> tri_const b)"
| "nnf st (XUnequal a b) = (sym_type (syms st a) = S_BOOLEAN \<longrightarrow> \<not> tri_const b)"
| "nnf st _ = True"

text \<open>Symbols of boolean type are not the constants, whose type is unknown.\<close>

definition bool_not_const :: "kstate \<Rightarrow> bool" where
  "bool_not_const st \<longleftrightarrow> (\<forall>s. tri_const s \<longrightarrow> sym_type (syms st s) \<noteq> S_BOOLEAN)"

lemma const_bool_not_const: "const_symbols st \<Longrightarrow> bool_not_const st"
  by (auto simp: const_symbols_def bool_not_const_def tri_const_def)

lemma transform_not_cases:
  obtains (Not) b where "expr_transform st a = XNot b"
      "expr_transform st (XNot a) = expr_transform st b"
  | (Equal) x y where "expr_transform st a = XEqual x y" "expr_transform st (XNot a) = XUnequal x y"
  | (Unequal) x y where "expr_transform st a = XUnequal x y" "expr_transform st (XNot a) = XEqual x y"
  | (Or) l r where "expr_transform st a = XOr l r"
      "expr_transform st (XNot a) = XAnd (expr_transform st (XNot l)) (expr_transform st (XNot r))"
  | (And) l r where "expr_transform st a = XAnd l r"
      "expr_transform st (XNot a) = XOr (expr_transform st (XNot l)) (expr_transform st (XNot r))"
  | (Symbol) s where "expr_transform st a = XSymbol s"
      "expr_transform st (XNot a) =
         (if s = symbol_yes then XSymbol symbol_no else if s = symbol_mod then XSymbol symbol_mod
          else if s = symbol_no then XSymbol symbol_yes else XNot (XSymbol s))"
  | (Other) "expr_transform st (XNot a) = XNot (expr_transform st a)"
      "\<not> bool_expr (expr_transform st a)"
  by (cases "expr_transform st a") (auto simp: expr_transform.simps(5) [of st a])

lemma transform_comparison_val:
  assumes "settled st"
  shows "expr_val st (transform_equal st a b) = expr_val st (XEqual a b)"
    and "expr_val st (transform_unequal st a b) = expr_val st (XUnequal a b)"
  using sym_str_bool [OF assms, of a] settled_const [OF assms]
  by (cases "tri_of st a"; auto)+

lemma expr_transform_val: "settled st \<Longrightarrow> expr_val st (expr_transform st e) = expr_val st e"
proof (induction st e rule: expr_transform.induct)
  case (5 st a)
  note IH = 5(1) [OF 5(5)] and C = settled_const [OF 5(5)]
  show ?case
  proof (cases rule: transform_not_cases [of st a])
    case (Not b)
    then show ?thesis using IH [symmetric] 5(4) [OF Not(1) 5(5)] by simp
  next
    case (Equal x y)
    then show ?thesis using IH [symmetric] by auto
  next
    case (Unequal x y)
    then show ?thesis using IH [symmetric] by auto
  next
    case (Or l r)
    then show ?thesis
      using IH [symmetric] 5(2) [OF Or(1) 5(5)]
      by (simp add: kconf_simps EXPR_NOT_max)
  next
    case (And l r)
    then show ?thesis
      using IH [symmetric] 5(3) [OF And(1) 5(5)]
      by (simp add: kconf_simps EXPR_NOT_min)
  next
    case (Symbol s)
    then show ?thesis using IH [symmetric] C by auto
  next
    case Other
    then show ?thesis using IH by simp
  qed
qed (auto simp: transform_comparison_val simp del: transform_equal.simps transform_unequal.simps)

lemma transform_comparison_nnf:
  "bool_not_const st \<Longrightarrow> nnf st (transform_equal st a b)"
  "bool_not_const st \<Longrightarrow> nnf st (transform_unequal st a b)"
  by (auto simp: tri_const_def bool_not_const_def)

lemma expr_transform_nnf:
  "bool_not_const st \<Longrightarrow> bool_expr e \<Longrightarrow>
   nnf st (expr_transform st e) \<and> bool_expr (expr_transform st e)"
proof (induction st e rule: expr_transform.induct)
  case (5 st a)
  have IH: "nnf st (expr_transform st a)" "bool_expr (expr_transform st a)"
    using 5(1) 5(5,6) by auto
  show ?case
  proof (cases rule: transform_not_cases [of st a])
    case (Not b)
    then show ?thesis using IH 5(4) [OF Not(1) 5(5)] by simp
  next
    case (Or l r)
    then show ?thesis using IH 5(2) [OF Or(1) 5(5)] by simp
  next
    case (And l r)
    then show ?thesis using IH 5(3) [OF And(1) 5(5)] by simp
  next
    case (Symbol s)
    then show ?thesis by (auto simp: tri_const_def)
  qed (use IH in auto)
next
  case (1 st a b)
  then show ?case using transform_comparison_nnf(1) [of st a b] by auto
next
  case (2 st a b)
  then show ?case using transform_comparison_nnf(2) [of st a b] by auto
qed auto

text \<open>On a normal form the function changes nothing more.\<close>

lemma expr_transform_nnf_id: "nnf st e \<Longrightarrow> expr_transform st e = e"
proof (induction e)
  case (XNot a)
  then show ?case by (cases a) (auto simp: expr_transform.simps(5) tri_const_def)
qed (auto simp: tri_const_def)

section \<open>Extraction of common operands\<close>

text \<open>
  The invariant of \<^verbatim>\<open>expr_extract_eq\<close>: what the two trees lose, \<open>c\<close>, is what \<open>acc\<close> gains.
\<close>

definition with_acc :: "kstate \<Rightarrow> expr_type \<Rightarrow> expr option \<Rightarrow> tristate \<Rightarrow> tristate" where
  "with_acc st ty acc v = (case acc of None \<Rightarrow> v | Some a \<Rightarrow> bop ty (expr_val st a) v)"

definition moved ::
    "kstate \<Rightarrow> expr_type \<Rightarrow> expr option \<Rightarrow> expr \<Rightarrow> expr \<Rightarrow> expr option \<Rightarrow> expr \<Rightarrow> expr \<Rightarrow> bool" where
  "moved st ty acc e1 e2 acc' f1 f2 \<longleftrightarrow>
    (\<exists>c. (\<forall>v. with_acc st ty acc' v = bop ty c (with_acc st ty acc v)) \<and>
      expr_val st e1 = bop ty c (expr_val st f1) \<and> expr_val st e2 = bop ty c (expr_val st f2))"

lemma moved_same: "is_two ty \<Longrightarrow> moved st ty acc e1 e2 acc e1 e2"
  by (auto simp: moved_def is_two_def intro: exI [of _ No] exI [of _ Yes])

lemma moved_sym: "moved st ty acc e1 e2 acc' f1 f2 \<Longrightarrow> moved st ty acc e2 e1 acc' f2 f1"
  by (auto simp: moved_def)

lemma moved_collect:
  assumes "const_symbols st" "is_two ty" "expr_val st e1 = expr_val st e2"
  shows "moved st ty acc e1 e2 (collect ty acc e1) (neutral ty) (neutral ty)"
proof -
  have "with_acc st ty (collect ty acc e1) v = bop ty (expr_val st e1) (with_acc st ty acc v)" for v
    using assms(2) by (auto simp: with_acc_def collect_def expr_val_alloc_two bop_laws split: option.splits)
  then show ?thesis
    using assms expr_val_neutral [OF assms(1,2)] by (auto simp: moved_def)
qed

lemma moved_two:
  assumes "is_two ty" "moved st ty acc l e acc' l' e'" "moved st ty acc' r e' acc'' r' e''"
  shows "moved st ty acc (expr_alloc_two ty l r) e acc'' (expr_alloc_two ty l' r') e''"
proof -
  obtain c where c: "\<And>v. with_acc st ty acc' v = bop ty c (with_acc st ty acc v)"
    "expr_val st l = bop ty c (expr_val st l')" "expr_val st e = bop ty c (expr_val st e')"
    using assms(2) by (auto simp: moved_def)
  obtain d where d: "\<And>v. with_acc st ty acc'' v = bop ty d (with_acc st ty acc' v)"
    "expr_val st r = bop ty d (expr_val st r')" "expr_val st e' = bop ty d (expr_val st e'')"
    using assms(3) by (auto simp: moved_def)
  show ?thesis
    unfolding moved_def
    by (rule exI [of _ "bop ty c d"]) (use assms(1) in \<open>simp add: c d expr_val_alloc_two bop_laws\<close>)
qed

lemma expr_extract_eq_moved:
  assumes "const_symbols st" "is_two ty" "expr_extract_eq ty acc e1 e2 = (acc', f1, f2)"
  shows "moved st ty acc e1 e2 acc' f1 f2"
  using assms
proof (induction ty acc e1 e2 arbitrary: acc' f1 f2 rule: expr_extract_eq.induct)
  case (1 ty acc e1 e2)
  note unfold = expr_extract_eq.simps [of ty acc e1 e2]
  show ?case
  proof (cases "dest_two ty e1")
    case (Some p)
    obtain l r where p: "(l, r) = p" by (cases p) auto
    obtain a' l' e2' where l: "expr_extract_eq ty acc l e2 = (a', l', e2')"
      by (cases "expr_extract_eq ty acc l e2")
    obtain a'' r' e2'' where r: "expr_extract_eq ty a' r e2' = (a'', r', e2'')"
      by (cases "expr_extract_eq ty a' r e2'")
    have "moved st ty acc l e2 a' l' e2'" "moved st ty a' r e2' a'' r' e2''"
      using 1(3) [OF Some p 1(5,6) l] 1(4) [OF Some p l [symmetric] refl 1(5,6) r] by auto
    then show ?thesis
      using moved_two [OF 1(6)] 1(7) Some p l r by (auto simp: unfold dest_two_Some)
  next
    case None
    show ?thesis
    proof (cases "dest_two ty e2")
      case (Some p)
      obtain l r where p: "(l, r) = p" by (cases p) auto
      obtain a' e1' l' where l: "expr_extract_eq ty acc e1 l = (a', e1', l')"
        by (cases "expr_extract_eq ty acc e1 l")
      obtain a'' e1'' r' where r: "expr_extract_eq ty a' e1' r = (a'', e1'', r')"
        by (cases "expr_extract_eq ty a' e1' r")
      have "moved st ty acc l e1 a' l' e1'" "moved st ty a' r e1' a'' r' e1''"
        using 1(1) [OF None Some p 1(5,6) l] 1(2) [OF None Some p l [symmetric] refl 1(5,6) r]
        by (auto intro: moved_sym)
      then show ?thesis
        using moved_two [OF 1(6), THEN moved_sym] 1(7) None Some p l r
        by (auto simp: unfold dest_two_Some)
    next
      case None2: None
      then show ?thesis
        using 1(5-7) None moved_same moved_collect eq_elim_val(1) [OF 1(5)]
        by (auto simp: unfold split: if_splits)
    qed
  qed
qed

lemma extract_yn_val:
  assumes const: "const_symbols st" and two: "is_two ty"
    and x: "extract_yn (expr_extract_eq ty None e1 e2) = (tmp, f1, f2)"
  shows "expr_val st e1 = with_acc st ty tmp (expr_val st f1)"
    and "expr_val st e2 = with_acc st ty tmp (expr_val st f2)"
proof -
  obtain acc g1 g2 where g: "expr_extract_eq ty None e1 e2 = (acc, g1, g2)"
    by (cases "expr_extract_eq ty None e1 e2")
  have "moved st ty None e1 e2 acc g1 g2"
    using expr_extract_eq_moved [OF const two g] .
  moreover have "tmp = acc" "expr_val st f1 = expr_val st g1" "expr_val st f2 = expr_val st g2"
    using x by (auto simp: extract_yn_def g expr_eliminate_yn_val const split: if_splits)
  ultimately show "expr_val st e1 = with_acc st ty tmp (expr_val st f1)"
    "expr_val st e2 = with_acc st ty tmp (expr_val st f2)"
    by (auto simp: moved_def with_acc_def)
qed

section \<open>Comparison with y and n\<close>

text \<open>
  A condition whose bare symbols are boolean, tristate or constant; and one in which no
  symbol, or no negated one, has the value \<^verbatim>\<open>m\<close>.
\<close>

fun cond_expr :: "kstate \<Rightarrow> expr \<Rightarrow> bool" where
  "cond_expr st (XSymbol s) = (is_bool_type (sym_type (syms st s)) \<or> tri_const s)"
| "cond_expr st (XNot a) = cond_expr st a"
| "cond_expr st (XAnd l r) = (cond_expr st l \<and> cond_expr st r)"
| "cond_expr st (XOr l r) = (cond_expr st l \<and> cond_expr st r)"
| "cond_expr st (XEqual _ _) = True"
| "cond_expr st (XUnequal _ _) = True"
| "cond_expr st _ = False"

fun negated_not_mod :: "kstate \<Rightarrow> expr \<Rightarrow> bool" where
  "negated_not_mod st (XNot a) = (expr_val st a \<noteq> Mod \<and> negated_not_mod st a)"
| "negated_not_mod st (XAnd l r) = (negated_not_mod st l \<and> negated_not_mod st r)"
| "negated_not_mod st (XOr l r) = (negated_not_mod st l \<and> negated_not_mod st r)"
| "negated_not_mod st _ = True"

lemma sym_str_const_iff:
  assumes "settled st" "is_bool_type (sym_type (syms st a)) \<or> tri_const a" "tri_const s"
  shows "sym_str st a = sym_str st s \<longleftrightarrow> tri_of st a = tri_of st s"
  using assms(2)
proof
  assume "is_bool_type (sym_type (syms st a))"
  then show ?thesis
    using sym_str_tristate [OF assms(1)] assms(3) settled_const [OF assms(1)]
    by (auto simp: tri_const_def split: tristate.splits)
next
  assume "tri_const a"
  then show ?thesis
    using assms(3) settled_const [OF assms(1)] by (auto simp: tri_const_def)
qed

lemma expr_not_tri_bool [simp]: "EXPR_NOT (tri_bool b) = tri_bool (\<not> b)"
  by simp

lemma trans_compare_val:
  assumes "settled st" "cond_expr st e" "negated_not_mod st e"
    and "s = symbol_yes \<or> s = symbol_no" "ty = E_EQUAL \<or> ty = E_UNEQUAL"
  shows "\<exists>t. trans_compare e ty s = Some t \<and>
    expr_val st t = tri_bool ((expr_val st e = tri_of st s) = (ty = E_EQUAL))"
  using assms(2-5)
proof (induction e arbitrary: ty)
  case (XOr l r)
  then obtain t u where "trans_compare l E_EQUAL s = Some t" "trans_compare r E_EQUAL s = Some u"
    "expr_val st t = tri_bool (expr_val st l = tri_of st s)"
    "expr_val st u = tri_bool (expr_val st r = tri_of st s)"
    by fastforce
  with XOr.prems settled_const [OF assms(1)] show ?case
    by (auto simp: kconf_simps)
next
  case (XAnd l r)
  then obtain t u where "trans_compare l E_EQUAL s = Some t" "trans_compare r E_EQUAL s = Some u"
    "expr_val st t = tri_bool (expr_val st l = tri_of st s)"
    "expr_val st u = tri_bool (expr_val st r = tri_of st s)"
    by fastforce
  with XAnd.prems settled_const [OF assms(1)] show ?case
    by (auto simp: kconf_simps)
next
  case (XNot a)
  then obtain t where "trans_compare a (flip_type ty) s = Some t"
    "expr_val st t = tri_bool ((expr_val st a = tri_of st s) = (flip_type ty = E_EQUAL))"
    by fastforce
  with XNot.prems settled_const [OF assms(1)] show ?case
    by (cases "expr_val st a") auto
next
  case (XSymbol a)
  then show ?case
    using sym_str_const_iff [OF assms(1), of a s] by (auto simp: tri_const_def)
qed (use settled_const [OF assms(1)] in \<open>auto simp: trans_comparison_def expr_alloc_symbol_def\<close>)

section \<open>Occurrence tests\<close>

text \<open>
  A condition that depends on a symbol, as \<^verbatim>\<open>expr_depends_symbol\<close> sees it, is \<^verbatim>\<open>n\<close> whenever the symbol is: \<^verbatim>\<open>menu_finalize\<close>
  may move an entry with this condition below the symbol's entry.
\<close>

lemma expr_depends_symbol_val:
  assumes "settled st" "is_bool_type (sym_type (syms st s))" "tri_of st s = No"
  shows "expr_depends_symbol (Some e) s \<Longrightarrow> expr_val st e = No"
  using sym_str_tristate [OF assms(1,2)] assms(3) settled_const [OF assms(1)]
  by (induction e) (auto simp: kconf_simps)

text \<open>The symbols whose change can change the value of a comparison: \<open>s\<close> and the modules symbol.\<close>

lemma sym_str_upd_other:
  assumes "t \<noteq> s" "modules_sym st \<noteq> Some s"
  shows "sym_str (upd_sym s f st) t = sym_str st t"
  using assms by (auto simp: sym_str_def modules_on_def split: option.splits tristate.splits)

lemma expr_contains_symbol_frame:
  assumes "modules_sym st \<noteq> Some s"
  shows "\<not> expr_contains_symbol (Some e) s \<Longrightarrow> expr_val (upd_sym s f st) e = expr_val st e"
  using sym_str_upd_other [OF _ assms] by (induction e) auto

section \<open>Boolean contexts\<close>

text \<open>
  \<^verbatim>\<open>expr_trans_bool\<close> replaces \<^verbatim>\<open>FOO!=n\<close> by \<^verbatim>\<open>FOO\<close>, whose value may be \<^verbatim>\<open>m\<close> instead of \<^verbatim>\<open>y\<close>. On
  normal forms the result is \<^verbatim>\<open>n\<close> for the same values, which is all that counts for the
  visibility of symbols that are not tristate.
\<close>

text \<open>
  On conditions in normal form, \<^verbatim>\<open>expr_trans_bool\<close> does not change whether the value is \<^verbatim>\<open>n\<close>, and does not raise it.
\<close>

lemma expr_trans_bool_nnf:
  assumes "settled st"
  shows "nnf st e \<Longrightarrow> (expr_val st (expr_trans_bool st e) = No \<longleftrightarrow> expr_val st e = No) \<and>
    expr_val st (expr_trans_bool st e) \<le> expr_val st e"
proof (induction e)
  case (XNot a)
  then show ?case by (cases a) auto
next
  case (XUnequal a b)
  then show ?case
    using sym_str_tristate [OF assms, of a] settled_const [OF assms]
    by (auto simp: is_bool_type_def split: tristate.splits)
next
  case (XAnd l r)
  then show ?case by (auto simp: kconf_simps min_le_iff_disj)
next
  case (XOr l r)
  then show ?case by (auto simp: kconf_simps le_max_iff_disj)
qed auto

section \<open>The constants after elimination\<close>

text \<open>\<^verbatim>\<open>y\<close> and \<^verbatim>\<open>n\<close> do not occur as an operand of a conjunction or disjunction.\<close>

definition is_yn :: "expr \<Rightarrow> bool" where
  "is_yn e \<longleftrightarrow> e = XSymbol symbol_yes \<or> e = XSymbol symbol_no"

fun yn_free :: "expr \<Rightarrow> bool" where
  "yn_free (XAnd l r) = (\<not> is_yn l \<and> \<not> is_yn r \<and> yn_free l \<and> yn_free r)"
| "yn_free (XOr l r) = (\<not> is_yn l \<and> \<not> is_yn r \<and> yn_free l \<and> yn_free r)"
| "yn_free _ = True"

lemma yn_free_ops: "yn_free l \<Longrightarrow> yn_free r \<Longrightarrow> yn_free (yn_and l r) \<and> yn_free (yn_or l r)"
  by (auto simp: yn_and.simps yn_or.simps is_yn_def)

lemma expr_eliminate_yn_free: "yn_free (expr_eliminate_yn e)"
  by (induction e) (auto simp: yn_free_ops)

lemma expr_eliminate_yn_size: "size (expr_eliminate_yn e) \<le> size e"
  by (induction e) (auto simp: yn_and.simps yn_or.simps)

section \<open>The properties of the expression library\<close>

text \<open>
  Property C6: two expressions that \<^verbatim>\<open>expr_eq\<close> calls equal have the same value in every
  configuration, whatever the values of the symbols.
\<close>

theorem expr_eq_sound:
  assumes "const_symbols st" "expr_eq e1 e2"
  shows "expr_val st e1 = expr_val st e2"
  using eq_elim_val(1) assms by blast

theorem expr_eq_sound_witness:
  "expr_val ex_state (XAnd (XSymbol 7) (XSymbol 8)) = expr_val ex_state (XAnd (XSymbol 8) (XSymbol 7))"
proof (rule expr_eq_sound)
  show "const_symbols ex_state" using ex_state_settled by (rule settled_const)
  show "expr_eq (XAnd (XSymbol 7) (XSymbol 8)) (XAnd (XSymbol 8) (XSymbol 7))"
    by (simp add: expr_eq.simps elim_eq.simps expr_eliminate_eq.simps is_two_def yn_and.simps)
qed



text \<open>
  Property C4: \<^verbatim>\<open>expr_transform\<close> keeps the value of a condition in every calculated configuration and
  brings it into a normal form (negation only before a symbol, no comparison of a boolean
  with a constant) which a second application leaves alone.
\<close>

theorem expr_transform_correct:
  assumes "settled st" "bool_expr e"
  shows "expr_val st (expr_transform st e) = expr_val st e \<and> nnf st (expr_transform st e) \<and>
    bool_expr (expr_transform st e) \<and>
    expr_transform st (expr_transform st e) = expr_transform st e"
  using assms expr_transform_val expr_transform_nnf [OF const_bool_not_const [OF settled_const]]
    expr_transform_nnf_id by blast

theorem expr_transform_correct_witness:
  "expr_val ex_state (expr_transform ex_state (XNot (XAnd (XEqual 8 symbol_no) (XSymbol 7)))) = Yes"
  using expr_transform_correct [OF ex_state_settled, of "XNot (XAnd (XEqual 8 symbol_no) (XSymbol 7))"]
  by (simp add: ex_state_defs kconf_simps sym_str_def is_bool_type_def)

text \<open>
  Property C7: \<^verbatim>\<open>expr_extract_eq_and\<close> and \<^verbatim>\<open>expr_extract_eq_or\<close> factor the common operands out of two
  expressions: each is the conjunction (disjunction) of the extracted part and its
  remainder.
\<close>

theorem expr_extract_eq_correct:
  assumes "const_symbols st"
  shows "(case expr_extract_eq_and e1 e2 of (tmp, f1, f2) \<Rightarrow>
      expr_val st e1 = EXPR_AND (expr_val_opt st tmp) (expr_val st f1) \<and>
      expr_val st e2 = EXPR_AND (expr_val_opt st tmp) (expr_val st f2)) \<and>
    (case expr_extract_eq_or e1 e2 of (tmp, f1, f2) \<Rightarrow>
      expr_val st e1 = (case tmp of None \<Rightarrow> expr_val st f1 | Some a \<Rightarrow> EXPR_OR (expr_val st a) (expr_val st f1)) \<and>
      expr_val st e2 = (case tmp of None \<Rightarrow> expr_val st f2 | Some a \<Rightarrow> EXPR_OR (expr_val st a) (expr_val st f2)))"
  using extract_yn_val [OF assms, of E_AND e1 e2] extract_yn_val [OF assms, of E_OR e1 e2]
  by (auto simp: expr_extract_eq_and_def expr_extract_eq_or_def is_two_def with_acc_def kconf_simps
      split: option.splits prod.splits)

theorem expr_extract_eq_correct_witness:
  "expr_val ex_state (XAnd (XSymbol 7) (XSymbol 8)) = EXPR_AND (expr_val ex_state (XSymbol 8)) (expr_val ex_state (XSymbol 7))"
proof -
  have "expr_extract_eq_and (XAnd (XSymbol 7) (XSymbol 8)) (XAnd (XSymbol 8) (XSymbol 6))
      = (Some (XSymbol 8), XSymbol 7, XSymbol 6)"
    by (simp add: expr_extract_eq_and_def expr_extract_eq.simps extract_yn_def expr_eq.simps is_two_def
        collect_def yn_and.simps)
  with expr_extract_eq_correct [OF settled_const [OF ex_state_settled],
      of "XAnd (XSymbol 7) (XSymbol 8)" "XAnd (XSymbol 8) (XSymbol 6)"]
  show ?thesis by simp
qed




text \<open>
  \<^verbatim>\<open>expr_free\<close> releases every node of an expression except its negations, which it
  leaks.
\<close>

lemma expr_free_leaks_negations: "expr_free e + not_nodes e = nodes e"
  by (induction e) simp_all

end
