(* ===== verification/Kconf_Strings.thy ===== *)
theory Kconf_Strings
  imports Kconf_Data
begin

text \<open>
  Strings and numbers of Kconfig: the C library functions the code uses on them
  (\<^verbatim>\<open>isdigit\<close>, \<^verbatim>\<open>strtoll\<close>, \<^verbatim>\<open>sprintf\<close> with \<^verbatim>\<open>%lld\<close> and \<^verbatim>\<open>%llx\<close>), the syntax check
  \<^verbatim>\<open>sym_string_valid\<close> and the escaping of string values (\<^verbatim>\<open>symbol.c\<close>, \<^verbatim>\<open>confdata.c\<close>).
  A C string is the list of its characters before the terminating null.
\<close>

section \<open>Characters\<close>

abbreviation code :: "char \<Rightarrow> nat" where
  "code c \<equiv> of_char c"

definition isdigit :: "char \<Rightarrow> bool" where
  "isdigit c \<longleftrightarrow> 48 \<le> code c \<and> code c \<le> (57::nat)"

definition isupper :: "char \<Rightarrow> bool" where
  "isupper c \<longleftrightarrow> 65 \<le> code c \<and> code c \<le> (90::nat)"

definition islower :: "char \<Rightarrow> bool" where
  "islower c \<longleftrightarrow> 97 \<le> code c \<and> code c \<le> (122::nat)"

definition isalnum :: "char \<Rightarrow> bool" where
  "isalnum c \<longleftrightarrow> isdigit c \<or> isupper c \<or> islower c"

definition isspace :: "char \<Rightarrow> bool" where
  "isspace c \<longleftrightarrow> code c = (32::nat) \<or> (9 \<le> code c \<and> code c \<le> (13::nat))"

text \<open>The value of a digit in the bases up to 16, \<open>None\<close> for other characters.\<close>

definition digit_val :: "char \<Rightarrow> nat option" where
  "digit_val c =
    (if isdigit c then Some (code c - 48)
     else if 97 \<le> code c \<and> code c \<le> (102::nat) then Some (code c - 87)
     else if 65 \<le> code c \<and> code c \<le> (70::nat) then Some (code c - 55)
     else None)"

definition isxdigit :: "char \<Rightarrow> bool" where
  "isxdigit c \<longleftrightarrow> digit_val c \<noteq> None"

definition base_digit :: "nat \<Rightarrow> char \<Rightarrow> bool" where
  "base_digit b c \<longleftrightarrow> (case digit_val c of None \<Rightarrow> False | Some d \<Rightarrow> d < b)"

section \<open>strtoll and sprintf\<close>

definition LLONG_MIN :: int where "LLONG_MIN = - (2 ^ 63)"
definition LLONG_MAX :: int where "LLONG_MAX = 2 ^ 63 - 1"

text \<open>The digits of \<open>base\<close> at the start of a string, accumulated.\<close>

fun read_digits :: "nat \<Rightarrow> nat \<Rightarrow> string \<Rightarrow> nat" where
  "read_digits b acc [] = acc"
| "read_digits b acc (c # cs) =
     (if base_digit b c then read_digits b (acc * b + the (digit_val c)) cs else acc)"

text \<open>In base 16 a prefix \<^verbatim>\<open>0x\<close> is skipped if a hexadecimal digit follows it.\<close>

fun skip_0x :: "nat \<Rightarrow> string \<Rightarrow> string" where
  "skip_0x b (z # x # d # cs) =
     (if b = 16 \<and> z = CHR ''0'' \<and> (x = CHR ''x'' \<or> x = CHR ''X'') \<and> isxdigit d
      then d # cs else z # x # d # cs)"
| "skip_0x b cs = cs"

definition clamp_ll :: "int \<Rightarrow> int" where
  "clamp_ll v = max LLONG_MIN (min LLONG_MAX v)"

text \<open>\<^verbatim>\<open>strtoll(s, NULL, base)\<close>: white space, a sign, digits; saturating at the type's limits.\<close>

definition strtoll :: "string \<Rightarrow> nat \<Rightarrow> int" where
  "strtoll s b =
    (case dropWhile isspace s of
       [] \<Rightarrow> 0
     | c # cs \<Rightarrow>
         if c = CHR ''-'' then clamp_ll (- int (read_digits b 0 (skip_0x b cs)))
         else if c = CHR ''+'' then clamp_ll (int (read_digits b 0 (skip_0x b cs)))
         else clamp_ll (int (read_digits b 0 (skip_0x b (c # cs)))))"

definition digit_char :: "nat \<Rightarrow> char" where
  "digit_char d = (if d < 10 then char_of (48 + d) else char_of (87 + d))"

fun print_nat :: "nat \<Rightarrow> nat \<Rightarrow> string" where
  "print_nat b n =
    (if b < 2 \<or> n < b then [digit_char n] else print_nat b (n div b) @ [digit_char (n mod b)])"

declare print_nat.simps [simp del]

text \<open>\<^verbatim>\<open>sprintf(str, "%lld", v)\<close> and \<^verbatim>\<open>sprintf(str, "0x%llx", v)\<close>; the latter reads the bits of
  \<^verbatim>\<open>v\<close> as an unsigned number.\<close>

definition print_lld :: "int \<Rightarrow> string" where
  "print_lld v = (if v < 0 then CHR ''-'' # print_nat 10 (nat (- v)) else print_nat 10 (nat v))"

definition print_0x_llx :: "int \<Rightarrow> string" where
  "print_0x_llx v = CHR ''0'' # CHR ''x'' # print_nat 16 (nat (v mod 2 ^ 64))"

section \<open>The syntax of values\<close>

text \<open>The case \<^verbatim>\<open>S_INT\<close> of \<^verbatim>\<open>sym_string_valid\<close>: an optional minus, no leading zero, digits.\<close>

fun int_valid :: "string \<Rightarrow> bool" where
  "int_valid str =
    (let s = (case str of [] \<Rightarrow> [] | c # cs \<Rightarrow> if c = CHR ''-'' then cs else str) in
     case s of
       [] \<Rightarrow> False
     | c # cs \<Rightarrow> isdigit c \<and> \<not> (c = CHR ''0'' \<and> cs \<noteq> []) \<and> list_all isdigit cs)"

fun hex_valid :: "string \<Rightarrow> bool" where
  "hex_valid str =
    (let s = (case str of
                z # x # cs \<Rightarrow>
                  if z = CHR ''0'' \<and> (x = CHR ''x'' \<or> x = CHR ''X'') then cs else str
              | _ \<Rightarrow> str)
     in s \<noteq> [] \<and> list_all isxdigit s)"

definition tri_char :: "string \<Rightarrow> tristate option" where
  "tri_char str =
    (case str of
       [] \<Rightarrow> None
     | c # _ \<Rightarrow>
         if c = CHR ''y'' \<or> c = CHR ''Y'' then Some Yes
         else if c = CHR ''m'' \<or> c = CHR ''M'' then Some Mod
         else if c = CHR ''n'' \<or> c = CHR ''N'' then Some No
         else None)"

fun string_valid :: "symbol_type \<Rightarrow> string \<Rightarrow> bool" where
  "string_valid S_STRING str = True"
| "string_valid S_INT str = int_valid str"
| "string_valid S_HEX str = hex_valid str"
| "string_valid S_BOOLEAN str = (tri_char str \<noteq> None)"
| "string_valid S_TRISTATE str = (tri_char str \<noteq> None)"
| "string_valid _ str = False"

definition sym_string_valid :: "kstate \<Rightarrow> symid \<Rightarrow> string \<Rightarrow> bool" where
  "sym_string_valid st s str = string_valid (sym_type (syms st s)) str"

section \<open>Escaping\<close>

abbreviation (input) backslash :: char where "backslash \<equiv> CHR 0x5C"
abbreviation (input) dquote :: char where "dquote \<equiv> CHR 0x22"

definition special :: "char \<Rightarrow> bool" where
  "special c \<longleftrightarrow> c = dquote \<or> c = backslash"

text \<open>
  \<^verbatim>\<open>sym_escape_string_value\<close>: the first loop computes the size of the buffer, the second
  fills it; both advance by \<^verbatim>\<open>strcspn(p, "\"\\")\<close>.
\<close>

lemma dropWhile_Cons_length [termination_simp]:
  "dropWhile P xs = y # ys \<Longrightarrow> length ys < length xs"
  using length_dropWhile_le [of P xs] by simp

fun escape_len :: "string \<Rightarrow> nat \<Rightarrow> nat" where
  "escape_len p reslen =
    (case dropWhile (\<lambda>c. \<not> special c) p of
       [] \<Rightarrow> reslen
     | c # q \<Rightarrow> escape_len q (reslen + 1))"

fun escape_loop :: "string \<Rightarrow> string" where
  "escape_loop p =
    takeWhile (\<lambda>c. \<not> special c) p @
    (case dropWhile (\<lambda>c. \<not> special c) p of
       [] \<Rightarrow> []
     | c # q \<Rightarrow> backslash # c # escape_loop q)"

declare escape_len.simps [simp del] escape_loop.simps [simp del]

definition escape_buffer_size :: "string \<Rightarrow> nat" where
  "escape_buffer_size s = escape_len s (length s + 2 + 1)"

definition sym_escape_string_value :: "string \<Rightarrow> string" where
  "sym_escape_string_value s = dquote # escape_loop s @ [dquote]"

text \<open>
  The loop of \<^verbatim>\<open>conf_set_sym_val\<close> behind the opening quote: a backslash is removed and the
  character after it kept; an unescaped quote ends the string (what follows is ignored);
  \<open>None\<close> if there is none.
\<close>

fun unescape :: "string \<Rightarrow> string option" where
  "unescape [] = None"
| "unescape (c # cs) =
     (if c = dquote then Some []
      else if c = backslash then
        (case cs of [] \<Rightarrow> None | d # ds \<Rightarrow> map_option ((#) d) (unescape ds))
      else map_option ((#) c) (unescape cs))"

section \<open>Escaping is reversible and the buffer is exact\<close>

lemma takeWhile_dropWhile_cases:
  obtains (all) "dropWhile (\<lambda>c. \<not> special c) p = []" "takeWhile (\<lambda>c. \<not> special c) p = p"
  | (hit) c q where "dropWhile (\<lambda>c. \<not> special c) p = c # q" "special c"
      "p = takeWhile (\<lambda>c. \<not> special c) p @ c # q"
proof (cases "dropWhile (\<lambda>c. \<not> special c) p")
  case Nil
  then show ?thesis using all takeWhile_dropWhile_id [of "\<lambda>c. \<not> special c" p] by simp
next
  case (Cons c q)
  then have "special c" by (metis hd_dropWhile list.discI list.sel(1))
  then show ?thesis
    by (rule hit [OF Cons _ takeWhile_dropWhile_id [of "\<lambda>c. \<not> special c" p, unfolded Cons, symmetric]])
qed

lemma unescape_plain:
  "\<forall>c \<in> set xs. \<not> special c \<Longrightarrow> unescape (xs @ ys) = map_option ((@) xs) (unescape ys)"
  by (induction xs; cases "unescape ys") (simp_all add: special_def)

lemma unescape_escape_loop: "unescape (escape_loop p @ dquote # r) = Some p"
proof (induction p rule: escape_loop.induct)
  case (1 p)
  let ?plain = "takeWhile (\<lambda>c. \<not> special c) p"
  have plain: "\<forall>c \<in> set ?plain. \<not> special c" by (auto dest: set_takeWhileD)
  show ?case
  proof (cases rule: takeWhile_dropWhile_cases [of p])
    case all
    then show ?thesis
      using unescape_plain [OF plain, of "dquote # r"]
      by (simp add: escape_loop.simps [of p] del: dropWhile_eq_Nil_conv takeWhile_eq_all_conv)
  next
    case (hit c q)
    have "unescape (backslash # c # escape_loop q @ dquote # r) = Some (c # q)"
      using 1 [OF hit(1)] by simp
    then show ?thesis
      using hit unescape_plain [OF plain] by (simp add: escape_loop.simps [of p])
  qed
qed

lemma escape_len_loop: "escape_len p n + length p = length (escape_loop p) + n"
proof (induction p n rule: escape_len.induct)
  case (1 p n)
  show ?case
  proof (cases rule: takeWhile_dropWhile_cases [of p])
    case all
    then show ?thesis
      by (simp add: escape_len.simps [of p n] escape_loop.simps [of p]
          del: dropWhile_eq_Nil_conv takeWhile_eq_all_conv)
  next
    case (hit c q)
    have "length p = length (takeWhile (\<lambda>c. \<not> special c) p) + length q + 1"
      using arg_cong [OF hit(3), of length] by simp
    then show ?thesis
      using hit(1) 1 [OF hit(1)]
      by (simp add: escape_len.simps [of p n] escape_loop.simps [of p])
  qed
qed

section \<open>Printed numbers read back\<close>

lemma digit_char_val: "d < 16 \<Longrightarrow> digit_val (digit_char d) = Some d"
  by (auto simp: digit_char_def digit_val_def isdigit_def)

lemma base_digit_char: "d < b \<Longrightarrow> b \<le> 16 \<Longrightarrow> base_digit b (digit_char d)"
  by (simp add: base_digit_def digit_char_val)

lemma read_digits_append:
  "\<forall>c \<in> set xs. base_digit b c \<Longrightarrow> read_digits b acc (xs @ ys) = read_digits b (read_digits b acc xs) ys"
  by (induction xs arbitrary: acc) auto

lemma print_nat_digits: "1 < b \<Longrightarrow> b \<le> 16 \<Longrightarrow> \<forall>c \<in> set (print_nat b n). base_digit b c"
proof (induction b n rule: print_nat.induct)
  case (1 b n)
  then show ?case
    using base_digit_char [of n b] base_digit_char [of "n mod b" b]
    by (cases "n < b") (auto simp: print_nat.simps [of b n])
qed

lemma print_nat_nonempty: "print_nat b n \<noteq> []"
  by (subst print_nat.simps) simp

lemma read_print_nat:
  assumes "1 < b" "b \<le> 16"
  shows "read_digits b 0 (print_nat b n) = n"
  using assms
proof (induction b n rule: print_nat.induct)
  case (1 b n)
  show ?case
  proof (cases "n < b")
    case True
    then show ?thesis
      using 1 base_digit_char [of n b] digit_char_val [of n] by (simp add: print_nat.simps [of b n])
  next
    case False
    have "n mod b < 16" using 1(2,3) mod_less_divisor [of b n] by linarith
    then show ?thesis
      using 1 False print_nat_digits [of b "n div b"] base_digit_char [of "n mod b" b]
        digit_char_val [of "n mod b"]
      by (simp add: print_nat.simps [of b n] read_digits_append div_mult_mod_eq)
  qed
qed

lemma base_digit_not_space:
  "base_digit b c \<Longrightarrow> \<not> isspace c \<and> c \<noteq> CHR ''-'' \<and> c \<noteq> CHR ''+'' \<and> c \<noteq> CHR ''x'' \<and> c \<noteq> CHR ''X''"
  by (auto simp: base_digit_def digit_val_def isdigit_def isspace_def split: if_splits)

lemma clamp_ll_id: "LLONG_MIN \<le> v \<Longrightarrow> v \<le> LLONG_MAX \<Longrightarrow> clamp_ll v = v"
  by (simp add: clamp_ll_def)

lemma skip_0x_digits:
  "\<forall>c \<in> set cs. base_digit b c \<Longrightarrow> skip_0x b cs = cs"
  by (cases "(b, cs)" rule: skip_0x.cases) (auto dest: base_digit_not_space)

lemma strtoll_print_lld:
  assumes "LLONG_MIN \<le> v" "v \<le> LLONG_MAX"
  shows "strtoll (print_lld v) 10 = v"
proof (cases "v < 0")
  case True
  then show ?thesis
    using assms print_nat_digits [of 10 "nat (- v)"]
    by (simp add: print_lld_def strtoll_def isspace_def skip_0x_digits read_print_nat clamp_ll_id)
next
  case False
  obtain c cs where c: "print_nat 10 (nat v) = c # cs"
    using print_nat_nonempty by (cases "print_nat 10 (nat v)") auto
  have "base_digit 10 c" using print_nat_digits [of 10 "nat v"] c by simp
  then show ?thesis
    using False assms print_nat_digits [of 10 "nat v"] base_digit_not_space [of 10 c]
      read_print_nat [of 10 "nat v"]
    by (simp add: print_lld_def strtoll_def c skip_0x_digits clamp_ll_id)
qed

lemma strtoll_print_0x:
  assumes "0 \<le> v" "v \<le> LLONG_MAX"
  shows "strtoll (print_0x_llx v) 16 = v"
proof -
  have v: "nat (v mod 18446744073709551616) = nat v" using assms by (simp add: LLONG_MAX_def)
  obtain c cs where c: "print_nat 16 (nat v) = c # cs"
    using print_nat_nonempty by (cases "print_nat 16 (nat v)") auto
  have "base_digit 16 c" using print_nat_digits [of 16 "nat v"] c by simp
  then have "isxdigit c" by (auto simp: base_digit_def isxdigit_def split: option.splits)
  then show ?thesis
    using assms read_print_nat [of 16 "nat v"]
    by (simp add: print_0x_llx_def v c strtoll_def isspace_def clamp_ll_id LLONG_MIN_def)
qed

text \<open>A printed integer passes the syntax check of its type.\<close>

lemma print_nat_no_leading_zero:
  "1 < b \<Longrightarrow> b \<le> 16 \<Longrightarrow> 0 < n \<Longrightarrow> \<exists>c cs. print_nat b n = c # cs \<and> c \<noteq> CHR ''0''"
proof (induction b n rule: print_nat.induct)
  case (1 b n)
  show ?case
  proof (cases "n < b")
    case True
    then have "digit_val (digit_char n) = Some n" "n \<noteq> 0" using 1 digit_char_val [of n] by auto
    then have "digit_char n \<noteq> CHR ''0''" by (auto simp: digit_val_def isdigit_def)
    with True show ?thesis by (simp add: print_nat.simps [of b n])
  next
    case False
    then have "0 < n div b" using 1 by (simp add: div_greater_zero_iff)
    with 1 False show ?thesis by (auto simp: print_nat.simps [of b n])
  qed
qed

lemma base10_isdigit: "base_digit 10 c \<longleftrightarrow> isdigit c"
  by (auto simp: base_digit_def digit_val_def isdigit_def split: if_splits)

lemma isxdigit_base_digit: "base_digit 16 c \<Longrightarrow> isxdigit c"
  by (auto simp: base_digit_def isxdigit_def split: option.splits)

lemma int_valid_print_lld: "int_valid (print_lld v)"
proof -
  have digits: "list_all isdigit (print_nat 10 n)" for n
    using print_nat_digits [of 10 n] by (auto simp: list_all_iff base10_isdigit)
  have valid: "\<exists>c cs. print_nat 10 n = c # cs \<and> isdigit c \<and> \<not> (c = CHR ''0'' \<and> cs \<noteq> []) \<and> list_all isdigit cs" for n
  proof (cases "n = 0")
    case True
    then show ?thesis by (simp add: print_nat.simps digit_char_def isdigit_def)
  next
    case False
    then show ?thesis using print_nat_no_leading_zero [of 10 n] digits [of n] by auto
  qed
  show ?thesis
  proof (cases "v < 0")
    case True
    then show ?thesis using valid [of "nat (- v)"] by (auto simp: print_lld_def)
  next
    case False
    obtain c cs where c: "print_nat 10 (nat v) = c # cs" "isdigit c" "\<not> (c = CHR ''0'' \<and> cs \<noteq> [])"
      "list_all isdigit cs" using valid [of "nat v"] by blast
    then have "c \<noteq> CHR ''-''" by (auto simp: isdigit_def)
    with False c show ?thesis by (simp add: print_lld_def)
  qed
qed

lemma hex_valid_print_0x: "hex_valid (print_0x_llx v)"
  using print_nat_digits [of 16] print_nat_nonempty
  by (auto simp: print_0x_llx_def list_all_iff intro: isxdigit_base_digit)

section \<open>The properties of values as text\<close>

text \<open>
  Property C11: the string \<^verbatim>\<open>sym_escape_string_value\<close> builds exactly fills the buffer it allocates, and
  the quote-removal loop of \<^verbatim>\<open>conf_set_sym_val\<close> recovers the original from what follows the
  opening quote.
\<close>

theorem escape_roundtrip:
  "unescape (tl (sym_escape_string_value s)) = Some s \<and>
   length (sym_escape_string_value s) + 1 = escape_buffer_size s"
  using unescape_escape_loop [of s "[]"] escape_len_loop [of s "length s + 2 + 1"]
  by (simp add: sym_escape_string_value_def escape_buffer_size_def)

end
