(* ===== verification/Kconf_Calc.thy ===== *)
theory Kconf_Calc
  imports Kconf_Expr_Value Kconf_Strings
begin

text \<open>
  The calculation of symbol values (\<^verbatim>\<open>support/kconfig/symbol.c\<close>): \<^verbatim>\<open>sym_calc_value\<close> and the
  functions it calls, with \<^verbatim>\<open>expr_calc_value\<close> of \<^verbatim>\<open>expr.c\<close>.

  These functions call each other through \<^verbatim>\<open>sym_calc_value\<close>. Each helper takes the function
  to call for \<^verbatim>\<open>sym_calc_value\<close> as its first argument, and \<open>sym_calc_value\<close> ties the knot with
  a bound on the depth of the calls. A result \<open>None\<close> stands for the bound being reached or for
  a null pointer that the C code would dereference; theory \<open>Kconf_Calc_Props\<close> gives a bound
  and conditions under which it does not occur.
\<close>

type_synonym calc = "symid \<Rightarrow> kstate \<Rightarrow> kstate option"

section \<open>Reading symbols and properties\<close>

abbreviation sym_is_choice :: "kstate \<Rightarrow> symid \<Rightarrow> bool" where
  "sym_is_choice st s \<equiv> SYMBOL_CHOICE \<in> flags (syms st s)"

abbreviation sym_is_choice_value :: "kstate \<Rightarrow> symid \<Rightarrow> bool" where
  "sym_is_choice_value st s \<equiv> SYMBOL_CHOICEVAL \<in> flags (syms st s)"

abbreviation sym_is_optional :: "kstate \<Rightarrow> symid \<Rightarrow> bool" where
  "sym_is_optional st s \<equiv> SYMBOL_OPTIONAL \<in> flags (syms st s)"

abbreviation sym_has_value :: "kstate \<Rightarrow> symid \<Rightarrow> bool" where
  "sym_has_value st s \<equiv> SYMBOL_DEF_USER \<in> flags (syms st s)"

definition sym_get_type :: "kstate \<Rightarrow> symid \<Rightarrow> symbol_type" where
  "sym_get_type st s =
    (let type = sym_type (syms st s) in
     if type = S_TRISTATE then
       (if sym_is_choice_value st s \<and> visible (syms st s) = Yes then S_BOOLEAN
        else if modules_val st = No then S_BOOLEAN
        else type)
     else type)"

text \<open>\<^verbatim>\<open>for_all_properties(sym, prop, tok)\<close> and \<^verbatim>\<open>for_all_prompts(sym, prop)\<close>.\<close>

definition for_all_properties :: "kstate \<Rightarrow> symid \<Rightarrow> prop_type \<Rightarrow> propid list" where
  "for_all_properties st s tok = filter (\<lambda>p. p_type (props st p) = tok) (sym_prop (syms st s))"

definition for_all_prompts :: "kstate \<Rightarrow> symid \<Rightarrow> propid list" where
  "for_all_prompts st s = filter (\<lambda>p. p_text (props st p) \<noteq> None) (sym_prop (syms st s))"

definition first_prop :: "kstate \<Rightarrow> symid \<Rightarrow> prop_type \<Rightarrow> propid option" where
  "first_prop st s tok =
    (case for_all_properties st s tok of [] \<Rightarrow> None | p # _ \<Rightarrow> Some p)"

definition sym_get_choice_prop :: "kstate \<Rightarrow> symid \<Rightarrow> propid option" where
  "sym_get_choice_prop st s = first_prop st s P_CHOICE"

definition sym_get_env_prop :: "kstate \<Rightarrow> symid \<Rightarrow> propid option" where
  "sym_get_env_prop st s = first_prop st s P_ENV"

text \<open>
  \<^verbatim>\<open>prop_get_symbol\<close>. For an \<^verbatim>\<open>E_LIST\<close> expression the code returns the member \<^verbatim>\<open>left.sym\<close> of a
  node whose \<^verbatim>\<open>left\<close> holds the rest of the list, so there is no symbol to return.
\<close>

definition prop_get_symbol :: "kstate \<Rightarrow> propid \<Rightarrow> symid option" where
  "prop_get_symbol st p =
    (case p_expr (props st p) of Some (XSymbol s) \<Rightarrow> Some s | _ \<Rightarrow> None)"

text \<open>The symbols \<^verbatim>\<open>expr_list_for_each_sym\<close> visits for the choice property of \<^verbatim>\<open>sym\<close>.\<close>

definition choice_list :: "kstate \<Rightarrow> symid \<Rightarrow> symid list option" where
  "choice_list st s =
    (case sym_get_choice_prop st s of
       None \<Rightarrow> None
     | Some p \<Rightarrow> Some (case p_expr (props st p) of Some (XList ss) \<Rightarrow> ss | _ \<Rightarrow> []))"

definition sym_set_changed :: "symid \<Rightarrow> kstate \<Rightarrow> kstate" where
  "sym_set_changed s st =
    fold (\<lambda>p st. case p_menu (props st p) of
                   None \<Rightarrow> st
                 | Some m \<Rightarrow> upd_menu m (\<lambda>mn. mn\<lparr>m_flags := insert MENU_CHANGED (m_flags mn)\<rparr>) st)
      (sym_prop (syms st s)) (set_flag s {SYMBOL_CHANGED} st)"

definition sym_set_all_changed :: "kstate \<Rightarrow> kstate" where
  "sym_set_all_changed st = fold sym_set_changed (for_all_symbols st) st"

section \<open>Expressions\<close>

definition sym_get_string_value :: "calc \<Rightarrow> symid \<Rightarrow> kstate \<Rightarrow> (string \<times> kstate) option" where
  "sym_get_string_value scv s st =
    (if is_bool_type (sym_type (syms st s)) then
       (case tri_of st s of
          No \<Rightarrow> Some (''n'', st)
        | Mod \<Rightarrow>
            (case modules_sym st of
               None \<Rightarrow> None
             | Some m \<Rightarrow> do { st' \<leftarrow> scv m st; Some (if tri_of st' m = No then ''n'' else ''m'', st') })
        | Yes \<Rightarrow> Some (''y'', st))
     else Some (cstr (sv_val (curr (syms st s))), st))"

definition calc_strcmp :: "calc \<Rightarrow> symid \<Rightarrow> symid \<Rightarrow> kstate \<Rightarrow> (bool \<times> kstate) option" where
  "calc_strcmp scv a b st =
    do { st1 \<leftarrow> scv a st;
         st2 \<leftarrow> scv b st1;
         (str1, st3) \<leftarrow> sym_get_string_value scv a st2;
         (str2, st4) \<leftarrow> sym_get_string_value scv b st3;
         Some (str1 = str2, st4) }"

fun calc_expr :: "calc \<Rightarrow> expr \<Rightarrow> kstate \<Rightarrow> (tristate \<times> kstate) option" where
  "calc_expr scv (XSymbol s) st = do { st' \<leftarrow> scv s st; Some (tri_of st' s, st') }"
| "calc_expr scv (XAnd l r) st =
     do { (val1, st1) \<leftarrow> calc_expr scv l st;
          (val2, st2) \<leftarrow> calc_expr scv r st1;
          Some (EXPR_AND val1 val2, st2) }"
| "calc_expr scv (XOr l r) st =
     do { (val1, st1) \<leftarrow> calc_expr scv l st;
          (val2, st2) \<leftarrow> calc_expr scv r st1;
          Some (EXPR_OR val1 val2, st2) }"
| "calc_expr scv (XNot a) st =
     do { (val1, st1) \<leftarrow> calc_expr scv a st; Some (EXPR_NOT val1, st1) }"
| "calc_expr scv (XEqual a b) st =
     do { (eq, st1) \<leftarrow> calc_strcmp scv a b st; Some (if eq then Yes else No, st1) }"
| "calc_expr scv (XUnequal a b) st =
     do { (eq, st1) \<leftarrow> calc_strcmp scv a b st; Some (if eq then No else Yes, st1) }"
| "calc_expr scv _ st = Some (No, st)"

fun expr_calc_value :: "calc \<Rightarrow> expr option \<Rightarrow> kstate \<Rightarrow> (tristate \<times> kstate) option" where
  "expr_calc_value scv None st = Some (Yes, st)"
| "expr_calc_value scv (Some e) st = calc_expr scv e st"

section \<open>Defaults, ranges and visibility\<close>

text \<open>\<^verbatim>\<open>prop->visible.tri = expr_calc_value(prop->visible.expr)\<close>.\<close>

definition calc_prop_visible :: "calc \<Rightarrow> propid \<Rightarrow> kstate \<Rightarrow> (tristate \<times> kstate) option" where
  "calc_prop_visible scv p st =
    do { (tri, st1) \<leftarrow> expr_calc_value scv (ev_expr (p_visible (props st p))) st;
         Some (tri, upd_prop p (\<lambda>pr. pr\<lparr>p_visible := (p_visible pr)\<lparr>ev_tri := tri\<rparr>\<rparr>) st1) }"

fun first_visible :: "calc \<Rightarrow> propid list \<Rightarrow> kstate \<Rightarrow> (propid option \<times> kstate) option" where
  "first_visible scv [] st = Some (None, st)"
| "first_visible scv (p # ps) st =
     do { (tri, st1) \<leftarrow> calc_prop_visible scv p st;
          if tri \<noteq> No then Some (Some p, st1) else first_visible scv ps st1 }"

definition sym_get_default_prop :: "calc \<Rightarrow> symid \<Rightarrow> kstate \<Rightarrow> (propid option \<times> kstate) option" where
  "sym_get_default_prop scv s st = first_visible scv (for_all_properties st s P_DEFAULT) st"

definition sym_get_range_prop :: "calc \<Rightarrow> symid \<Rightarrow> kstate \<Rightarrow> (propid option \<times> kstate) option" where
  "sym_get_range_prop scv s st = first_visible scv (for_all_properties st s P_RANGE) st"

definition sym_get_range_val :: "calc \<Rightarrow> symid \<Rightarrow> nat \<Rightarrow> kstate \<Rightarrow> (int \<times> kstate) option" where
  "sym_get_range_val scv s base st =
    do { st' \<leftarrow> scv s st;
         let b = (case sym_type (syms st' s) of S_INT \<Rightarrow> 10 | S_HEX \<Rightarrow> 16 | _ \<Rightarrow> base);
         Some (strtoll (cstr (sv_val (curr (syms st' s)))) b, st') }"

text \<open>The operands of a range expression; \<open>None\<close> if the property has none.\<close>

fun range_syms :: "expr option \<Rightarrow> (symid \<times> symid) option" where
  "range_syms (Some (XRange a b)) = Some (a, b)"
| "range_syms (Some (XEqual a b)) = Some (a, b)"
| "range_syms (Some (XUnequal a b)) = Some (a, b)"
| "range_syms _ = None"

definition set_curr_val :: "symid \<Rightarrow> cval \<Rightarrow> kstate \<Rightarrow> kstate" where
  "set_curr_val s v st = upd_sym s (\<lambda>sy. sy\<lparr>curr := (curr sy)\<lparr>sv_val := v\<rparr>\<rparr>) st"

definition set_curr_tri :: "symid \<Rightarrow> tristate \<Rightarrow> kstate \<Rightarrow> kstate" where
  "set_curr_tri s v st = upd_sym s (\<lambda>sy. sy\<lparr>curr := (curr sy)\<lparr>sv_tri := v\<rparr>\<rparr>) st"

definition sym_validate_range :: "calc \<Rightarrow> symid \<Rightarrow> kstate \<Rightarrow> kstate option" where
  "sym_validate_range scv s st =
    (let type = sym_type (syms st s) in
     if type \<noteq> S_INT \<and> type \<noteq> S_HEX then Some st
     else
       let base = (if type = S_INT then 10 else 16) in
       do { (prop, st1) \<leftarrow> sym_get_range_prop scv s st;
            case prop of
              None \<Rightarrow> Some st1
            | Some p \<Rightarrow>
                do { (lo, hi) \<leftarrow> range_syms (p_expr (props st1 p));
                     let val = strtoll (cstr (sv_val (curr (syms st1 s)))) base;
                     (val2, st2) \<leftarrow> sym_get_range_val scv lo base st1;
                     (ok, bound, st3) \<leftarrow>
                       (if val \<ge> val2 then
                          do { (val3, st3) \<leftarrow> sym_get_range_val scv hi base st2;
                               Some (val \<le> val3, val3, st3) }
                        else Some (False, val2, st2));
                     if ok then Some st3
                     else Some (set_curr_val s
                       (VStr (if type = S_INT then print_lld bound else print_0x_llx bound)) st3) } })"

fun prompts_visible :: "calc \<Rightarrow> propid list \<Rightarrow> tristate \<Rightarrow> kstate \<Rightarrow> (tristate \<times> kstate) option" where
  "prompts_visible scv [] tri st = Some (tri, st)"
| "prompts_visible scv (p # ps) tri st =
     do { (v, st1) \<leftarrow> calc_prop_visible scv p st;
          prompts_visible scv ps (EXPR_OR tri v) st1 }"

definition change_visible :: "symid \<Rightarrow> tristate \<Rightarrow> kstate \<Rightarrow> kstate" where
  "change_visible s tri st =
    (if visible (syms st s) \<noteq> tri
     then sym_set_changed s (upd_sym s (\<lambda>sy. sy\<lparr>visible := tri\<rparr>) st) else st)"

definition change_dir_dep :: "symid \<Rightarrow> tristate \<Rightarrow> kstate \<Rightarrow> kstate" where
  "change_dir_dep s tri st =
    (if ev_tri (dir_dep (syms st s)) \<noteq> tri
     then sym_set_changed s (upd_sym s (\<lambda>sy. sy\<lparr>dir_dep := (dir_dep sy)\<lparr>ev_tri := tri\<rparr>\<rparr>) st) else st)"

definition change_rev_dep :: "symid \<Rightarrow> tristate \<Rightarrow> kstate \<Rightarrow> kstate" where
  "change_rev_dep s tri st =
    (if ev_tri (rev_dep (syms st s)) \<noteq> tri
     then sym_set_changed s (upd_sym s (\<lambda>sy. sy\<lparr>rev_dep := (rev_dep sy)\<lparr>ev_tri := tri\<rparr>\<rparr>) st) else st)"

definition sym_calc_visibility :: "calc \<Rightarrow> symid \<Rightarrow> kstate \<Rightarrow> kstate option" where
  "sym_calc_visibility scv s st =
    do { (tri0, st1) \<leftarrow> prompts_visible scv (for_all_prompts st s) No st;
         let tri = (if tri0 = Mod \<and> (sym_type (syms st1 s) \<noteq> S_TRISTATE \<or> modules_val st1 = No)
                    then Yes else tri0);
         let st2 = change_visible s tri st1;
         if sym_is_choice_value st2 s then Some st2
         else
           do { (dir0, st3) \<leftarrow>
                  (case ev_expr (dir_dep (syms st2 s)) of
                     None \<Rightarrow> Some (Yes, st2)
                   | Some e \<Rightarrow> calc_expr scv e st2);
                let st4 = change_dir_dep s (if dir0 = Mod then Yes else dir0) st3;
                (rev0, st5) \<leftarrow>
                  (case ev_expr (rev_dep (syms st4 s)) of
                     None \<Rightarrow> Some (No, st4)
                   | Some e \<Rightarrow> calc_expr scv e st4);
                Some (change_rev_dep s
                  (if rev0 = Mod \<and> sym_get_type st5 s = S_BOOLEAN then Yes else rev0) st5) } }"

section \<open>Choices\<close>

fun default_visible :: "calc \<Rightarrow> propid list \<Rightarrow> kstate \<Rightarrow> (symid option \<times> kstate) option" where
  "default_visible scv [] st = Some (None, st)"
| "default_visible scv (p # ps) st =
     do { (tri, st1) \<leftarrow> calc_prop_visible scv p st;
          if tri = No then default_visible scv ps st1
          else
            do { def_sym \<leftarrow> prop_get_symbol st1 p;
                 if visible (syms st1 def_sym) \<noteq> No then Some (Some def_sym, st1)
                 else default_visible scv ps st1 } }"

definition sym_choice_default :: "calc \<Rightarrow> symid \<Rightarrow> kstate \<Rightarrow> (symid option \<times> kstate) option" where
  "sym_choice_default scv s st =
    do { (d, st1) \<leftarrow> default_visible scv (for_all_properties st s P_DEFAULT) st;
         case d of
           Some def_sym \<Rightarrow> Some (Some def_sym, st1)
         | None \<Rightarrow>
             do { ss \<leftarrow> choice_list st1 s;
                  Some (List.find (\<lambda>t. visible (syms st1 t) \<noteq> No) ss, st1) } }"

fun choice_visibilities ::
    "calc \<Rightarrow> symid list \<Rightarrow> sym_flag set \<Rightarrow> kstate \<Rightarrow> (sym_flag set \<times> kstate) option" where
  "choice_visibilities scv [] fl st = Some (fl, st)"
| "choice_visibilities scv (t # ts) fl st =
     do { st1 \<leftarrow> sym_calc_visibility scv t st;
          choice_visibilities scv ts
            (if visible (syms st1 t) \<noteq> No then fl \<inter> flags (syms st1 t) else fl) st1 }"

definition sym_calc_choice :: "calc \<Rightarrow> symid \<Rightarrow> kstate \<Rightarrow> (symid option \<times> kstate) option" where
  "sym_calc_choice scv s st =
    do { ss \<leftarrow> choice_list st s;
         (fl, st1) \<leftarrow> choice_visibilities scv ss (flags (syms st s)) st;
         let st2 = upd_sym s (\<lambda>sy. sy\<lparr>flags := flags sy \<inter> (fl \<union> - {SYMBOL_DEF_USER})\<rparr>) st1;
         case sv_val (sdef (syms st2 s) S_DEF_USER) of
           VSym d \<Rightarrow>
             if visible (syms st2 d) \<noteq> No then Some (Some d, st2)
             else
               do { (r, st3) \<leftarrow> sym_choice_default scv s st2;
                    Some (r, if r = None then set_curr_tri s No st3 else st3) }
         | _ \<Rightarrow>
             do { (r, st3) \<leftarrow> sym_choice_default scv s st2;
                  Some (r, if r = None then set_curr_tri s No st3 else st3) } }"

definition set_def_tri :: "symid \<Rightarrow> def_index \<Rightarrow> tristate \<Rightarrow> kstate \<Rightarrow> kstate" where
  "set_def_tri s d v st =
    upd_sym s (\<lambda>sy. sy\<lparr>sdef := (sdef sy)(d := (sdef sy d)\<lparr>sv_tri := v\<rparr>)\<rparr>) st"

definition set_def_val :: "symid \<Rightarrow> def_index \<Rightarrow> cval \<Rightarrow> kstate \<Rightarrow> kstate" where
  "set_def_val s d v st =
    upd_sym s (\<lambda>sy. sy\<lparr>sdef := (sdef sy)(d := (sdef sy d)\<lparr>sv_val := v\<rparr>)\<rparr>) st"

text \<open>\<^verbatim>\<open>set_all_choice_values\<close> of \<^verbatim>\<open>confdata.c\<close>, which \<^verbatim>\<open>sym_calc_value\<close> calls.\<close>

definition set_all_choice_values :: "symid \<Rightarrow> kstate \<Rightarrow> kstate option" where
  "set_all_choice_values csym st =
    do { ss \<leftarrow> choice_list st csym;
         let st1 = fold (\<lambda>t st. if sym_has_value st t then st else set_def_tri t S_DEF_USER No st) ss st;
         Some (clear_flag csym {SYMBOL_VALID, SYMBOL_NEED_SET_CHOICE_VALUES}
           (set_flag csym {SYMBOL_DEF_USER} st1)) }"

section \<open>The value of a symbol\<close>

text \<open>The part of \<^verbatim>\<open>sym_calc_value\<close> up to \<^verbatim>\<open>calc_newval\<close> for an entry that is not a visible choice value.\<close>

definition calc_tri_base :: "calc \<Rightarrow> symid \<Rightarrow> kstate \<Rightarrow> (tristate \<times> kstate) option" where
  "calc_tri_base scv s st =
    (let vis = visible (syms st s);
         st1 = (if vis \<noteq> No then set_flag s {SYMBOL_WRITE} st else st) in
     if vis \<noteq> No \<and> sym_has_value st1 s
     then Some (EXPR_AND (sv_tri (sdef (syms st1 s) S_DEF_USER)) vis, st1)
     else
       let st2 = (if ev_tri (rev_dep (syms st1 s)) \<noteq> No then set_flag s {SYMBOL_WRITE} st1 else st1) in
       if sym_is_choice st2 s then Some (No, st2)
       else
         do { (prop, st3) \<leftarrow> sym_get_default_prop scv s st2;
              case prop of
                None \<Rightarrow> Some (No, st3)
              | Some p \<Rightarrow>
                  do { (v, st5) \<leftarrow> expr_calc_value scv (p_expr (props st3 p)) (set_flag s {SYMBOL_WRITE} st3);
                       Some (EXPR_AND v (ev_tri (p_visible (props st5 p))), st5) } })"

definition warn_unmet :: "symid \<Rightarrow> kstate \<Rightarrow> kstate" where
  "warn_unmet s st =
    (if ev_tri (dir_dep (syms st s)) = No \<and> ev_tri (rev_dep (syms st s)) \<noteq> No
     then st\<lparr>unmet := unmet st @ [s]\<rparr> else st)"

definition calc_tri_value :: "calc \<Rightarrow> symid \<Rightarrow> kstate \<Rightarrow> (tristate \<times> kstate) option" where
  "calc_tri_value scv s st =
    do { (v, st1) \<leftarrow>
           (if sym_is_choice_value st s \<and> visible (syms st s) = Yes then
              do { p \<leftarrow> sym_get_choice_prop st s;
                   cs \<leftarrow> prop_get_symbol st p;
                   Some (if sv_val (curr (syms st cs)) = VSym s then Yes else No, st) }
            else
              do { (v0, st0) \<leftarrow> calc_tri_base scv s st;
                   let st0' = warn_unmet s st0;
                   Some (EXPR_OR v0 (ev_tri (rev_dep (syms st0' s))), st0') });
         Some (if v = Mod \<and> sym_get_type st1 s = S_BOOLEAN then Yes else v, st1) }"

definition calc_str_value :: "calc \<Rightarrow> symid \<Rightarrow> cval \<Rightarrow> kstate \<Rightarrow> (cval \<times> kstate) option" where
  "calc_str_value scv s v0 st =
    (let st1 = (if visible (syms st s) \<noteq> No then set_flag s {SYMBOL_WRITE} st else st) in
     if visible (syms st s) \<noteq> No \<and> sym_has_value st1 s
     then Some (sv_val (sdef (syms st1 s) S_DEF_USER), st1)
     else
       do { (prop, st2) \<leftarrow> sym_get_default_prop scv s st1;
            case Option.bind prop (prop_get_symbol st2) of
              None \<Rightarrow> Some (v0, st2)
            | Some ds \<Rightarrow>
                do { st3 \<leftarrow> scv ds (set_flag s {SYMBOL_WRITE} st2);
                     Some (sv_val (curr (syms st3 ds)), st3) } })"

definition set_curr :: "symid \<Rightarrow> symbol_value \<Rightarrow> kstate \<Rightarrow> kstate" where
  "set_curr s v st = upd_sym s (\<lambda>sy. sy\<lparr>curr := v\<rparr>) st"

text \<open>
  \<^verbatim>\<open>memcmp(&oldval, &sym->curr, sizeof(oldval))\<close> compares the value pointers; the model
  compares the values.
\<close>

definition note_change :: "symid \<Rightarrow> symbol_value \<Rightarrow> kstate \<Rightarrow> kstate" where
  "note_change s oldval st =
    (if oldval = curr (syms st s) then st
     else
       let st1 = sym_set_changed s st in
       if modules_sym st1 = Some s
       then (sym_set_all_changed st1)\<lparr>modules_val := tri_of st1 s\<rparr>
       else st1)"

definition pass_to_values :: "symid \<Rightarrow> kstate \<Rightarrow> kstate option" where
  "pass_to_values s st =
    (if sym_is_choice st s then
       do { ss \<leftarrow> choice_list st s;
            Some (fold (\<lambda>t st.
              let st1 = (if SYMBOL_WRITE \<in> flags (syms st s) \<and> visible (syms st t) \<noteq> No
                         then set_flag t {SYMBOL_WRITE} st else st) in
              if SYMBOL_CHANGED \<in> flags (syms st1 s) then sym_set_changed t st1 else st1) ss st) }
     else Some st)"

text \<open>The end of \<^verbatim>\<open>sym_calc_value\<close>, after the new value is known.\<close>

definition calc_finish :: "calc \<Rightarrow> symid \<Rightarrow> symbol_value \<Rightarrow> symbol_value \<Rightarrow> kstate \<Rightarrow> kstate option" where
  "calc_finish scv s oldval newval st =
    do { let st1 = set_curr s newval st;
         st2 \<leftarrow> (if sym_is_choice st1 s \<and> sv_tri newval = Yes
                 then do { (c, st2) \<leftarrow> sym_calc_choice scv s st1;
                           Some (set_curr_val s (case c of None \<Rightarrow> VNull | Some d \<Rightarrow> VSym d) st2) }
                 else Some st1);
         st3 \<leftarrow> sym_validate_range scv s st2;
         st4 \<leftarrow> pass_to_values s (note_change s oldval st3);
         let st5 = (if has_flag st4 s SYMBOL_AUTO then clear_flag s {SYMBOL_WRITE} st4 else st4);
         if has_flag st5 s SYMBOL_NEED_SET_CHOICE_VALUES then set_all_choice_values s st5
         else Some st5 }"

text \<open>The values \<^verbatim>\<open>symbol_empty.curr\<close> and \<^verbatim>\<open>symbol_no.curr\<close>.\<close>

definition empty_curr :: symbol_value where
  "empty_curr = \<lparr>sv_val = VStr [], sv_tri = No\<rparr>"

definition no_curr :: symbol_value where
  "no_curr = \<lparr>sv_val = VStr ''n'', sv_tri = No\<rparr>"

definition calc_body :: "calc \<Rightarrow> symid \<Rightarrow> kstate \<Rightarrow> kstate option" where
  "calc_body scv s st =
    (let st0 = set_flag s {SYMBOL_VALID} st;
         oldval = curr (syms st0 s);
         type = sym_type (syms st0 s) in
     if type = S_UNKNOWN \<or> type = S_OTHER then
       Some (set_curr s \<lparr>sv_val = (case sym_name (syms st0 s) of None \<Rightarrow> VNull | Some n \<Rightarrow> VStr n),
                         sv_tri = No\<rparr> st0)
     else
       let new0 = (if is_bool_type type then no_curr else empty_curr);
           st1 = (if sym_is_choice_value st0 s then st0 else clear_flag s {SYMBOL_WRITE} st0) in
       do { st2 \<leftarrow> sym_calc_visibility scv s st1;
            let st3 = set_curr s new0 st2;
            (newval, st4) \<leftarrow>
              (if is_bool_type (sym_get_type st3 s)
               then do { (v, st4) \<leftarrow> calc_tri_value scv s st3; Some (new0\<lparr>sv_tri := v\<rparr>, st4) }
               else do { (v, st4) \<leftarrow> calc_str_value scv s (sv_val new0) st3; Some (new0\<lparr>sv_val := v\<rparr>, st4) });
            calc_finish scv s oldval newval st4 })"

definition calc_step :: "calc \<Rightarrow> symid \<Rightarrow> kstate \<Rightarrow> kstate option" where
  "calc_step scv s st =
    (if has_flag st s SYMBOL_VALID then Some st
     else
       do { st1 \<leftarrow>
              (if sym_is_choice_value st s \<and> has_flag st s SYMBOL_NEED_SET_CHOICE_VALUES then
                 do { p \<leftarrow> sym_get_choice_prop st s;
                      cs \<leftarrow> prop_get_symbol st p;
                      scv cs (clear_flag s {SYMBOL_NEED_SET_CHOICE_VALUES} st) }
               else Some st);
            calc_body scv s st1 })"

primrec sym_calc_value :: "nat \<Rightarrow> calc" where
  "sym_calc_value 0 s st = None"
| "sym_calc_value (Suc n) s st = calc_step (sym_calc_value n) s st"

section \<open>An example configuration\<close>

text \<open>
  The configuration of
  \<^verbatim>\<open>
    config BAR                    config FOO               config NUM
      tristate "bar"                tristate "foo"           int "num"
                                    depends on BAR           range 1 100
  \<close>
  with the user's values \<^verbatim>\<open>BAR=m\<close>, \<^verbatim>\<open>FOO=y\<close> and \<^verbatim>\<open>NUM=500\<close>, on top of the calculated symbols of
  \<open>ex_state\<close>: \<^verbatim>\<open>BAR\<close> is symbol 9, \<^verbatim>\<open>FOO\<close> 10, \<^verbatim>\<open>NUM\<close> 11, the constants \<^verbatim>\<open>1\<close> and \<^verbatim>\<open>100\<close> are 12 and 13.
\<close>

definition user_sym :: "string \<Rightarrow> symbol_type \<Rightarrow> symbol_value \<Rightarrow> propid list \<Rightarrow> expr option \<Rightarrow> symbol" where
  "user_sym n ty v ps dep = free_symbol\<lparr>sym_name := Some n, sym_type := ty, flags := {SYMBOL_DEF_USER},
     sdef := (sdef free_symbol)(S_DEF_USER := v), sym_prop := ps,
     dir_dep := \<lparr>ev_expr = dep, ev_tri = No\<rparr>\<rparr>"

definition ex_config :: kstate where
  "ex_config = ex_state\<lparr>
     syms := (syms ex_state)
       (9 := user_sym ''BAR'' S_TRISTATE \<lparr>sv_val = VNull, sv_tri = Mod\<rparr> [0] None,
        10 := user_sym ''FOO'' S_TRISTATE \<lparr>sv_val = VNull, sv_tri = Yes\<rparr> [1] (Some (XSymbol 9)),
        11 := user_sym ''NUM'' S_INT \<lparr>sv_val = VStr ''500'', sv_tri = No\<rparr> [2, 3] None,
        12 := const_symbol ''1'' No {SYMBOL_CONST, SYMBOL_VALID},
        13 := const_symbol ''100'' No {SYMBOL_CONST, SYMBOL_VALID}),
     props := (\<lambda>_. free_property)
       (0 := free_property\<lparr>p_sym := Some 9, p_type := P_PROMPT, p_text := Some ''bar''\<rparr>,
        1 := free_property\<lparr>p_sym := Some 10, p_type := P_PROMPT, p_text := Some ''foo'',
               p_visible := \<lparr>ev_expr = Some (XSymbol 9), ev_tri = No\<rparr>\<rparr>,
        2 := free_property\<lparr>p_sym := Some 11, p_type := P_PROMPT, p_text := Some ''num''\<rparr>,
        3 := free_property\<lparr>p_sym := Some 11, p_type := P_RANGE, p_expr := Some (XRange 12 13)\<rparr>),
     next_sym := 14, next_prop := 4\<rparr>"

lemmas ex_config_defs = ex_config_def user_sym_def free_property_def ex_state_defs

end
