(* ===== verification/Kconf_Calc_Inv.thy ===== *)
theory Kconf_Calc_Inv
  imports Kconf_Calc
begin

text \<open>
  A proof rule for the calculation of symbol values. The functions of \<open>Kconf_Calc\<close> change the
  state through a few kinds of elementary updates; a property of states that these keep is
  kept by every function, and by \<^verbatim>\<open>sym_calc_value\<close>. The locale \<open>calc_inv\<close> states the updates as
  its laws. Its parameter \<open>b\<close> selects partial or total correctness: without \<open>b\<close>, the laws also
  ask that no null pointer is met.
\<close>

section \<open>Elementary updates\<close>

definition set_visible_tri :: "propid \<Rightarrow> tristate \<Rightarrow> kstate \<Rightarrow> kstate" where
  "set_visible_tri p t = upd_prop p (\<lambda>pr. pr\<lparr>p_visible := (p_visible pr)\<lparr>ev_tri := t\<rparr>\<rparr>)"

definition menu_changed :: "menuid \<Rightarrow> kstate \<Rightarrow> kstate" where
  "menu_changed m = upd_menu m (\<lambda>mn. mn\<lparr>m_flags := insert MENU_CHANGED (m_flags mn)\<rparr>)"

definition mask_def_user :: "symid \<Rightarrow> sym_flag set \<Rightarrow> kstate \<Rightarrow> kstate" where
  "mask_def_user s fl = upd_sym s (\<lambda>sy. sy\<lparr>flags := flags sy \<inter> (fl \<union> - {SYMBOL_DEF_USER})\<rparr>)"

definition set_visible :: "symid \<Rightarrow> tristate \<Rightarrow> kstate \<Rightarrow> kstate" where
  "set_visible s t = upd_sym s (\<lambda>sy. sy\<lparr>visible := t\<rparr>)"

definition set_dir_tri :: "symid \<Rightarrow> tristate \<Rightarrow> kstate \<Rightarrow> kstate" where
  "set_dir_tri s t = upd_sym s (\<lambda>sy. sy\<lparr>dir_dep := (dir_dep sy)\<lparr>ev_tri := t\<rparr>\<rparr>)"

definition set_rev_tri :: "symid \<Rightarrow> tristate \<Rightarrow> kstate \<Rightarrow> kstate" where
  "set_rev_tri s t = upd_sym s (\<lambda>sy. sy\<lparr>rev_dep := (rev_dep sy)\<lparr>ev_tri := t\<rparr>\<rparr>)"

text \<open>The value \<^verbatim>\<open>m\<close> is only ever stored in a symbol that is tristate at that moment.\<close>

definition may_store :: "kstate \<Rightarrow> symid \<Rightarrow> symbol_value \<Rightarrow> bool" where
  "may_store st s v \<longleftrightarrow> (sv_tri v = Mod \<longrightarrow> sym_get_type st s = S_TRISTATE)"

section \<open>Marking symbols as changed\<close>

text \<open>Apart from flags of symbols and menus, \<^verbatim>\<open>sym_set_changed\<close> and \<^verbatim>\<open>sym_set_all_changed\<close> change nothing.\<close>

definition flags_only :: "kstate \<Rightarrow> kstate \<Rightarrow> bool" where
  "flags_only st st' \<longleftrightarrow> st' = st\<lparr>menus := menus st', syms := syms st'\<rparr> \<and>
    (\<forall>t. syms st' t \<in> {syms st t, (syms st t)\<lparr>flags := insert SYMBOL_CHANGED (flags (syms st t))\<rparr>})"

lemma flags_only_fields:
  assumes "flags_only st st'"
  shows "props st' = props st" "symbol_hash st' = symbol_hash st" "modules_sym st' = modules_sym st"
    "modules_val st' = modules_val st" "unmet st' = unmet st" "next_sym st' = next_sym st"
    "sym_change_count st' = sym_change_count st"
    "sym_name (syms st' t) = sym_name (syms st t)" "sym_type (syms st' t) = sym_type (syms st t)"
    "curr (syms st' t) = curr (syms st t)" "sdef (syms st' t) = sdef (syms st t)"
    "visible (syms st' t) = visible (syms st t)" "sym_prop (syms st' t) = sym_prop (syms st t)"
    "dir_dep (syms st' t) = dir_dep (syms st t)" "rev_dep (syms st' t) = rev_dep (syms st t)"
    "f \<noteq> SYMBOL_CHANGED \<Longrightarrow> f \<in> flags (syms st' t) \<longleftrightarrow> f \<in> flags (syms st t)"
proof -
  have st': "st' = st\<lparr>menus := menus st', syms := syms st'\<rparr>"
    and F: "syms st' t \<in> {syms st t, (syms st t)\<lparr>flags := insert SYMBOL_CHANGED (flags (syms st t))\<rparr>}"
    using assms by (auto simp: flags_only_def)
  show "props st' = props st" "symbol_hash st' = symbol_hash st" "modules_sym st' = modules_sym st"
    "modules_val st' = modules_val st" "unmet st' = unmet st" "next_sym st' = next_sym st"
    "sym_change_count st' = sym_change_count st"
    by (subst st', simp)+
  show "sym_name (syms st' t) = sym_name (syms st t)" "sym_type (syms st' t) = sym_type (syms st t)"
    "curr (syms st' t) = curr (syms st t)" "sdef (syms st' t) = sdef (syms st t)"
    "visible (syms st' t) = visible (syms st t)" "sym_prop (syms st' t) = sym_prop (syms st t)"
    "dir_dep (syms st' t) = dir_dep (syms st t)" "rev_dep (syms st' t) = rev_dep (syms st t)"
    "f \<noteq> SYMBOL_CHANGED \<Longrightarrow> f \<in> flags (syms st' t) \<longleftrightarrow> f \<in> flags (syms st t)"
    using F by auto
qed

lemma flags_only_refl: "flags_only st st"
  by (simp add: flags_only_def)

lemma flags_only_trans:
  assumes "flags_only st st'" "flags_only st' st''"
  shows "flags_only st st''"
proof -
  have "st'' = st\<lparr>menus := menus st'', syms := syms st''\<rparr>"
    using assms by (cases st; cases st'; cases st'') (simp add: flags_only_def)
  moreover have "syms st'' t \<in> {syms st t, (syms st t)\<lparr>flags := insert SYMBOL_CHANGED (flags (syms st t))\<rparr>}" for t
  proof -
    have "syms st' t \<in> {syms st t, (syms st t)\<lparr>flags := insert SYMBOL_CHANGED (flags (syms st t))\<rparr>}"
      "syms st'' t \<in> {syms st' t, (syms st' t)\<lparr>flags := insert SYMBOL_CHANGED (flags (syms st' t))\<rparr>}"
      using assms by (simp_all add: flags_only_def)
    then show ?thesis by auto
  qed
  ultimately show ?thesis by (simp add: flags_only_def)
qed

lemma flags_only_step:
  "flags_only st (upd_menu m f st)" "flags_only st (set_flag s {SYMBOL_CHANGED} st)"
  by (simp_all add: flags_only_def upd_menu_def set_flag_def upd_sym_def)

lemma sym_set_changed_flags_only: "flags_only st (sym_set_changed s st)"
  unfolding sym_set_changed_def
  by (rule fold_closed) (auto intro: flags_only_trans flags_only_step split: option.splits)

lemma sym_set_all_changed_flags_only: "flags_only st (sym_set_all_changed st)"
  unfolding sym_set_all_changed_def
  by (rule fold_closed) (auto intro: flags_only_trans sym_set_changed_flags_only flags_only_refl)

lemmas set_changed_simps [simp] = flags_only_fields [OF sym_set_changed_flags_only]
  flags_only_fields [OF sym_set_all_changed_flags_only]

section \<open>The rule\<close>

locale calc_inv =
  fixes b :: bool and Q :: "kstate \<Rightarrow> bool"
  assumes q_visible_tri: "Q st \<Longrightarrow> Q (set_visible_tri p t st)"
    and q_menu: "Q st \<Longrightarrow> Q (menu_changed m st)"
    and q_changed: "Q st \<Longrightarrow> Q (set_flag s {SYMBOL_CHANGED} st)"
    and q_write: "Q st \<Longrightarrow> Q (set_flag s {SYMBOL_WRITE} st)"
    and q_nowrite: "Q st \<Longrightarrow> Q (clear_flag s {SYMBOL_WRITE} st)"
    and q_mask: "Q st \<Longrightarrow> Q (mask_def_user s fl st)"
    and q_visible: "Q st \<Longrightarrow> Q (set_visible s t st)"
    and q_dir: "Q st \<Longrightarrow> Q (set_dir_tri s t st)"
    and q_rev: "Q st \<Longrightarrow> Q (set_rev_tri s t st)"
    and q_curr: "Q st \<Longrightarrow> may_store st s v \<Longrightarrow> Q (set_curr s v st)"
    and q_curr_val: "Q st \<Longrightarrow> Q (set_curr_val s w st)"
    and q_curr_tri: "Q st \<Longrightarrow> Q (set_curr_tri s No st)"
    and q_def_tri: "Q st \<Longrightarrow> Q (set_def_tri s S_DEF_USER No st)"
    and q_def_user: "Q st \<Longrightarrow> Q (set_flag s {SYMBOL_DEF_USER} st)"
    and q_reset: "Q st \<Longrightarrow> has_flag st s SYMBOL_NEED_SET_CHOICE_VALUES \<Longrightarrow>
      Q (clear_flag s {SYMBOL_VALID, SYMBOL_NEED_SET_CHOICE_VALUES} st)"
    and q_unmet: "Q st \<Longrightarrow> Q (st\<lparr>unmet := unmet st @ [s]\<rparr>)"
    and q_modules: "Q st \<Longrightarrow> modules_sym st = Some s \<Longrightarrow> Q (st\<lparr>modules_val := tri_of st s\<rparr>)"
    and q_type: "Q st \<Longrightarrow> Q st' \<Longrightarrow> sym_type (syms st s) = sym_type (syms st' s)"
    and q_no_null_modules: "Q st \<Longrightarrow> b \<or> modules_sym st \<noteq> None"
    and q_no_null_choice: "Q st \<Longrightarrow> Q st' \<Longrightarrow> sym_is_choice st s \<Longrightarrow> b \<or> choice_list st' s \<noteq> None"
    and q_no_null_default: "Q st \<Longrightarrow> Q st' \<Longrightarrow> Q st'' \<Longrightarrow> sym_is_choice st s \<Longrightarrow>
      p \<in> set (for_all_properties st' s P_DEFAULT) \<Longrightarrow> b \<or> prop_get_symbol st'' p \<noteq> None"
    and q_no_null_value: "Q st \<Longrightarrow> sym_is_choice_value st s \<Longrightarrow>
      b \<or> (\<exists>p cs. sym_get_choice_prop st s = Some p \<and> prop_get_symbol st p = Some cs)"
    and q_no_null_need: "Q st \<Longrightarrow> has_flag st s SYMBOL_NEED_SET_CHOICE_VALUES \<Longrightarrow>
      b \<or> choice_list st s \<noteq> None"
    and q_no_null_range: "Q st \<Longrightarrow> Q st' \<Longrightarrow> p \<in> set (for_all_properties st s P_RANGE) \<Longrightarrow>
      b \<or> range_syms (p_expr (props st' p)) \<noteq> None"
begin

lemma sym_set_changed_inv: "Q st \<Longrightarrow> Q (sym_set_changed s st)"
  unfolding sym_set_changed_def
  by (rule fold_closed) (auto simp: q_menu [unfolded menu_changed_def] q_changed split: option.splits)

lemma sym_set_all_changed_inv: "Q st \<Longrightarrow> Q (sym_set_all_changed st)"
  unfolding sym_set_all_changed_def by (rule fold_closed) (auto simp: sym_set_changed_inv)

lemma run_option: "b \<or> m \<noteq> None \<Longrightarrow> (\<And>x. m = Some x \<Longrightarrow> P x) \<Longrightarrow> run b m P"
  by (cases m) auto

lemma change_inv:
  "Q st \<Longrightarrow> Q (change_visible s t st)" "Q st \<Longrightarrow> Q (change_dir_dep s t st)"
  "Q st \<Longrightarrow> Q (change_rev_dep s t st)"
  by (auto simp: change_visible_def change_dir_dep_def change_rev_dep_def
      intro!: sym_set_changed_inv q_visible [unfolded set_visible_def] q_dir [unfolded set_dir_tri_def]
        q_rev [unfolded set_rev_tri_def])

end

section \<open>Calls\<close>

text \<open>A function to call for \<^verbatim>\<open>sym_calc_value\<close> that keeps the invariant.\<close>

locale calc_call = calc_inv +
  fixes scv :: calc
  assumes scv_inv: "Q st \<Longrightarrow> run b (scv s st) Q"
begin

text \<open>A call of a function that keeps the invariant, followed by the rest of the computation.\<close>



lemma then_run_pair:
  "run b m (\<lambda>(v, st). Q st) \<Longrightarrow> (\<And>v st. Q st \<Longrightarrow> P (v, st)) \<Longrightarrow> run b m P"
  by (erule run_mono) auto

lemma sym_get_string_value_inv:
  assumes "Q st"
  shows "run b (sym_get_string_value scv s st) (\<lambda>(v, st'). Q st')"
  using assms q_no_null_modules [OF assms]
  by (auto simp: sym_get_string_value_def split: tristate.splits option.splits
      intro!: run_mono [OF scv_inv])

lemma calc_strcmp_inv:
  assumes "Q st"
  shows "run b (calc_strcmp scv x y st) (\<lambda>(v, st'). Q st')"
proof -
  have "Q st2 \<Longrightarrow> run b (sym_get_string_value scv x st2) (\<lambda>(s1, st3).
      run b (sym_get_string_value scv y st3) (\<lambda>(s2, st4). Q st4))" for st2
    by (rule then_run_pair [OF sym_get_string_value_inv]) (auto intro: sym_get_string_value_inv)
  then show ?thesis
    unfolding calc_strcmp_def using assms
    by (auto simp: case_prod_unfold intro!: run_mono [OF scv_inv])
qed

lemma calc_expr_inv: "Q st \<Longrightarrow> run b (calc_expr scv e st) (\<lambda>(v, st'). Q st')"
proof (induction e arbitrary: st)
  case (XAnd l r)
  then show ?case by (auto simp: case_prod_unfold intro!: then_run_pair [OF XAnd.IH(1)]
      then_run_pair [OF XAnd.IH(2)])
next
  case (XOr l r)
  then show ?case by (auto simp: case_prod_unfold intro!: then_run_pair [OF XOr.IH(1)]
      then_run_pair [OF XOr.IH(2)])
next
  case (XNot a)
  then show ?case by (auto simp: case_prod_unfold intro!: then_run_pair [OF XNot.IH])
next
  case (XEqual x y)
  then show ?case by (auto simp: case_prod_unfold intro!: then_run_pair [OF calc_strcmp_inv])
next
  case (XUnequal x y)
  then show ?case by (auto simp: case_prod_unfold intro!: then_run_pair [OF calc_strcmp_inv])
next
  case (XSymbol s)
  then show ?case by (auto intro!: run_mono [OF scv_inv])
qed simp_all

lemma expr_calc_value_inv: "Q st \<Longrightarrow> run b (expr_calc_value scv e st) (\<lambda>(v, st'). Q st')"
  by (cases e) (simp_all add: calc_expr_inv)

lemma calc_prop_visible_inv: "Q st \<Longrightarrow> run b (calc_prop_visible scv p st) (\<lambda>(v, st'). Q st')"
  unfolding calc_prop_visible_def
  by (auto simp: case_prod_unfold intro!: then_run_pair [OF expr_calc_value_inv]
      q_visible_tri [unfolded set_visible_tri_def])

lemma first_visible_inv:
  "Q st \<Longrightarrow> run b (first_visible scv ps st) (\<lambda>(v, st'). Q st' \<and> (\<forall>p. v = Some p \<longrightarrow> p \<in> set ps))"
proof (induction ps arbitrary: st)
  case (Cons p ps)
  show ?case
    using Cons.prems
    by (auto simp: case_prod_unfold intro!: then_run_pair [OF calc_prop_visible_inv] run_mono [OF Cons.IH])
qed simp

lemma sym_get_default_prop_inv: "Q st \<Longrightarrow> run b (sym_get_default_prop scv s st) (\<lambda>(v, st'). Q st')"
  unfolding sym_get_default_prop_def by (rule run_mono [OF first_visible_inv]) auto

lemma sym_get_range_val_inv: "Q st \<Longrightarrow> run b (sym_get_range_val scv s base st) (\<lambda>(v, st'). Q st')"
  unfolding sym_get_range_val_def by (auto simp: Let_def intro!: run_mono [OF scv_inv])

lemma sym_validate_range_inv:
  assumes "Q st"
  shows "run b (sym_validate_range scv s st) Q"
proof -
  have "run b (sym_get_range_prop scv s st) (\<lambda>(v, st'). Q st' \<and>
      (\<forall>p. v = Some p \<longrightarrow> p \<in> set (for_all_properties st s P_RANGE)))"
    unfolding sym_get_range_prop_def using assms by (rule first_visible_inv)
  then show ?thesis
    using assms unfolding sym_validate_range_def
    by (auto simp: Let_def case_prod_unfold q_curr_val split: option.splits elim!: run_mono
        intro!: run_option then_run_pair [OF sym_get_range_val_inv] dest: q_no_null_range [OF assms])
qed

end

context calc_call
begin

lemma prompts_visible_inv: "Q st \<Longrightarrow> run b (prompts_visible scv ps t st) (\<lambda>(v, st'). Q st')"
proof (induction ps arbitrary: t st)
  case (Cons p ps)
  then show ?case
    by (auto simp: case_prod_unfold intro!: then_run_pair [OF calc_prop_visible_inv] run_mono [OF Cons.IH])
qed simp

lemma sym_calc_visibility_inv:
  assumes "Q st"
  shows "run b (sym_calc_visibility scv s st) Q"
proof -
  have opt: "run b (case e of None \<Rightarrow> Some (v, st1) | Some e' \<Rightarrow> calc_expr scv e' st1) (\<lambda>(v, st'). Q st')"
    if "Q st1" for e v st1
    using that by (cases e) (simp_all add: calc_expr_inv)
  show ?thesis
    unfolding sym_calc_visibility_def using assms
    by (auto simp: Let_def case_prod_unfold change_inv intro!: then_run_pair [OF prompts_visible_inv]
        then_run_pair [OF opt])
qed

lemma default_visible_inv:
  assumes "sym_is_choice st0 s" "Q st0" "Q st1"
    "set ps \<subseteq> set (for_all_properties st1 s P_DEFAULT)" "Q st"
  shows "run b (default_visible scv ps st) (\<lambda>(v, st'). Q st')"
  using assms(4,5)
proof (induction ps arbitrary: st)
  case (Cons p ps)
  then show ?case
    by (auto simp: case_prod_unfold intro!: then_run_pair [OF calc_prop_visible_inv] run_mono [OF Cons.IH]
        run_option [where m = "prop_get_symbol x p" for x] dest: q_no_null_default [OF assms(2,3) _ assms(1), of _ p])
qed simp

lemma sym_choice_default_inv:
  assumes "sym_is_choice st0 s" "Q st0" "Q st"
  shows "run b (sym_choice_default scv s st) (\<lambda>(v, st'). Q st')"
  unfolding sym_choice_default_def
  using q_no_null_choice [OF assms(2) _ assms(1)]
  by (auto simp: case_prod_unfold split: option.splits
      intro!: then_run_pair [OF default_visible_inv [OF assms(1,2,3) _ assms(3)]]
        run_option [where m = "choice_list x s" for x])

lemma choice_visibilities_inv: "Q st \<Longrightarrow> run b (choice_visibilities scv ts fl st) (\<lambda>(v, st'). Q st')"
proof (induction ts arbitrary: fl st)
  case (Cons t ts)
  then show ?case by (auto intro!: run_mono [OF sym_calc_visibility_inv] Cons.IH)
qed simp

end

section \<open>The value of a symbol\<close>

lemma flags_set_def_tri: "flags (syms (set_def_tri t d v st) s) = flags (syms st s)"
  by (simp add: set_def_tri_def)

context calc_call
begin

lemma sym_calc_choice_inv:
  assumes "sym_is_choice st s" "Q st"
  shows "run b (sym_calc_choice scv s st) (\<lambda>(v, st'). Q st')"
proof -
  have default: "run b (sym_choice_default scv s st2)
      (\<lambda>(r, st3). Q (if r = None then set_curr_tri s No st3 else st3))" if "Q st2" for st2
    by (rule then_run_pair [OF sym_choice_default_inv [OF assms that]]) (simp add: q_curr_tri)
  have pick: "run b (case w of
        VSym d \<Rightarrow> if visible (syms st2 d) \<noteq> No then Some (Some d, st2)
                  else do { (r, st3) \<leftarrow> sym_choice_default scv s st2;
                            Some (r, if r = None then set_curr_tri s No st3 else st3) }
      | _ \<Rightarrow> do { (r, st3) \<leftarrow> sym_choice_default scv s st2;
                  Some (r, if r = None then set_curr_tri s No st3 else st3) }) (\<lambda>(v, st'). Q st')"
    if "Q st2" for w st2
    using default [OF that] that by (cases w) (simp_all add: case_prod_unfold)
  show ?thesis
    unfolding sym_calc_choice_def mask_def_user_def [symmetric] Let_def
    using q_no_null_choice [OF assms(2,2,1)] assms(2)
    by (auto intro!: run_option [where m = "choice_list x s" for x] pick q_mask
        then_run_pair [OF choice_visibilities_inv])
qed

lemma set_all_choice_values_inv:
  assumes "has_flag st s SYMBOL_NEED_SET_CHOICE_VALUES" "Q st"
  shows "run b (set_all_choice_values s st) Q"
proof -
  let ?Q = "\<lambda>st. Q st \<and> has_flag st s SYMBOL_NEED_SET_CHOICE_VALUES"
  let ?f = "\<lambda>t st. if sym_has_value st t then st else set_def_tri t S_DEF_USER No st"
  have "?Q (fold ?f ss st)" for ss
    by (rule fold_closed) (use assms in \<open>auto simp: q_def_tri flags_set_def_tri\<close>)
  then have "Q (clear_flag s {SYMBOL_VALID, SYMBOL_NEED_SET_CHOICE_VALUES}
      (set_flag s {SYMBOL_DEF_USER} (fold ?f ss st)))" for ss
    by (auto intro!: q_reset q_def_user)
  then show ?thesis
    unfolding set_all_choice_values_def using q_no_null_need [OF assms(2,1)]
    by (auto simp: Let_def intro!: run_option [where m = "choice_list x s" for x])
qed

lemma warn_unmet_inv: "Q st \<Longrightarrow> Q (warn_unmet s st)"
  by (simp add: warn_unmet_def q_unmet)

lemma calc_tri_base_inv: "Q st \<Longrightarrow> run b (calc_tri_base scv s st) (\<lambda>(v, st'). Q st')"
  unfolding calc_tri_base_def
  by (auto simp: Let_def case_prod_unfold q_write split: option.splits
      intro!: then_run_pair [OF sym_get_default_prop_inv] then_run_pair [OF expr_calc_value_inv])

lemma get_type_tristate:
  assumes "Q st" "Q st'" "is_bool_type (sym_get_type st s)" "sym_get_type st' s \<noteq> S_BOOLEAN"
  shows "sym_get_type st' s = S_TRISTATE"
  using assms q_type [OF assms(1,2), of s] by (auto simp: sym_get_type_def is_bool_type_def Let_def split: if_splits)

lemma calc_tri_value_inv:
  assumes "Q st" "is_bool_type (sym_get_type st s)"
  shows "run b (calc_tri_value scv s st) (\<lambda>(v, st'). Q st' \<and> (v = Mod \<longrightarrow> sym_get_type st' s = S_TRISTATE))"
proof (cases "sym_is_choice_value st s \<and> visible (syms st s) = Yes")
  case True
  then show ?thesis
    using q_no_null_value [OF assms(1), of s] assms(1) unfolding calc_tri_value_def
    by (auto intro!: run_option [where m = "sym_get_choice_prop st s"]
        run_option [where m = "prop_get_symbol st p" for p])
next
  case False
  then show ?thesis
    unfolding calc_tri_value_def using assms
    by (auto simp: Let_def case_prod_unfold warn_unmet_inv intro: get_type_tristate
        intro!: then_run_pair [OF calc_tri_base_inv])
qed

lemma calc_str_value_inv: "Q st \<Longrightarrow> run b (calc_str_value scv s v st) (\<lambda>(w, st'). Q st')"
  unfolding calc_str_value_def
  by (auto simp: Let_def case_prod_unfold q_write split: option.splits
      intro!: then_run_pair [OF sym_get_default_prop_inv] run_mono [OF scv_inv])

lemma note_change_inv: "Q st \<Longrightarrow> Q (note_change s v st)"
  using q_modules [of "sym_set_all_changed (sym_set_changed s st)" s]
  by (auto simp: note_change_def Let_def sym_set_changed_inv sym_set_all_changed_inv)

end

context calc_call
begin

lemma pass_to_values_inv:
  assumes "Q st"
  shows "run b (pass_to_values s st) Q"
proof -
  have "Q (fold (\<lambda>t st.
      let st1 = (if SYMBOL_WRITE \<in> flags (syms st s) \<and> visible (syms st t) \<noteq> No
                 then set_flag t {SYMBOL_WRITE} st else st) in
      if SYMBOL_CHANGED \<in> flags (syms st1 s) then sym_set_changed t st1 else st1) ss st)" for ss
    by (rule fold_closed) (simp_all add: Let_def q_write sym_set_changed_inv assms)
  then show ?thesis
    unfolding pass_to_values_def using q_no_null_choice [OF assms assms, of s] assms
    by (auto intro!: run_option [where m = "choice_list x s" for x])
qed

lemma calc_choice_inv:
  assumes "Q st" "may_store st s v"
  shows "run b (if sym_is_choice (set_curr s v st) s \<and> sv_tri v = Yes
                then do { (c, st2) \<leftarrow> sym_calc_choice scv s (set_curr s v st);
                          Some (set_curr_val s (case c of None \<Rightarrow> VNull | Some d \<Rightarrow> VSym d) st2) }
                else Some (set_curr s v st)) Q"
  using q_curr [OF assms] by (auto intro!: then_run_pair [OF sym_calc_choice_inv] q_curr_val)

lemma calc_finish_inv:
  assumes "Q st" "may_store st s v"
  shows "run b (calc_finish scv s old v st) Q"
proof -
  have reset: "run b (if has_flag st5 s SYMBOL_NEED_SET_CHOICE_VALUES
      then set_all_choice_values s st5 else Some st5) Q" if "Q st5" for st5
    using that set_all_choice_values_inv by simp
  show ?thesis
    unfolding calc_finish_def Let_def run_bind
    by (rule run_mono [OF calc_choice_inv [OF assms]], rule run_mono [OF sym_validate_range_inv],
        assumption, rule run_mono [OF pass_to_values_inv], erule note_change_inv, rule reset)
      (simp add: q_nowrite)
qed

lemma calc_body_inv:
  assumes "Q (set_flag s {SYMBOL_VALID} st)"
  shows "run b (calc_body scv s st) Q"
proof -
  let ?st0 = "set_flag s {SYMBOL_VALID} st"
  let ?new = "if is_bool_type (sym_type (syms ?st0 s)) then no_curr else empty_curr"
  have new: "sv_tri ?new = No" by (simp add: no_curr_def empty_curr_def)
  then have store: "may_store st' s ?new" "may_store st' s (?new\<lparr>sv_val := w\<rparr>)" for st' w
    by (simp_all add: may_store_def)
  have rest: "run b (if is_bool_type (sym_get_type st3 s)
        then do { (v, st4) \<leftarrow> calc_tri_value scv s st3; Some (?new\<lparr>sv_tri := v\<rparr>, st4) }
        else do { (v, st4) \<leftarrow> calc_str_value scv s (sv_val ?new) st3; Some (?new\<lparr>sv_val := v\<rparr>, st4) })
      (\<lambda>(v, st'). Q st' \<and> may_store st' s v)" if "Q st3" for st3
    using that store calc_tri_value_inv [of st3 s] calc_str_value_inv [of st3 s]
    by (auto simp: case_prod_unfold may_store_def elim!: run_mono)
  have vis: "run b (sym_calc_visibility scv s st1) (\<lambda>st2. Q (set_curr s ?new st2))"
    if "Q st1" for st1
    by (rule run_mono [OF sym_calc_visibility_inv [OF that]]) (rule q_curr [OF _ store(1)])
  have clear: "Q (if sym_is_choice_value ?st0 s then ?st0 else clear_flag s {SYMBOL_WRITE} ?st0)"
    using assms q_nowrite by simp
  show ?thesis
  proof (cases "sym_type (syms ?st0 s) = S_UNKNOWN \<or> sym_type (syms ?st0 s) = S_OTHER")
    case True
    then show ?thesis
      unfolding calc_body_def Let_def using q_curr [OF assms, of s] by (simp add: may_store_def)
  next
    case False
    show ?thesis
      unfolding calc_body_def Let_def if_not_P [OF False] run_bind
      by (rule run_mono [OF vis [OF clear]], rule run_mono [OF rest], assumption)
        (auto intro: calc_finish_inv)
  qed
qed

end

section \<open>Partial correctness\<close>

text \<open>An invariant that also survives the two flag updates on entry is kept by every calculation.\<close>

locale calc_partial = calc_inv True Q for Q +
  assumes q_valid: "Q st \<Longrightarrow> Q (set_flag s {SYMBOL_VALID} st)"
    and q_need: "Q st \<Longrightarrow> Q (clear_flag s {SYMBOL_NEED_SET_CHOICE_VALUES} st)"

lemma calc_step_partial:
  assumes "calc_partial Q" "calc_call True Q scv" "Q st"
  shows "run True (calc_step scv s st) Q"
proof -
  have body: "Q st1 \<Longrightarrow> run True (calc_body scv s st1) Q" for st1
    using calc_call.calc_body_inv [OF assms(2)] calc_partial.q_valid [OF assms(1)] by blast
  have call: "run True (scv cs (clear_flag s {SYMBOL_NEED_SET_CHOICE_VALUES} st)) Q" for cs
    using calc_call.scv_inv [OF assms(2)] calc_partial.q_need [OF assms(1,3)] by blast
  show ?thesis
    unfolding calc_step_def using assms(3)
    by (auto simp: run_True [of "sym_get_choice_prop st s"] run_True [of "prop_get_symbol st p" for p]
        intro: body run_mono [OF call body])
qed

context calc_partial
begin

lemma sym_calc_value_call: "calc_call True Q (sym_calc_value n)"
proof (induction n)
  case 0
  show ?case by unfold_locales simp
next
  case (Suc n)
  then have "Q st \<Longrightarrow> run True (sym_calc_value (Suc n) s st) Q" for s st
    using calc_step_partial [OF calc_partial_axioms] by simp
  then show ?case by unfold_locales
qed

lemma sym_calc_value_inv: "Q st \<Longrightarrow> sym_calc_value n s st = Some st' \<Longrightarrow> Q st'"
  using calc_call.scv_inv [OF sym_calc_value_call, of st n s] by simp

end

end
