(* ===== verification/Kconf_Calc_Frame.thy ===== *)
theory Kconf_Calc_Frame
  imports Kconf_Calc_Inv
begin

text \<open>
  What the calculation of symbol values leaves alone, the types of the values it stores, and
  that it ends: the invariants for which the rule of \<open>Kconf_Calc_Inv\<close> is used.
\<close>

section \<open>The configuration is not changed\<close>

text \<open>
  The part of the state that \<^verbatim>\<open>sym_calc_value\<close> does not write: what the Kconfig files define
  and the user's values other than those of \<^verbatim>\<open>set_all_choice_values\<close>. \<open>static\<close> blanks the rest.
\<close>

definition dynamic_flags :: "sym_flag set" where
  "dynamic_flags = {SYMBOL_VALID, SYMBOL_WRITE, SYMBOL_CHANGED, SYMBOL_DEF_USER,
     SYMBOL_NEED_SET_CHOICE_VALUES}"

definition static_symbol :: "symbol \<Rightarrow> symbol" where
  "static_symbol sy = sy\<lparr>curr := \<lparr>sv_val = VNull, sv_tri = No\<rparr>,
     sdef := (sdef sy)(S_DEF_USER := (sdef sy S_DEF_USER)\<lparr>sv_tri := No\<rparr>), visible := No,
     flags := flags sy - dynamic_flags,
     dir_dep := (dir_dep sy)\<lparr>ev_tri := No\<rparr>, rev_dep := (rev_dep sy)\<lparr>ev_tri := No\<rparr>\<rparr>"

definition static_property :: "property \<Rightarrow> property" where
  "static_property pr = pr\<lparr>p_visible := (p_visible pr)\<lparr>ev_tri := No\<rparr>\<rparr>"

definition static_menu :: "menu \<Rightarrow> menu" where
  "static_menu mn = mn\<lparr>m_flags := m_flags mn - {MENU_CHANGED}\<rparr>"

definition static :: "kstate \<Rightarrow> kstate" where
  "static st = st\<lparr>syms := static_symbol \<circ> syms st, props := static_property \<circ> props st,
     menus := static_menu \<circ> menus st, modules_val := No, unmet := []\<rparr>"

lemma fun_upd_comp: "h (f x) = h y \<Longrightarrow> h \<circ> f(x := y) = h \<circ> f"
  by auto

lemma static_upd_sym [simp]:
  "static_symbol (f (syms st s)) = static_symbol (syms st s) \<Longrightarrow> static (upd_sym s f st) = static st"
  by (simp add: static_def upd_sym_def fun_upd_comp)

lemma static_upd_prop [simp]:
  "static_property (f (props st p)) = static_property (props st p) \<Longrightarrow> static (upd_prop p f st) = static st"
  by (simp add: static_def upd_prop_def fun_upd_comp)

lemma static_upd_menu [simp]:
  "static_menu (f (menus st m)) = static_menu (menus st m) \<Longrightarrow> static (upd_menu m f st) = static st"
  by (simp add: static_def upd_menu_def fun_upd_comp)

lemma static_symbol_flags:
  "fl - dynamic_flags = flags sy - dynamic_flags \<Longrightarrow> static_symbol (sy\<lparr>flags := fl\<rparr>) = static_symbol sy"
  by (simp add: static_symbol_def)

lemma static_updates [simp]:
  "static (set_visible_tri p t st) = static st" "static (menu_changed m st) = static st"
  "static (mask_def_user s fl st) = static st" "static (set_visible s t st) = static st"
  "static (set_dir_tri s t st) = static st" "static (set_rev_tri s t st) = static st"
  "static (set_curr s v st) = static st" "static (set_curr_val s w st) = static st"
  "static (set_curr_tri s t st) = static st" "static (set_def_tri s S_DEF_USER t st) = static st"
  "static (st\<lparr>unmet := u\<rparr>) = static st" "static (st\<lparr>modules_val := t\<rparr>) = static st"
  "fs \<subseteq> dynamic_flags \<Longrightarrow> static (set_flag s fs st) = static st"
  "fs \<subseteq> dynamic_flags \<Longrightarrow> static (clear_flag s fs st) = static st"
proof -
  show "static (st\<lparr>unmet := u\<rparr>) = static st" "static (st\<lparr>modules_val := t\<rparr>) = static st"
    by (simp_all add: static_def)
  show "static (mask_def_user s fl st) = static st"
    "fs \<subseteq> dynamic_flags \<Longrightarrow> static (set_flag s fs st) = static st"
    "fs \<subseteq> dynamic_flags \<Longrightarrow> static (clear_flag s fs st) = static st"
    unfolding mask_def_user_def set_flag_def clear_flag_def
    by (rule static_upd_sym, rule static_symbol_flags, auto simp: dynamic_flags_def)+
qed (simp_all add: set_visible_tri_def menu_changed_def set_visible_def set_dir_tri_def
    set_rev_tri_def set_curr_def set_curr_val_def set_curr_tri_def set_def_tri_def
    static_symbol_def static_property_def static_menu_def)

text \<open>States with the same configuration agree on what the definitions below read.\<close>

lemma static_sel:
  "sym_type (syms (static st) s) = sym_type (syms st s)"
  "sym_prop (syms (static st) s) = sym_prop (syms st s)"
  "sym_name (syms (static st) s) = sym_name (syms st s)"
  "ev_expr (dir_dep (syms (static st) s)) = ev_expr (dir_dep (syms st s))"
  "ev_expr (rev_dep (syms (static st) s)) = ev_expr (rev_dep (syms st s))"
  "p_type (props (static st) p) = p_type (props st p)"
  "p_expr (props (static st) p) = p_expr (props st p)"
  "p_text (props (static st) p) = p_text (props st p)"
  "ev_expr (p_visible (props (static st) p)) = ev_expr (p_visible (props st p))"
  "modules_sym (static st) = modules_sym st"
  "symbol_hash (static st) = symbol_hash st"
  "f \<notin> dynamic_flags \<Longrightarrow> f \<in> flags (syms (static st) s) \<longleftrightarrow> f \<in> flags (syms st s)"
  by (simp_all add: static_def static_symbol_def static_property_def)

lemma static_fields:
  assumes "static st = static st'"
  shows "sym_type (syms st s) = sym_type (syms st' s)" "sym_prop (syms st s) = sym_prop (syms st' s)"
    "sym_name (syms st s) = sym_name (syms st' s)"
    "ev_expr (dir_dep (syms st s)) = ev_expr (dir_dep (syms st' s))"
    "ev_expr (rev_dep (syms st s)) = ev_expr (rev_dep (syms st' s))"
    "p_type (props st p) = p_type (props st' p)" "p_expr (props st p) = p_expr (props st' p)"
    "p_text (props st p) = p_text (props st' p)"
    "ev_expr (p_visible (props st p)) = ev_expr (p_visible (props st' p))"
    "modules_sym st = modules_sym st'" "symbol_hash st = symbol_hash st'"
    "f \<notin> dynamic_flags \<Longrightarrow> f \<in> flags (syms st s) \<longleftrightarrow> f \<in> flags (syms st' s)"
  using assms by (metis static_sel)+

lemma static_reads:
  assumes "static st = static st'"
  shows "for_all_properties st s ty = for_all_properties st' s ty"
    "for_all_prompts st s = for_all_prompts st' s"
    "sym_get_choice_prop st s = sym_get_choice_prop st' s" "choice_list st s = choice_list st' s"
    "prop_get_symbol st p = prop_get_symbol st' p"
    "sym_is_choice st s \<longleftrightarrow> sym_is_choice st' s" "sym_is_choice_value st s \<longleftrightarrow> sym_is_choice_value st' s"
    "sym_is_optional st s \<longleftrightarrow> sym_is_optional st' s"
  using static_fields [OF assms]
  by (simp_all add: for_all_properties_def for_all_prompts_def sym_get_choice_prop_def first_prop_def
      choice_list_def prop_get_symbol_def dynamic_flags_def cong: option.case_cong)

interpretation frame: calc_partial "\<lambda>st. static st = static st0" for st0
proof (unfold_locales, goal_cases)
qed (auto simp: dynamic_flags_def intro: static_fields(1))

section \<open>Values have their symbol's type\<close>

text \<open>A boolean symbol is never \<^verbatim>\<open>m\<close>.\<close>

definition bool_values :: "kstate \<Rightarrow> bool" where
  "bool_values st \<longleftrightarrow> (\<forall>s. sym_type (syms st s) = S_BOOLEAN \<longrightarrow> tri_of st s \<noteq> Mod)"

lemma may_store_bool:
  "may_store st s v \<Longrightarrow> sym_type (syms st s) = S_BOOLEAN \<Longrightarrow> sv_tri v \<noteq> Mod"
  by (auto simp: may_store_def sym_get_type_def)

lemma bool_valuesD: "bool_values st \<Longrightarrow> sym_type (syms st s) = S_BOOLEAN \<Longrightarrow> tri_of st s \<noteq> Mod"
  by (simp add: bool_values_def)

lemmas update_defs = set_visible_tri_def menu_changed_def mask_def_user_def set_visible_def
  set_dir_tri_def set_rev_tri_def set_curr_def set_curr_val_def set_curr_tri_def set_def_tri_def
  set_flag_def clear_flag_def

lemma bool_values_updates:
  assumes "bool_values st"
  shows "bool_values (set_visible_tri p t st)" "bool_values (menu_changed m st)"
    "bool_values (mask_def_user s fl st)" "bool_values (set_visible s t st)"
    "bool_values (set_dir_tri s t st)" "bool_values (set_rev_tri s t st)"
    "may_store st s v \<Longrightarrow> bool_values (set_curr s v st)" "bool_values (set_curr_val s w st)"
    "bool_values (set_curr_tri s No st)" "bool_values (set_def_tri s d t st)"
    "bool_values (st\<lparr>unmet := u\<rparr>)" "bool_values (st\<lparr>modules_val := t\<rparr>)"
    "bool_values (set_flag s fs st)" "bool_values (clear_flag s fs st)"
  using assms may_store_bool [of st s v]
  by (simp_all add: update_defs bool_values_def)

interpretation typed: calc_partial "\<lambda>st. static st = static st0 \<and> bool_values st" for st0
proof (unfold_locales, goal_cases)
qed (auto simp: dynamic_flags_def bool_values_updates intro: static_fields(1))

section \<open>Calculation ends\<close>

text \<open>
  A configuration on which \<^verbatim>\<open>sym_calc_value\<close> meets no null pointer: the modules symbol is set
  (\<^verbatim>\<open>conf_parse\<close> does so), a choice and a symbol marked \<^verbatim>\<open>SYMBOL_NEED_SET_CHOICE_VALUES\<close> have a choice
  property, a choice's defaults are symbols, a choice value knows its choice, and a range has
  two bounds.
\<close>

definition calc_wf :: "kstate \<Rightarrow> bool" where
  "calc_wf st \<longleftrightarrow> modules_sym st \<noteq> None \<and>
    (\<forall>s. sym_is_choice st s \<or> has_flag st s SYMBOL_NEED_SET_CHOICE_VALUES \<longrightarrow> sym_get_choice_prop st s \<noteq> None) \<and>
    (\<forall>s. sym_is_choice st s \<longrightarrow> (\<forall>p \<in> set (for_all_properties st s P_DEFAULT). prop_get_symbol st p \<noteq> None)) \<and>
    (\<forall>s. sym_is_choice_value st s \<longrightarrow>
      (\<exists>p cs. sym_get_choice_prop st s = Some p \<and> prop_get_symbol st p = Some cs)) \<and>
    (\<forall>s. \<forall>p \<in> set (for_all_properties st s P_RANGE). range_syms (p_expr (props st p)) \<noteq> None)"

text \<open>
  Every call either returns at once, or marks a symbol valid, or clears a request to set the
  choice values. \<^verbatim>\<open>set_all_choice_values\<close> makes a symbol invalid again but clears a request,
  which therefore weighs two.
\<close>

definition todo :: "kstate \<Rightarrow> symid set" where
  "todo st = {s. \<not> has_flag st s SYMBOL_VALID}"

definition need :: "kstate \<Rightarrow> symid set" where
  "need st = {s. has_flag st s SYMBOL_NEED_SET_CHOICE_VALUES}"

definition pending :: "kstate \<Rightarrow> nat" where
  "pending st = card (todo st) + 2 * card (need st)"

definition calc_ok :: "nat \<Rightarrow> kstate \<Rightarrow> kstate \<Rightarrow> bool" where
  "calc_ok n st0 st \<longleftrightarrow> calc_wf st0 \<and> finite (need st0) \<and> static st = static st0 \<and>
    need st \<subseteq> need st0 \<and> finite (todo st) \<and> pending st < n"

lemma todo_need_same:
  assumes "\<And>s. has_flag st' s SYMBOL_VALID = has_flag st s SYMBOL_VALID"
    "\<And>s. has_flag st' s SYMBOL_NEED_SET_CHOICE_VALUES = has_flag st s SYMBOL_NEED_SET_CHOICE_VALUES"
  shows "todo st' = todo st" "need st' = need st" "pending st' = pending st"
  using assms by (simp_all add: todo_def need_def pending_def)

lemma calc_ok_same:
  assumes "calc_ok n st0 st" "static st' = static st"
    "\<And>s. has_flag st' s SYMBOL_VALID = has_flag st s SYMBOL_VALID"
    "\<And>s. has_flag st' s SYMBOL_NEED_SET_CHOICE_VALUES = has_flag st s SYMBOL_NEED_SET_CHOICE_VALUES"
  shows "calc_ok n st0 st'"
  using assms(1,2) todo_need_same [OF assms(3,4)] by (simp add: calc_ok_def)

lemma calc_ok_need_finite: "calc_ok n st0 st \<Longrightarrow> finite (need st)"
  by (auto simp: calc_ok_def intro: finite_subset)

lemma calc_ok_valid:
  assumes "calc_ok n st0 st"
  shows "calc_ok n st0 (set_flag s {SYMBOL_VALID} st)"
    and "s \<in> todo st \<Longrightarrow> calc_ok (n - 1) st0 (set_flag s {SYMBOL_VALID} st)"
proof -
  let ?st' = "set_flag s {SYMBOL_VALID} st"
  have t: "todo ?st' = todo st - {s}" "need ?st' = need st" by (auto simp: todo_def need_def)
  have f: "finite (todo st)" "pending st < n" using assms by (auto simp: calc_ok_def)
  have "card (todo st - {s}) \<le> card (todo st)" by (simp add: card_Diff1_le f)
  then show "calc_ok n st0 ?st'"
    using assms f by (auto simp: calc_ok_def t pending_def dynamic_flags_def)
  assume "s \<in> todo st"
  then have "card (todo st - {s}) < card (todo st)" using f by (intro card_Diff1_less)
  then show "calc_ok (n - 1) st0 ?st'"
    using assms f by (auto simp: calc_ok_def t pending_def dynamic_flags_def)
qed

lemma calc_ok_need:
  assumes "calc_ok n st0 st" "s \<in> need st"
  shows "calc_ok (n - 1) st0 (clear_flag s {SYMBOL_NEED_SET_CHOICE_VALUES} st)"
    and "calc_ok n st0 (clear_flag s {SYMBOL_VALID, SYMBOL_NEED_SET_CHOICE_VALUES} st)"
proof -
  have f: "finite (todo st)" "finite (need st)" "pending st < n"
    using assms(1) calc_ok_need_finite by (auto simp: calc_ok_def)
  have n: "card (need st - {s}) < card (need st)" using f assms(2) by (intro card_Diff1_less)
  have u: "card (insert s (todo st)) \<le> Suc (card (todo st))" by (rule card_insert_le_m1) auto
  have t: "todo (clear_flag s {SYMBOL_NEED_SET_CHOICE_VALUES} st) = todo st"
    "need (clear_flag s {SYMBOL_NEED_SET_CHOICE_VALUES} st) = need st - {s}"
    "todo (clear_flag s {SYMBOL_VALID, SYMBOL_NEED_SET_CHOICE_VALUES} st) = insert s (todo st)"
    "need (clear_flag s {SYMBOL_VALID, SYMBOL_NEED_SET_CHOICE_VALUES} st) = need st - {s}"
    by (auto simp: todo_def need_def)
  show "calc_ok (n - 1) st0 (clear_flag s {SYMBOL_NEED_SET_CHOICE_VALUES} st)"
    "calc_ok n st0 (clear_flag s {SYMBOL_VALID, SYMBOL_NEED_SET_CHOICE_VALUES} st)"
    using assms(1) f n u by (auto simp: calc_ok_def t pending_def dynamic_flags_def)
qed

lemma update_flags:
  "flags (syms (set_visible_tri p t st) x) = flags (syms st x)"
  "flags (syms (menu_changed m st) x) = flags (syms st x)"
  "flags (syms (set_visible s t st) x) = flags (syms st x)"
  "flags (syms (set_dir_tri s t st) x) = flags (syms st x)"
  "flags (syms (set_rev_tri s t st) x) = flags (syms st x)"
  "flags (syms (set_curr s v st) x) = flags (syms st x)"
  "flags (syms (set_curr_val s w st) x) = flags (syms st x)"
  "flags (syms (set_curr_tri s t st) x) = flags (syms st x)"
  "flags (syms (set_def_tri s d t st) x) = flags (syms st x)"
  "f \<noteq> SYMBOL_DEF_USER \<Longrightarrow> f \<in> flags (syms (mask_def_user s fl st) x) \<longleftrightarrow> f \<in> flags (syms st x)"
  by (simp_all add: update_defs)

lemma calc_ok_updates:
  assumes "calc_ok n st0 st"
  shows "calc_ok n st0 (set_visible_tri p t st)" "calc_ok n st0 (menu_changed m st)"
    "calc_ok n st0 (mask_def_user s fl st)" "calc_ok n st0 (set_visible s t st)"
    "calc_ok n st0 (set_dir_tri s t st)" "calc_ok n st0 (set_rev_tri s t st)"
    "calc_ok n st0 (set_curr s v st)" "calc_ok n st0 (set_curr_val s w st)"
    "calc_ok n st0 (set_curr_tri s t st)" "calc_ok n st0 (set_def_tri s S_DEF_USER t st)"
    "calc_ok n st0 (st\<lparr>unmet := u\<rparr>)" "calc_ok n st0 (st\<lparr>modules_val := t\<rparr>)"
    "calc_ok n st0 (set_flag s {SYMBOL_CHANGED} st)" "calc_ok n st0 (set_flag s {SYMBOL_WRITE} st)"
    "calc_ok n st0 (set_flag s {SYMBOL_DEF_USER} st)" "calc_ok n st0 (clear_flag s {SYMBOL_WRITE} st)"
  by (rule calc_ok_same [OF assms]; simp add: dynamic_flags_def update_flags)+

interpretation total: calc_inv False "calc_ok n st0" for n st0
proof (unfold_locales, goal_cases)
  case (15 st s)
  then show ?case using calc_ok_need(2) by (simp add: need_def)
next
  case (18 st st' s)
  then show ?case by (auto simp: calc_ok_def intro: static_fields(1))
next
  case (19 st)
  then show ?case by (auto simp: calc_ok_def calc_wf_def dest: static_fields(10))
next
  case (20 st st' s)
  then have "static st = static st0" "static st' = static st0" "calc_wf st0"
    by (auto simp: calc_ok_def)
  then show ?case using 20(3) static_reads [of st st0] static_reads [of st' st0]
    by (auto simp: calc_wf_def choice_list_def)
next
  case (21 st st' st'' s p)
  then have "static st = static st0" "static st' = static st0" "static st'' = static st0" "calc_wf st0"
    by (auto simp: calc_ok_def)
  then show ?case using 21(4,5) static_reads [of st st0] static_reads [of st' st0] static_reads [of st'' st0]
    by (auto simp: calc_wf_def)
next
  case (22 st s)
  then have "static st = static st0" "calc_wf st0" by (auto simp: calc_ok_def)
  then show ?case using 22(2) static_reads [of st st0] by (auto simp: calc_wf_def)
next
  case (23 st s)
  then have "static st = static st0" "calc_wf st0" "has_flag st0 s SYMBOL_NEED_SET_CHOICE_VALUES"
    by (auto simp: calc_ok_def need_def)
  then show ?case using static_reads(3) [of st st0 s] by (auto simp: calc_wf_def choice_list_def)
next
  case (24 st st' p s)
  then have "static st = static st0" "static st' = static st0" "calc_wf st0"
    by (auto simp: calc_ok_def)
  then show ?case using 24(3) static_reads(1) [of st st0] static_fields(7) [of st' st0]
    by (auto simp: calc_wf_def)
qed (auto intro: calc_ok_updates)

lemma calc_ok_mono: "calc_ok m st0 st \<Longrightarrow> m \<le> n \<Longrightarrow> calc_ok n st0 st"
  by (auto simp: calc_ok_def)

lemma calc_step_total:
  assumes call: "\<And>k. k < m \<Longrightarrow> calc_call False (calc_ok k st0) scv" and ok: "calc_ok m st0 st"
  shows "run False (calc_step scv s st) (calc_ok m st0)"
proof (cases "s \<in> todo st")
  case False
  then show ?thesis using ok by (simp add: calc_step_def todo_def)
next
  case True
  have m: "0 < m" using ok by (auto simp: calc_ok_def)
  have body: "run False (calc_body scv s st1) (calc_ok m st0)"
    if "calc_ok (m - 1) st0 (set_flag s {SYMBOL_VALID} st1)" for st1
    using calc_call.calc_body_inv [OF call that] m by (auto elim!: run_mono intro: calc_ok_mono)
  show ?thesis
  proof (cases "sym_is_choice_value st s \<and> has_flag st s SYMBOL_NEED_SET_CHOICE_VALUES")
    case choice: True
    obtain p cs where p: "sym_get_choice_prop st s = Some p" "prop_get_symbol st p = Some cs"
      using total.q_no_null_value [OF ok, of s] choice by blast
    have "calc_ok (m - 1) st0 (clear_flag s {SYMBOL_NEED_SET_CHOICE_VALUES} st)"
      using calc_ok_need(1) [OF ok] choice by (simp add: need_def)
    then have "run False (scv cs (clear_flag s {SYMBOL_NEED_SET_CHOICE_VALUES} st)) (calc_ok (m - 1) st0)"
      using calc_call.scv_inv [OF call] m by simp
    then show ?thesis
      using True choice p body [OF calc_ok_valid(1)] by (simp add: calc_step_def todo_def) (erule run_mono)
  next
    case False
    then show ?thesis
      using True body [OF calc_ok_valid(2) [OF ok True]] by (auto simp: calc_step_def todo_def)
  qed
qed

lemma sym_calc_value_total: "m \<le> n \<Longrightarrow> calc_ok m st0 st \<Longrightarrow> run False (sym_calc_value n s st) (calc_ok m st0)"
proof (induction n arbitrary: m s st)
  case 0
  then show ?case by (auto simp: calc_ok_def)
next
  case (Suc n)
  have "calc_call False (calc_ok k st0) (sym_calc_value n)" if "k < m" for k
    using Suc.IH [of k] that Suc.prems(1) by unfold_locales simp
  then show ?case using calc_step_total Suc.prems(2) by simp
qed


text \<open>
  Property C13: the calculation stores \<^verbatim>\<open>m\<close> in no boolean symbol and does not touch what the Kconfig
  files define, whichever symbol is calculated and however deep the calls go.
\<close>

theorem sym_calc_value_typed:
  assumes "sym_calc_value n s st = Some st'" "bool_values st"
  shows "bool_values st' \<and> static st' = static st"
  using typed.sym_calc_value_inv [of st st n s st'] assms by simp

section \<open>The example configuration\<close>

lemma ex_config_todo: "todo ex_config = {9, 10, 11}" "need ex_config = {}" "pending ex_config = 3"
proof -
  show t: "todo ex_config = {9, 10, 11}" "need ex_config = {}"
    by (auto simp: todo_def need_def ex_config_defs split: if_splits)
  show "pending ex_config = 3" by (simp add: pending_def t)
qed

lemma ex_config_wf: "calc_wf ex_config"
  unfolding calc_wf_def
proof (intro conjI allI impI)
  fix s
  show "\<forall>p\<in>set (for_all_properties ex_config s P_RANGE). range_syms (p_expr (props ex_config p)) \<noteq> None"
    by (auto simp: for_all_properties_def ex_config_defs split: if_splits)
qed (auto simp: ex_config_defs split: if_splits)

lemma ex_config_bool_values: "bool_values ex_config"
  by (auto simp: bool_values_def ex_config_defs)


theorem sym_calc_value_typed_witness:
  "\<exists>st'. sym_calc_value 4 10 ex_config = Some st' \<and> bool_values st' \<and> tri_of st' 10 = Mod"
proof -
  have "map_option (\<lambda>st. tri_of st 10) (sym_calc_value 4 10 ex_config) = Some Mod" by code_simp
  then obtain st' where "sym_calc_value 4 10 ex_config = Some st'" "tri_of st' 10 = Mod" by auto
  then show ?thesis using sym_calc_value_typed [OF _ ex_config_bool_values] by blast
qed

end
