(* ===== verification/Kconf_Calc_Sem.thy ===== *)
theory Kconf_Calc_Sem
  imports Kconf_Calc_Frame
begin

text \<open>
  The meaning of a configuration, stated without a calculation, and the first half of the proof that
  \<^verbatim>\<open>sym_calc_value\<close> computes it: expressions, conditions of properties, and visibility.
\<close>

section \<open>The meaning of a configuration\<close>

text \<open>
  The value of a symbol as the Kconfig language describes it, in terms of the values of the symbols
  that its conditions mention: the visibility is the maximum of the conditions of its prompts, the
  default is the first one whose condition is not \<^verbatim>\<open>n\<close>, the user's value counts if the symbol is
  visible, \<^verbatim>\<open>select\<close> raises the value, and a number is moved into the range that applies. \<open>st\<close> only
  serves to look up values; nothing is changed.
\<close>

definition sem_prompts :: "kstate \<Rightarrow> symid \<Rightarrow> tristate" where
  "sem_prompts st s = foldl (\<lambda>t p. max t (expr_val_opt st (ev_expr (p_visible (props st p))))) No (for_all_prompts st s)"

definition sem_visible :: "kstate \<Rightarrow> symid \<Rightarrow> tristate" where
  "sem_visible st s =
    (if sem_prompts st s = Mod \<and> (sym_type (syms st s) \<noteq> S_TRISTATE \<or> modules_val st = No) then Yes
     else sem_prompts st s)"

definition sem_type :: "kstate \<Rightarrow> symid \<Rightarrow> symbol_type" where
  "sem_type st s = (if sym_type (syms st s) = S_TRISTATE \<and> modules_val st = No then S_BOOLEAN else sym_type (syms st s))"

definition sem_rev :: "kstate \<Rightarrow> symid \<Rightarrow> tristate" where
  "sem_rev st s =
    (let r = (case ev_expr (rev_dep (syms st s)) of None \<Rightarrow> No | Some e \<Rightarrow> expr_val st e) in
     if r = Mod \<and> sem_type st s = S_BOOLEAN then Yes else r)"

definition sem_prop :: "kstate \<Rightarrow> symid \<Rightarrow> prop_type \<Rightarrow> propid option" where
  "sem_prop st s tok =
    List.find (\<lambda>p. expr_val_opt st (ev_expr (p_visible (props st p))) \<noteq> No) (for_all_properties st s tok)"

definition sem_user :: "kstate \<Rightarrow> symid \<Rightarrow> bool" where
  "sem_user st s \<longleftrightarrow> sem_visible st s \<noteq> No \<and> sym_has_value st s"

definition sem_own :: "kstate \<Rightarrow> symid \<Rightarrow> tristate" where
  "sem_own st s =
    (if sem_user st s then min (sv_tri (sdef (syms st s) S_DEF_USER)) (sem_visible st s)
     else case sem_prop st s P_DEFAULT of
            None \<Rightarrow> No
          | Some p \<Rightarrow> min (expr_val_opt st (p_expr (props st p))) (expr_val_opt st (ev_expr (p_visible (props st p)))))"

definition sem_tri :: "kstate \<Rightarrow> symid \<Rightarrow> tristate" where
  "sem_tri st s =
    (let v = max (sem_own st s) (sem_rev st s) in if v = Mod \<and> sem_type st s = S_BOOLEAN then Yes else v)"

definition sem_str :: "kstate \<Rightarrow> symid \<Rightarrow> cval" where
  "sem_str st s =
    (if sem_user st s then sv_val (sdef (syms st s) S_DEF_USER)
     else case Option.bind (sem_prop st s P_DEFAULT) (prop_get_symbol st) of
            None \<Rightarrow> VStr []
          | Some d \<Rightarrow> sv_val (curr (syms st d)))"

definition sem_bound :: "kstate \<Rightarrow> nat \<Rightarrow> symid \<Rightarrow> int" where
  "sem_bound st base s = strtoll (cstr (sv_val (curr (syms st s))))
     (case sym_type (syms st s) of S_INT \<Rightarrow> 10 | S_HEX \<Rightarrow> 16 | _ \<Rightarrow> base)"

definition sem_range :: "kstate \<Rightarrow> symid \<Rightarrow> cval \<Rightarrow> cval" where
  "sem_range st s v =
    (let ty = sym_type (syms st s); base = (if ty = S_INT then 10 else 16);
         print = (\<lambda>b. VStr (if ty = S_INT then print_lld b else print_0x_llx b)) in
     if ty \<noteq> S_INT \<and> ty \<noteq> S_HEX then v
     else case Option.bind (sem_prop st s P_RANGE) (\<lambda>p. range_syms (p_expr (props st p))) of
            None \<Rightarrow> v
          | Some (lo, hi) \<Rightarrow>
              let val = strtoll (cstr v) base in
              if val < sem_bound st base lo then print (sem_bound st base lo)
              else if val > sem_bound st base hi then print (sem_bound st base hi) else v)"

definition sem_curr :: "kstate \<Rightarrow> symid \<Rightarrow> symbol_value" where
  "sem_curr st s =
    (let ty = sym_type (syms st s) in
     if ty = S_UNKNOWN \<or> ty = S_OTHER
     then \<lparr>sv_val = (case sym_name (syms st s) of None \<Rightarrow> VNull | Some n \<Rightarrow> VStr n), sv_tri = No\<rparr>
     else if is_bool_type ty then \<lparr>sv_val = VStr ''n'', sv_tri = sem_tri st s\<rparr>
     else \<lparr>sv_val = sem_range st s (sem_str st s), sv_tri = No\<rparr>)"

text \<open>What the value of a symbol is calculated from.\<close>

definition vdeps :: "kstate \<Rightarrow> symid \<Rightarrow> symid set" where
  "vdeps st s =
    (if sym_type (syms st s) = S_UNKNOWN \<or> sym_type (syms st s) = S_OTHER then {} else
     opt_syms (ev_expr (dir_dep (syms st s))) \<union> opt_syms (ev_expr (rev_dep (syms st s))) \<union>
     (\<Union>p \<in> set (sym_prop (syms st s)). opt_syms (ev_expr (p_visible (props st p))) \<union> opt_syms (p_expr (props st p)) \<union>
       (case range_syms (p_expr (props st p)) of None \<Rightarrow> {} | Some (a, b) \<Rightarrow> {a, b})))"

definition val_edge :: "kstate \<Rightarrow> (symid \<times> symid) set" where
  "val_edge st = {(s, t). t \<in> vdeps st s}"

section \<open>Dependencies\<close>

lemma vdeps_static:
  assumes "static st' = static st"
  shows "vdeps st' s = vdeps st s"
  by (simp add: vdeps_def static_fields [OF assms])

lemma vdeps_prop:
  assumes "p \<in> set (sym_prop (syms st s))" "sym_type (syms st s) \<noteq> S_UNKNOWN" "sym_type (syms st s) \<noteq> S_OTHER"
  shows "opt_syms (ev_expr (p_visible (props st p))) \<subseteq> vdeps st s" "opt_syms (p_expr (props st p)) \<subseteq> vdeps st s"
    "range_syms (p_expr (props st p)) = Some (a, b) \<Longrightarrow> {a, b} \<subseteq> vdeps st s"
  using assms by (auto simp: vdeps_def intro!: bexI [of _ p])

lemma vdeps_sym:
  assumes "sym_type (syms st s) \<noteq> S_UNKNOWN" "sym_type (syms st s) \<noteq> S_OTHER"
  shows "opt_syms (ev_expr (dir_dep (syms st s))) \<subseteq> vdeps st s" "opt_syms (ev_expr (rev_dep (syms st s))) \<subseteq> vdeps st s"
  using assms by (auto simp: vdeps_def)

lemma for_all_subset:
  "set (for_all_properties st s ty) \<subseteq> set (sym_prop (syms st s))" "set (for_all_prompts st s) \<subseteq> set (sym_prop (syms st s))"
  by (auto simp: for_all_properties_def for_all_prompts_def)

section \<open>What a calculation keeps\<close>

definition valid :: "kstate \<Rightarrow> symid set" where
  "valid st = {s. has_flag st s SYMBOL_VALID}"

definition users :: "kstate \<Rightarrow> symid \<Rightarrow> (def_index \<Rightarrow> symbol_value) \<times> bool" where
  "users st s = (sdef (syms st s), sym_has_value st s)"

text \<open>
  What the calculation of a symbol does not change: the configuration, the user's values, the
  symbols already calculated and their properties, apart from the symbols in \<open>X\<close>.
\<close>

definition kept :: "symid set \<Rightarrow> kstate \<Rightarrow> kstate \<Rightarrow> bool" where
  "kept X st st' \<longleftrightarrow> static st' = static st \<and> modules_val st' = modules_val st \<and> users st' = users st \<and>
    need st' \<subseteq> need st \<and> valid st \<subseteq> valid st' \<and> (\<forall>t \<in> valid st - X. syms st' t = syms st t) \<and>
    (\<forall>p t. p_sym (props st p) = Some t \<and> t \<in> valid st - X \<longrightarrow> props st' p = props st p)"

lemma static_p_sym: "static st' = static st \<Longrightarrow> p_sym (props st' p) = p_sym (props st p)"
proof -
  have "p_sym (props (static st) p) = p_sym (props st p)" for st
    by (simp add: static_def static_property_def)
  then show "static st' = static st \<Longrightarrow> p_sym (props st' p) = p_sym (props st p)" by metis
qed

lemma kept_refl [simp]: "kept X st st"
  by (simp add: kept_def)

lemma kept_trans:
  assumes "kept X st st1" "kept X st1 st2"
  shows "kept X st st2"
proof -
  have p: "p_sym (props st1 p) = p_sym (props st p)" for p
    by (rule static_p_sym) (use assms(1) in \<open>simp add: kept_def\<close>)
  have v: "valid st \<subseteq> valid st1" using assms(1) by (simp add: kept_def)
  have "syms st2 t = syms st t" if "t \<in> valid st - X" for t
    using assms v that by (simp add: kept_def subset_iff)
  moreover have "props st2 q = props st q" if "p_sym (props st q) = Some t" "t \<in> valid st - X" for q t
    using assms v that p by (simp add: kept_def subset_iff)
  ultimately show ?thesis using assms unfolding kept_def by auto
qed

lemma kept_mono: "kept X st st' \<Longrightarrow> X \<subseteq> Y \<Longrightarrow> kept Y st st'"
  unfolding kept_def by blast

lemma kept_fresh:
  assumes "kept (insert s X) st st'" "s \<notin> valid st"
  shows "kept X st st'"
  using assms unfolding kept_def by blast

lemma kept_fields:
  assumes "kept X st st'"
  shows "static st' = static st" "modules_val st' = modules_val st" "sym_has_value st' t \<longleftrightarrow> sym_has_value st t"
    "sdef (syms st' t) = sdef (syms st t)" "valid st \<subseteq> valid st'" "need st' \<subseteq> need st"
    "t \<in> valid st \<Longrightarrow> t \<notin> X \<Longrightarrow> syms st' t = syms st t"
proof -
  have "users st' t = users st t" using assms by (simp add: kept_def)
  then show "sym_has_value st' t \<longleftrightarrow> sym_has_value st t" "sdef (syms st' t) = sdef (syms st t)"
    by (simp_all add: users_def)
qed (use assms in \<open>auto simp: kept_def\<close>)

text \<open>
  The stored value and visibility of a symbol are those the configuration means.
\<close>

definition calculated :: "kstate \<Rightarrow> symid \<Rightarrow> bool" where
  "calculated st s \<longleftrightarrow> curr (syms st s) = sem_curr st s \<and>
    (sym_type (syms st s) \<noteq> S_UNKNOWN \<and> sym_type (syms st s) \<noteq> S_OTHER \<longrightarrow> visible (syms st s) = sem_visible st s)"

text \<open>
  A fact that holds in all later states, while the symbols in \<open>P\<close> are being calculated.
\<close>

definition stays :: "symid set \<Rightarrow> kstate \<Rightarrow> (kstate \<Rightarrow> bool) \<Rightarrow> bool" where
  "stays P st \<phi> \<longleftrightarrow> (\<forall>st'. kept P st st' \<longrightarrow> \<phi> st')"

lemma stays_kept: "stays P st \<phi> \<Longrightarrow> kept P st st' \<Longrightarrow> stays P st' \<phi>"
  by (auto simp: stays_def intro: kept_trans)

lemma stays_now: "stays P st \<phi> \<Longrightarrow> \<phi> st"
  by (simp add: stays_def)

text \<open>
  Configurations without choices in which every property belongs to one symbol and no value depends
  on itself. \<open>going\<close> is the invariant of the calculation: \<open>V0\<close> are the symbols whose values were
  given, \<open>P\<close> those whose calculation has begun, and all other calculated symbols have, and will keep,
  the values the configuration means. As in \<^verbatim>\<open>sym_clear_all_valid\<close>, the modules symbol is
  calculated first.
\<close>

definition calc_plain :: "kstate \<Rightarrow> bool" where
  "calc_plain st \<longleftrightarrow> (\<forall>s. \<not> sym_is_choice st s \<and> \<not> sym_is_choice_value st s) \<and>
    (\<forall>s. \<forall>p \<in> set (sym_prop (syms st s)). p_sym (props st p) = Some s) \<and> acyclic (val_edge st)"

definition going :: "symid set \<Rightarrow> symid set \<Rightarrow> kstate \<Rightarrow> bool" where
  "going V0 P st \<longleftrightarrow> calc_plain st \<and> need st = {} \<and> P \<subseteq> valid st \<and>
    (\<forall>t \<in> valid st - P - V0. stays P st (\<lambda>st'. calculated st' t)) \<and>
    (\<exists>m. modules_sym st = Some m \<and> m \<in> valid st - P)"

lemma calc_plain_static:
  assumes "static st' = static st"
  shows "calc_plain st' = calc_plain st"
  unfolding calc_plain_def static_reads(6,7) [OF assms] static_fields(2) [OF assms] static_p_sym [OF assms] val_edge_def
    vdeps_static [OF assms] by simp

lemma going_kept:
  assumes "going V0 P st" "kept P st st'" "valid st' = valid st"
  shows "going V0 P st'"
  using assms(1,3) kept_fields(6) [OF assms(2)] calc_plain_static [OF kept_fields(1) [OF assms(2)]]
    static_fields(10) [OF kept_fields(1) [OF assms(2)]] stays_kept [OF _ assms(2)]
  by (auto simp: going_def)

definition reach :: "kstate \<Rightarrow> symid \<Rightarrow> symid set" where
  "reach st s = (val_edge st)\<^sup>* `` {s}"

text \<open>
  The contract of \<^verbatim>\<open>sym_calc_value\<close>, and the situation inside the calculation of \<open>s\<close>: the symbols it
  depends on do not lead back to a symbol whose calculation has begun.
\<close>

definition calls :: "symid set \<Rightarrow> calc \<Rightarrow> bool" where
  "calls V0 scv \<longleftrightarrow> (\<forall>P t st. going V0 P st \<longrightarrow> t \<in> valid st - P \<or> reach st t \<inter> P = {} \<longrightarrow>
    run True (scv t st) (\<lambda>st'. kept {} st st' \<and> going V0 P st' \<and> t \<in> valid st'))"

definition inner :: "symid set \<Rightarrow> symid set \<Rightarrow> symid \<Rightarrow> kstate \<Rightarrow> bool" where
  "inner V0 P s st \<longleftrightarrow> going V0 P st \<and> s \<in> P \<and> (\<forall>t \<in> vdeps st s. reach st t \<inter> P = {})"

lemma inner_kept: "inner V0 P s st \<Longrightarrow> kept P st st' \<Longrightarrow> going V0 P st' \<Longrightarrow> inner V0 P s st'"
  using vdeps_static [of st' st] by (auto simp: inner_def reach_def val_edge_def kept_def)

lemma kept_any: "kept {} st st' \<Longrightarrow> kept P st st'"
  by (erule kept_mono) simp

lemma call_dep:
  assumes "calls V0 scv" "inner V0 P s st" "t \<in> vdeps st s \<or> modules_sym st = Some t"
  shows "run True (scv t st) (\<lambda>st'. kept {} st st' \<and> inner V0 P s st' \<and> t \<in> valid st' - P)"
proof -
  have g: "going V0 P st" using assms(2) by (simp add: inner_def)
  have t: "t \<in> valid st - P \<or> reach st t \<inter> P = {}" "t \<notin> P"
    using assms(2,3) by (auto simp: inner_def going_def reach_def)
  have "run True (scv t st) (\<lambda>st'. kept {} st st' \<and> going V0 P st' \<and> t \<in> valid st')"
    using assms(1) g t(1) by (auto simp: calls_def)
  then show ?thesis by (rule run_mono) (simp add: inner_kept [OF assms(2) kept_any] t(2))
qed

lemma kept_modules_on:
  assumes "kept P st st'" "going V0 P st"
  shows "modules_on st' = modules_on st"
proof -
  obtain m where m: "modules_sym st = Some m" "m \<in> valid st - P" using assms(2) by (auto simp: going_def)
  then show ?thesis
    using kept_fields(7) [OF assms(1)] static_fields(10) [OF kept_fields(1) [OF assms(1)]] by (simp add: modules_on_def)
qed

lemma stays_sym:
  assumes "going V0 P st" "t \<in> valid st - P"
  shows "stays P st (\<lambda>st'. curr (syms st' t) = curr (syms st t) \<and> sym_str st' t = sym_str st t)"
proof -
  have "sym_str st' t = sym_str st t \<and> syms st' t = syms st t" if "kept P st st'" for st'
    using that assms kept_modules_on [OF that assms(1)] kept_fields(7) [OF that] by (simp add: sym_str_def)
  then show ?thesis unfolding stays_def by metis
qed

section \<open>Expressions\<close>

text \<open>A value that a part of the calculation returns, and that it has in all later states.\<close>

definition value_of :: "symid set \<Rightarrow> symid set \<Rightarrow> symid \<Rightarrow> kstate \<Rightarrow> (kstate \<Rightarrow> 'a) \<Rightarrow> 'a \<times> kstate \<Rightarrow> bool" where
  "value_of V0 P s st f = (\<lambda>(v, st'). kept {} st st' \<and> inner V0 P s st' \<and> stays P st' (\<lambda>st''. f st'' = v))"

lemma stays_mono: "stays P st \<phi> \<Longrightarrow> (\<And>st'. \<phi> st' \<Longrightarrow> \<psi> st') \<Longrightarrow> stays P st \<psi>"
  by (simp add: stays_def)

lemma stays_conj: "stays P st (\<lambda>st'. \<phi> st' \<and> \<psi> st') \<longleftrightarrow> stays P st \<phi> \<and> stays P st \<psi>"
  by (auto simp: stays_def)

lemma value_of_bind:
  assumes "run True m (value_of V0 P s st f)"
    and "\<And>v st1. kept {} st st1 \<Longrightarrow> inner V0 P s st1 \<Longrightarrow> stays P st1 (\<lambda>st''. f st'' = v) \<Longrightarrow>
      run True (k v st1) (value_of V0 P s st1 (\<lambda>st''. g st'' v))"
  shows "run True (Option.bind m (\<lambda>(v, st1). k v st1)) (value_of V0 P s st (\<lambda>st''. g st'' (f st'')))"
proof -
  have "run True (k v st1) (value_of V0 P s st (\<lambda>st''. g st'' (f st'')))"
    if a: "kept {} st st1" "inner V0 P s st1" "stays P st1 (\<lambda>st''. f st'' = v)" for v st1
    using assms(2) [OF a]
  proof (rule run_mono)
    fix x assume "value_of V0 P s st1 (\<lambda>st''. g st'' v) x"
    then show "value_of V0 P s st (\<lambda>st''. g st'' (f st'')) x"
      using a(1) kept_trans [OF a(1)] stays_kept [OF a(3) kept_any]
      by (auto simp: value_of_def stays_def)
  qed
  then show ?thesis
    using assms(1) by (auto simp: value_of_def elim!: run_mono)
qed

lemma value_of_return:
  "inner V0 P s st \<Longrightarrow> stays P st (\<lambda>st''. f st'' = v) \<Longrightarrow> run True (Some (v, st)) (value_of V0 P s st f)"
  by (simp add: value_of_def)

lemma inner_going: "inner V0 P s st \<Longrightarrow> going V0 P st"
  by (simp add: inner_def)

lemma string_value:
  assumes "calls V0 scv" "inner V0 P s st" "t \<in> valid st - P"
  shows "run True (sym_get_string_value scv t st) (value_of V0 P s st (\<lambda>st'. sym_str st' t))"
proof -
  note g = inner_going [OF assms(2)]
  have str: "stays P st (\<lambda>st'. sym_str st' t = sym_str st t)" using stays_sym [OF g assms(3)] by (simp add: stays_conj)
  obtain m where m: "modules_sym st = Some m" "m \<in> valid st - P" using g by (auto simp: going_def)
  show ?thesis
  proof (cases "is_bool_type (sym_type (syms st t)) \<and> tri_of st t = Mod")
    case True
    have "run True (scv m st) (\<lambda>st'. value_of V0 P s st (\<lambda>st'. sym_str st' t) (if tri_of st' m = No then ''n'' else ''m'', st'))"
    proof (rule run_mono [OF call_dep [OF assms(1,2) disjI2 [OF m(1)]]])
      fix st' assume k: "kept {} st st' \<and> inner V0 P s st' \<and> m \<in> valid st' - P"
      then have "(if tri_of st' m = No then ''n'' else ''m'') = sym_str st t"
        using True m kept_fields(7) [of "{}" st st' m] by (simp add: sym_str_def modules_on_def)
      then show "value_of V0 P s st (\<lambda>st'. sym_str st' t) (if tri_of st' m = No then ''n'' else ''m'', st')"
        using k stays_kept [OF str kept_any] by (simp add: value_of_def)
    qed
    then show ?thesis using True m by (simp add: sym_get_string_value_def)
  next
    case False
    then have "sym_get_string_value scv t st = Some (sym_str st t, st)"
      by (auto simp: sym_get_string_value_def sym_str_def split: tristate.splits)
    then show ?thesis using value_of_return [OF assms(2) str] by simp
  qed
qed

lemma value_of_from:
  "kept {} st st1 \<Longrightarrow> run True m (value_of V0 P s st1 f) \<Longrightarrow> run True m (value_of V0 P s st f)"
  by (erule run_mono) (auto simp: value_of_def intro: kept_trans)

lemma value_of_call:
  assumes "calls V0 scv" "inner V0 P s st" "t \<in> vdeps st s"
    and "\<And>st1. kept {} st st1 \<Longrightarrow> inner V0 P s st1 \<Longrightarrow> t \<in> valid st1 - P \<Longrightarrow> run True (k st1) (value_of V0 P s st1 f)"
  shows "run True (Option.bind (scv t st) k) (value_of V0 P s st f)"
  unfolding run_bind
  by (rule run_mono [OF call_dep [OF assms(1,2) disjI1 [OF assms(3)]]]) (use assms(4) value_of_from in blast)

lemma kept_vdeps: "kept X st st' \<Longrightarrow> vdeps st' s = vdeps st s"
  by (rule vdeps_static) (simp add: kept_def)

lemma kept_valid: "kept {} st st' \<Longrightarrow> t \<in> valid st - P \<Longrightarrow> t \<in> valid st' - P"
  by (auto simp: kept_def)

lemma strcmp_value:
  assumes "calls V0 scv" "inner V0 P s st" "{a, b} \<subseteq> vdeps st s"
  shows "run True (calc_strcmp scv a b st) (value_of V0 P s st (\<lambda>st'. sym_str st' a = sym_str st' b))"
  unfolding calc_strcmp_def
proof (rule value_of_call [OF assms(1,2)], goal_cases)
  case (2 st1)
  show ?case
  proof (rule value_of_call [OF assms(1) 2(2)], goal_cases)
    case 1
    then show ?case using assms(3) kept_vdeps [OF 2(1)] by simp
  next
    case (2 st2)
    have a: "a \<in> valid st2 - P" using kept_valid [OF 2(1)] \<open>a \<in> valid st1 - P\<close> by simp
    show ?case
    proof (rule value_of_bind [OF string_value [OF assms(1) 2(2) a]], goal_cases)
      case (1 str1 st3)
      show ?case
        by (rule value_of_bind [OF string_value [OF assms(1) 1(2) kept_valid [OF 1(1) 2(3)]]])
          (auto simp: value_of_def stays_def)
    qed
  qed
qed (use assms(3) in simp)

lemma expr_value:
  assumes "calls V0 scv"
  shows "inner V0 P s st \<Longrightarrow> expr_syms e \<subseteq> vdeps st s \<Longrightarrow>
    run True (calc_expr scv e st) (value_of V0 P s st (\<lambda>st'. expr_val st' e))"
proof (induction e arbitrary: st)
  case (XOr l r)
  show ?case
    unfolding calc_expr.simps expr_val.simps
  proof (rule value_of_bind [OF XOr.IH(1)], goal_cases)
    case (3 v st1)
    then show ?case using XOr.prems kept_vdeps [OF 3(1)]
      by (intro value_of_bind [OF XOr.IH(2)]) (auto simp: value_of_def stays_def)
  qed (use XOr.prems in auto)
next
  case (XAnd l r)
  show ?case
    unfolding calc_expr.simps expr_val.simps
  proof (rule value_of_bind [OF XAnd.IH(1)], goal_cases)
    case (3 v st1)
    then show ?case using XAnd.prems kept_vdeps [OF 3(1)]
      by (intro value_of_bind [OF XAnd.IH(2)]) (auto simp: value_of_def stays_def)
  qed (use XAnd.prems in auto)
next
  case (XNot a)
  then show ?case
    by (auto intro!: value_of_bind [OF XNot.IH, where g = "\<lambda>_ v. EXPR_NOT v"] value_of_return simp: stays_def simp del: run_bind)
next
  case (XEqual a b)
  then show ?case
    by (auto intro!: value_of_bind [OF strcmp_value [OF assms], where g = "\<lambda>_ v. tri_bool v"] value_of_return
        simp: stays_def simp del: run_bind)
next
  case (XUnequal a b)
  then show ?case
    by (auto intro!: value_of_bind [OF strcmp_value [OF assms], where g = "\<lambda>_ v. tri_bool (\<not> v)"] value_of_return
        simp: stays_def simp del: run_bind)
next
  case (XSymbol t)
  have r: "run True (Some (tri_of st1 t, st1)) (value_of V0 P s st1 (\<lambda>st'. tri_of st' t))"
    if "inner V0 P s st1" "t \<in> valid st1 - P" for st1
    by (rule value_of_return [OF that(1)], rule stays_mono [OF stays_sym [OF inner_going [OF that(1)] that(2)]]) simp
  show ?case unfolding calc_expr.simps expr_val.simps
    by (rule value_of_call [OF assms XSymbol(1) _ r]) (use XSymbol(2) in simp_all)
qed (auto simp: value_of_def stays_def)

lemma expr_calc_value_value:
  "calls V0 scv \<Longrightarrow> inner V0 P s st \<Longrightarrow> opt_syms e \<subseteq> vdeps st s \<Longrightarrow>
    run True (expr_calc_value scv e st) (value_of V0 P s st (\<lambda>st'. expr_val_opt st' e))"
  by (cases e) (simp_all add: expr_value value_of_return [unfolded run_simps] stays_def)

section \<open>Properties\<close>

abbreviation cond_val :: "kstate \<Rightarrow> propid \<Rightarrow> tristate" where
  "cond_val st p \<equiv> expr_val_opt st (ev_expr (p_visible (props st p)))"

text \<open>
  Calculating a condition changes nothing of the symbol itself; only the property remembers its
  value.
\<close>

definition went :: "symid set \<Rightarrow> symid set \<Rightarrow> symid \<Rightarrow> kstate \<Rightarrow> kstate \<Rightarrow> bool" where
  "went V0 P s st st' \<longleftrightarrow> kept {s} st st' \<and> inner V0 P s st' \<and> syms st' s = syms st s"

lemma went_trans: "went V0 P s st st1 \<Longrightarrow> went V0 P s st1 st2 \<Longrightarrow> went V0 P s st st2"
  by (auto simp: went_def intro: kept_trans)

lemma went_refl: "inner V0 P s st \<Longrightarrow> went V0 P s st st"
  by (simp add: went_def)

lemma inner_own: "inner V0 P s st \<Longrightarrow> s \<in> P \<and> s \<in> valid st"
  by (auto simp: inner_def going_def)

lemma kept_own: "kept {s} st st' \<Longrightarrow> inner V0 P s st \<Longrightarrow> kept P st st'"
  by (erule kept_mono) (simp add: inner_def)

lemma kept_went: "kept {} st st' \<Longrightarrow> inner V0 P s st \<Longrightarrow> inner V0 P s st' \<Longrightarrow> went V0 P s st st'"
  using inner_own [of V0 P s st] by (auto simp: went_def kept_any dest: kept_fields(7))

lemma own_update:
  assumes "inner V0 P s st" "kept {s} st st'" "valid st' = valid st"
  shows "inner V0 P s st'"
  using inner_kept [OF assms(1) kept_own [OF assms(2,1)] going_kept [OF inner_going [OF assms(1)] kept_own [OF assms(2,1)] assms(3)]] .

lemma kept_upd_prop:
  assumes "p_sym (props st p) = Some s" "static_property (f (props st p)) = static_property (props st p)"
  shows "kept {s} st (upd_prop p f st)"
  using assms by (auto simp: kept_def users_def fun_eq_iff need_def valid_def)

abbreviation known :: "kstate \<Rightarrow> symid \<Rightarrow> bool" where
  "known st s \<equiv> sym_type (syms st s) \<noteq> S_UNKNOWN \<and> sym_type (syms st s) \<noteq> S_OTHER"

lemma prop_visible_value:
  assumes "calls V0 scv" "inner V0 P s st" "known st s" "p \<in> set (sym_prop (syms st s))"
  shows "run True (calc_prop_visible scv p st) (\<lambda>(v, st'). went V0 P s st st' \<and>
    stays P st' (\<lambda>st''. cond_val st'' p = v) \<and> ev_tri (p_visible (props st' p)) = v)"
  unfolding calc_prop_visible_def run_bind
proof (rule run_mono [OF expr_calc_value_value [OF assms(1,2)]])
  show "opt_syms (ev_expr (p_visible (props st p))) \<subseteq> vdeps st s" using vdeps_prop(1) assms(3,4) by simp
next
  fix x assume "value_of V0 P s st (\<lambda>st'. expr_val_opt st' (ev_expr (p_visible (props st p)))) x"
  then obtain v st1 where x: "x = (v, st1)" "kept {} st st1" "inner V0 P s st1"
    "stays P st1 (\<lambda>st''. expr_val_opt st'' (ev_expr (p_visible (props st p))) = v)" by (auto simp: value_of_def)
  let ?f = "\<lambda>pr. pr\<lparr>p_visible := (p_visible pr)\<lparr>ev_tri := v\<rparr>\<rparr>" and ?st2 = "upd_prop p (\<lambda>pr. pr\<lparr>p_visible := (p_visible pr)\<lparr>ev_tri := v\<rparr>\<rparr>) st1"
  have "p_sym (props st1 p) = Some s"
    using assms(2,4) static_p_sym [OF kept_fields(1) [OF x(2)]] by (auto simp: inner_def going_def calc_plain_def)
  then have k: "kept {s} st1 ?st2" by (rule kept_upd_prop) (simp add: static_property_def)
  have i2: "inner V0 P s ?st2" by (rule own_update [OF x(3) k]) (simp add: valid_def)
  have w: "went V0 P s st ?st2"
    by (rule went_trans [OF kept_went [OF x(2) assms(2) x(3)]]) (simp add: went_def k i2)
  have e: "ev_expr (p_visible (props st'' p)) = ev_expr (p_visible (props st p))" if "kept P ?st2 st''" for st''
    by (rule static_fields(9)) (use kept_fields(1) [OF that] kept_fields(1) [OF k] kept_fields(1) [OF x(2)] in simp)
  have "stays P ?st2 (\<lambda>st''. cond_val st'' p = v)"
    using stays_kept [OF x(4) kept_own [OF k x(3)]] unfolding stays_def by (simp add: e)
  then show "run True (case x of (tri, st1) \<Rightarrow> Some (tri, upd_prop p (\<lambda>pr. pr\<lparr>p_visible := (p_visible pr)\<lparr>ev_tri := tri\<rparr>\<rparr>) st1))
    (\<lambda>(v, st'). went V0 P s st st' \<and> stays P st' (\<lambda>st''. cond_val st'' p = v) \<and> ev_tri (p_visible (props st' p)) = v)"
    using w by (simp add: x(1))
qed

lemma went_fields:
  assumes "went V0 P s st st'"
  shows "inner V0 P s st'" "syms st' s = syms st s" "static st' = static st" "sym_type (syms st' t) = sym_type (syms st t)"
    "kept {s} st st'"
  using assms static_fields(1) [of st' st] by (auto simp: went_def kept_def)

lemma went_kept: "went V0 P s st st' \<Longrightarrow> inner V0 P s st \<Longrightarrow> kept P st st'"
  by (auto simp: went_def intro: kept_own)

lemma prompts_visible_value:
  assumes "calls V0 scv"
  shows "inner V0 P s st \<Longrightarrow> known st s \<Longrightarrow> set ps \<subseteq> set (sym_prop (syms st s)) \<Longrightarrow>
    run True (prompts_visible scv ps t st) (\<lambda>(v, st'). went V0 P s st st' \<and>
      stays P st' (\<lambda>st''. foldl (\<lambda>t p. max t (cond_val st'' p)) t ps = v))"
proof (induction ps arbitrary: t st)
  case Nil
  then show ?case by (simp add: went_refl stays_def)
next
  case (Cons p ps)
  show ?case
    unfolding prompts_visible.simps run_bind
  proof (rule run_mono [OF prop_visible_value [OF assms Cons.prems(1,2), of p]], goal_cases)
    case (2 x)
    obtain v st1 where x: "x = (v, st1)" "went V0 P s st st1" "stays P st1 (\<lambda>st''. cond_val st'' p = v)"
      using 2 by (cases x) auto
    note w = went_fields [OF x(2)]
    have "run True (prompts_visible scv ps (EXPR_OR t v) st1) (\<lambda>(v', st'). went V0 P s st1 st' \<and>
        stays P st' (\<lambda>st''. foldl (\<lambda>t p. max t (cond_val st'' p)) (EXPR_OR t v) ps = v'))"
      using Cons.IH [OF w(1)] Cons.prems(2,3) w(2) by simp
    then have "run True (prompts_visible scv ps (EXPR_OR t v) st1) (\<lambda>(v', st'). went V0 P s st st' \<and>
        stays P st' (\<lambda>st''. foldl (\<lambda>t p. max t (cond_val st'' p)) t (p # ps) = v'))"
    proof (rule run_mono)
      fix y assume "case y of (v', st') \<Rightarrow> went V0 P s st1 st' \<and>
        stays P st' (\<lambda>st''. foldl (\<lambda>t p. max t (cond_val st'' p)) (EXPR_OR t v) ps = v')"
      then obtain v' st' where y: "y = (v', st')" "went V0 P s st1 st'"
        "stays P st' (\<lambda>st''. foldl (\<lambda>t p. max t (cond_val st'' p)) (EXPR_OR t v) ps = v')" by (cases y) auto
      have "stays P st' (\<lambda>st''. cond_val st'' p = v)" using stays_kept [OF x(3) went_kept [OF y(2) w(1)]] .
      then show "case y of (v', st') \<Rightarrow> went V0 P s st st' \<and>
        stays P st' (\<lambda>st''. foldl (\<lambda>t p. max t (cond_val st'' p)) t (p # ps) = v')"
        using y went_trans [OF x(2)] by (auto simp: stays_def EXPR_OR_max)
    qed
    then show ?case by (simp add: x(1))
  qed (use Cons.prems(3) in simp)
qed

lemma first_visible_value:
  assumes "calls V0 scv"
  shows "inner V0 P s st \<Longrightarrow> known st s \<Longrightarrow> set ps \<subseteq> set (sym_prop (syms st s)) \<Longrightarrow>
    run True (first_visible scv ps st) (\<lambda>(r, st'). went V0 P s st st' \<and>
      stays P st' (\<lambda>st''. List.find (\<lambda>p. cond_val st'' p \<noteq> No) ps = r) \<and>
      (\<forall>p. r = Some p \<longrightarrow> stays P st' (\<lambda>st''. cond_val st'' p = ev_tri (p_visible (props st' p)))))"
proof (induction ps arbitrary: st)
  case Nil
  then show ?case by (simp add: went_refl stays_def)
next
  case (Cons p ps)
  show ?case
    unfolding first_visible.simps run_bind
  proof (rule run_mono [OF prop_visible_value [OF assms Cons.prems(1,2), of p]], goal_cases)
    case (2 x)
    obtain v st1 where x: "x = (v, st1)" "went V0 P s st st1" "stays P st1 (\<lambda>st''. cond_val st'' p = v)"
      "ev_tri (p_visible (props st1 p)) = v"
      using 2 by (cases x) auto
    note w = went_fields [OF x(2)]
    show ?case
    proof (cases "v = No")
      case False
      then show ?thesis using x by (auto simp: stays_def)
    next
      case True
      have "run True (first_visible scv ps st1) (\<lambda>(r, st'). went V0 P s st1 st' \<and>
          stays P st' (\<lambda>st''. List.find (\<lambda>p. cond_val st'' p \<noteq> No) ps = r) \<and>
          (\<forall>p. r = Some p \<longrightarrow> stays P st' (\<lambda>st''. cond_val st'' p = ev_tri (p_visible (props st' p)))))"
        using Cons.IH [OF w(1)] Cons.prems(2,3) w(2) by simp
      then have "run True (first_visible scv ps st1) (\<lambda>(r, st'). went V0 P s st st' \<and>
          stays P st' (\<lambda>st''. List.find (\<lambda>p. cond_val st'' p \<noteq> No) (p # ps) = r) \<and>
          (\<forall>p. r = Some p \<longrightarrow> stays P st' (\<lambda>st''. cond_val st'' p = ev_tri (p_visible (props st' p)))))"
      proof (rule run_mono)
        fix y assume "case y of (r, st') \<Rightarrow> went V0 P s st1 st' \<and>
          stays P st' (\<lambda>st''. List.find (\<lambda>p. cond_val st'' p \<noteq> No) ps = r) \<and>
          (\<forall>p. r = Some p \<longrightarrow> stays P st' (\<lambda>st''. cond_val st'' p = ev_tri (p_visible (props st' p))))"
        then obtain r st' where y: "y = (r, st')" "went V0 P s st1 st'"
          "stays P st' (\<lambda>st''. List.find (\<lambda>p. cond_val st'' p \<noteq> No) ps = r)"
          "\<forall>p. r = Some p \<longrightarrow> stays P st' (\<lambda>st''. cond_val st'' p = ev_tri (p_visible (props st' p)))" by (cases y) auto
        have "stays P st' (\<lambda>st''. cond_val st'' p = No)" using stays_kept [OF x(3) went_kept [OF y(2) w(1)]] True by simp
        then have "stays P st' (\<lambda>st''. List.find (\<lambda>p. cond_val st'' p \<noteq> No) (p # ps) = r)"
          using y(3) by (simp add: stays_def)
        then show "case y of (r, st') \<Rightarrow> went V0 P s st st' \<and>
          stays P st' (\<lambda>st''. List.find (\<lambda>p. cond_val st'' p \<noteq> No) (p # ps) = r) \<and>
          (\<forall>p. r = Some p \<longrightarrow> stays P st' (\<lambda>st''. cond_val st'' p = ev_tri (p_visible (props st' p))))"
          using y went_trans [OF x(2) y(2)] by simp
      qed
      then show ?thesis using True by (simp add: x(1))
    qed
  qed (use Cons.prems(3) in simp)
qed

section \<open>Updates of the symbol itself\<close>

text \<open>
  Steps that also change the symbol whose value is being calculated.
\<close>

definition moved :: "symid set \<Rightarrow> symid set \<Rightarrow> symid \<Rightarrow> kstate \<Rightarrow> kstate \<Rightarrow> bool" where
  "moved V0 P s st st' \<longleftrightarrow> kept {s} st st' \<and> inner V0 P s st'"

lemma moved_trans: "moved V0 P s st st1 \<Longrightarrow> moved V0 P s st1 st2 \<Longrightarrow> moved V0 P s st st2"
  by (auto simp: moved_def intro: kept_trans)

lemma went_moved: "went V0 P s st st' \<Longrightarrow> moved V0 P s st st'"
  by (simp add: went_def moved_def)

lemma moved_stays: "stays P st \<phi> \<Longrightarrow> moved V0 P s st st' \<Longrightarrow> stays P st' \<phi>"
  by (rule stays_kept) (auto simp: moved_def intro: kept_mono dest: inner_own)

lemma moved_fields:
  assumes "moved V0 P s st st'"
  shows "inner V0 P s st'" "static st' = static st" "sym_type (syms st' t) = sym_type (syms st t)"
    "modules_val st' = modules_val st" "sym_prop (syms st' t) = sym_prop (syms st t)"
    "sym_has_value st' t \<longleftrightarrow> sym_has_value st t" "sdef (syms st' t) = sdef (syms st t)"
proof -
  have k: "kept {s} st st'" using assms by (simp add: moved_def)
  show "inner V0 P s st'" "static st' = static st" "sym_type (syms st' t) = sym_type (syms st t)"
    "modules_val st' = modules_val st" "sym_prop (syms st' t) = sym_prop (syms st t)"
    "sym_has_value st' t \<longleftrightarrow> sym_has_value st t" "sdef (syms st' t) = sdef (syms st t)"
    using assms kept_fields [OF k] static_fields(1,2) [OF kept_fields(1) [OF k]] by (simp_all add: moved_def)
qed

lemma moved_upd_sym:
  assumes "inner V0 P s st" "static_symbol (f (syms st s)) = static_symbol (syms st s)" "sdef (f (syms st s)) = sdef (syms st s)"
    "\<And>x. x \<in> {SYMBOL_DEF_USER, SYMBOL_VALID, SYMBOL_NEED_SET_CHOICE_VALUES} \<Longrightarrow> x \<in> flags (f (syms st s)) \<longleftrightarrow> x \<in> flags (syms st s)"
  shows "moved V0 P s st (upd_sym s f st)"
proof -
  have v: "valid (upd_sym s f st) = valid st" using assms(4) by (auto simp: valid_def)
  have "kept {s} st (upd_sym s f st)"
    using assms(2-4) v by (auto simp: kept_def users_def fun_eq_iff need_def)
  then show ?thesis using own_update [OF assms(1) _ v] by (simp add: moved_def)
qed

lemma moved_upd_menu:
  assumes "inner V0 P s st" "static_menu (f (menus st m)) = static_menu (menus st m)"
  shows "moved V0 P s st (upd_menu m f st)"
proof -
  have "kept {s} st (upd_menu m f st)" using assms(2) by (simp add: kept_def users_def fun_eq_iff need_def valid_def)
  then show ?thesis using own_update [OF assms(1), of "upd_menu m f st"] by (simp add: moved_def valid_def)
qed

lemma moved_refl: "inner V0 P s st \<Longrightarrow> moved V0 P s st st"
  by (simp add: moved_def)

lemma moved_flags:
  "inner V0 P s st \<Longrightarrow> fs \<subseteq> {SYMBOL_WRITE, SYMBOL_CHANGED} \<Longrightarrow> moved V0 P s st (set_flag s fs st)"
  "inner V0 P s st \<Longrightarrow> fs \<subseteq> {SYMBOL_WRITE, SYMBOL_CHANGED} \<Longrightarrow> moved V0 P s st (clear_flag s fs st)"
  unfolding set_flag_def clear_flag_def
  by (rule moved_upd_sym; auto intro!: static_symbol_flags simp: dynamic_flags_def)+

lemma moved_changed:
  assumes "inner V0 P s st"
  shows "moved V0 P s st (sym_set_changed s st)" "curr (syms (sym_set_changed s st) s) = curr (syms st s)"
proof -
  have step: "moved V0 P s st (upd_menu m (\<lambda>mn. mn\<lparr>m_flags := insert MENU_CHANGED (m_flags mn)\<rparr>) x)"
    if "moved V0 P s st x" for m x
    by (rule moved_trans [OF that moved_upd_menu [OF moved_fields(1) [OF that]]]) (simp add: static_menu_def)
  have "moved V0 P s st (fold (\<lambda>p st. case p_menu (props st p) of
                   None \<Rightarrow> st
                 | Some m \<Rightarrow> upd_menu m (\<lambda>mn. mn\<lparr>m_flags := insert MENU_CHANGED (m_flags mn)\<rparr>) st) ps st1)"
    if "moved V0 P s st st1" for ps st1
    by (rule fold_closed [where Q = "moved V0 P s st"]) (auto simp: that step split: option.split)
  then show "moved V0 P s st (sym_set_changed s st)"
    unfolding sym_set_changed_def using moved_flags(1) [OF assms] by blast
qed simp

lemma moved_change:
  assumes "inner V0 P s st"
  shows "moved V0 P s st (change_visible s v st)" "moved V0 P s st (change_dir_dep s v st)" "moved V0 P s st (change_rev_dep s v st)"
    "visible (syms (change_visible s v st) s) = v" "visible (syms (change_dir_dep s v st) s) = visible (syms st s)"
    "visible (syms (change_rev_dep s v st) s) = visible (syms st s)" "ev_tri (rev_dep (syms (change_rev_dep s v st) s)) = v"
proof -
  have u: "moved V0 P s st (sym_set_changed s (upd_sym s f st))"
    if "static_symbol (f (syms st s)) = static_symbol (syms st s)" "sdef (f (syms st s)) = sdef (syms st s)"
      "flags (f (syms st s)) = flags (syms st s)" for f
  proof -
    have m: "moved V0 P s st (upd_sym s f st)" by (rule moved_upd_sym [OF assms]) (use that in simp_all)
    show ?thesis by (rule moved_trans [OF m moved_changed(1) [OF moved_fields(1) [OF m]]])
  qed
  show "moved V0 P s st (change_visible s v st)" "moved V0 P s st (change_dir_dep s v st)" "moved V0 P s st (change_rev_dep s v st)"
    using assms by (auto simp: change_visible_def change_dir_dep_def change_rev_dep_def static_symbol_def moved_refl intro!: u)
qed (simp_all add: change_visible_def change_dir_dep_def change_rev_dep_def)

section \<open>Visibility\<close>

lemma stays_later:
  assumes "stays P st \<phi>"
    and "\<And>x. kept P st x \<Longrightarrow> static x = static st \<Longrightarrow> modules_val x = modules_val st \<Longrightarrow> \<phi> x \<Longrightarrow> \<psi> x"
  shows "stays P st \<psi>"
  using assms by (auto simp: stays_def kept_def)

lemma opt_expr_value:
  assumes "calls V0 scv" "inner V0 P s st" "opt_syms e \<subseteq> vdeps st s"
  shows "run True (case e of None \<Rightarrow> Some (d, st) | Some e \<Rightarrow> calc_expr scv e st) (\<lambda>(v, st'). went V0 P s st st' \<and>
    stays P st' (\<lambda>x. (case e of None \<Rightarrow> d | Some e \<Rightarrow> expr_val x e) = v))"
proof (cases e)
  case None
  then show ?thesis using assms(2) by (simp add: went_refl stays_def)
next
  case (Some e')
  have "run True (calc_expr scv e' st) (value_of V0 P s st (\<lambda>st'. expr_val st' e'))"
    using expr_value [OF assms(1,2)] assms(3) Some by simp
  then show ?thesis
    using Some assms(2) by (auto simp: value_of_def elim!: run_mono intro!: kept_went)
qed

lemma plain_type: "inner V0 P s st \<Longrightarrow> sym_get_type st t = sem_type st t" "inner V0 P s st \<Longrightarrow> \<not> sym_is_choice_value st t"
  "inner V0 P s st \<Longrightarrow> \<not> sym_is_choice st t" "inner V0 P s st \<Longrightarrow> \<not> has_flag st t SYMBOL_NEED_SET_CHOICE_VALUES"
  by (auto simp: inner_def going_def calc_plain_def sym_get_type_def sem_type_def need_def Let_def)

lemma visible_part:
  assumes "calls V0 scv" "inner V0 P s st" "known st s"
  shows "run True (prompts_visible scv (for_all_prompts st s) No st) (\<lambda>(tri0, st1).
    let st2 = change_visible s (if tri0 = Mod \<and> (sym_type (syms st1 s) \<noteq> S_TRISTATE \<or> modules_val st1 = No) then Yes else tri0) st1 in
    moved V0 P s st st2 \<and> stays P st2 (\<lambda>x. sem_visible x s = visible (syms st2 s)))"
proof (rule run_mono [OF prompts_visible_value [OF assms for_all_subset(2)]])
  fix x assume "case x of (v, st') \<Rightarrow> went V0 P s st st' \<and>
    stays P st' (\<lambda>st''. foldl (\<lambda>t p. max t (cond_val st'' p)) No (for_all_prompts st s) = v)"
  then obtain tri0 st1 where x: "x = (tri0, st1)" "went V0 P s st st1"
    "stays P st1 (\<lambda>st''. foldl (\<lambda>t p. max t (cond_val st'' p)) No (for_all_prompts st s) = tri0)" by (cases x) auto
  note w = went_fields [OF x(2)]
  let ?tri = "if tri0 = Mod \<and> (sym_type (syms st1 s) \<noteq> S_TRISTATE \<or> modules_val st1 = No) then Yes else tri0"
  have "stays P st1 (\<lambda>x. sem_visible x s = ?tri)"
  proof (rule stays_later [OF x(3)])
    fix y assume y: "static y = static st1" "modules_val y = modules_val st1"
      "foldl (\<lambda>t p. max t (cond_val y p)) No (for_all_prompts st s) = tri0"
    have "for_all_prompts y s = for_all_prompts st s" by (rule static_reads(2)) (simp add: y(1) w(3))
    then have "sem_prompts y s = tri0" using y(3) by (simp add: sem_prompts_def)
    then show "sem_visible y s = ?tri" using y(2) static_fields(1) [OF y(1), of s] by (simp add: sem_visible_def)
  qed
  note m = moved_change [OF w(1), of ?tri]
  have "moved V0 P s st (change_visible s ?tri st1)" by (rule moved_trans [OF went_moved [OF x(2)] m(1)])
  moreover have "stays P (change_visible s ?tri st1) (\<lambda>x. sem_visible x s = visible (syms (change_visible s ?tri st1) s))"
    using moved_stays [OF \<open>stays P st1 (\<lambda>x. sem_visible x s = ?tri)\<close> m(1)] m(4) by simp
  ultimately show "case x of (tri0, st1) \<Rightarrow>
    let st2 = change_visible s (if tri0 = Mod \<and> (sym_type (syms st1 s) \<noteq> S_TRISTATE \<or> modules_val st1 = No) then Yes else tri0) st1 in
    moved V0 P s st st2 \<and> stays P st2 (\<lambda>x. sem_visible x s = visible (syms st2 s))"
    by (simp add: x(1) Let_def)
qed

lemma dir_part:
  assumes "calls V0 scv" "inner V0 P s st" "known st s" "stays P st (\<lambda>x. sem_visible x s = visible (syms st s))"
  shows "run True (case ev_expr (dir_dep (syms st s)) of None \<Rightarrow> Some (Yes, st) | Some e \<Rightarrow> calc_expr scv e st) (\<lambda>(dir0, st3).
    let st4 = change_dir_dep s (if dir0 = Mod then Yes else dir0) st3 in
    moved V0 P s st st4 \<and> stays P st4 (\<lambda>x. sem_visible x s = visible (syms st4 s)))"
proof (rule run_mono [OF opt_expr_value [OF assms(1,2) vdeps_sym(1)]])
  fix x assume "case x of (v, st') \<Rightarrow> went V0 P s st st' \<and>
    stays P st' (\<lambda>x. (case ev_expr (dir_dep (syms st s)) of None \<Rightarrow> Yes | Some e \<Rightarrow> expr_val x e) = v)"
  then obtain dir0 st3 where x: "x = (dir0, st3)" "went V0 P s st st3" by (cases x) auto
  note w = went_fields [OF x(2)] and m = moved_change [OF went_fields(1) [OF x(2)], of "if dir0 = Mod then Yes else dir0"]
  note mv = moved_trans [OF went_moved [OF x(2)] m(2)]
  then show "case x of (dir0, st3) \<Rightarrow> let st4 = change_dir_dep s (if dir0 = Mod then Yes else dir0) st3 in
    moved V0 P s st st4 \<and> stays P st4 (\<lambda>x. sem_visible x s = visible (syms st4 s))"
    using moved_stays [OF assms(4) mv] m(5) w(2) by (simp add: x(1) Let_def)
qed (use assms(3) in auto)

lemma rev_part:
  assumes "calls V0 scv" "inner V0 P s st" "known st s" "stays P st (\<lambda>x. sem_visible x s = visible (syms st s))"
  shows "run True (case ev_expr (rev_dep (syms st s)) of None \<Rightarrow> Some (No, st) | Some e \<Rightarrow> calc_expr scv e st) (\<lambda>(rev0, st5).
    let st6 = change_rev_dep s (if rev0 = Mod \<and> sym_get_type st5 s = S_BOOLEAN then Yes else rev0) st5 in
    moved V0 P s st st6 \<and> stays P st6 (\<lambda>x. sem_visible x s = visible (syms st6 s)) \<and>
    stays P st6 (\<lambda>x. sem_rev x s = ev_tri (rev_dep (syms st6 s))))"
proof (rule run_mono [OF opt_expr_value [OF assms(1,2) vdeps_sym(2)]])
  fix x assume "case x of (v, st') \<Rightarrow> went V0 P s st st' \<and>
    stays P st' (\<lambda>x. (case ev_expr (rev_dep (syms st s)) of None \<Rightarrow> No | Some e \<Rightarrow> expr_val x e) = v)"
  then obtain rev0 st5 where x: "x = (rev0, st5)" "went V0 P s st st5"
    "stays P st5 (\<lambda>x. (case ev_expr (rev_dep (syms st s)) of None \<Rightarrow> No | Some e \<Rightarrow> expr_val x e) = rev0)" by (cases x) auto
  note w = went_fields [OF x(2)]
  let ?rev = "if rev0 = Mod \<and> sym_get_type st5 s = S_BOOLEAN then Yes else rev0"
  note m = moved_change [OF w(1), of ?rev]
  note mv = moved_trans [OF went_moved [OF x(2)] m(3)]
  have "stays P st5 (\<lambda>x. sem_rev x s = ?rev)"
  proof (rule stays_later [OF x(3)])
    fix y assume y: "static y = static st5" "modules_val y = modules_val st5"
      "(case ev_expr (rev_dep (syms st s)) of None \<Rightarrow> No | Some e \<Rightarrow> expr_val y e) = rev0"
    have "ev_expr (rev_dep (syms y s)) = ev_expr (rev_dep (syms st s))" by (rule static_fields(5)) (simp add: y(1) w(3))
    moreover have "sem_type y s = sym_get_type st5 s"
      using y(2) static_fields(1) [OF y(1), of s] plain_type(1) [OF w(1), of s] by (simp add: sem_type_def)
    ultimately show "sem_rev y s = ?rev" using y(3) by (simp add: sem_rev_def Let_def)
  qed
  then show "case x of (rev0, st5) \<Rightarrow>
    let st6 = change_rev_dep s (if rev0 = Mod \<and> sym_get_type st5 s = S_BOOLEAN then Yes else rev0) st5 in
    moved V0 P s st st6 \<and> stays P st6 (\<lambda>x. sem_visible x s = visible (syms st6 s)) \<and>
    stays P st6 (\<lambda>x. sem_rev x s = ev_tri (rev_dep (syms st6 s)))"
    using moved_stays [OF assms(4) mv] moved_stays [OF \<open>stays P st5 (\<lambda>x. sem_rev x s = ?rev)\<close> m(3)] m(6,7) w(2) mv
    by (simp add: x(1) Let_def)
qed (use assms(3) in auto)

lemma visibility_value:
  assumes "calls V0 scv" "inner V0 P s st" "known st s"
  shows "run True (sym_calc_visibility scv s st) (\<lambda>st'. moved V0 P s st st' \<and>
    stays P st' (\<lambda>x. sem_visible x s = visible (syms st' s)) \<and> stays P st' (\<lambda>x. sem_rev x s = ev_tri (rev_dep (syms st' s))))"
  unfolding sym_calc_visibility_def run_bind
proof (rule run_mono [OF visible_part [OF assms]])
  fix x assume "case x of (tri0, st1) \<Rightarrow>
    let st2 = change_visible s (if tri0 = Mod \<and> (sym_type (syms st1 s) \<noteq> S_TRISTATE \<or> modules_val st1 = No) then Yes else tri0) st1 in
    moved V0 P s st st2 \<and> stays P st2 (\<lambda>x. sem_visible x s = visible (syms st2 s))"
  then obtain tri0 st1 st2 where x: "x = (tri0, st1)"
    "st2 = change_visible s (if tri0 = Mod \<and> (sym_type (syms st1 s) \<noteq> S_TRISTATE \<or> modules_val st1 = No) then Yes else tri0) st1"
    "moved V0 P s st st2" "stays P st2 (\<lambda>x. sem_visible x s = visible (syms st2 s))"
    by (cases x) (auto simp: Let_def)
  note f2 = moved_fields [OF x(3)]
  have k2: "known st2 s" using assms(3) f2(3) by simp
  let ?Q = "\<lambda>st st'. moved V0 P s st st' \<and> stays P st' (\<lambda>x. sem_visible x s = visible (syms st' s)) \<and>
    stays P st' (\<lambda>x. sem_rev x s = ev_tri (rev_dep (syms st' s)))"
  have "run True (case ev_expr (dir_dep (syms st2 s)) of None \<Rightarrow> Some (Yes, st2) | Some e \<Rightarrow> calc_expr scv e st2) (\<lambda>(dir0, st3).
      let st4 = change_dir_dep s (if dir0 = Mod then Yes else dir0) st3 in
      run True (case ev_expr (rev_dep (syms st4 s)) of None \<Rightarrow> Some (No, st4) | Some e \<Rightarrow> calc_expr scv e st4)
        (\<lambda>(rev0, st5). ?Q st (change_rev_dep s (if rev0 = Mod \<and> sym_get_type st5 s = S_BOOLEAN then Yes else rev0) st5)))"
  proof (rule run_mono [OF dir_part [OF assms(1) f2(1) k2 x(4)]])
    fix y assume "case y of (dir0, st3) \<Rightarrow> let st4 = change_dir_dep s (if dir0 = Mod then Yes else dir0) st3 in
      moved V0 P s st2 st4 \<and> stays P st4 (\<lambda>x. sem_visible x s = visible (syms st4 s))"
    then obtain dir0 st3 st4 where y: "y = (dir0, st3)" "st4 = change_dir_dep s (if dir0 = Mod then Yes else dir0) st3"
      "moved V0 P s st2 st4" "stays P st4 (\<lambda>x. sem_visible x s = visible (syms st4 s))" by (cases y) (auto simp: Let_def)
    note f4 = moved_fields [OF y(3)]
    have k4: "known st4 s" using k2 f4(3) by simp
    note mv = moved_trans [OF x(3) y(3)]
    have "run True (case ev_expr (rev_dep (syms st4 s)) of None \<Rightarrow> Some (No, st4) | Some e \<Rightarrow> calc_expr scv e st4)
        (\<lambda>(rev0, st5). ?Q st (change_rev_dep s (if rev0 = Mod \<and> sym_get_type st5 s = S_BOOLEAN then Yes else rev0) st5))"
      by (rule run_mono [OF rev_part [OF assms(1) f4(1) k4 y(4)]]) (auto simp: Let_def intro: moved_trans [OF mv])
    then show "case y of (dir0, st3) \<Rightarrow> let st4 = change_dir_dep s (if dir0 = Mod then Yes else dir0) st3 in
      run True (case ev_expr (rev_dep (syms st4 s)) of None \<Rightarrow> Some (No, st4) | Some e \<Rightarrow> calc_expr scv e st4)
        (\<lambda>(rev0, st5). ?Q st (change_rev_dep s (if rev0 = Mod \<and> sym_get_type st5 s = S_BOOLEAN then Yes else rev0) st5))"
      by (simp only: y(1) prod.case Let_def y(2) [symmetric])
  qed
  then show "run True (case x of (tri0, st1) \<Rightarrow>
         let tri = (if tri0 = Mod \<and> (sym_type (syms st1 s) \<noteq> S_TRISTATE \<or> modules_val st1 = No) then Yes else tri0);
             st2 = change_visible s tri st1 in
         if sym_is_choice_value st2 s then Some st2
         else do { (dir0, st3) \<leftarrow> (case ev_expr (dir_dep (syms st2 s)) of None \<Rightarrow> Some (Yes, st2) | Some e \<Rightarrow> calc_expr scv e st2);
                let st4 = change_dir_dep s (if dir0 = Mod then Yes else dir0) st3;
                (rev0, st5) \<leftarrow> (case ev_expr (rev_dep (syms st4 s)) of None \<Rightarrow> Some (No, st4) | Some e \<Rightarrow> calc_expr scv e st4);
                Some (change_rev_dep s (if rev0 = Mod \<and> sym_get_type st5 s = S_BOOLEAN then Yes else rev0) st5) }) (?Q st)"
    unfolding x(1) prod.case Let_def x(2) [symmetric]
    using plain_type(2) [OF f2(1), of s] by (simp add: case_prod_unfold Let_def)
qed

end
