(* ===== verification/Kconf_Calc_Correct.thy ===== *)
theory Kconf_Calc_Correct
  imports Kconf_Calc_Sem
begin

text \<open>
  \<^verbatim>\<open>sym_calc_value\<close> computes the meaning of a configuration without choices: the values of boolean and
  tristate symbols, of strings and of numbers, and the calculation as a whole.
\<close>

section \<open>The value of a boolean or tristate symbol\<close>

text \<open>
  Steps that keep visibility, selection and value of the symbol.
\<close>

definition onward :: "symid set \<Rightarrow> symid set \<Rightarrow> symid \<Rightarrow> kstate \<Rightarrow> kstate \<Rightarrow> bool" where
  "onward V0 P s st st' \<longleftrightarrow> moved V0 P s st st' \<and> visible (syms st' s) = visible (syms st s) \<and>
    rev_dep (syms st' s) = rev_dep (syms st s) \<and> curr (syms st' s) = curr (syms st s)"

lemma onward_trans: "onward V0 P s st st1 \<Longrightarrow> onward V0 P s st1 st2 \<Longrightarrow> onward V0 P s st st2"
  by (auto simp: onward_def intro: moved_trans)

lemma onward_refl: "inner V0 P s st \<Longrightarrow> onward V0 P s st st"
  by (simp add: onward_def moved_refl)

lemma went_onward: "went V0 P s st st' \<Longrightarrow> onward V0 P s st st'"
  by (simp add: onward_def went_moved went_fields(2))

lemma onward_write: "inner V0 P s st \<Longrightarrow> onward V0 P s st (if b then set_flag s {SYMBOL_WRITE} st else st)"
  by (simp add: onward_def moved_flags moved_refl)

lemmas onward_fields = moved_fields [OF onward_def [THEN iffD1, THEN conjunct1]]

lemma onward_own:
  assumes "onward V0 P s st st'"
  shows "visible (syms st' s) = visible (syms st s)" "rev_dep (syms st' s) = rev_dep (syms st s)"
    "curr (syms st' s) = curr (syms st s)" "moved V0 P s st st'"
  using assms by (simp_all add: onward_def)

lemma sem_prop_value:
  assumes "calls V0 scv" "inner V0 P s st" "known st s"
  shows "run True (first_visible scv (for_all_properties st s ty) st) (\<lambda>(r, st'). went V0 P s st st' \<and>
    stays P st' (\<lambda>x. sem_prop x s ty = r) \<and> (\<forall>p. r = Some p \<longrightarrow> p \<in> set (sym_prop (syms st s)) \<and>
      stays P st' (\<lambda>x. cond_val x p = ev_tri (p_visible (props st' p)))))"
proof (rule run_mono [OF first_visible_value [OF assms for_all_subset(1)]])
  fix y assume "case y of (r, st') \<Rightarrow> went V0 P s st st' \<and>
      stays P st' (\<lambda>st''. List.find (\<lambda>p. cond_val st'' p \<noteq> No) (for_all_properties st s ty) = r) \<and>
      (\<forall>p. r = Some p \<longrightarrow> stays P st' (\<lambda>st''. cond_val st'' p = ev_tri (p_visible (props st' p))))"
  then obtain r st' where y: "y = (r, st')" "went V0 P s st st'"
      "stays P st' (\<lambda>st''. List.find (\<lambda>p. cond_val st'' p \<noteq> No) (for_all_properties st s ty) = r)"
      "\<forall>p. r = Some p \<longrightarrow> stays P st' (\<lambda>st''. cond_val st'' p = ev_tri (p_visible (props st' p)))" by (cases y) auto
  have "stays P st' (\<lambda>x. sem_prop x s ty = r)"
  proof (rule stays_later [OF y(3)])
    fix x assume x: "static x = static st'" "List.find (\<lambda>p. cond_val x p \<noteq> No) (for_all_properties st s ty) = r"
    have "for_all_properties x s ty = for_all_properties st s ty"
      by (rule static_reads(1)) (simp add: x(1) went_fields(3) [OF y(2)])
    then show "sem_prop x s ty = r" using x(2) by (simp add: sem_prop_def)
  qed
  moreover have "p \<in> set (sym_prop (syms st s))" if "r = Some p" for p
    using find_SomeD [OF stays_now [OF y(3), unfolded that]] for_all_subset(1) by auto
  ultimately show "case y of (r, st') \<Rightarrow> went V0 P s st st' \<and>
    stays P st' (\<lambda>x. sem_prop x s ty = r) \<and> (\<forall>p. r = Some p \<longrightarrow> p \<in> set (sym_prop (syms st s)) \<and>
      stays P st' (\<lambda>x. cond_val x p = ev_tri (p_visible (props st' p))))" using y by simp
qed

lemma kept_own_prop:
  assumes "kept {} st st'" "inner V0 P s st" "p \<in> set (sym_prop (syms st s))"
  shows "props st' p = props st p"
  using assms inner_own [OF assms(2)] by (auto simp: kept_def inner_def going_def calc_plain_def)

lemma default_part:
  assumes "calls V0 scv" "inner V0 P s st" "known st s" "stays P st (\<lambda>x. \<not> sem_user x s)"
  shows "run True (do { (prop, st3) \<leftarrow> sym_get_default_prop scv s st;
              case prop of
                None \<Rightarrow> Some (No, st3)
              | Some p \<Rightarrow>
                  do { (v, st5) \<leftarrow> expr_calc_value scv (p_expr (props st3 p)) (set_flag s {SYMBOL_WRITE} st3);
                       Some (EXPR_AND v (ev_tri (p_visible (props st5 p))), st5) } })
    (\<lambda>(v, st'). onward V0 P s st st' \<and> stays P st' (\<lambda>x. sem_own x s = v))"
  unfolding sym_get_default_prop_def run_bind
proof (rule run_mono [OF sem_prop_value [OF assms(1-3)]])
  fix y assume "case y of (r, st') \<Rightarrow> went V0 P s st st' \<and>
    stays P st' (\<lambda>x. sem_prop x s P_DEFAULT = r) \<and> (\<forall>p. r = Some p \<longrightarrow> p \<in> set (sym_prop (syms st s)) \<and>
      stays P st' (\<lambda>x. cond_val x p = ev_tri (p_visible (props st' p))))"
  then obtain dp st3 where y: "y = (dp, st3)" "went V0 P s st st3" "stays P st3 (\<lambda>x. sem_prop x s P_DEFAULT = dp)"
    "\<forall>p. dp = Some p \<longrightarrow> p \<in> set (sym_prop (syms st s)) \<and> stays P st3 (\<lambda>x. cond_val x p = ev_tri (p_visible (props st3 p)))"
    by (cases y) auto
  note w = went_fields [OF y(2)]
  have nu: "stays P st3 (\<lambda>x. \<not> sem_user x s)" using moved_stays [OF assms(4) went_moved [OF y(2)]] .
  let ?Q = "\<lambda>(v, st'). onward V0 P s st st' \<and> stays P st' (\<lambda>x. sem_own x s = v)"
  show "run True (case y of (prop, st3) \<Rightarrow> case prop of None \<Rightarrow> Some (No, st3)
     | Some p \<Rightarrow> do { (v, st5) \<leftarrow> expr_calc_value scv (p_expr (props st3 p)) (set_flag s {SYMBOL_WRITE} st3);
                     Some (EXPR_AND v (ev_tri (p_visible (props st5 p))), st5) }) ?Q"
  proof (cases dp)
    case None
    then have "stays P st3 (\<lambda>x. sem_own x s = No)" using y(3) nu by (simp add: stays_def sem_own_def)
    then show ?thesis using None went_onward [OF y(2)] by (simp add: y(1))
  next
    case (Some p)
    let ?st4 = "set_flag s {SYMBOL_WRITE} st3"
    have o4: "onward V0 P s st3 ?st4" using onward_write [OF w(1), of True] by simp
    note f4 = onward_fields [OF o4]
    have p: "p \<in> set (sym_prop (syms ?st4 s))" "known ?st4 s" using y(4) Some w(2) assms(3) by simp_all
    have "run True (expr_calc_value scv (p_expr (props ?st4 p)) ?st4) (value_of V0 P s ?st4 (\<lambda>x. expr_val_opt x (p_expr (props ?st4 p))))"
      by (rule expr_calc_value_value [OF assms(1) f4(1) vdeps_prop(2)]) (use p in simp_all)
    then have "run True (expr_calc_value scv (p_expr (props ?st4 p)) ?st4) (\<lambda>(v, st5). ?Q (EXPR_AND v (ev_tri (p_visible (props st5 p))), st5))"
    proof (rule run_mono)
      fix z assume "value_of V0 P s ?st4 (\<lambda>x. expr_val_opt x (p_expr (props ?st4 p))) z"
      then obtain v st5 where z: "z = (v, st5)" "kept {} ?st4 st5" "inner V0 P s st5"
        "stays P st5 (\<lambda>x. expr_val_opt x (p_expr (props ?st4 p)) = v)" by (auto simp: value_of_def)
      have o5: "onward V0 P s ?st4 st5" by (rule went_onward [OF kept_went [OF z(2) f4(1) z(3)]])
      have mv: "moved V0 P s st3 st5" using moved_trans [OF onward_own(4) [OF o4] onward_own(4) [OF o5]] .
      have pv: "p_visible (props st5 p) = p_visible (props st3 p)" using kept_own_prop [OF z(2) f4(1) p(1)] by simp
      have "stays P st5 (\<lambda>x. sem_own x s = min v (ev_tri (p_visible (props st3 p))))"
      proof (rule stays_later [OF z(4)])
        fix x assume x: "kept P st5 x" "static x = static st5" "expr_val_opt x (p_expr (props ?st4 p)) = v"
        have e: "p_expr (props x p) = p_expr (props ?st4 p)"
          by (rule static_fields(7)) (simp add: x(2) onward_fields(2) [OF o5])
        have "stays P st5 (\<lambda>x. sem_prop x s P_DEFAULT = Some p \<and> \<not> sem_user x s \<and> cond_val x p = ev_tri (p_visible (props st3 p)))"
          using moved_stays [OF y(3) mv] moved_stays [OF nu mv] y(4) Some moved_stays [OF _ mv] by (simp add: stays_conj)
        then have "sem_prop x s P_DEFAULT = Some p \<and> \<not> sem_user x s \<and> cond_val x p = ev_tri (p_visible (props st3 p))"
          using x(1) by (simp add: stays_def)
        then show "sem_own x s = min v (ev_tri (p_visible (props st3 p)))"
          using x(3) by (simp add: sem_own_def e)
      qed
      then show "case z of (v, st5) \<Rightarrow> ?Q (EXPR_AND v (ev_tri (p_visible (props st5 p))), st5)"
        using onward_trans [OF onward_trans [OF went_onward [OF y(2)] o4] o5] by (simp add: z(1) pv EXPR_AND_min)
    qed
    then show ?thesis using Some by (simp add: y(1) case_prod_unfold)
  qed
qed

lemma stays_users:
  "inner V0 P s st \<Longrightarrow> stays P st (\<lambda>x. (sym_has_value x t \<longleftrightarrow> sym_has_value st t) \<and> sdef (syms x t) = sdef (syms st t))"
  unfolding stays_def using kept_fields(3,4) by blast

lemma stays_user:
  assumes "inner V0 P s st" "stays P st (\<lambda>x. sem_visible x s = visible (syms st s))"
  shows "stays P st (\<lambda>x. sem_user x s \<longleftrightarrow> visible (syms st s) \<noteq> No \<and> sym_has_value st s)"
    "D = sdef (syms st s) \<Longrightarrow> stays P st (\<lambda>x. sem_visible x s = visible (syms st s) \<and> sdef (syms x s) = D)"
proof -
  have "sem_user x s \<longleftrightarrow> visible (syms st s) \<noteq> No \<and> sym_has_value st s" if "kept P st x" for x
    using assms(2) that kept_fields(3) [OF that, of s] unfolding stays_def sem_user_def by metis
  then show "stays P st (\<lambda>x. sem_user x s \<longleftrightarrow> visible (syms st s) \<noteq> No \<and> sym_has_value st s)"
    unfolding stays_def by blast
  show "stays P st (\<lambda>x. sem_visible x s = visible (syms st s) \<and> sdef (syms x s) = D)" if "D = sdef (syms st s)"
    using assms(2) stays_users [OF assms(1), of s] that unfolding stays_def by blast
qed

lemma tri_base_value:
  assumes "calls V0 scv" "inner V0 P s st" "known st s" "stays P st (\<lambda>x. sem_visible x s = visible (syms st s))"
  shows "run True (calc_tri_base scv s st) (\<lambda>(v, st'). onward V0 P s st st' \<and> stays P st' (\<lambda>x. sem_own x s = v))"
proof -
  define st1 where "st1 = (if visible (syms st s) \<noteq> No then set_flag s {SYMBOL_WRITE} st else st)"
  have o1: "onward V0 P s st st1" unfolding st1_def by (rule onward_write [OF assms(2)])
  note f1 = onward_fields [OF o1] and v1 = onward_own [OF o1]
  have vis1: "stays P st1 (\<lambda>x. sem_visible x s = visible (syms st1 s))" using moved_stays [OF assms(4) v1(4)] v1(1) by simp
  define D where "D = sdef (syms st1 s)"
  note u = stays_user(1) [OF f1(1) vis1] stays_user(2) [OF f1(1) vis1 D_def]
  show ?thesis
  proof (cases "visible (syms st s) \<noteq> No \<and> sym_has_value st1 s")
    case True
    then have "calc_tri_base scv s st = Some (EXPR_AND (sv_tri (sdef (syms st1 s) S_DEF_USER)) (visible (syms st s)), st1)"
      unfolding calc_tri_base_def Let_def st1_def [symmetric] by simp
    moreover have "stays P st1 (\<lambda>x. sem_own x s = min (sv_tri (D S_DEF_USER)) (visible (syms st s)))"
      using u True v1(1) by (auto simp: stays_def sem_own_def)
    ultimately show ?thesis using o1 by (simp add: EXPR_AND_min D_def)
  next
    case False
    define st2 where "st2 = (if ev_tri (rev_dep (syms st1 s)) \<noteq> No then set_flag s {SYMBOL_WRITE} st1 else st1)"
    have o2: "onward V0 P s st1 st2" unfolding st2_def by (rule onward_write [OF f1(1)])
    note f2 = onward_fields [OF o2] and v2 = onward_own [OF o2]
    have k: "known st2 s" using assms(3) f1(3) f2(3) by simp
    have nu: "stays P st2 (\<lambda>x. \<not> sem_user x s)"
      using moved_stays [OF u(1) v2(4)] False v1(1) by (auto simp: stays_def)
    have "run True (calc_tri_base scv s st) (\<lambda>(v, st'). onward V0 P s st2 st' \<and> stays P st' (\<lambda>x. sem_own x s = v))"
      unfolding calc_tri_base_def Let_def st1_def [symmetric] if_not_P [OF False] st2_def [symmetric]
        if_not_P [OF plain_type(3) [OF f2(1)]]
      by (rule default_part [OF assms(1) f2(1) k nu])
    then show ?thesis
      by (rule run_mono) (auto intro: onward_trans [OF onward_trans [OF o1 o2]])
  qed
qed

lemma onward_unmet: "inner V0 P s st \<Longrightarrow> onward V0 P s st (warn_unmet s st)"
proof -
  assume i: "inner V0 P s st"
  have "kept {s} st (st\<lparr>unmet := u\<rparr>)" "valid (st\<lparr>unmet := u\<rparr>) = valid st" for u
    by (simp_all add: kept_def users_def fun_eq_iff need_def valid_def)
  then show "onward V0 P s st (warn_unmet s st)"
    using own_update [OF i] onward_refl [OF i] by (auto simp: warn_unmet_def onward_def moved_def)
qed

lemma tri_value:
  assumes "calls V0 scv" "inner V0 P s st" "known st s" "stays P st (\<lambda>x. sem_visible x s = visible (syms st s))"
    "stays P st (\<lambda>x. sem_rev x s = ev_tri (rev_dep (syms st s)))"
  shows "run True (calc_tri_value scv s st) (\<lambda>(v, st'). onward V0 P s st st' \<and> stays P st' (\<lambda>x. sem_tri x s = v))"
proof -
  have "run True (calc_tri_base scv s st) (\<lambda>(v0, st0). let st1 = warn_unmet s st0; v = EXPR_OR v0 (ev_tri (rev_dep (syms st1 s))) in
    onward V0 P s st st1 \<and> stays P st1 (\<lambda>x. sem_tri x s = (if v = Mod \<and> sym_get_type st1 s = S_BOOLEAN then Yes else v)))"
  proof (rule run_mono [OF tri_base_value [OF assms(1-4)]])
    fix y assume "case y of (v, st') \<Rightarrow> onward V0 P s st st' \<and> stays P st' (\<lambda>x. sem_own x s = v)"
    then obtain v0 st0 where y: "y = (v0, st0)" "onward V0 P s st st0" "stays P st0 (\<lambda>x. sem_own x s = v0)" by (cases y) auto
    let ?st1 = "warn_unmet s st0"
    have o: "onward V0 P s st0 ?st1" by (rule onward_unmet [OF onward_fields(1) [OF y(2)]])
    note o1 = onward_trans [OF y(2) o] and f1 = onward_fields [OF o]
    have own: "stays P ?st1 (\<lambda>x. sem_own x s = v0)" using moved_stays [OF y(3) onward_own(4) [OF o]] .
    have rev: "stays P ?st1 (\<lambda>x. sem_rev x s = ev_tri (rev_dep (syms ?st1 s)))"
      using moved_stays [OF assms(5) onward_own(4) [OF o1]] onward_own(2) [OF o1] by simp
    have "stays P ?st1 (\<lambda>x. sem_type x s = sym_get_type ?st1 s)"
    proof (rule stays_later [OF own])
      fix x assume x: "static x = static ?st1" "modules_val x = modules_val ?st1"
      show "sem_type x s = sym_get_type ?st1 s"
        using x(2) static_fields(1) [OF x(1), of s] plain_type(1) [OF f1(1), of s] by (simp add: sem_type_def)
    qed
    then have "stays P ?st1 (\<lambda>x. sem_tri x s = (let v = EXPR_OR v0 (ev_tri (rev_dep (syms ?st1 s))) in
        if v = Mod \<and> sym_get_type ?st1 s = S_BOOLEAN then Yes else v))"
      using own rev by (simp add: stays_def sem_tri_def EXPR_OR_max)
    then show "case y of (v0, st0) \<Rightarrow> let st1 = warn_unmet s st0; v = EXPR_OR v0 (ev_tri (rev_dep (syms st1 s))) in
        onward V0 P s st st1 \<and> stays P st1 (\<lambda>x. sem_tri x s = (if v = Mod \<and> sym_get_type st1 s = S_BOOLEAN then Yes else v))"
      using o1 by (simp only: y(1) prod.case Let_def simp_thms)
  qed
  then show ?thesis
    using plain_type(2) [OF assms(2), of s]
    by (simp add: calc_tri_value_def case_prod_unfold Let_def) (erule run_mono, auto)
qed

section \<open>The value of a string or number\<close>

lemma str_value:
  assumes "calls V0 scv" "inner V0 P s st" "known st s" "stays P st (\<lambda>x. sem_visible x s = visible (syms st s))"
  shows "run True (calc_str_value scv s (VStr []) st) (\<lambda>(v, st'). onward V0 P s st st' \<and> stays P st' (\<lambda>x. sem_str x s = v))"
proof -
  define st1 where "st1 = (if visible (syms st s) \<noteq> No then set_flag s {SYMBOL_WRITE} st else st)"
  have o1: "onward V0 P s st st1" unfolding st1_def by (rule onward_write [OF assms(2)])
  note f1 = onward_fields [OF o1] and v1 = onward_own [OF o1]
  have vis1: "stays P st1 (\<lambda>x. sem_visible x s = visible (syms st1 s))" using moved_stays [OF assms(4) v1(4)] v1(1) by simp
  define D where "D = sdef (syms st1 s)"
  note u = stays_user(1) [OF f1(1) vis1] stays_user(2) [OF f1(1) vis1 D_def]
  have k: "known st1 s" using assms(3) f1(3) by simp
  show ?thesis
  proof (cases "visible (syms st s) \<noteq> No \<and> sym_has_value st1 s")
    case True
    then have "calc_str_value scv s (VStr []) st = Some (sv_val (sdef (syms st1 s) S_DEF_USER), st1)"
      unfolding calc_str_value_def Let_def st1_def [symmetric] by simp
    moreover have "stays P st1 (\<lambda>x. sem_str x s = sv_val (D S_DEF_USER))"
      using u True v1(1) by (auto simp: stays_def sem_str_def)
    ultimately show ?thesis using o1 by (simp add: D_def)
  next
    case False
    have nu1: "stays P st1 (\<lambda>x. \<not> sem_user x s)" using u(1) False v1(1) by (auto simp: stays_def)
    let ?Q = "\<lambda>(v, st'). onward V0 P s st st' \<and> stays P st' (\<lambda>x. sem_str x s = v)"
    have "run True (first_visible scv (for_all_properties st1 s P_DEFAULT) st1) (\<lambda>(r, st2).
       run True (case Option.bind r (prop_get_symbol st2) of None \<Rightarrow> Some (VStr [], st2)
            | Some ds \<Rightarrow> do { st3 \<leftarrow> scv ds (set_flag s {SYMBOL_WRITE} st2); Some (sv_val (curr (syms st3 ds)), st3) }) ?Q)"
    proof (rule run_mono [OF sem_prop_value [OF assms(1) f1(1) k]])
      fix y assume "case y of (r, st') \<Rightarrow> went V0 P s st1 st' \<and>
        stays P st' (\<lambda>x. sem_prop x s P_DEFAULT = r) \<and> (\<forall>p. r = Some p \<longrightarrow> p \<in> set (sym_prop (syms st1 s)) \<and>
          stays P st' (\<lambda>x. cond_val x p = ev_tri (p_visible (props st' p))))"
      then obtain r st2 where y: "y = (r, st2)" "went V0 P s st1 st2" "stays P st2 (\<lambda>x. sem_prop x s P_DEFAULT = r)"
        "\<forall>p. r = Some p \<longrightarrow> p \<in> set (sym_prop (syms st1 s))" by (cases y) auto
      note w = went_fields [OF y(2)]
      have o2: "onward V0 P s st st2" by (rule onward_trans [OF o1 went_onward [OF y(2)]])
      have nu: "stays P st2 (\<lambda>x. \<not> sem_user x s)" using moved_stays [OF nu1 went_moved [OF y(2)]] .
      have pgs: "stays P st2 (\<lambda>x. Option.bind (sem_prop x s P_DEFAULT) (prop_get_symbol x) = Option.bind r (prop_get_symbol st2))"
      proof (rule stays_later [OF y(3)])
        fix x assume x: "static x = static st2" "sem_prop x s P_DEFAULT = r"
        have "prop_get_symbol x = prop_get_symbol st2" using static_reads(5) [OF x(1)] by (simp add: fun_eq_iff)
        then show "Option.bind (sem_prop x s P_DEFAULT) (prop_get_symbol x) = Option.bind r (prop_get_symbol st2)"
          using x(2) by simp
      qed
      have "run True (case Option.bind r (prop_get_symbol st2) of None \<Rightarrow> Some (VStr [], st2)
            | Some ds \<Rightarrow> do { st3 \<leftarrow> scv ds (set_flag s {SYMBOL_WRITE} st2); Some (sv_val (curr (syms st3 ds)), st3) }) ?Q"
      proof (cases "Option.bind r (prop_get_symbol st2)")
        case None
        then have "stays P st2 (\<lambda>x. sem_str x s = VStr [])" using pgs nu by (simp add: stays_def sem_str_def)
        then show ?thesis using None o2 by simp
      next
        case (Some ds)
        let ?st3 = "set_flag s {SYMBOL_WRITE} st2"
        have o3: "onward V0 P s st2 ?st3" using onward_write [OF w(1), of True] by simp
        note f3 = onward_fields [OF o3]
        obtain p where p: "r = Some p" "prop_get_symbol st2 p = Some ds" using Some by (rule bind_eq_SomeE)
        have "ds \<in> opt_syms (p_expr (props ?st3 p))"
          using p(2) by (auto simp: prop_get_symbol_def split: option.splits expr.splits)
        moreover have "p \<in> set (sym_prop (syms ?st3 s))" "known ?st3 s" using y(4) p(1) w(2) k by simp_all
        ultimately have ds: "ds \<in> vdeps ?st3 s" using vdeps_prop(2) by blast
        have "run True (scv ds ?st3) (\<lambda>st4. ?Q (sv_val (curr (syms st4 ds)), st4))"
        proof (rule run_mono [OF call_dep [OF assms(1) f3(1) disjI1 [OF ds]]])
          fix st4 assume c: "kept {} ?st3 st4 \<and> inner V0 P s st4 \<and> ds \<in> valid st4 - P"
          then have o4: "onward V0 P s st2 st4"
            by (intro onward_trans [OF o3] went_onward kept_went [OF _ f3(1)]) auto
          define w where "w = sv_val (curr (syms st4 ds))"
          have "going V0 P st4" "ds \<in> valid st4 - P" using c inner_going by auto
          then have "stays P st4 (\<lambda>x. sv_val (curr (syms x ds)) = w)"
            by (rule stays_mono [OF stays_sym]) (simp add: w_def)
          then have "stays P st4 (\<lambda>x. sem_str x s = w)"
            using moved_stays [OF pgs onward_own(4) [OF o4]] moved_stays [OF nu onward_own(4) [OF o4]] Some
            by (simp add: stays_def sem_str_def)
          then show "?Q (sv_val (curr (syms st4 ds)), st4)" using onward_trans [OF o2 o4] by (simp add: w_def)
        qed
        then show ?thesis using Some by simp
      qed
      then show "case y of (r, st2) \<Rightarrow> run True (case Option.bind r (prop_get_symbol st2) of None \<Rightarrow> Some (VStr [], st2)
            | Some ds \<Rightarrow> do { st3 \<leftarrow> scv ds (set_flag s {SYMBOL_WRITE} st2); Some (sv_val (curr (syms st3 ds)), st3) }) ?Q"
        by (simp add: y(1))
    qed
    then show ?thesis
      unfolding calc_str_value_def Let_def st1_def [symmetric] if_not_P [OF False] sym_get_default_prop_def
      by (simp add: case_prod_unfold)
  qed
qed

lemma bound_value:
  assumes "calls V0 scv" "inner V0 P s st" "t \<in> vdeps st s"
  shows "run True (sym_get_range_val scv t base st) (\<lambda>(v, st'). went V0 P s st st' \<and> stays P st' (\<lambda>x. sem_bound x base t = v))"
  unfolding sym_get_range_val_def run_bind
proof (rule run_mono [OF call_dep [OF assms(1,2) disjI1 [OF assms(3)]]])
  fix st' assume c: "kept {} st st' \<and> inner V0 P s st' \<and> t \<in> valid st' - P"
  have "syms x t = syms st' t" if "kept P st' x" for x using kept_fields(7) [OF that] c by simp
  then have "stays P st' (\<lambda>x. sem_bound x base t = sem_bound st' base t)" unfolding stays_def sem_bound_def by metis
  then show "run True (let b = (case sym_type (syms st' t) of S_INT \<Rightarrow> 10 | S_HEX \<Rightarrow> 16 | _ \<Rightarrow> base) in
      Some (strtoll (cstr (sv_val (curr (syms st' t)))) b, st'))
    (\<lambda>(v, st'). went V0 P s st st' \<and> stays P st' (\<lambda>x. sem_bound x base t = v))"
    using kept_went [OF _ assms(2)] c by (simp add: sem_bound_def [of st'])
qed

text \<open>The new value of a number, for the bounds found.\<close>

definition in_range :: "symbol_type \<Rightarrow> int \<Rightarrow> int \<Rightarrow> cval \<Rightarrow> cval" where
  "in_range ty lo hi v =
    (let base = (if ty = S_INT then 10 else 16); val = strtoll (cstr v) base;
         print = (\<lambda>b. VStr (if ty = S_INT then print_lld b else print_0x_llx b)) in
     if val < lo then print lo else if val > hi then print hi else v)"

lemma sem_range_in:
  "sem_range st s v =
    (let ty = sym_type (syms st s); base = (if ty = S_INT then 10 else 16) in
     if ty \<noteq> S_INT \<and> ty \<noteq> S_HEX then v
     else case Option.bind (sem_prop st s P_RANGE) (\<lambda>p. range_syms (p_expr (props st p))) of
            None \<Rightarrow> v
          | Some (lo, hi) \<Rightarrow> in_range ty (sem_bound st base lo) (sem_bound st base hi) v)"
  by (simp add: sem_range_def in_range_def Let_def split: option.split)

lemma moved_curr_val: "inner V0 P s st \<Longrightarrow> moved V0 P s st (set_curr_val s w st)"
  unfolding set_curr_val_def by (rule moved_upd_sym) (simp_all add: static_symbol_def)

lemma moved_curr: "inner V0 P s st \<Longrightarrow> moved V0 P s st (set_curr s w st)"
  unfolding set_curr_def by (rule moved_upd_sym) (simp_all add: static_symbol_def)

lemma range_bounds:
  assumes "calls V0 scv" "inner V0 P s st" "lo \<in> vdeps st s" "hi \<in> vdeps st s"
    and base: "base = (if ty = S_INT then 10 else 16)" and cur: "sv_val (curr (syms st s)) = v"
  shows "run True
    (do { (val2, st2) \<leftarrow> sym_get_range_val scv lo base st;
          (ok, bound, st3) \<leftarrow>
             (if strtoll (cstr v) base \<ge> val2 then
                do { (val3, st3) \<leftarrow> sym_get_range_val scv hi base st2; Some (strtoll (cstr v) base \<le> val3, val3, st3) }
              else Some (False, val2, st2));
          if ok then Some st3
          else Some (set_curr_val s (VStr (if ty = S_INT then print_lld bound else print_0x_llx bound)) st3) })
    (\<lambda>st'. moved V0 P s st st' \<and> visible (syms st' s) = visible (syms st s) \<and> (\<exists>w. curr (syms st' s) = (curr (syms st s))\<lparr>sv_val := w\<rparr> \<and>
      stays P st' (\<lambda>x. in_range ty (sem_bound x base lo) (sem_bound x base hi) v = w)))"
  unfolding run_bind
proof (rule run_mono [OF bound_value [OF assms(1,2,3)]])
  fix y assume "case y of (v, st') \<Rightarrow> went V0 P s st st' \<and> stays P st' (\<lambda>x. sem_bound x base lo = v)"
  then obtain l st2 where y: "y = (l, st2)" "went V0 P s st st2" "stays P st2 (\<lambda>x. sem_bound x base lo = l)" by (cases y) auto
  note w = went_fields [OF y(2)]
  let ?p = "\<lambda>b. VStr (if ty = S_INT then print_lld b else print_0x_llx b)"
  let ?Q = "\<lambda>st'. moved V0 P s st st' \<and> visible (syms st' s) = visible (syms st s) \<and> (\<exists>w. curr (syms st' s) = (curr (syms st s))\<lparr>sv_val := w\<rparr> \<and>
      stays P st' (\<lambda>x. in_range ty (sem_bound x base lo) (sem_bound x base hi) v = w))"
  have stored: "?Q (set_curr_val s w st3)"
    if "went V0 P s st2 st3" "stays P st3 (\<lambda>x. in_range ty (sem_bound x base lo) (sem_bound x base hi) v = w)" for w st3
  proof -
    note f = went_fields [OF that(1)] and m = moved_curr_val [OF went_fields(1) [OF that(1)], of w]
    have "moved V0 P s st (set_curr_val s w st3)"
      using moved_trans [OF moved_trans [OF went_moved [OF y(2)] went_moved [OF that(1)]] m] .
    moreover have "stays P (set_curr_val s w st3) (\<lambda>x. in_range ty (sem_bound x base lo) (sem_bound x base hi) v = w)"
      by (rule moved_stays [OF that(2) m])
    ultimately show ?thesis using f(2) w(2) by (intro conjI exI [of _ w]) (simp_all add: set_curr_val_def)
  qed
  show "run True (case y of (val2, st2) \<Rightarrow>
      do { (ok, bound, st3) \<leftarrow>
             (if strtoll (cstr v) base \<ge> val2 then
                do { (val3, st3) \<leftarrow> sym_get_range_val scv hi base st2; Some (strtoll (cstr v) base \<le> val3, val3, st3) }
              else Some (False, val2, st2));
          if ok then Some st3
          else Some (set_curr_val s (VStr (if ty = S_INT then print_lld bound else print_0x_llx bound)) st3) }) ?Q"
  proof (cases "strtoll (cstr v) base \<ge> l")
    case False
    then have "stays P st2 (\<lambda>x. in_range ty (sem_bound x base lo) (sem_bound x base hi) v = ?p l)"
      using y(3) by (simp add: stays_def in_range_def Let_def base [symmetric])
    then show ?thesis using False stored [OF went_refl [OF w(1)]] by (simp add: y(1))
  next
    case True
    have hi: "hi \<in> vdeps st2 s" using assms(4) vdeps_static [OF w(3)] by simp
    have "run True (sym_get_range_val scv hi base st2) (\<lambda>(h, st3). ?Q (if strtoll (cstr v) base \<le> h then st3 else set_curr_val s (?p h) st3))"
    proof (rule run_mono [OF bound_value [OF assms(1) w(1) hi]])
      fix z assume "case z of (v, st') \<Rightarrow> went V0 P s st2 st' \<and> stays P st' (\<lambda>x. sem_bound x base hi = v)"
      then obtain h st3 where z: "z = (h, st3)" "went V0 P s st2 st3" "stays P st3 (\<lambda>x. sem_bound x base hi = h)" by (cases z) auto
      have b: "stays P st3 (\<lambda>x. sem_bound x base lo = l)" using moved_stays [OF y(3) went_moved [OF z(2)]] .
      have "?Q (if strtoll (cstr v) base \<le> h then st3 else set_curr_val s (?p h) st3)"
      proof (cases "strtoll (cstr v) base \<le> h")
        case True
        then have "stays P st3 (\<lambda>x. in_range ty (sem_bound x base lo) (sem_bound x base hi) v = v)"
          using z(3) b \<open>l \<le> strtoll (cstr v) base\<close> by (simp add: stays_def in_range_def Let_def base [symmetric])
        then show ?thesis
          unfolding if_P [OF True] using went_moved [OF went_trans [OF y(2) z(2)]] went_fields(2) [OF went_trans [OF y(2) z(2)]]
          by (intro conjI exI [of _ v]) (simp_all add: cur [symmetric])
      next
        case False
        then have "stays P st3 (\<lambda>x. in_range ty (sem_bound x base lo) (sem_bound x base hi) v = ?p h)"
          using z(3) b \<open>l \<le> strtoll (cstr v) base\<close> by (simp add: stays_def in_range_def Let_def base [symmetric])
        then show ?thesis using False stored [OF z(2)] by simp
      qed
      then show "case z of (h, st3) \<Rightarrow> ?Q (if strtoll (cstr v) base \<le> h then st3 else set_curr_val s (?p h) st3)"
        by (simp add: z(1))
    qed
    then show ?thesis using True by (simp add: y(1) case_prod_unfold) (erule run_mono, auto)
  qed
qed

lemma range_value:
  assumes "calls V0 scv" "inner V0 P s st" "known st s"
  shows "run True (sym_validate_range scv s st) (\<lambda>st'. moved V0 P s st st' \<and> visible (syms st' s) = visible (syms st s) \<and>
    (\<exists>w. curr (syms st' s) = (curr (syms st s))\<lparr>sv_val := w\<rparr> \<and> stays P st' (\<lambda>x. sem_range x s (sv_val (curr (syms st s))) = w)))"
proof -
  define ty v where "ty = sym_type (syms st s)" and "v = sv_val (curr (syms st s))"
  have ty: "stays P st (\<lambda>x. sym_type (syms x s) = ty)"
    unfolding stays_def ty_def using static_fields(1) [OF kept_fields(1)] by blast
  let ?Q = "\<lambda>st'. moved V0 P s st st' \<and> visible (syms st' s) = visible (syms st s) \<and>
    (\<exists>w. curr (syms st' s) = (curr (syms st s))\<lparr>sv_val := w\<rparr> \<and> stays P st' (\<lambda>x. sem_range x s v = w))"
  show ?thesis
  proof (cases "ty \<noteq> S_INT \<and> ty \<noteq> S_HEX")
    case True
    then have "stays P st (\<lambda>x. sem_range x s v = v)" using ty by (simp add: stays_def sem_range_def Let_def)
    then have "?Q st" using moved_refl [OF assms(2)] by (intro conjI exI [of _ v]) (simp_all add: v_def)
    then show ?thesis using True by (simp add: sym_validate_range_def Let_def ty_def [symmetric] v_def [symmetric])
  next
    case False
    let ?base = "if ty = S_INT then 10 else 16"
    let ?k = "\<lambda>st1 p. do { (lo, hi) \<leftarrow> range_syms (p_expr (props st1 p));
                     let val = strtoll (cstr (sv_val (curr (syms st1 s)))) ?base;
                     (val2, st2) \<leftarrow> sym_get_range_val scv lo ?base st1;
                     (ok, bound, st3) \<leftarrow>
                       (if val \<ge> val2 then
                          do { (val3, st3) \<leftarrow> sym_get_range_val scv hi ?base st2;
                               Some (val \<le> val3, val3, st3) }
                        else Some (False, val2, st2));
                     if ok then Some st3
                     else Some (set_curr_val s (VStr (if ty = S_INT then print_lld bound else print_0x_llx bound)) st3) }"
    have "run True (first_visible scv (for_all_properties st s P_RANGE) st)
      (\<lambda>(r, st1). run True (case r of None \<Rightarrow> Some st1 | Some p \<Rightarrow> ?k st1 p) ?Q)"
    proof (rule run_mono [OF sem_prop_value [OF assms]])
      fix y assume "case y of (r, st') \<Rightarrow> went V0 P s st st' \<and>
        stays P st' (\<lambda>x. sem_prop x s P_RANGE = r) \<and> (\<forall>p. r = Some p \<longrightarrow> p \<in> set (sym_prop (syms st s)) \<and>
          stays P st' (\<lambda>x. cond_val x p = ev_tri (p_visible (props st' p))))"
      then obtain r st1 where y: "y = (r, st1)" "went V0 P s st st1" "stays P st1 (\<lambda>x. sem_prop x s P_RANGE = r)"
        "\<forall>p. r = Some p \<longrightarrow> p \<in> set (sym_prop (syms st s))" by (cases y) auto
      note w = went_fields [OF y(2)]
      have ty1: "stays P st1 (\<lambda>x. sym_type (syms x s) = ty)" using moved_stays [OF ty went_moved [OF y(2)]] .
      have "run True (case r of None \<Rightarrow> Some st1 | Some p \<Rightarrow> ?k st1 p) ?Q"
      proof (cases r)
        case None
        then have "stays P st1 (\<lambda>x. sem_range x s v = v)" using y(3) ty1 by (simp add: stays_def sem_range_def Let_def)
        then have "?Q st1" using went_moved [OF y(2)] w(2) by (intro conjI exI [of _ v]) (simp_all add: v_def)
        then show ?thesis using None by simp
      next
        case (Some p)
        show ?thesis
        proof (cases "range_syms (p_expr (props st1 p))")
          case None
          then show ?thesis using Some by simp
        next
          case bounds: (Some lh)
          obtain lo hi where lh: "lh = (lo, hi)" by (cases lh)
          have pk: "p \<in> set (sym_prop (syms st1 s))" "known st1 s" using y(4) Some w(2) assms(3) by simp_all
          have d: "lo \<in> vdeps st1 s" "hi \<in> vdeps st1 s"
            using vdeps_prop(3) [of p st1 s lo hi] pk bounds lh by auto
          have sem: "stays P st1 (\<lambda>x. sem_range x s v = in_range ty (sem_bound x ?base lo) (sem_bound x ?base hi) v)"
          proof (rule stays_later [OF y(3)])
            fix x assume x: "kept P st1 x" "static x = static st1" "sem_prop x s P_RANGE = r"
            have "p_expr (props x p) = p_expr (props st1 p)" by (rule static_fields(7) [OF x(2)])
            moreover have "sym_type (syms x s) = ty" using ty1 x(1) by (simp add: stays_def)
            ultimately show "sem_range x s v = in_range ty (sem_bound x ?base lo) (sem_bound x ?base hi) v"
              using x(3) Some bounds lh False by (auto simp: sem_range_in Let_def)
          qed
          have cur: "sv_val (curr (syms st1 s)) = v" using w(2) by (simp add: v_def)
          have "run True (?k st1 p) (\<lambda>st'. moved V0 P s st1 st' \<and> visible (syms st' s) = visible (syms st1 s) \<and>
              (\<exists>w. curr (syms st' s) = (curr (syms st1 s))\<lparr>sv_val := w\<rparr> \<and>
                stays P st' (\<lambda>x. in_range ty (sem_bound x ?base lo) (sem_bound x ?base hi) v = w)))"
            using range_bounds [OF assms(1) w(1) d refl cur, where ty = ty] bounds by (simp add: lh Let_def cur)
          then have "run True (?k st1 p) ?Q"
          proof (rule run_mono)
            fix st' assume q: "moved V0 P s st1 st' \<and> visible (syms st' s) = visible (syms st1 s) \<and>
              (\<exists>w. curr (syms st' s) = (curr (syms st1 s))\<lparr>sv_val := w\<rparr> \<and>
                stays P st' (\<lambda>x. in_range ty (sem_bound x ?base lo) (sem_bound x ?base hi) v = w))"
            then obtain w' where w': "curr (syms st' s) = (curr (syms st s))\<lparr>sv_val := w'\<rparr>"
              "stays P st' (\<lambda>x. in_range ty (sem_bound x ?base lo) (sem_bound x ?base hi) v = w')" using w(2) by auto
            have "stays P st' (\<lambda>x. sem_range x s v = w')"
              using moved_stays [OF sem conjunct1 [OF q]] w'(2) by (simp add: stays_def)
            then show "?Q st'" using q w'(1) w(2) moved_trans [OF went_moved [OF y(2)] conjunct1 [OF q]] by auto
          qed
          then show ?thesis using Some by simp
        qed
      qed
      then show "case y of (r, st1) \<Rightarrow> run True (case r of None \<Rightarrow> Some st1 | Some p \<Rightarrow> ?k st1 p) ?Q" by (simp add: y(1))
    qed
    then show ?thesis
      unfolding sym_validate_range_def Let_def ty_def [symmetric] v_def [symmetric] if_not_P [OF False] sym_get_range_prop_def
      by (simp add: case_prod_unfold)
  qed
qed

section \<open>The whole calculation\<close>

lemma finish_value:
  assumes "calls V0 scv" "inner V0 P s st" "known st s"
  shows "run True (calc_finish scv s old new st) (\<lambda>st'. moved V0 P s st st' \<and> visible (syms st' s) = visible (syms st s) \<and>
    (\<exists>w. curr (syms st' s) = new\<lparr>sv_val := w\<rparr> \<and> stays P st' (\<lambda>x. sem_range x s (sv_val new) = w)))"
proof -
  let ?st1 = "set_curr s new st"
  have m1: "moved V0 P s st ?st1" by (rule moved_curr [OF assms(2)])
  note f1 = moved_fields [OF m1]
  have s1: "curr (syms ?st1 s) = new" "visible (syms ?st1 s) = visible (syms st s)" by (simp_all add: set_curr_def)
  let ?Q = "\<lambda>st'. moved V0 P s st st' \<and> visible (syms st' s) = visible (syms st s) \<and>
    (\<exists>w. curr (syms st' s) = new\<lparr>sv_val := w\<rparr> \<and> stays P st' (\<lambda>x. sem_range x s (sv_val new) = w))"
  have onw: "?Q st'' " if "?Q st'" "moved V0 P s st' st''" "visible (syms st'' s) = visible (syms st' s)"
    "curr (syms st'' s) = curr (syms st' s)" for st' st''
    using that moved_trans moved_stays [OF _ that(2)] by metis
  have "run True (sym_validate_range scv s ?st1) (\<lambda>st3. run True (do { st4 \<leftarrow> pass_to_values s (note_change s old st3);
         let st5 = (if has_flag st4 s SYMBOL_AUTO then clear_flag s {SYMBOL_WRITE} st4 else st4);
         if has_flag st5 s SYMBOL_NEED_SET_CHOICE_VALUES then set_all_choice_values s st5 else Some st5 }) ?Q)"
  proof (rule run_mono [OF range_value [OF assms(1) f1(1)]])
    show "known ?st1 s" using assms(3) f1(3) by simp
  next
    fix st3 assume a: "moved V0 P s ?st1 st3 \<and> visible (syms st3 s) = visible (syms ?st1 s) \<and>
      (\<exists>w. curr (syms st3 s) = (curr (syms ?st1 s))\<lparr>sv_val := w\<rparr> \<and> stays P st3 (\<lambda>x. sem_range x s (sv_val (curr (syms ?st1 s))) = w))"
    then have q3: "?Q st3" using moved_trans [OF m1] s1 by auto
    have i3: "inner V0 P s st3" using a moved_fields(1) by blast
    define st4 where "st4 = note_change s old st3"
    have nm: "modules_sym st3 \<noteq> Some s" using i3 by (auto simp: inner_def going_def)
    then have st4: "st4 = (if old = curr (syms st3 s) then st3 else sym_set_changed s st3)"
      by (simp add: st4_def note_change_def Let_def)
    have m4: "moved V0 P s st3 st4" unfolding st4 using moved_changed(1) [OF i3] moved_refl [OF i3] by simp
    have q4: "?Q st4" by (rule onw [OF q3 m4]) (simp_all add: st4)
    note f4 = moved_fields [OF m4]
    define st5 where "st5 = (if has_flag st4 s SYMBOL_AUTO then clear_flag s {SYMBOL_WRITE} st4 else st4)"
    have m5: "moved V0 P s st4 st5" unfolding st5_def using moved_flags(2) [OF f4(1)] moved_refl [OF f4(1)] by simp
    have q5: "?Q st5" by (rule onw [OF q4 m5]) (simp_all add: st5_def)
    have "pass_to_values s st4 = Some st4" using plain_type(3) [OF f4(1)] by (simp add: pass_to_values_def)
    then show "run True (do { st4 \<leftarrow> pass_to_values s (note_change s old st3);
         let st5 = (if has_flag st4 s SYMBOL_AUTO then clear_flag s {SYMBOL_WRITE} st4 else st4);
         if has_flag st5 s SYMBOL_NEED_SET_CHOICE_VALUES then set_all_choice_values s st5 else Some st5 }) ?Q"
      unfolding st4_def [symmetric] using plain_type(4) [OF moved_fields(1) [OF m5], of s] q5
      by (simp add: Let_def st5_def [symmetric] del: ex_simps)
  qed
  then show ?thesis
    using plain_type(3) [OF f1(1), of s] by (simp add: calc_finish_def Let_def)
qed

lemma body_value:
  assumes "calls V0 scv" "inner V0 P s st0" "st0 = set_flag s {SYMBOL_VALID} st"
  shows "run True (calc_body scv s st) (\<lambda>st'. moved V0 P s st0 st' \<and> stays P st' (\<lambda>x. sem_curr x s = curr (syms st' s)) \<and>
    (known st' s \<longrightarrow> stays P st' (\<lambda>x. sem_visible x s = visible (syms st' s))))"
proof (cases "known st0 s")
  case False
  let ?n = "\<lparr>sv_val = (case sym_name (syms st0 s) of None \<Rightarrow> VNull | Some n \<Rightarrow> VStr n), sv_tri = No\<rparr>"
  have m: "moved V0 P s st0 (set_curr s ?n st0)" by (rule moved_curr [OF assms(2)])
  have "stays P (set_curr s ?n st0) (\<lambda>x. sem_curr x s = ?n)"
    unfolding stays_def
  proof (intro allI impI)
    fix x assume "kept P (set_curr s ?n st0) x"
    then have x: "static x = static st0" using kept_fields(1) moved_fields(2) [OF m] by metis
    show "sem_curr x s = ?n"
      using False static_fields(1,3) [OF x, of s] by (auto simp: sem_curr_def Let_def)
  qed
  then show ?thesis
    using m False unfolding calc_body_def Let_def assms(3) [symmetric] by (auto simp: set_curr_def)
next
  case True
  define new0 where "new0 = (if is_bool_type (sym_type (syms st0 s)) then no_curr else empty_curr)"
  define st1 where "st1 = (if sym_is_choice_value st0 s then st0 else clear_flag s {SYMBOL_WRITE} st0)"
  have m1: "moved V0 P s st0 st1" unfolding st1_def using moved_flags(2) [OF assms(2)] moved_refl [OF assms(2)] by simp
  note f1 = moved_fields [OF m1]
  have k1: "known st1 s" using True f1(3) by simp
  let ?Q = "\<lambda>st'. moved V0 P s st0 st' \<and> stays P st' (\<lambda>x. sem_curr x s = curr (syms st' s)) \<and>
    (known st' s \<longrightarrow> stays P st' (\<lambda>x. sem_visible x s = visible (syms st' s)))"
  let ?newval = "\<lambda>st3. if is_bool_type (sym_get_type st3 s)
      then do { (v, st4) \<leftarrow> calc_tri_value scv s st3; Some (new0\<lparr>sv_tri := v\<rparr>, st4) }
      else do { (v, st4) \<leftarrow> calc_str_value scv s (sv_val new0) st3; Some (new0\<lparr>sv_val := v\<rparr>, st4) }"
  have "run True (sym_calc_visibility scv s st1) (\<lambda>st2.
    run True (?newval (set_curr s new0 st2)) (\<lambda>(new, st4). run True (calc_finish scv s (curr (syms st0 s)) new st4) ?Q))"
  proof (rule run_mono [OF visibility_value [OF assms(1) f1(1) k1]])
    fix st2 assume a: "moved V0 P s st1 st2 \<and> stays P st2 (\<lambda>x. sem_visible x s = visible (syms st2 s)) \<and>
      stays P st2 (\<lambda>x. sem_rev x s = ev_tri (rev_dep (syms st2 s)))"
    let ?st3 = "set_curr s new0 st2"
    have m23: "moved V0 P s st2 ?st3" using a moved_curr moved_fields(1) by blast
    have m3: "moved V0 P s st0 ?st3" using moved_trans [OF m1 moved_trans [OF _ m23]] a by blast
    note f3 = moved_fields [OF m3]
    have k3: "known ?st3 s" using True f3(3) by simp
    have v3: "stays P ?st3 (\<lambda>x. sem_visible x s = visible (syms ?st3 s))" "stays P ?st3 (\<lambda>x. sem_rev x s = ev_tri (rev_dep (syms ?st3 s)))"
      using a moved_stays [OF _ m23] by (simp_all add: set_curr_def)
    have ty: "stays P x (\<lambda>y. sym_type (syms y s) = sym_type (syms st0 s))" if "moved V0 P s ?st3 x" for x
      unfolding stays_def
    proof (intro allI impI)
      fix y assume "kept P x y"
      then have "static y = static st0" using kept_fields(1) moved_fields(2) [OF that] f3(2) by metis
      then show "sym_type (syms y s) = sym_type (syms st0 s)" by (rule static_fields(1))
    qed
    have fin: "run True (calc_finish scv s (curr (syms st0 s)) new st4) ?Q"
      if o: "onward V0 P s ?st3 st4" and sem: "\<And>w x. moved V0 P s st4 x \<Longrightarrow> stays P x (\<lambda>y. sem_range y s (sv_val new) = w) \<Longrightarrow>
        stays P x (\<lambda>y. sem_curr y s = new\<lparr>sv_val := w\<rparr>)" for new st4
    proof (rule run_mono [OF finish_value [OF assms(1) onward_fields(1) [OF o]]])
      show "known st4 s" using k3 onward_fields(3) [OF o] by simp
      fix x assume x: "moved V0 P s st4 x \<and> visible (syms x s) = visible (syms st4 s) \<and>
        (\<exists>w. curr (syms x s) = new\<lparr>sv_val := w\<rparr> \<and> stays P x (\<lambda>y. sem_range y s (sv_val new) = w))"
      have mx: "moved V0 P s ?st3 x" using moved_trans [OF onward_own(4) [OF o]] x by blast
      have "stays P x (\<lambda>y. sem_visible y s = visible (syms x s))"
        using moved_stays [OF v3(1) mx] x onward_own(1) [OF o] by simp
      then show "?Q x" using x sem moved_trans [OF m3 mx] by metis
    qed
    show "run True (?newval ?st3) (\<lambda>(new, st4). run True (calc_finish scv s (curr (syms st0 s)) new st4) ?Q)"
    proof (cases "is_bool_type (sym_type (syms st0 s))")
      case True
      then have b: "is_bool_type (sym_get_type ?st3 s)" "new0 = no_curr"
        using f3(3) [of s] plain_type(1) [OF f3(1), of s] by (auto simp: sem_type_def is_bool_type_def new0_def)
      have "run True (calc_tri_value scv s ?st3) (\<lambda>(v, st4). run True (calc_finish scv s (curr (syms st0 s)) (new0\<lparr>sv_tri := v\<rparr>) st4) ?Q)"
      proof (rule run_mono [OF tri_value [OF assms(1) f3(1) k3 v3]])
        fix z assume "case z of (v, st') \<Rightarrow> onward V0 P s ?st3 st' \<and> stays P st' (\<lambda>x. sem_tri x s = v)"
        then obtain v st4 where z: "z = (v, st4)" "onward V0 P s ?st3 st4" "stays P st4 (\<lambda>x. sem_tri x s = v)" by (cases z) auto
        have "run True (calc_finish scv s (curr (syms st0 s)) (new0\<lparr>sv_tri := v\<rparr>) st4) ?Q"
        proof (rule fin [OF z(2)])
          fix w x assume x: "moved V0 P s st4 x" "stays P x (\<lambda>y. sem_range y s (sv_val (new0\<lparr>sv_tri := v\<rparr>)) = w)"
          show "stays P x (\<lambda>y. sem_curr y s = new0\<lparr>sv_tri := v, sv_val := w\<rparr>)"
            using moved_stays [OF z(3) x(1)] x(2) ty [OF moved_trans [OF onward_own(4) [OF z(2)] x(1)]] True b(2)
            unfolding stays_def by (auto simp: sem_curr_def sem_range_def Let_def is_bool_type_def no_curr_def)
        qed
        then show "case z of (v, st4) \<Rightarrow> run True (calc_finish scv s (curr (syms st0 s)) (new0\<lparr>sv_tri := v\<rparr>) st4) ?Q"
          by (simp add: z(1))
      qed
      then show ?thesis using b(1) by (simp add: case_prod_unfold)
    next
      case False
      then have b: "\<not> is_bool_type (sym_get_type ?st3 s)" "new0 = empty_curr" "sv_val new0 = VStr []"
        using f3(3) [of s] plain_type(1) [OF f3(1), of s] by (auto simp: sem_type_def is_bool_type_def new0_def empty_curr_def)
      have "run True (calc_str_value scv s (VStr []) ?st3) (\<lambda>(v, st4). run True (calc_finish scv s (curr (syms st0 s)) (new0\<lparr>sv_val := v\<rparr>) st4) ?Q)"
      proof (rule run_mono [OF str_value [OF assms(1) f3(1) k3 v3(1)]])
        fix z assume "case z of (v, st') \<Rightarrow> onward V0 P s ?st3 st' \<and> stays P st' (\<lambda>x. sem_str x s = v)"
        then obtain v st4 where z: "z = (v, st4)" "onward V0 P s ?st3 st4" "stays P st4 (\<lambda>x. sem_str x s = v)" by (cases z) auto
        have "run True (calc_finish scv s (curr (syms st0 s)) (new0\<lparr>sv_val := v\<rparr>) st4) ?Q"
        proof (rule fin [OF z(2)])
          fix w x assume x: "moved V0 P s st4 x" "stays P x (\<lambda>y. sem_range y s (sv_val (new0\<lparr>sv_val := v\<rparr>)) = w)"
          show "stays P x (\<lambda>y. sem_curr y s = new0\<lparr>sv_val := v, sv_val := w\<rparr>)"
            using moved_stays [OF z(3) x(1)] x(2) ty [OF moved_trans [OF onward_own(4) [OF z(2)] x(1)]] \<open>known st0 s\<close> False b(2)
            unfolding stays_def by (auto simp: sem_curr_def Let_def empty_curr_def)
        qed
        then show "case z of (v, st4) \<Rightarrow> run True (calc_finish scv s (curr (syms st0 s)) (new0\<lparr>sv_val := v\<rparr>) st4) ?Q"
          by (simp add: z(1))
      qed
      then show ?thesis using b(1,3) by (simp add: case_prod_unfold)
    qed
  qed
  then show ?thesis
    using True unfolding calc_body_def Let_def assms(3) [symmetric] new0_def [symmetric] st1_def [symmetric]
    by (simp add: case_prod_unfold)
qed

lemma kept_enter: "kept {s} st (set_flag s {SYMBOL_VALID} st)" "valid (set_flag s {SYMBOL_VALID} st) = insert s (valid st)"
proof -
  show v: "valid (set_flag s {SYMBOL_VALID} st) = insert s (valid st)" by (auto simp: valid_def)
  show "kept {s} st (set_flag s {SYMBOL_VALID} st)"
    unfolding kept_def v by (auto simp: users_def fun_eq_iff need_def dynamic_flags_def)
qed

lemma reach_dep:
  assumes "acyclic (val_edge st)" "t \<in> vdeps st s"
  shows "reach st t \<subseteq> reach st s - {s}"
proof -
  have e: "(s, t) \<in> val_edge st" using assms(2) by (simp add: val_edge_def)
  then have "s \<notin> reach st t"
    using assms(1) unfolding reach_def acyclic_def by (auto dest: rtrancl_into_trancl2)
  then show ?thesis using e by (auto simp: reach_def intro: converse_rtrancl_into_rtrancl)
qed

lemma inner_enter:
  assumes "going V0 P st" "s \<notin> valid st" "reach st s \<inter> P = {}"
  shows "inner V0 (insert s P) s (set_flag s {SYMBOL_VALID} st)"
proof -
  let ?st0 = "set_flag s {SYMBOL_VALID} st"
  have k: "kept {s} st ?st0" "static ?st0 = static st" using kept_enter by (simp_all add: kept_def)
  have d: "vdeps ?st0 t = vdeps st t" "val_edge ?st0 = val_edge st" "reach ?st0 t = reach st t" for t
    using vdeps_static [OF k(2)] by (simp_all add: val_edge_def reach_def)
  have "stays (insert s P) ?st0 (\<lambda>x. calculated x t)" if "t \<in> valid ?st0 - insert s P - V0" for t
  proof -
    have "stays P st (\<lambda>x. calculated x t)" using that assms(1) kept_enter(2) by (auto simp: going_def)
    moreover have "kept P st x" if "kept (insert s P) ?st0 x" for x
      using kept_fresh [OF kept_trans [OF kept_mono [OF k(1)] that] assms(2)] by simp
    ultimately show ?thesis by (simp add: stays_def)
  qed
  moreover have "acyclic (val_edge st)" using assms(1) by (simp add: going_def calc_plain_def)
  moreover have "need ?st0 = {}" using assms(1) by (auto simp: going_def need_def)
  moreover have "calc_plain ?st0" using assms(1) calc_plain_static [OF k(2)] by (simp add: going_def)
  ultimately show ?thesis
    using assms reach_dep [of st _ s] kept_enter(2) [of s st] unfolding inner_def going_def d by fastforce
qed

lemma going_leave:
  assumes "going V0 P st" "s \<notin> valid st" "inner V0 (insert s P) s st'" "kept {s} (set_flag s {SYMBOL_VALID} st) st'"
    and "stays (insert s P) st' (\<lambda>x. sem_curr x s = curr (syms st' s))"
    and "known st' s \<longrightarrow> stays (insert s P) st' (\<lambda>x. sem_visible x s = visible (syms st' s))"
  shows "kept {} st st' \<and> going V0 P st' \<and> s \<in> valid st'"
proof -
  have v: "s \<in> valid st'" "P \<subseteq> valid st'" "s \<notin> P"
    using assms(1,2,3) by (auto simp: inner_def going_def)
  have "kept {} st st'"
    by (rule kept_fresh [OF kept_trans [OF kept_enter(1) assms(4)] assms(2)])
  moreover have "stays P st' (\<lambda>x. calculated x s)"
    unfolding stays_def
  proof (intro allI impI)
    fix x assume x: "kept P st' x"
    have e: "syms x s = syms st' s" using kept_fields(7) [OF x] v by simp
    have "kept (insert s P) st' x" using kept_mono [OF x] by blast
    then show "calculated x s" using assms(5,6) by (simp add: stays_def calculated_def e)
  qed
  moreover have "stays P st' (\<lambda>x. calculated x t)" if "t \<in> valid st' - insert s P - V0" for t
  proof -
    have "stays (insert s P) st' (\<lambda>x. calculated x t)" using assms(3) that by (simp add: inner_def going_def)
    then show ?thesis unfolding stays_def using kept_mono [of P st' _ "insert s P"] by blast
  qed
  ultimately show ?thesis
    using assms(3) v by (auto simp: inner_def going_def)
qed

lemma calc_step_calls:
  assumes "calls V0 scv"
  shows "calls V0 (calc_step scv)"
  unfolding calls_def
proof (intro allI impI)
  fix P s st
  assume g: "going V0 P st" and s: "s \<in> valid st - P \<or> reach st s \<inter> P = {}"
  show "run True (calc_step scv s st) (\<lambda>st'. kept {} st st' \<and> going V0 P st' \<and> s \<in> valid st')"
  proof (cases "s \<in> valid st")
    case True
    then show ?thesis using g by (simp add: calc_step_def valid_def)
  next
    case False
    then have r: "reach st s \<inter> P = {}" using s by blast
    note i = inner_enter [OF g False r]
    have "run True (calc_body scv s st) (\<lambda>st'. kept {} st st' \<and> going V0 P st' \<and> s \<in> valid st')"
    proof (rule run_mono [OF body_value [OF assms i refl]])
      fix st' assume a: "moved V0 (insert s P) s (set_flag s {SYMBOL_VALID} st) st' \<and>
        stays (insert s P) st' (\<lambda>x. sem_curr x s = curr (syms st' s)) \<and>
        (known st' s \<longrightarrow> stays (insert s P) st' (\<lambda>x. sem_visible x s = visible (syms st' s)))"
      then show "kept {} st st' \<and> going V0 P st' \<and> s \<in> valid st'"
        using going_leave [OF g False] by (simp add: moved_def)
    qed
    moreover have "\<not> sym_is_choice_value st s" using g by (simp add: going_def calc_plain_def)
    ultimately show ?thesis using False by (simp add: calc_step_def valid_def)
  qed
qed

lemma sym_calc_value_calls: "calls V0 (sym_calc_value n)"
proof (induction n)
  case (Suc n)
  have "sym_calc_value (Suc n) = calc_step (sym_calc_value n)" by (simp add: fun_eq_iff)
  then show ?case using calc_step_calls [OF Suc] by simp
qed (simp add: calls_def)

lemma sym_calc_value_sem:
  assumes "calc_wf st" "calc_plain st" "need st = {}" "finite (todo st)" "card (todo st) < n"
    and "modules_sym st = Some m" "m \<in> valid st"
  shows "\<exists>st'. sym_calc_value n s st = Some st' \<and> s \<in> valid st' \<and> kept {} st st' \<and>
    (\<forall>t \<in> valid st' - valid st. calculated st' t)"
proof -
  have p: "pending st < n" using assms(3,5) by (simp add: pending_def)
  have "run False (sym_calc_value n s st) (calc_ok (Suc (pending st)) st)"
    by (rule sym_calc_value_total) (use assms(1,3,4) p in \<open>simp_all add: calc_ok_def\<close>)
  then obtain st' where st': "sym_calc_value n s st = Some st'" by (auto simp: run_False)
  have g: "going (valid st) {} st" using assms(2,3,6,7) by (simp add: going_def)
  have "run True (sym_calc_value n s st) (\<lambda>st'. kept {} st st' \<and> going (valid st) {} st' \<and> s \<in> valid st')"
    using sym_calc_value_calls [of "valid st" n] g unfolding calls_def by blast
  then have "kept {} st st'" "going (valid st) {} st'" "s \<in> valid st'" using st' by simp_all
  moreover have "calculated st' t" if "t \<in> valid st' - valid st" for t
    by (rule stays_now [of "{}"]) (use that \<open>going (valid st) {} st'\<close> in \<open>auto simp: going_def\<close>)
  ultimately show ?thesis using st' by blast
qed

section \<open>The values are determined\<close>

text \<open>
  Two states that agree on what the value of \<open>s\<close> is calculated from.
\<close>

definition same_inputs :: "symid \<Rightarrow> kstate \<Rightarrow> kstate \<Rightarrow> bool" where
  "same_inputs s st st' \<longleftrightarrow> static st' = static st \<and> modules_val st' = modules_val st \<and> modules_on st' = modules_on st \<and>
    users st' s = users st s \<and> (\<forall>t \<in> vdeps st s. curr (syms st' t) = curr (syms st t))"

lemma opt_val_local:
  assumes "static st' = static st" "modules_on st' = modules_on st" "\<forall>t \<in> opt_syms e. curr (syms st' t) = curr (syms st t)"
  shows "expr_val_opt st' e = expr_val_opt st e"
  using assms static_fields(1) [OF assms(1)] by (cases e) (auto intro!: expr_val_cong)

lemma find_cong: "(\<And>x. x \<in> set xs \<Longrightarrow> P x = Q x) \<Longrightarrow> List.find P xs = List.find Q xs"
  by (induction xs) auto

lemma same_fields:
  assumes "same_inputs s st st'"
  shows "static st' = static st" "modules_val st' = modules_val st"
    "sym_has_value st' s \<longleftrightarrow> sym_has_value st s" "sdef (syms st' s) = sdef (syms st s)"
    "opt_syms e \<subseteq> vdeps st s \<Longrightarrow> expr_val_opt st' e = expr_val_opt st e"
    "t \<in> vdeps st s \<Longrightarrow> curr (syms st' t) = curr (syms st t)" "sem_type st' s = sem_type st s"
  using assms static_fields(1) [of st' st s] by (auto simp: same_inputs_def users_def sem_type_def intro!: opt_val_local)

lemma same_conditions:
  assumes "same_inputs s st st'" "known st s" "p \<in> set (sym_prop (syms st s))"
  shows "cond_val st' p = cond_val st p" "expr_val_opt st' (p_expr (props st' p)) = expr_val_opt st (p_expr (props st p))"
  using same_fields(5) [OF assms(1)] vdeps_prop(1,2) [OF assms(3)] assms(2) static_fields(7,9) [OF same_fields(1) [OF assms(1)]]
  by simp_all

lemma sem_prop_local:
  assumes "same_inputs s st st'" "known st s"
  shows "sem_prop st' s ty = sem_prop st s ty"
  unfolding sem_prop_def static_reads(1) [OF same_fields(1) [OF assms(1)]]
  by (rule find_cong) (simp add: same_conditions(1) [OF assms subsetD [OF for_all_subset(1)]])

lemma sem_prop_in: "sem_prop st s ty = Some p \<Longrightarrow> p \<in> set (sym_prop (syms st s))"
  unfolding sem_prop_def using find_SomeD for_all_subset(1) by fastforce

lemma sem_visible_local:
  assumes "same_inputs s st st'" "known st s"
  shows "sem_visible st' s = sem_visible st s"
proof -
  have "sem_prompts st' s = sem_prompts st s"
    unfolding sem_prompts_def static_reads(2) [OF same_fields(1) [OF assms(1)]]
    by (rule foldl_cong) (simp_all add: same_conditions(1) [OF assms subsetD [OF for_all_subset(2)]])
  then show ?thesis
    using same_fields(2) [OF assms(1)] static_fields(1) [OF same_fields(1) [OF assms(1)]] by (simp add: sem_visible_def)
qed

lemma sem_rev_local:
  assumes "same_inputs s st st'" "known st s"
  shows "sem_rev st' s = sem_rev st s"
  using same_fields(5) [OF assms(1), of "ev_expr (rev_dep (syms st s))"] vdeps_sym(2) [of st s] assms(2)
    static_fields(5) [OF same_fields(1) [OF assms(1)], of s]
  by (cases "ev_expr (rev_dep (syms st s))") (simp_all add: sem_rev_def same_fields(7) [OF assms(1)])

lemma sem_tri_local:
  assumes "same_inputs s st st'" "known st s"
  shows "sem_tri st' s = sem_tri st s"
  using same_conditions [OF assms] sem_prop_in [of st s P_DEFAULT]
  by (auto simp: sem_tri_def sem_own_def sem_user_def sem_prop_local [OF assms] sem_visible_local [OF assms]
      sem_rev_local [OF assms] same_fields(3,4,7) [OF assms(1)] Let_def split: option.splits)

lemma sem_str_local:
  assumes "same_inputs s st st'" "known st s"
  shows "sem_str st' s = sem_str st s"
proof -
  have d: "curr (syms st' d) = curr (syms st d)" if "sem_prop st s P_DEFAULT = Some p" "prop_get_symbol st p = Some d" for p d
  proof -
    have "d \<in> opt_syms (p_expr (props st p))"
      using that(2) by (auto simp: prop_get_symbol_def split: option.splits expr.splits)
    then show ?thesis using vdeps_prop(2) [OF sem_prop_in [OF that(1)]] assms(2) same_fields(6) [OF assms(1)] by blast
  qed
  then show ?thesis
    using static_reads(5) [OF same_fields(1) [OF assms(1)]]
    by (cases "sem_prop st s P_DEFAULT")
      (auto simp: sem_str_def sem_user_def sem_prop_local [OF assms] sem_visible_local [OF assms]
        same_fields(3,4) [OF assms(1)] split: option.splits)
qed

lemma sem_range_local:
  assumes "same_inputs s st st'" "known st s"
  shows "sem_range st' s v = sem_range st s v"
proof -
  note f = static_fields(1,7) [OF same_fields(1) [OF assms(1)]]
  have b: "sem_bound st' base t = sem_bound st base t" if "t \<in> vdeps st s" for base t
    using same_fields(6) [OF assms(1) that] by (simp add: sem_bound_def f)
  show ?thesis
  proof (cases "Option.bind (sem_prop st s P_RANGE) (\<lambda>p. range_syms (p_expr (props st p)))")
    case (Some ab)
    then obtain p a c where p: "sem_prop st s P_RANGE = Some p" "range_syms (p_expr (props st p)) = Some (a, c)" "ab = (a, c)"
      by (cases ab) (auto elim: bind_eq_SomeE)
    then have "a \<in> vdeps st s" "c \<in> vdeps st s"
      using vdeps_prop(3) [OF sem_prop_in [OF p(1)] _ _ p(2)] assms(2) by auto
    then show ?thesis using p by (simp add: sem_range_def Let_def sem_prop_local [OF assms] f b)
  qed (simp add: sem_range_def Let_def sem_prop_local [OF assms] f)
qed

lemma sem_curr_local:
  assumes "same_inputs s st st'"
  shows "sem_curr st' s = sem_curr st s"
  using sem_tri_local [OF assms] sem_range_local [OF assms] sem_str_local [OF assms]
    static_fields(1,3) [OF same_fields(1) [OF assms]]
  by (simp add: sem_curr_def Let_def is_bool_type_def)

lemma calculated_unique:
  assumes "static st' = static st" "modules_val st' = modules_val st" "modules_on st' = modules_on st" "users st' = users st"
    and "finite T" "acyclic (val_edge st)"
    and "\<forall>t. t \<notin> T \<longrightarrow> curr (syms st' t) = curr (syms st t)" "\<forall>t \<in> T. calculated st t \<and> calculated st' t"
  shows "curr (syms st' s) = curr (syms st s)"
proof -
  let ?E = "val_edge st \<inter> T \<times> T"
  have "wf (?E\<inverse>)"
    using assms(5,6) by (intro finite_acyclic_wf_converse) (auto intro: acyclic_subset)
  then show ?thesis
  proof (induction s rule: wf_induct_rule)
    case (less s)
    show ?case
    proof (cases "s \<in> T")
      case True
      have "curr (syms st' t) = curr (syms st t)" if "t \<in> vdeps st s" for t
        using less [of t] that True assms(7) by (cases "t \<in> T") (simp_all add: val_edge_def)
      then have "same_inputs s st st'" using assms(1-4) by (simp add: same_inputs_def)
      then show ?thesis using sem_curr_local assms(8) True by (simp add: calculated_def)
    qed (use assms(7) in simp)
  qed
qed

text \<open>The loop over symbols that \<^verbatim>\<open>conf_read\<close> and \<^verbatim>\<open>conf_write_autoconf\<close> run, for any order of the symbols.\<close>

fun calc_all :: "nat \<Rightarrow> symid list \<Rightarrow> kstate \<Rightarrow> kstate option" where
  "calc_all n [] st = Some st"
| "calc_all n (s # ss) st = do { st1 \<leftarrow> sym_calc_value n s st; calc_all n ss st1 }"

lemma calc_all_total: "calc_ok k st0 st \<Longrightarrow> k \<le> n \<Longrightarrow> run False (calc_all n ss st) (calc_ok k st0)"
proof (induction ss arbitrary: st)
  case (Cons s ss)
  then show ?case by (auto intro!: run_mono [OF sym_calc_value_total [OF Cons.prems(2,1)]])
qed simp

lemma calc_all_going:
  "going V0 {} st \<Longrightarrow> run True (calc_all n ss st) (\<lambda>st'. kept {} st st' \<and> going V0 {} st' \<and> set ss \<subseteq> valid st')"
proof (induction ss arbitrary: st)
  case (Cons s ss)
  have "run True (sym_calc_value n s st) (\<lambda>st1. run True (calc_all n ss st1) (\<lambda>st'. kept {} st st' \<and> going V0 {} st' \<and> set (s # ss) \<subseteq> valid st'))"
  proof (rule run_mono)
    show "run True (sym_calc_value n s st) (\<lambda>st1. kept {} st st1 \<and> going V0 {} st1 \<and> s \<in> valid st1)"
      using sym_calc_value_calls [of V0 n] Cons.prems unfolding calls_def by blast
    fix st1 assume a: "kept {} st st1 \<and> going V0 {} st1 \<and> s \<in> valid st1"
    show "run True (calc_all n ss st1) (\<lambda>st'. kept {} st st' \<and> going V0 {} st' \<and> set (s # ss) \<subseteq> valid st')"
    proof (rule run_mono [OF Cons.IH])
      show "going V0 {} st1" using a by simp
      fix st' assume b: "kept {} st1 st' \<and> going V0 {} st' \<and> set ss \<subseteq> valid st'"
      then show "kept {} st st' \<and> going V0 {} st' \<and> set (s # ss) \<subseteq> valid st'"
        using a kept_trans [of "{}" st st1 st'] kept_fields(5) [of "{}" st1 st'] by auto
    qed
  qed
  then show ?case by simp
qed simp

lemma calc_all_sem:
  assumes "calc_wf st" "calc_plain st" "need st = {}" "finite (todo st)" "card (todo st) < n"
    and "modules_sym st = Some m" "m \<in> valid st" "todo st \<subseteq> set ss"
  shows "\<exists>st'. calc_all n ss st = Some st' \<and> kept {} st st' \<and> (\<forall>t \<in> todo st. calculated st' t)"
proof -
  have "run False (calc_all n ss st) (calc_ok (Suc (pending st)) st)"
    by (rule calc_all_total) (use assms(1,3,4,5) in \<open>simp_all add: calc_ok_def pending_def\<close>)
  then obtain st' where st': "calc_all n ss st = Some st'" by (auto simp: run_False)
  have "going (valid st) {} st" using assms(2,3,6,7) by (simp add: going_def)
  from calc_all_going [OF this, of n ss] have k: "kept {} st st'" "going (valid st) {} st'" "set ss \<subseteq> valid st'"
    by (simp_all add: st')
  have "calculated st' t" if "t \<in> todo st" for t
  proof (rule stays_now [of "{}"])
    have "t \<in> valid st' - {} - valid st" using that assms(8) k(3) by (auto simp: todo_def valid_def)
    then show "stays {} st' (\<lambda>x. calculated x t)" using k(2) unfolding going_def by blast
  qed
  then show ?thesis using st' k(1) by blast
qed


section \<open>Results\<close>

lemma strtoll_bounds: "LLONG_MIN \<le> strtoll x b" "strtoll x b \<le> LLONG_MAX"
  by (auto simp: strtoll_def clamp_ll_def LLONG_MIN_def LLONG_MAX_def split: list.split)

lemma in_range_bounds:
  assumes "lo \<le> hi" "LLONG_MIN \<le> lo" "hi \<le> LLONG_MAX" "ty = S_INT \<or> ty = S_HEX \<and> 0 \<le> lo" "base = (if ty = S_INT then 10 else 16)"
  shows "strtoll (cstr (in_range ty lo hi v)) base \<in> {lo..hi}"
  using assms strtoll_print_lld [of lo] strtoll_print_lld [of hi] strtoll_print_0x [of lo] strtoll_print_0x [of hi]
  by (auto simp: in_range_def Let_def)



section \<open>The example\<close>

lemma ex_config_plain: "calc_plain ex_config"
  unfolding calc_plain_def
proof (intro conjI)
  show "\<forall>s. \<not> sym_is_choice ex_config s \<and> \<not> sym_is_choice_value ex_config s"
    by (auto simp: ex_config_defs)
  show "\<forall>s. \<forall>p \<in> set (sym_prop (syms ex_config s)). p_sym (props ex_config p) = Some s"
    by (auto simp: ex_config_defs)
  show "acyclic (val_edge ex_config)"
  proof (rule acyclicI_order [where f = "\<lambda>s. if s = 10 \<or> s = 11 then 1 else 0 :: nat"])
    fix a b assume "(a, b) \<in> val_edge ex_config"
    then show "(if b = 10 \<or> b = 11 then 1 else 0 :: nat) < (if a = 10 \<or> a = 11 then 1 else 0)"
      by (auto simp: val_edge_def vdeps_def ex_config_defs split: if_splits)
  qed
qed

lemma ex_config_ready:
  "need ex_config = {}" "finite (todo ex_config)" "card (todo ex_config) < 4" "modules_sym ex_config = Some 6" "6 \<in> valid ex_config"
  using ex_config_todo by (simp_all add: ex_config_defs valid_def)




end
