(* ===== verification/Kconf_Set.thy ===== *)
theory Kconf_Set
  imports Kconf_Calc
begin

text \<open>
  Setting user values (\<^verbatim>\<open>support/kconfig/symbol.c\<close>) and giving values to all symbols without one
  (\<^verbatim>\<open>conf_set_all_new_symbols\<close> of \<^verbatim>\<open>confdata.c\<close>). As in \<open>Kconf_Calc\<close>, \<open>scv\<close> is the function to call
  for \<^verbatim>\<open>sym_calc_value\<close>, and \<open>None\<close> stands for a null pointer that the code would dereference.
\<close>

section \<open>Change count\<close>

text \<open>The callback \<^verbatim>\<open>conf_changed_callback\<close> belongs to the user interfaces and is not modelled.\<close>

definition sym_set_change_count :: "int \<Rightarrow> kstate \<Rightarrow> kstate" where
  "sym_set_change_count count st = st\<lparr>sym_change_count := count\<rparr>"

definition sym_add_change_count :: "int \<Rightarrow> kstate \<Rightarrow> kstate" where
  "sym_add_change_count count st = sym_set_change_count (count + sym_change_count st) st"

definition conf_get_changed :: "kstate \<Rightarrow> bool" where
  "conf_get_changed st \<longleftrightarrow> sym_change_count st \<noteq> 0"

text \<open>\<^verbatim>\<open>sym_calc_value\<close> returns at once for a null pointer.\<close>

definition calc_opt :: "calc \<Rightarrow> symid option \<Rightarrow> kstate \<Rightarrow> kstate option" where
  "calc_opt scv s st = (case s of None \<Rightarrow> Some st | Some m \<Rightarrow> scv m st)"

definition clear_valid :: "symid list \<Rightarrow> kstate \<Rightarrow> kstate" where
  "clear_valid = fold (\<lambda>s. clear_flag s {SYMBOL_VALID})"

definition sym_clear_all_valid :: "calc \<Rightarrow> kstate \<Rightarrow> kstate option" where
  "sym_clear_all_valid scv st =
    (let st1 = sym_add_change_count 1 (clear_valid (for_all_symbols st) st) in
     calc_opt scv (modules_sym st1) st1)"

section \<open>Boolean and tristate values\<close>

definition sym_is_changable :: "kstate \<Rightarrow> symid \<Rightarrow> bool" where
  "sym_is_changable st s \<longleftrightarrow> visible (syms st s) > ev_tri (rev_dep (syms st s))"

definition sym_tristate_within_range :: "kstate \<Rightarrow> symid \<Rightarrow> tristate \<Rightarrow> bool" where
  "sym_tristate_within_range st s val =
    (let type = sym_get_type st s; vis = visible (syms st s); rev = ev_tri (rev_dep (syms st s)) in
     if vis = No then False
     else if type \<noteq> S_BOOLEAN \<and> type \<noteq> S_TRISTATE then False
     else if type = S_BOOLEAN \<and> val = Mod then False
     else if vis \<le> rev then False
     else if sym_is_choice_value st s \<and> vis = Yes then val = Yes
     else val \<ge> rev \<and> val \<le> vis)"

text \<open>Making a value the user's choice, with the flags of the choice and its other visible values.\<close>

definition select_choice_value :: "symid \<Rightarrow> kstate \<Rightarrow> kstate option" where
  "select_choice_value s st =
    do { p \<leftarrow> sym_get_choice_prop st s;
         cs \<leftarrow> prop_get_symbol st p;
         let st1 = set_flag cs {SYMBOL_DEF_USER} (set_def_val cs S_DEF_USER (VSym s) st);
         ss \<leftarrow> choice_list st1 cs;
         Some (fold (\<lambda>t st. if visible (syms st t) \<noteq> No then set_flag t {SYMBOL_DEF_USER} st else st) ss st1) }"

definition mark_def_user :: "symid \<Rightarrow> kstate \<Rightarrow> kstate" where
  "mark_def_user s st =
    (if sym_has_value st s then st else sym_set_changed s (set_flag s {SYMBOL_DEF_USER} st))"

definition sym_set_tristate_value :: "calc \<Rightarrow> symid \<Rightarrow> tristate \<Rightarrow> kstate \<Rightarrow> (bool \<times> kstate) option" where
  "sym_set_tristate_value scv s val st =
    (let oldval = tri_of st s in
     if oldval \<noteq> val \<and> \<not> sym_tristate_within_range st s val then Some (False, st)
     else
       do { let st1 = mark_def_user s st;
            st2 \<leftarrow> (if sym_is_choice_value st1 s \<and> val = Yes then select_choice_value s st1 else Some st1);
            let st3 = set_def_tri s S_DEF_USER val st2;
            st4 \<leftarrow> (if oldval \<noteq> val then sym_clear_all_valid scv st3 else Some st3);
            Some (True, st4) })"

definition sym_set_choice_value :: "calc \<Rightarrow> symid \<Rightarrow> symid \<Rightarrow> kstate \<Rightarrow> (bool \<times> kstate) option" where
  "sym_set_choice_value scv ch chval st = sym_set_tristate_value scv chval Yes st"

fun next_tri :: "tristate \<Rightarrow> tristate" where
  "next_tri No = Mod"
| "next_tri Mod = Yes"
| "next_tri Yes = No"

fun toggle_steps :: "tristate \<Rightarrow> tristate \<Rightarrow> nat" where
  "toggle_steps oldval newval =
    (if next_tri newval = oldval then 1 else if next_tri (next_tri newval) = oldval then 2 else 3)"

text \<open>The loop of \<^verbatim>\<open>sym_toggle_tristate_value\<close>.\<close>

function toggle_loop :: "calc \<Rightarrow> symid \<Rightarrow> tristate \<Rightarrow> tristate \<Rightarrow> kstate \<Rightarrow> (tristate \<times> kstate) option" where
  "toggle_loop scv s oldval newval st =
    (let new = next_tri newval in
     do { (ok, st1) \<leftarrow> sym_set_tristate_value scv s new st;
          if ok \<or> oldval = new then Some (new, st1)
          else toggle_loop scv s oldval new st1 })"
  by pat_completeness auto

termination toggle_loop
proof (relation "measure (\<lambda>(scv, s, oldval, newval, st). toggle_steps oldval newval)", goal_cases)
  case (2 scv s oldval newval st new x ok st1)
  then show ?case by (cases oldval; cases newval) simp_all
qed simp

definition sym_toggle_tristate_value :: "calc \<Rightarrow> symid \<Rightarrow> kstate \<Rightarrow> (tristate \<times> kstate) option" where
  "sym_toggle_tristate_value scv s st = toggle_loop scv s (tri_of st s) (tri_of st s) st"

section \<open>String values\<close>

definition number_within_range :: "calc \<Rightarrow> symid \<Rightarrow> nat \<Rightarrow> string \<Rightarrow> kstate \<Rightarrow> (bool \<times> kstate) option" where
  "number_within_range scv s base str st =
    (if \<not> sym_string_valid st s str then Some (False, st)
     else
       do { (prop, st1) \<leftarrow> sym_get_range_prop scv s st;
            case prop of
              None \<Rightarrow> Some (True, st1)
            | Some p \<Rightarrow>
                do { let val = strtoll str base;
                     (lo, hi) \<leftarrow> range_syms (p_expr (props st1 p));
                     (l, st2) \<leftarrow> sym_get_range_val scv lo base st1;
                     if val < l then Some (False, st2)
                     else do { (h, st3) \<leftarrow> sym_get_range_val scv hi base st2; Some (val \<le> h, st3) } } })"

definition sym_string_within_range :: "calc \<Rightarrow> symid \<Rightarrow> string \<Rightarrow> kstate \<Rightarrow> (bool \<times> kstate) option" where
  "sym_string_within_range scv s str st =
    (case sym_type (syms st s) of
       S_STRING \<Rightarrow> Some (sym_string_valid st s str, st)
     | S_INT \<Rightarrow> number_within_range scv s 10 str st
     | S_HEX \<Rightarrow> number_within_range scv s 16 str st
     | S_BOOLEAN \<Rightarrow> Some (case tri_char str of None \<Rightarrow> False | Some v \<Rightarrow> sym_tristate_within_range st s v, st)
     | S_TRISTATE \<Rightarrow> Some (case tri_char str of None \<Rightarrow> False | Some v \<Rightarrow> sym_tristate_within_range st s v, st)
     | _ \<Rightarrow> Some (False, st))"

definition has_0x :: "string \<Rightarrow> bool" where
  "has_0x str = (case str of z # x # _ \<Rightarrow> z = CHR ''0'' \<and> (x = CHR ''x'' \<or> x = CHR ''X'') | _ \<Rightarrow> False)"

definition sym_set_string_value :: "calc \<Rightarrow> symid \<Rightarrow> string \<Rightarrow> kstate \<Rightarrow> (bool \<times> kstate) option" where
  "sym_set_string_value scv s newval st =
    (if is_bool_type (sym_type (syms st s)) then
       (case tri_char newval of
          None \<Rightarrow> Some (False, st)
        | Some v \<Rightarrow> sym_set_tristate_value scv s v st)
     else
       do { (ok, st1) \<leftarrow> sym_string_within_range scv s newval st;
            if \<not> ok then Some (False, st1)
            else
              let st2 = mark_def_user s st1;
                  oldval = sv_val (sdef (syms st2 s) S_DEF_USER) in
              if sym_type (syms st2 s) = S_HEX \<and> \<not> has_0x newval then
                do { st3 \<leftarrow> sym_clear_all_valid scv
                       (set_def_val s S_DEF_USER (VStr (CHR ''0'' # CHR ''x'' # newval)) st2);
                     Some (True, st3) }
              else if oldval = VNull \<or> cstr oldval \<noteq> newval then
                do { st3 \<leftarrow> sym_clear_all_valid scv (set_def_val s S_DEF_USER (VStr newval) st2);
                     Some (True, st3) }
              else Some (True, st2) })"

text \<open>
  \<^verbatim>\<open>sym_get_string_default\<close>. The code reads \<^verbatim>\<open>modules_sym->curr\<close> only for a value \<^verbatim>\<open>m\<close> of a symbol that
  is not a choice value.
\<close>

definition sym_get_string_default :: "calc \<Rightarrow> symid \<Rightarrow> kstate \<Rightarrow> (string \<times> kstate) option" where
  "sym_get_string_default scv s st =
    do { st1 \<leftarrow> sym_calc_visibility scv s st;
         st2 \<leftarrow> calc_opt scv (modules_sym st1) st1;
         (prop, st3) \<leftarrow> sym_get_default_prop scv s st2;
         (val, str, st4) \<leftarrow>
           (case prop of
              None \<Rightarrow> Some (No, VStr [], st3)
            | Some p \<Rightarrow>
                if is_bool_type (sym_type (syms st3 s)) then
                  do { (v, st4) \<leftarrow> expr_calc_value scv (p_expr (props st3 p)) st3;
                       Some (EXPR_AND v (ev_tri (p_visible (props st4 p))), VStr [], st4) }
                else
                  (case prop_get_symbol st3 p of
                     None \<Rightarrow> Some (No, VStr [], st3)
                   | Some ds \<Rightarrow> do { st4 \<leftarrow> scv ds st3; Some (No, sv_val (curr (syms st4 ds)), st4) }));
         let val1 = EXPR_OR val (ev_tri (rev_dep (syms st4 s)));
         val2 \<leftarrow> (if val1 = Mod \<and> \<not> sym_is_choice_value st4 s
                  then do { m \<leftarrow> modules_sym st4; Some (if tri_of st4 m = No then Yes else val1) }
                  else Some val1);
         let val3 = (if sym_type (syms st4 s) = S_BOOLEAN \<and> val2 = Mod then Yes else val2);
         Some (if is_bool_type (sym_type (syms st4 s))
               then (case val3 of No \<Rightarrow> ''n'' | Mod \<Rightarrow> ''m'' | Yes \<Rightarrow> ''y'')
               else if sym_type (syms st4 s) \<in> {S_INT, S_HEX, S_STRING} then cstr str
               else [], st4) }"

section \<open>Values for all new symbols\<close>

datatype conf_def_mode = def_default | def_yes | def_mod | def_no | def_random

text \<open>
  \<^verbatim>\<open>int tmp = strtol(env, &endp, 10)\<close>: the value, converted to \<^verbatim>\<open>int\<close>, and the rest of the string
  (the whole string if there is no number).
\<close>

definition to_int32 :: "int \<Rightarrow> int" where
  "to_int32 v = (v + 2 ^ 31) mod 2 ^ 32 - 2 ^ 31"

definition strtol_end :: "string \<Rightarrow> int \<times> string" where
  "strtol_end s =
    (let s1 = dropWhile isspace s;
         s2 = (case s1 of c # cs \<Rightarrow> if c = CHR ''-'' \<or> c = CHR ''+'' then cs else s1 | [] \<Rightarrow> []) in
     (to_int32 (strtoll s 10),
      if takeWhile isdigit s2 = [] then s else dropWhile isdigit s2))"

text \<open>The loop over \<^verbatim>\<open>KCONFIG_PROBABILITY\<close>; \<open>None\<close> is the exit for a value out of range.\<close>

fun read_probs :: "nat \<Rightarrow> string \<Rightarrow> int list option" where
  "read_probs 0 env = Some []"
| "read_probs (Suc k) [] = Some []"
| "read_probs (Suc k) env =
     (case strtol_end env of (tmp, endp) \<Rightarrow>
        if 0 \<le> tmp \<and> tmp \<le> 100
        then map_option ((#) tmp)
               (read_probs k (case endp of c # cs \<Rightarrow> if c = CHR '':'' then cs else endp | [] \<Rightarrow> []))
        else None)"

definition probabilities :: "conf_def_mode \<Rightarrow> string \<Rightarrow> (int \<times> int \<times> int) option" where
  "probabilities mode env =
    (if mode \<noteq> def_random then Some (50, 33, 33)
     else
       do { p \<leftarrow> read_probs 3 env;
            let (pby, pty, ptm) =
              (case p of
                 [a] \<Rightarrow> (a, a - a div 2, a div 2)
               | [a, b] \<Rightarrow> (a + b, a, b)
               | [a, b, c] \<Rightarrow> (a, b, c)
               | _ \<Rightarrow> (50, 33, 33));
            if pty + ptm > 100 then None else Some (pby, pty, ptm) })"

text \<open>The user value the first loop gives a symbol without one; \<open>None\<close> for \<^verbatim>\<open>continue\<close>.\<close>

definition new_tri :: "conf_def_mode \<Rightarrow> int \<times> int \<times> int \<Rightarrow> symbol_type \<Rightarrow> nat \<Rightarrow> tristate option" where
  "new_tri mode probs type r =
    (case probs of (pby, pty, ptm) \<Rightarrow>
     case mode of
       def_yes \<Rightarrow> Some Yes
     | def_mod \<Rightarrow> Some Mod
     | def_no \<Rightarrow> Some No
     | def_random \<Rightarrow>
         (let cnt = int (r mod 100) in
          Some (if type = S_TRISTATE
                then (if cnt < pty then Yes else if cnt < pty + ptm then Mod else No)
                else if cnt < pby then Yes else No))
     | def_default \<Rightarrow> None)"

text \<open>
  \<open>rand k\<close> is the \<open>k\<close>-th number \<^verbatim>\<open>rand()\<close> returns; the loops count the numbers they have drawn.
\<close>

definition set_new_symbol ::
    "(nat \<Rightarrow> nat) \<Rightarrow> conf_def_mode \<Rightarrow> int \<times> int \<times> int \<Rightarrow> symid \<Rightarrow> bool \<times> nat \<times> kstate \<Rightarrow> bool \<times> nat \<times> kstate" where
  "set_new_symbol rand mode probs s = (\<lambda>(changed, k, st).
    if sym_has_value st s \<or> has_flag st s SYMBOL_VALID then (changed, k, st)
    else if is_bool_type (sym_get_type st s) then
      (case new_tri mode probs (sym_type (syms st s)) (rand k) of
         None \<Rightarrow> (True, k, st)
       | Some v \<Rightarrow>
           (let st1 = set_def_tri s S_DEF_USER v st in
            (True, if mode = def_random then Suc k else k,
             if sym_is_choice st1 s \<and> mode = def_random then st1
             else set_flag s {SYMBOL_DEF_USER} st1)))
    else (changed, k, st))"

definition randomize_choice_values :: "(nat \<Rightarrow> nat) \<Rightarrow> symid \<Rightarrow> nat \<times> kstate \<Rightarrow> (bool \<times> nat \<times> kstate) option" where
  "randomize_choice_values rand cs = (\<lambda>(k, st).
    if tri_of st cs \<noteq> Yes then Some (False, k, st)
    else
      do { ss \<leftarrow> choice_list st cs;
           if ss = [] then None
           else
             let d = rand k mod length ss;
                 st1 = fold (\<lambda>(i, t) st.
                   clear_flag t {SYMBOL_VALID} (set_flag t {SYMBOL_DEF_USER}
                     (if i = d
                      then set_def_val cs S_DEF_USER (VSym t) (set_def_tri t S_DEF_USER Yes st)
                      else set_def_tri t S_DEF_USER No st)))
                   (enumerate 0 ss) st in
             Some (True, Suc k, clear_flag cs {SYMBOL_VALID} (set_flag cs {SYMBOL_DEF_USER} st1)) })"

definition need_choice_values :: "symid \<Rightarrow> kstate \<Rightarrow> kstate" where
  "need_choice_values s st =
    (if (sym_is_choice st s \<and> \<not> sym_has_value st s) \<or> sym_is_choice_value st s
     then set_flag s {SYMBOL_NEED_SET_CHOICE_VALUES} st else st)"

fun set_new_choices ::
    "calc \<Rightarrow> (nat \<Rightarrow> nat) \<Rightarrow> conf_def_mode \<Rightarrow> symid list \<Rightarrow> bool \<times> nat \<times> kstate \<Rightarrow> (bool \<times> nat \<times> kstate) option" where
  "set_new_choices scv rand mode [] r = Some r"
| "set_new_choices scv rand mode (cs # css) (changed, k, st) =
     (if sym_has_value st cs \<or> \<not> sym_is_choice st cs
      then set_new_choices scv rand mode css (changed, k, st)
      else
        do { st1 \<leftarrow> scv cs st;
             r \<leftarrow> (if mode = def_random then randomize_choice_values rand cs (k, st1)
                   else do { st2 \<leftarrow> set_all_choice_values cs st1; Some (True, k, st2) });
             set_new_choices scv rand mode css r })"

definition conf_set_all_new_symbols ::
    "calc \<Rightarrow> (nat \<Rightarrow> nat) \<Rightarrow> conf_def_mode \<Rightarrow> string \<Rightarrow> kstate \<Rightarrow> (bool \<times> kstate) option" where
  "conf_set_all_new_symbols scv rand mode env st =
    do { probs \<leftarrow> probabilities mode env;
         let (changed, k, st1) = fold (set_new_symbol rand mode probs) (for_all_symbols st) (False, 0, st);
         st2 \<leftarrow> sym_clear_all_valid scv st1;
         let st3 = (if mode \<noteq> def_random then fold need_choice_values (for_all_symbols st2) st2 else st2);
         (changed', _, st4) \<leftarrow> set_new_choices scv rand mode (for_all_symbols st3) (changed, k, st3);
         Some (changed', st4) }"

end
