(* ===== verification/Kconf_Symtab.thy ===== *)
theory Kconf_Symtab
  imports Kconf_Set "HOL-Library.Word"
begin

text \<open>
  The symbol table (\<^verbatim>\<open>support/kconfig/symbol.c\<close>): the hash function, \<^verbatim>\<open>sym_lookup\<close>, \<^verbatim>\<open>sym_find\<close> and
  the expansion of symbol names in strings. The locale \<open>symbol_table\<close> states what the rest of
  the program relies on; it is interpreted on these definitions.
\<close>

unbundle bit_operations_syntax

section \<open>Hashing\<close>

text \<open>
  \<^verbatim>\<open>hash ^ *s\<close>: the plain \<^verbatim>\<open>char\<close>, signed on the hosts Buildroot runs on, is extended to 32 bits.
\<close>

definition char_word :: "char \<Rightarrow> 32 word" where
  "char_word c = (if code c < 128 then of_nat (code c) else of_nat (code c) + 0xFFFFFF00)"

definition strhash :: "string \<Rightarrow> 32 word" where
  "strhash s = foldl (\<lambda>hash c. (hash XOR char_word c) * 0x01000193) 2166136261 s"

definition hash_slot :: "string \<Rightarrow> nat" where
  "hash_slot n = unat (strhash n) mod SYMBOL_HASHSIZE"

lemma hash_slot_less: "hash_slot n < SYMBOL_HASHSIZE"
  by (simp add: hash_slot_def SYMBOL_HASHSIZE_def)

section \<open>Lookup\<close>

definition const_name :: "string \<Rightarrow> symid option" where
  "const_name n =
    (if n = ''y'' then Some symbol_yes else if n = ''m'' then Some symbol_mod
     else if n = ''n'' then Some symbol_no else None)"

text \<open>The test of \<^verbatim>\<open>sym_lookup\<close> on a symbol of the chain.\<close>

definition lookup_match :: "kstate \<Rightarrow> string \<Rightarrow> sym_flag set \<Rightarrow> symid \<Rightarrow> bool" where
  "lookup_match st n fl s \<longleftrightarrow> sym_name (syms st s) = Some n \<and>
    (if fl \<noteq> {} then flags (syms st s) \<inter> fl \<noteq> {}
     else flags (syms st s) \<inter> {SYMBOL_CONST, SYMBOL_CHOICE} = {})"

definition alloc_symbol :: "string option \<Rightarrow> sym_flag set \<Rightarrow> nat \<Rightarrow> kstate \<Rightarrow> symid \<times> kstate" where
  "alloc_symbol n fl hash st =
    (let s = next_sym st in
     (s, st\<lparr>syms := (syms st)(s := free_symbol\<lparr>sym_name := n, flags := fl\<rparr>),
            symbol_hash := (symbol_hash st)(hash := s # symbol_hash st hash), next_sym := Suc s\<rparr>))"

definition sym_lookup :: "string option \<Rightarrow> sym_flag set \<Rightarrow> kstate \<Rightarrow> symid \<times> kstate" where
  "sym_lookup name fl st =
    (case name of
       None \<Rightarrow> alloc_symbol None fl 0 st
     | Some n \<Rightarrow>
         (case const_name n of
            Some s \<Rightarrow> (s, st)
          | None \<Rightarrow>
              (case List.find (lookup_match st n fl) (symbol_hash st (hash_slot n)) of
                 Some s \<Rightarrow> (s, st)
               | None \<Rightarrow> alloc_symbol (Some n) fl (hash_slot n) st)))"

definition find_match :: "kstate \<Rightarrow> string \<Rightarrow> symid \<Rightarrow> bool" where
  "find_match st n s \<longleftrightarrow> sym_name (syms st s) = Some n \<and> SYMBOL_CONST \<notin> flags (syms st s)"

definition sym_find :: "string option \<Rightarrow> kstate \<Rightarrow> symid option" where
  "sym_find name st =
    (case name of
       None \<Rightarrow> None
     | Some n \<Rightarrow>
         (case const_name n of
            Some s \<Rightarrow> Some s
          | None \<Rightarrow> List.find (find_match st n) (symbol_hash st (hash_slot n))))"

section \<open>Expansion of names in strings\<close>

definition SYMBOL_MAXLENGTH :: nat where
  "SYMBOL_MAXLENGTH = 256"

definition name_char :: "char \<Rightarrow> bool" where
  "name_char c \<longleftrightarrow> isalnum c \<or> c = CHR ''_''"

text \<open>
  The value that replaces a name, shared by \<^verbatim>\<open>sym_expand_string_value\<close> and \<^verbatim>\<open>conf_expand_value\<close>.
\<close>

definition name_value :: "calc \<Rightarrow> string \<Rightarrow> kstate \<Rightarrow> (string \<times> kstate) option" where
  "name_value scv n st =
    (case sym_find (Some n) st of
       None \<Rightarrow> Some ([], st)
     | Some s \<Rightarrow> do { st1 \<leftarrow> scv s st; sym_get_string_value scv s st1 })"

text \<open>
  The loop of \<^verbatim>\<open>sym_expand_string_value\<close>, with the size \<open>reslen\<close> of the buffer \<^verbatim>\<open>res\<close>. A name is
  copied to \<^verbatim>\<open>name[SYMBOL_MAXLENGTH]\<close> without a test of its length; \<open>None\<close> stands for writing
  past the end of that array, or past the end of \<^verbatim>\<open>res\<close>.
\<close>

function expand_loop :: "calc \<Rightarrow> string \<Rightarrow> string \<Rightarrow> nat \<Rightarrow> kstate \<Rightarrow> (string \<times> kstate) option" where
  "expand_loop scv inp res reslen st =
    (case dropWhile (\<lambda>c. c \<noteq> CHR ''$'') inp of
       [] \<Rightarrow> if length res + length inp < reslen then Some (res @ inp, st) else None
     | _ # src \<Rightarrow>
         let res1 = res @ takeWhile (\<lambda>c. c \<noteq> CHR ''$'') inp;
             name = takeWhile name_char src;
             src1 = dropWhile name_char src in
         if \<not> length res1 < reslen \<or> \<not> length name < SYMBOL_MAXLENGTH then None
         else
           do { (symval, st1) \<leftarrow> name_value scv name st;
                let newlen = length res1 + length symval + length src1 + 1;
                let reslen1 = (if newlen > reslen then newlen else reslen);
                if length res1 + length symval < reslen1
                then expand_loop scv src1 (res1 @ symval) reslen1 st1 else None })"
  by pat_completeness auto

termination expand_loop
proof (relation "measure (\<lambda>(scv, inp, res, reslen, st). length inp)", goal_cases)
  case (2 scv inp res reslen st a src)
  have "length src < length inp"
    using 2(1) by (rule dropWhile_Cons_length)
  then show ?case using 2 length_dropWhile_le [of name_char src] by simp
qed simp

declare expand_loop.simps [simp del]

definition sym_expand_string_value :: "calc \<Rightarrow> string \<Rightarrow> kstate \<Rightarrow> (string \<times> kstate) option" where
  "sym_expand_string_value scv inp st = expand_loop scv inp [] (length inp + 1) st"

section \<open>The interface\<close>

text \<open>
  What the other components rely on. The keys are the plain names and the names of constants;
  \<open>present\<close> says that a name has been entered.
\<close>

definition kinds :: "sym_flag set set" where
  "kinds = {{}, {SYMBOL_CONST}}"

locale symbol_table =
  fixes wf :: "kstate \<Rightarrow> bool"
    and lookup :: "string option \<Rightarrow> sym_flag set \<Rightarrow> kstate \<Rightarrow> symid \<times> kstate"
    and find :: "string option \<Rightarrow> kstate \<Rightarrow> symid option"
  assumes lookup_wf: "wf st \<Longrightarrow> fl \<in> kinds \<Longrightarrow> wf (snd (lookup (Some n) fl st))"
    and lookup_again: "wf st \<Longrightarrow> fl \<in> kinds \<Longrightarrow> lookup (Some n) fl st = (s, st') \<Longrightarrow>
      lookup (Some n) fl st' = (s, st')"
    and lookup_keeps: "wf st \<Longrightarrow> fl \<in> kinds \<Longrightarrow> gl \<in> kinds \<Longrightarrow> lookup (Some m) gl st = (t, st) \<Longrightarrow>
      lookup (Some n) fl st = (s, st') \<Longrightarrow> lookup (Some m) gl st' = (t, st')"
    and lookup_find: "wf st \<Longrightarrow> lookup (Some n) {} st = (s, st) \<longleftrightarrow> find (Some n) st = Some s"
begin

text \<open>A sequence of lookups, as the parser makes them.\<close>

definition lookups :: "(string \<times> sym_flag set) list \<Rightarrow> kstate \<Rightarrow> kstate" where
  "lookups = fold (\<lambda>(n, fl) st. snd (lookup (Some n) fl st))"

lemma lookups_wf: "wf st \<Longrightarrow> snd ` set ks \<subseteq> kinds \<Longrightarrow> wf (lookups ks st)"
  unfolding lookups_def by (rule fold_closed) (auto simp: lookup_wf)

lemma lookups_keep:
  assumes "wf st" "gl \<in> kinds" "lookup (Some m) gl st = (t, st)" "snd ` set ks \<subseteq> kinds"
  shows "lookup (Some m) gl (lookups ks st) = (t, lookups ks st)"
  using assms(1,3,4)
proof (induction ks arbitrary: st)
  case Nil
  then show ?case by (simp add: lookups_def)
next
  case (Cons k ks)
  obtain n fl where k: "k = (n, fl)" by (cases k)
  obtain s st' where l: "lookup (Some n) fl st = (s, st')" by (cases "lookup (Some n) fl st")
  have fl: "fl \<in> kinds" using Cons.prems(3) k by simp
  have "lookup (Some m) gl st' = (t, st')" "wf st'"
    using lookup_keeps [OF Cons.prems(1) fl assms(2) Cons.prems(2) l] lookup_wf [OF Cons.prems(1) fl, of n] l
    by auto
  then show ?case using Cons.IH [of st'] Cons.prems(3) by (simp add: lookups_def k l)
qed

lemma interned:
  assumes "wf st" "fl \<in> kinds" "lookup (Some n) fl st = (s, st1)" "snd ` set ks \<subseteq> kinds"
  shows "lookup (Some n) fl (lookups ks st1) = (s, lookups ks st1)"
  using lookups_keep [OF _ assms(2) lookup_again [OF assms(1-3)] assms(4)] lookup_wf [OF assms(1,2), of n]
    assms(3) by simp

lemma found:
  assumes "wf st" "lookup (Some n) {} st = (s, st1)" "snd ` set ks \<subseteq> kinds"
  shows "find (Some n) (lookups ks st1) = Some s"
proof -
  have "{} \<in> kinds" by (simp add: kinds_def)
  with assms show ?thesis
    using interned [OF assms(1) _ assms(2,3)] lookup_find lookups_wf lookup_wf [of st "{}" n] by simp
qed

end

section \<open>The table is a symbol table\<close>

definition in_table :: "kstate \<Rightarrow> nat \<Rightarrow> symid \<Rightarrow> bool" where
  "in_table st h s \<longleftrightarrow> s \<in> set (symbol_hash st h)"

text \<open>
  Every chain holds allocated symbols; a named one is in the chain of its name, is not \<^verbatim>\<open>y\<close>, \<^verbatim>\<open>m\<close>
  or \<^verbatim>\<open>n\<close> and not a choice; a name occurs at most once as a constant and once as a variable.
\<close>

definition symtab_wf :: "kstate \<Rightarrow> bool" where
  "symtab_wf st \<longleftrightarrow>
    (\<forall>h s. in_table st h s \<longrightarrow> s < next_sym st) \<and>
    (\<forall>h s n. in_table st h s \<and> sym_name (syms st s) = Some n \<longrightarrow>
      h = hash_slot n \<and> const_name n = None \<and> \<not> sym_is_choice st s) \<and>
    (\<forall>h s t. in_table st h s \<and> in_table st h t \<and> sym_name (syms st s) = sym_name (syms st t) \<and>
      sym_name (syms st s) \<noteq> None \<and>
      (SYMBOL_CONST \<in> flags (syms st s) \<longleftrightarrow> SYMBOL_CONST \<in> flags (syms st t)) \<longrightarrow> s = t)"

text \<open>On a well-formed table the tests of \<^verbatim>\<open>sym_lookup\<close> pick a unique symbol.\<close>

lemma lookup_match_kind:
  assumes "symtab_wf st" "fl \<in> kinds" "in_table st h s"
  shows "lookup_match st n fl s \<longleftrightarrow>
    sym_name (syms st s) = Some n \<and> (SYMBOL_CONST \<in> flags (syms st s) \<longleftrightarrow> fl = {SYMBOL_CONST})"
  using assms by (auto simp: lookup_match_def kinds_def symtab_wf_def)

lemma lookup_unique:
  assumes "symtab_wf st" "fl \<in> kinds" "in_table st h s" "lookup_match st n fl s"
  shows "List.find (lookup_match st n fl) (symbol_hash st h) = Some s"
proof (rule find_unique)
  fix t
  assume t: "t \<in> set (symbol_hash st h)"
  then have it: "in_table st h t" by (simp add: in_table_def)
  have "t = s" if "lookup_match st n fl t"
  proof -
    have "sym_name (syms st t) = sym_name (syms st s)" "sym_name (syms st t) \<noteq> None"
      "SYMBOL_CONST \<in> flags (syms st t) \<longleftrightarrow> SYMBOL_CONST \<in> flags (syms st s)"
      using that assms(4) lookup_match_kind [OF assms(1,2) it, of n]
        lookup_match_kind [OF assms(1,2,3), of n] by auto
    then show ?thesis
      using assms(1) it assms(3) by (auto simp: symtab_wf_def)
  qed
  then show "lookup_match st n fl t \<longleftrightarrow> t = s" using assms(4) by blast
qed (use assms(3) in \<open>simp add: in_table_def\<close>)

lemma sym_lookup_cases:
  assumes "sym_lookup (Some n) fl st = (s, st')"
  obtains (const) "const_name n = Some s" "st' = st"
  | (hit) "const_name n = None" "in_table st (hash_slot n) s" "lookup_match st n fl s" "st' = st"
  | (new) "const_name n = None" "s = next_sym st"
      "\<And>t. in_table st (hash_slot n) t \<Longrightarrow> \<not> lookup_match st n fl t"
      "alloc_symbol (Some n) fl (hash_slot n) st = (s, st')"
proof (cases "const_name n")
  case (Some t)
  then show ?thesis using assms by (intro const) (auto simp: sym_lookup_def)
next
  case None
  show ?thesis
  proof (cases "List.find (lookup_match st n fl) (symbol_hash st (hash_slot n))")
    case (Some t)
    then have "s = t" "st' = st" using assms None by (auto simp: sym_lookup_def)
    then show ?thesis
      using find_SomeD [OF Some] None by (intro hit) (auto simp: in_table_def)
  next
    case none: None
    then have a: "alloc_symbol (Some n) fl (hash_slot n) st = (s, st')"
      using assms None by (simp add: sym_lookup_def)
    then show ?thesis
      using find_NoneD [OF none] None by (intro new) (auto simp: in_table_def alloc_symbol_def Let_def)
  qed
qed

lemma alloc_symbol_effect:
  assumes "alloc_symbol n fl h st = (s, st')"
  shows "s = next_sym st" "next_sym st' = Suc s"
    "in_table st' g t \<longleftrightarrow> in_table st g t \<or> g = h \<and> t = s"
    "t \<noteq> s \<Longrightarrow> syms st' t = syms st t"
    "sym_name (syms st' s) = n" "flags (syms st' s) = fl"
  using assms by (auto simp: alloc_symbol_def Let_def in_table_def split: if_splits)

lemma symtab_wf_alloc:
  assumes wf: "symtab_wf st" and fl: "fl \<in> kinds" and a: "alloc_symbol (Some n) fl (hash_slot n) st = (s, st')"
    and n: "const_name n = None" and new: "\<And>t. in_table st (hash_slot n) t \<Longrightarrow> \<not> lookup_match st n fl t"
  shows "symtab_wf st'"
proof -
  note e = alloc_symbol_effect [OF a]
  have fresh: "t \<noteq> s" if "in_table st g t" for g t
    using wf that e(1) by (auto simp: symtab_wf_def)
  have old: "syms st' t = syms st t" if "in_table st g t" for g t
    using e(4) fresh [OF that] by simp
  have clash: "\<not> (sym_name (syms st t) = Some n \<and> (SYMBOL_CONST \<in> flags (syms st t) \<longleftrightarrow> fl = {SYMBOL_CONST}))"
    if "in_table st (hash_slot n) t" for t
    using new [OF that] lookup_match_kind [OF wf fl that, of n] by blast
  have const: "SYMBOL_CONST \<in> fl \<longleftrightarrow> fl = {SYMBOL_CONST}" "SYMBOL_CHOICE \<notin> fl"
    using fl by (auto simp: kinds_def)
  have "t < next_sym st'" if "in_table st' h t" for h t
    using that wf e(1,2,3) by (auto simp: symtab_wf_def less_Suc_eq)
  moreover have "h = hash_slot m \<and> const_name m = None \<and> \<not> sym_is_choice st' t"
    if "in_table st' h t" "sym_name (syms st' t) = Some m" for h t m
    using that n wf e(3,5,6) old const(2) by (auto simp: symtab_wf_def)
  moreover have "t = u" if tu: "in_table st' h t" "in_table st' h u"
      "sym_name (syms st' t) = sym_name (syms st' u)" "sym_name (syms st' t) \<noteq> None"
      "SYMBOL_CONST \<in> flags (syms st' t) \<longleftrightarrow> SYMBOL_CONST \<in> flags (syms st' u)" for h t u
  proof -
    consider "in_table st h t" "in_table st h u" | "h = hash_slot n" "t = s" "in_table st h u"
      | "h = hash_slot n" "u = s" "in_table st h t" | "t = s" "u = s"
      using tu(1,2) e(3) by blast
    then show ?thesis
    proof cases
      case 1
      then show ?thesis using tu wf old by (auto simp: symtab_wf_def)
    next
      case 2
      then show ?thesis using tu clash [of u] old [of h u] e(5,6) const(1) by auto
    next
      case 3
      then show ?thesis using tu clash [of t] old [of h t] e(5,6) const(1) by auto
    qed simp
  qed
  ultimately show ?thesis unfolding symtab_wf_def by blast
qed

lemma sym_lookup_wf: "symtab_wf st \<Longrightarrow> fl \<in> kinds \<Longrightarrow> symtab_wf (snd (sym_lookup (Some n) fl st))"
proof -
  assume wf: "symtab_wf st" "fl \<in> kinds"
  obtain s st' where l: "sym_lookup (Some n) fl st = (s, st')" by (cases "sym_lookup (Some n) fl st")
  from l show ?thesis
    by (cases rule: sym_lookup_cases) (use wf l in \<open>auto intro: symtab_wf_alloc\<close>)
qed

lemma sym_lookup_hit:
  assumes "symtab_wf st" "fl \<in> kinds" "const_name n = None" "in_table st (hash_slot n) s" "lookup_match st n fl s"
  shows "sym_lookup (Some n) fl st = (s, st)"
  using lookup_unique [OF assms(1,2,4,5)] assms(3) by (simp add: sym_lookup_def)

lemma sym_lookup_same_state:
  assumes "sym_lookup (Some n) fl st = (s, st)"
  shows "const_name n = Some s \<or>
    const_name n = None \<and> in_table st (hash_slot n) s \<and> lookup_match st n fl s"
  using assms
proof (cases rule: sym_lookup_cases)
  case new
  have "s \<noteq> Suc s" by simp
  then show ?thesis using alloc_symbol_effect(1,2) [OF new(4)] by metis
qed simp_all

lemma sym_lookup_again:
  assumes "symtab_wf st" "fl \<in> kinds" "sym_lookup (Some n) fl st = (s, st')"
  shows "sym_lookup (Some n) fl st' = (s, st')"
  using assms(3)
proof (cases rule: sym_lookup_cases)
  case new
  note e = alloc_symbol_effect [OF new(4)]
  have wf: "symtab_wf st'" using sym_lookup_wf [OF assms(1,2), of n] assms(3) by simp
  have s: "in_table st' (hash_slot n) s" using e(3) by simp
  show ?thesis
    by (rule sym_lookup_hit [OF wf assms(2) new(1) s])
      (use lookup_match_kind [OF wf assms(2) s, of n] e(5,6) assms(2) in \<open>auto simp: kinds_def\<close>)
qed (use assms(3) in simp_all)

lemma sym_lookup_keeps:
  assumes "symtab_wf st" "fl \<in> kinds" "gl \<in> kinds" "sym_lookup (Some m) gl st = (t, st)"
    "sym_lookup (Some n) fl st = (s, st')"
  shows "sym_lookup (Some m) gl st' = (t, st')"
  using assms(5)
proof (cases rule: sym_lookup_cases)
  case new
  note e = alloc_symbol_effect [OF new(4)]
  have wf: "symtab_wf st'" using sym_lookup_wf [OF assms(1,2), of n] assms(5) by simp
  from sym_lookup_same_state [OF assms(4)] show ?thesis
  proof
    assume "const_name m = Some t"
    then show ?thesis by (simp add: sym_lookup_def)
  next
    assume t: "const_name m = None \<and> in_table st (hash_slot m) t \<and> lookup_match st m gl t"
    then have "t \<noteq> s" using assms(1) e(1) by (auto simp: symtab_wf_def)
    then show ?thesis
      using t e(3,4) by (intro sym_lookup_hit [OF wf assms(3)]) (auto simp: lookup_match_def)
  qed
qed (use assms(4) in simp_all)

lemma sym_find_lookup:
  assumes "symtab_wf st"
  shows "sym_lookup (Some n) {} st = (s, st) \<longleftrightarrow> sym_find (Some n) st = Some s"
proof (cases "const_name n")
  case (Some t)
  then show ?thesis by (auto simp: sym_lookup_def sym_find_def)
next
  case None
  have k: "{} \<in> kinds" by (simp add: kinds_def)
  have "List.find (find_match st n) xs = List.find (lookup_match st n {}) xs"
    if "set xs \<subseteq> set (symbol_hash st (hash_slot n))" for xs
    using that lookup_match_kind [OF assms k, of "hash_slot n" _ n]
    by (induction xs) (auto simp: find_match_def in_table_def)
  then have f: "sym_find (Some n) st = List.find (lookup_match st n {}) (symbol_hash st (hash_slot n))"
    using None by (simp add: sym_find_def)
  show ?thesis
  proof
    assume "sym_lookup (Some n) {} st = (s, st)"
    then show "sym_find (Some n) st = Some s"
      using sym_lookup_same_state [of n "{}" st s] None f lookup_unique [OF assms k] by auto
  next
    assume "sym_find (Some n) st = Some s"
    then show "sym_lookup (Some n) {} st = (s, st)"
      using f None by (simp add: sym_lookup_def)
  qed
qed

interpretation symtab: symbol_table symtab_wf sym_lookup sym_find
  by unfold_locales (fact sym_lookup_wf sym_lookup_again sym_lookup_keeps sym_find_lookup)+

section \<open>Properties\<close>

text \<open>
  Property C14: symbols are interned. After \<^verbatim>\<open>sym_lookup\<close> has returned a symbol for a name, and after
  any further lookups, looking the name up again returns the same symbol and creates
  nothing; a variable is found by \<^verbatim>\<open>sym_find\<close>, and constants of the same name do not hide it.
\<close>

theorem sym_lookup_interned:
  assumes "symtab_wf st" "fl \<in> kinds" "sym_lookup (Some n) fl st = (s, st1)" "snd ` set ks \<subseteq> kinds"
    and "st2 = fold (\<lambda>(m, gl) st. snd (sym_lookup (Some m) gl st)) ks st1"
  shows "sym_lookup (Some n) fl st2 = (s, st2) \<and> (fl = {} \<longrightarrow> sym_find (Some n) st2 = Some s)"
proof -
  have "sym_find (Some n) st2 = Some s" if "fl = {}"
    using symtab.found [of st n s st1 ks] assms(1,3-5) that by (simp add: symtab.lookups_def)
  then show ?thesis using symtab.interned [OF assms(1-4)] assms(5) by (simp add: symtab.lookups_def)
qed

lemma init_state_wf: "symtab_wf init_state"
  by (simp add: symtab_wf_def in_table_def init_state_def)

theorem sym_lookup_interned_witness:
  "\<exists>st1 st2. sym_lookup (Some ''FOO'') {} init_state = (6, st1) \<and>
    st2 = fold (\<lambda>(m, gl) st. snd (sym_lookup (Some m) gl st)) [(''FOO'', {SYMBOL_CONST}), (''BAR'', {})] st1 \<and>
    sym_lookup (Some ''FOO'') {} st2 = (6, st2) \<and> sym_find (Some ''FOO'') st2 = Some 6"
proof -
  obtain st1 where l: "sym_lookup (Some ''FOO'') {} init_state = (6, st1)"
    by (cases "sym_lookup (Some ''FOO'') {} init_state")
      (simp add: sym_lookup_def const_name_def alloc_symbol_def Let_def init_state_def)
  show ?thesis
    using sym_lookup_interned [OF init_state_wf _ l, of "[(''FOO'', {SYMBOL_CONST}), (''BAR'', {})]", OF _ _ refl] l
    by (auto simp: kinds_def)
qed

section \<open>Expansion never writes past its buffer\<close>

text \<open>The expansion without buffers, and the condition that each name fits its array.\<close>

function expand_ref :: "calc \<Rightarrow> string \<Rightarrow> kstate \<Rightarrow> (string \<times> kstate) option" where
  "expand_ref scv inp st =
    (case dropWhile (\<lambda>c. c \<noteq> CHR ''$'') inp of
       [] \<Rightarrow> Some (inp, st)
     | _ # src \<Rightarrow>
         do { (symval, st1) \<leftarrow> name_value scv (takeWhile name_char src) st;
              (rest, st2) \<leftarrow> expand_ref scv (dropWhile name_char src) st1;
              Some (takeWhile (\<lambda>c. c \<noteq> CHR ''$'') inp @ symval @ rest, st2) })"
  by pat_completeness auto

lemma dropWhile_name_shorter:
  "dropWhile P inp = c # src \<Longrightarrow> length (dropWhile name_char src) < length inp"
  using dropWhile_Cons_length [of P inp c src] length_dropWhile_le [of name_char src] by linarith

termination expand_ref
  by (relation "measure (\<lambda>(scv, inp, st). length inp)") (auto intro: dropWhile_name_shorter)

function names_fit :: "string \<Rightarrow> bool" where
  "names_fit inp =
    (case dropWhile (\<lambda>c. c \<noteq> CHR ''$'') inp of
       [] \<Rightarrow> True
     | _ # src \<Rightarrow> length (takeWhile name_char src) < SYMBOL_MAXLENGTH \<and> names_fit (dropWhile name_char src))"
  by pat_completeness auto

termination names_fit
  by (relation "measure length") (auto intro: dropWhile_name_shorter)

declare expand_ref.simps [simp del] names_fit.simps [simp del]

text \<open>The buffer always has room for what is already in it and the rest of the input.\<close>

lemma expand_loop_ref:
  "names_fit inp \<Longrightarrow> length res + length inp < reslen \<Longrightarrow>
   expand_loop scv inp res reslen st = map_option (\<lambda>(r, st'). (res @ r, st')) (expand_ref scv inp st)"
proof (induction scv inp res reslen st rule: expand_loop.induct)
  case (1 scv inp res reslen st)
  show ?case
  proof (cases "dropWhile (\<lambda>c. c \<noteq> CHR ''$'') inp")
    case Nil
    then show ?thesis using 1(3)
      by (simp add: expand_loop.simps [of scv inp] expand_ref.simps [of scv inp] del: dropWhile_eq_Nil_conv)
  next
    case (Cons c src)
    let ?pre = "takeWhile (\<lambda>c. c \<noteq> CHR ''$'') inp"
    let ?name = "takeWhile name_char src" and ?src = "dropWhile name_char src"
    have len: "length inp = length ?pre + Suc (length src)"
      using arg_cong [OF takeWhile_dropWhile_id [of "\<lambda>c. c \<noteq> CHR ''$''" inp], of length] Cons by simp
    have fit: "length ?name < SYMBOL_MAXLENGTH" "names_fit ?src"
      using 1(2) Cons by (simp_all add: names_fit.simps [of inp])
    have room: "length (res @ ?pre) < reslen" using 1(3) len by simp
    have ok: "\<not> (\<not> length (res @ ?pre) < reslen \<or> \<not> length ?name < SYMBOL_MAXLENGTH)"
      using room fit by simp
    show ?thesis
    proof (cases "name_value scv ?name st")
      case None
      then show ?thesis
        using Cons ok by (simp add: expand_loop.simps [of scv inp] expand_ref.simps [of scv inp] Let_def)
    next
      case (Some p)
      obtain v st1 where p: "(v, st1) = p" by (cases p) auto
      let ?n = "length (res @ ?pre) + length v + length ?src + 1"
      let ?len = "if reslen < ?n then ?n else reslen"
      have "expand_loop scv ?src ((res @ ?pre) @ v) ?len st1
          = map_option (\<lambda>(r, st'). (((res @ ?pre) @ v) @ r, st')) (expand_ref scv ?src st1)"
        using fit(2) by (intro 1(1) [OF Cons refl refl refl ok Some p refl refl]) auto
      then show ?thesis
        using Cons ok Some p [symmetric]
        by (cases "expand_ref scv ?src st1")
          (auto simp: expand_loop.simps [of scv inp] expand_ref.simps [of scv inp] Let_def)
    qed
  qed
qed




end
