(* ===== verification/Kconf_Menu.thy ===== *)
theory Kconf_Menu
  imports Kconf_Symtab
begin

text \<open>
  Building the menu structure and its properties (\<^verbatim>\<open>support/kconfig/menu.c\<close> and the end of
  \<^verbatim>\<open>symbol.c\<close>), the checks on properties, and the visibility of menu entries. Menu 0 is
  \<^verbatim>\<open>rootmenu\<close>. \<open>None\<close> stands for a null pointer that the code would dereference.
\<close>

abbreviation (input) rootmenu :: menuid where "rootmenu \<equiv> 0"

section \<open>Names\<close>

fun sym_type_name :: "symbol_type \<Rightarrow> string" where
  "sym_type_name S_BOOLEAN = ''boolean''"
| "sym_type_name S_TRISTATE = ''tristate''"
| "sym_type_name S_INT = ''integer''"
| "sym_type_name S_HEX = ''hex''"
| "sym_type_name S_STRING = ''string''"
| "sym_type_name S_UNKNOWN = ''unknown''"
| "sym_type_name S_OTHER = ''???''"

fun prop_get_type_name :: "prop_type \<Rightarrow> string" where
  "prop_get_type_name P_PROMPT = ''prompt''"
| "prop_get_type_name P_ENV = ''env''"
| "prop_get_type_name P_COMMENT = ''comment''"
| "prop_get_type_name P_MENU = ''menu''"
| "prop_get_type_name P_DEFAULT = ''default''"
| "prop_get_type_name P_CHOICE = ''choice''"
| "prop_get_type_name P_SELECT = ''select''"
| "prop_get_type_name P_RANGE = ''range''"
| "prop_get_type_name P_SYMBOL = ''symbol''"
| "prop_get_type_name P_UNKNOWN = ''unknown''"

section \<open>Properties\<close>

definition prop_alloc :: "prop_type \<Rightarrow> symid option \<Rightarrow> kstate \<Rightarrow> propid \<times> kstate" where
  "prop_alloc type s st =
    (let p = next_prop st;
         st1 = st\<lparr>props := (props st)(p := free_property\<lparr>p_type := type, p_sym := s\<rparr>), next_prop := Suc p\<rparr> in
     (p, case s of
           None \<Rightarrow> st1
         | Some sy \<Rightarrow> upd_sym sy (\<lambda>r. r\<lparr>sym_prop := sym_prop r @ [p]\<rparr>) st1))"

definition sym_add_default :: "symid \<Rightarrow> string \<Rightarrow> kstate \<Rightarrow> kstate" where
  "sym_add_default s def st =
    (let (p, st1) = prop_alloc P_DEFAULT (Some s) st;
         (d, st2) = sym_lookup (Some def) {SYMBOL_CONST} st1 in
     upd_prop p (\<lambda>pr. pr\<lparr>p_expr := Some (expr_alloc_symbol d)\<rparr>) st2)"

text \<open>\<^verbatim>\<open>sym_init\<close> with the release \<^verbatim>\<open>uname\<close> reports; it is called once.\<close>

definition sym_init :: "string \<Rightarrow> kstate \<Rightarrow> kstate" where
  "sym_init release st =
    (let (s, st1) = sym_lookup (Some ''UNAME_RELEASE'') {} st;
         st2 = set_flag s {SYMBOL_AUTO} (upd_sym s (\<lambda>r. r\<lparr>sym_type := S_STRING\<rparr>) st1) in
     sym_add_default s release st2)"

section \<open>Entries and menus\<close>

definition menu_init :: "kstate \<Rightarrow> kstate" where
  "menu_init st = st\<lparr>current_menu := Some rootmenu, current_entry := rootmenu, last_entry := AtList rootmenu\<rparr>"

definition store_entry :: "entry_ptr \<Rightarrow> menuid \<Rightarrow> kstate \<Rightarrow> kstate" where
  "store_entry ptr m st =
    (case ptr of
       AtList x \<Rightarrow> upd_menu x (\<lambda>r. r\<lparr>m_list := Some m\<rparr>) st
     | AtNext x \<Rightarrow> upd_menu x (\<lambda>r. r\<lparr>m_next := Some m\<rparr>) st)"

text \<open>
  \<^verbatim>\<open>menu_check_dep\<close>: \<^verbatim>\<open>m\<close> becomes \<^verbatim>\<open>m && MODULES\<close>. While no modules symbol is set, the code allocates
  an \<^verbatim>\<open>E_SYMBOL\<close> node without a symbol.
\<close>

fun check_dep :: "kstate \<Rightarrow> expr \<Rightarrow> expr option" where
  "check_dep st (XNot a) = map_option XNot (check_dep st a)"
| "check_dep st (XOr l r) = do { l' \<leftarrow> check_dep st l; r' \<leftarrow> check_dep st r; Some (XOr l' r') }"
| "check_dep st (XAnd l r) = do { l' \<leftarrow> check_dep st l; r' \<leftarrow> check_dep st r; Some (XAnd l' r') }"
| "check_dep st (XSymbol s) =
     (if s = symbol_mod
      then do { m \<leftarrow> modules_sym st; Some (XAnd (XSymbol s) (expr_alloc_symbol m)) }
      else Some (XSymbol s))"
| "check_dep st e = Some e"

definition menu_check_dep :: "kstate \<Rightarrow> expr option \<Rightarrow> expr option option" where
  "menu_check_dep st e = (case e of None \<Rightarrow> Some None | Some x \<Rightarrow> map_option Some (check_dep st x))"

text \<open>The menus above an entry; \<open>None\<close> if there are more than \<open>n\<close>.\<close>

fun parents :: "nat \<Rightarrow> kstate \<Rightarrow> menuid \<Rightarrow> menuid list option" where
  "parents n st m =
    (case m_parent (menus st m) of
       None \<Rightarrow> Some []
     | Some q \<Rightarrow> (case n of 0 \<Rightarrow> None | Suc k \<Rightarrow> map_option ((#) q) (parents k st q)))"

declare parents.simps [simp del]

text \<open>The conjunction with a copy of the visibility of each upper menu that has one.\<close>

definition add_visibilities :: "kstate \<Rightarrow> menuid list \<Rightarrow> expr option \<Rightarrow> expr option" where
  "add_visibilities st ms e =
    fold (\<lambda>m e. case m_visibility (menus st m) of
                  None \<Rightarrow> e
                | Some v \<Rightarrow> expr_alloc_and e (expr_copy v)) ms e"

definition menu_add_prop ::
    "prop_type \<Rightarrow> string option \<Rightarrow> expr option \<Rightarrow> expr option \<Rightarrow> kstate \<Rightarrow> (propid \<times> kstate) option" where
  "menu_add_prop type prompt expr dep st =
    (let entry = current_entry st;
         (p, st1) = prop_alloc type (m_sym (menus st entry)) st in
     do { dep1 \<leftarrow> menu_check_dep st1 dep;
          let text = map_option (dropWhile isspace) prompt;
          vis \<leftarrow> (if prompt \<noteq> None \<and> type = P_PROMPT
                  then do { ms \<leftarrow> parents (next_menu st1) st1 entry; Some (add_visibilities st1 ms dep1) }
                  else Some dep1);
          let st2 = upd_prop p (\<lambda>pr. pr\<lparr>p_menu := Some entry, p_expr := expr,
                      p_visible := (p_visible pr)\<lparr>ev_expr := vis\<rparr>, p_text := text\<rparr>) st1;
          Some (p, if prompt \<noteq> None then upd_menu entry (\<lambda>r. r\<lparr>m_prompt := Some p\<rparr>) st2 else st2) })"

definition menu_add_prompt :: "prop_type \<Rightarrow> string \<Rightarrow> expr option \<Rightarrow> kstate \<Rightarrow> (propid \<times> kstate) option" where
  "menu_add_prompt type prompt dep st = menu_add_prop type (Some prompt) None dep st"

definition menu_add_expr :: "prop_type \<Rightarrow> expr option \<Rightarrow> expr option \<Rightarrow> kstate \<Rightarrow> kstate option" where
  "menu_add_expr type expr dep st = map_option snd (menu_add_prop type None expr dep st)"

definition menu_add_symbol :: "prop_type \<Rightarrow> symid \<Rightarrow> expr option \<Rightarrow> kstate \<Rightarrow> kstate option" where
  "menu_add_symbol type s dep st = map_option snd (menu_add_prop type None (Some (expr_alloc_symbol s)) dep st)"

definition menu_add_entry :: "symid option \<Rightarrow> kstate \<Rightarrow> kstate option" where
  "menu_add_entry s st =
    (let m = next_menu st;
         st1 = upd_menu m (\<lambda>_. free_menu\<lparr>m_sym := s, m_parent := current_menu st\<rparr>) (st\<lparr>next_menu := Suc m\<rparr>);
         st2 = (store_entry (last_entry st1) m st1)\<lparr>last_entry := AtNext m, current_entry := m\<rparr> in
     case s of None \<Rightarrow> Some st2 | Some sy \<Rightarrow> menu_add_symbol P_SYMBOL sy None st2)"

definition menu_add_menu :: "kstate \<Rightarrow> kstate" where
  "menu_add_menu st = st\<lparr>last_entry := AtList (current_entry st), current_menu := Some (current_entry st)\<rparr>"

definition menu_end_menu :: "kstate \<Rightarrow> kstate option" where
  "menu_end_menu st =
    do { m \<leftarrow> current_menu st;
         Some (st\<lparr>last_entry := AtNext m, current_menu := m_parent (menus st m)\<rparr>) }"

definition menu_add_dep :: "expr option \<Rightarrow> kstate \<Rightarrow> kstate option" where
  "menu_add_dep dep st =
    do { d \<leftarrow> menu_check_dep st dep;
         Some (upd_menu (current_entry st) (\<lambda>r. r\<lparr>m_dep := expr_alloc_and (m_dep r) d\<rparr>) st) }"

definition menu_add_visibility :: "expr option \<Rightarrow> kstate \<Rightarrow> kstate" where
  "menu_add_visibility expr st =
    upd_menu (current_entry st) (\<lambda>r. r\<lparr>m_visibility := expr_alloc_and (m_visibility r) expr\<rparr>) st"

text \<open>\<^verbatim>\<open>menu_set_type\<close>: the flag says whether the type was set or kept (otherwise the code warns).\<close>

definition menu_set_type :: "symbol_type \<Rightarrow> kstate \<Rightarrow> (bool \<times> kstate) option" where
  "menu_set_type type st =
    do { s \<leftarrow> m_sym (menus st (current_entry st));
         if sym_type (syms st s) = type then Some (True, st)
         else if sym_type (syms st s) = S_UNKNOWN then Some (True, upd_sym s (\<lambda>r. r\<lparr>sym_type := type\<rparr>) st)
         else Some (False, st) }"

section \<open>Options\<close>

datatype option_token = T_OPT_MODULES | T_OPT_DEFCONFIG_LIST | T_OPT_ENV

text \<open>
  \<^verbatim>\<open>prop_add_env\<close>; \<open>env\<close> is the process environment. A second environment property for the symbol
  is ignored, with a warning if it names another variable.
\<close>

definition prop_add_env :: "(string \<Rightarrow> string option) \<Rightarrow> string \<Rightarrow> kstate \<Rightarrow> kstate option" where
  "prop_add_env env var st =
    do { s \<leftarrow> m_sym (menus st (current_entry st));
         let st1 = set_flag s {SYMBOL_AUTO} st;
         if for_all_properties st1 s P_ENV \<noteq> [] then Some st1
         else
           let (p, st2) = prop_alloc P_ENV (Some s) st1;
               (c, st3) = sym_lookup (Some var) {SYMBOL_CONST} st2;
               st4 = upd_prop p (\<lambda>pr. pr\<lparr>p_expr := Some (expr_alloc_symbol c)\<rparr>) st3;
               st5 = st4\<lparr>sym_env_list := s # sym_env_list st4\<rparr> in
           Some (case env var of None \<Rightarrow> st5 | Some v \<Rightarrow> sym_add_default s v st5) }"

text \<open>\<^verbatim>\<open>menu_add_option\<close>; the flag says whether \<^verbatim>\<open>zconf_error\<close> was called.\<close>

definition menu_add_option ::
    "(string \<Rightarrow> string option) \<Rightarrow> option_token \<Rightarrow> string \<Rightarrow> kstate \<Rightarrow> (bool \<times> kstate) option" where
  "menu_add_option env token arg st =
    (let s = m_sym (menus st (current_entry st)) in
     case token of
       T_OPT_MODULES \<Rightarrow> Some (modules_sym st \<noteq> None, st\<lparr>modules_sym := s\<rparr>)
     | T_OPT_DEFCONFIG_LIST \<Rightarrow>
         (case sym_defconfig_list st of
            None \<Rightarrow> Some (False, st\<lparr>sym_defconfig_list := s\<rparr>)
          | Some d \<Rightarrow> Some (s \<noteq> Some d, st))
     | T_OPT_ENV \<Rightarrow> map_option (Pair False) (prop_add_env env arg st))"

section \<open>Checks on properties\<close>

definition menu_validate_number :: "kstate \<Rightarrow> symid \<Rightarrow> symid \<Rightarrow> bool" where
  "menu_validate_number st s s2 \<longleftrightarrow>
    (let ty = sym_type (syms st s2) in
     ty = S_INT \<or> ty = S_HEX \<or> (ty = S_UNKNOWN \<and> sym_string_valid st s (name_of st s2)))"

datatype prop_warning =
    Default_not_symbol | Number_invalid | Select_not_bool | Select_wrong_type | Range_not_number | Range_invalid

definition check_one_prop :: "kstate \<Rightarrow> symid \<Rightarrow> propid \<Rightarrow> prop_warning list option" where
  "check_one_prop st s p =
    (let ty = sym_type (syms st s) in
     case p_type (props st p) of
       P_DEFAULT \<Rightarrow>
         do { e \<leftarrow> p_expr (props st p);
              Some (case e of
                XSymbol s2 \<Rightarrow>
                  if (ty = S_HEX \<or> ty = S_INT) \<and> \<not> menu_validate_number st s s2 then [Number_invalid] else []
              | _ \<Rightarrow> if ty = S_STRING \<or> ty = S_INT \<or> ty = S_HEX then [Default_not_symbol] else []) }
     | P_SELECT \<Rightarrow>
         if \<not> is_bool_type ty then Some [Select_not_bool]
         else do { s2 \<leftarrow> prop_get_symbol st p;
                   let ty2 = sym_type (syms st s2);
                   Some (if ty2 \<noteq> S_UNKNOWN \<and> \<not> is_bool_type ty2 then [Select_wrong_type] else []) }
     | P_RANGE \<Rightarrow>
         do { (lo, hi) \<leftarrow> range_syms (p_expr (props st p));
              Some ((if ty \<noteq> S_INT \<and> ty \<noteq> S_HEX then [Range_not_number] else []) @
                    (if \<not> menu_validate_number st s lo \<or> \<not> menu_validate_number st s hi
                     then [Range_invalid] else [])) }
     | _ \<Rightarrow> Some [])"

text \<open>The warnings \<^verbatim>\<open>sym_check_prop\<close> prints, with the property each is about.\<close>

fun check_props :: "kstate \<Rightarrow> symid \<Rightarrow> propid list \<Rightarrow> (propid \<times> prop_warning) list option" where
  "check_props st s [] = Some []"
| "check_props st s (p # ps) =
     do { ws \<leftarrow> check_one_prop st s p; rest \<leftarrow> check_props st s ps; Some (map (Pair p) ws @ rest) }"

definition sym_check_prop :: "kstate \<Rightarrow> symid \<Rightarrow> (propid \<times> prop_warning) list option" where
  "sym_check_prop st s = check_props st s (sym_prop (syms st s))"

section \<open>Visibility of entries\<close>

text \<open>
  \<^verbatim>\<open>menu_is_visible\<close> and the loop over the children it shares with \<^verbatim>\<open>menu_is_empty\<close>; the first argument
  bounds the number of entries visited.
\<close>

fun menu_is_visible :: "nat \<Rightarrow> calc \<Rightarrow> menuid \<Rightarrow> kstate \<Rightarrow> (bool \<times> kstate) option"
and any_visible :: "nat \<Rightarrow> calc \<Rightarrow> menuid option \<Rightarrow> kstate \<Rightarrow> (bool \<times> kstate) option" where
  "menu_is_visible 0 scv m st = None"
| "menu_is_visible (Suc n) scv m st =
     (case m_prompt (menus st m) of
        None \<Rightarrow> Some (False, st)
      | Some p \<Rightarrow>
          do { (v, st1) \<leftarrow> expr_calc_value scv (m_visibility (menus st m)) st;
               if v = No then Some (False, st1)
               else
                 case m_sym (menus st1 m) of
                   None \<Rightarrow>
                     do { (v1, st2) \<leftarrow> calc_prop_visible scv p st1; Some (v1 \<noteq> No, st2) }
                 | Some s \<Rightarrow>
                     do { st2 \<leftarrow> scv s st1;
                          if ev_tri (p_visible (props st2 p)) \<noteq> No then Some (True, st2)
                          else if tri_of st2 s = No then Some (False, st2)
                          else
                            do { (c, st3) \<leftarrow> any_visible n scv (m_list (menus st2 m)) st2;
                                 Some (c, if c then set_flag s {SYMBOL_DEF_USER} st3 else st3) } } })"
| "any_visible n scv None st = Some (False, st)"
| "any_visible 0 scv (Some c) st = None"
| "any_visible (Suc n) scv (Some c) st =
     do { (v, st1) \<leftarrow> menu_is_visible n scv c st;
          if v then Some (True, st1) else any_visible n scv (m_next (menus st1 c)) st1 }"

definition menu_is_empty :: "nat \<Rightarrow> calc \<Rightarrow> menuid \<Rightarrow> kstate \<Rightarrow> (bool \<times> kstate) option" where
  "menu_is_empty n scv m st =
    do { (v, st1) \<leftarrow> any_visible n scv (m_list (menus st m)) st; Some (\<not> v, st1) }"

definition menu_has_prompt :: "kstate \<Rightarrow> menuid \<Rightarrow> bool" where
  "menu_has_prompt st m \<longleftrightarrow> m_prompt (menus st m) \<noteq> None"

definition menu_get_prompt :: "kstate \<Rightarrow> menuid \<Rightarrow> string option" where
  "menu_get_prompt st m =
    (case m_prompt (menus st m) of
       Some p \<Rightarrow> p_text (props st p)
     | None \<Rightarrow> (case m_sym (menus st m) of Some s \<Rightarrow> sym_name (syms st s) | None \<Rightarrow> None))"

text \<open>\<^verbatim>\<open>menu_get_parent_menu\<close>: the entry itself or the next one above that is a menu, or the root.\<close>

fun menu_get_parent_menu :: "nat \<Rightarrow> kstate \<Rightarrow> menuid \<Rightarrow> menuid option" where
  "menu_get_parent_menu n st m =
    (if m = rootmenu \<or>
        (case m_prompt (menus st m) of Some p \<Rightarrow> p_type (props st p) = P_MENU | None \<Rightarrow> False) then Some m
     else case n of
            0 \<Rightarrow> None
          | Suc k \<Rightarrow> do { q \<leftarrow> m_parent (menus st m); menu_get_parent_menu k st q })"

declare menu_get_parent_menu.simps [simp del]

definition menu_has_help :: "kstate \<Rightarrow> menuid \<Rightarrow> bool" where
  "menu_has_help st m \<longleftrightarrow> m_help (menus st m) \<noteq> None"

definition menu_get_help :: "kstate \<Rightarrow> menuid \<Rightarrow> string" where
  "menu_get_help st m = (case m_help (menus st m) of Some h \<Rightarrow> h | None \<Rightarrow> [])"

section \<open>Walking through the menus\<close>

text \<open>
  The steps from an entry to the one after it, as \<^verbatim>\<open>conf_write\<close> and \<^verbatim>\<open>conf_write_defconfig\<close> make them:
  to the first child, else to the next sibling, else to the next sibling of the first entry
  above that has one. \<open>next_above\<close> is the loop over the parents.
\<close>

fun next_above :: "nat \<Rightarrow> kstate \<Rightarrow> menuid \<Rightarrow> menuid option option" where
  "next_above n st m =
    (case m_parent (menus st m) of
       None \<Rightarrow> Some None
     | Some q \<Rightarrow>
         (case n of
            0 \<Rightarrow> None
          | Suc k \<Rightarrow> (case m_next (menus st q) of Some x \<Rightarrow> Some (Some x) | None \<Rightarrow> next_above k st q)))"

declare next_above.simps [simp del]

definition menu_succ :: "nat \<Rightarrow> kstate \<Rightarrow> menuid \<Rightarrow> menuid option option" where
  "menu_succ n st m =
    (case m_list (menus st m) of
       Some x \<Rightarrow> Some (Some x)
     | None \<Rightarrow> (case m_next (menus st m) of Some x \<Rightarrow> Some (Some x) | None \<Rightarrow> next_above n st m))"

text \<open>
  The loop over the entries from \<open>m\<close> on. \<open>f\<close> is its body, \<open>state_of\<close> reads the program state from
  what the loop accumulates.
\<close>

fun menu_walk :: "nat \<Rightarrow> ('a \<Rightarrow> kstate) \<Rightarrow> (menuid \<Rightarrow> 'a \<Rightarrow> 'a option) \<Rightarrow> menuid option \<Rightarrow> 'a \<Rightarrow> 'a option" where
  "menu_walk n state_of f None acc = Some acc"
| "menu_walk 0 state_of f (Some m) acc = None"
| "menu_walk (Suc n) state_of f (Some m) acc =
     do { acc1 \<leftarrow> f m acc; x \<leftarrow> menu_succ n (state_of acc1) m; menu_walk n state_of f x acc1 }"

end
