(* ===== verification/Kconf_Confdata.thy ===== *)
theory Kconf_Confdata
  imports Kconf_Menu
begin

text \<open>
  Reading configuration files (\<^verbatim>\<open>support/kconfig/confdata.c\<close>). The file system is a function from
  file names to contents, and \<open>pfx\<close> is the prefix \<^verbatim>\<open>CONFIG_\<close> (which \<^verbatim>\<open>CONFIG_prefix\<close> may take from the
  environment). \<open>None\<close> stands for a null pointer that the code would dereference, an access
  past the end of a string or array, or the bound on \<^verbatim>\<open>sym_calc_value\<close> being reached.
\<close>

abbreviation (input) newline :: char where "newline \<equiv> CHR 0x0A"
abbreviation (input) cr :: char where "cr \<equiv> CHR 0x0D"

section \<open>Reading lines\<close>

definition LINE_GROWTH :: nat where
  "LINE_GROWTH = 16"

text \<open>
  \<^verbatim>\<open>add_byte\<close> on a buffer of size \<open>n\<close> of which \<open>line\<close> is filled; \<open>None\<close> would be a write past its end.
  The memory is taken to be available.
\<close>

definition add_byte :: "char \<Rightarrow> string \<Rightarrow> nat \<Rightarrow> (string \<times> nat) option" where
  "add_byte c line n =
    (let slen = length line;
         n1 = (if slen + 1 > n then (slen + 1 + (LINE_GROWTH - 1)) * 2 else n) in
     if slen < n1 then Some (line @ [c], n1) else None)"

text \<open>
  \<^verbatim>\<open>compat_getline\<close>: the line with its newline, the size of the buffer and the rest of the stream. The
  terminating null character is written to the buffer but is not part of the line. At the end
  of the stream there is no line (\<open>Inr\<close>).
\<close>

fun getline_loop :: "string \<Rightarrow> string \<Rightarrow> nat \<Rightarrow> ((string \<times> nat \<times> string) + nat) option" where
  "getline_loop [] line n =
     do { (_, n1) \<leftarrow> add_byte (CHR 0x00) line n;
          Some (if line = [] then Inr n1 else Inl (line, n1, [])) }"
| "getline_loop (c # cs) line n =
     (if c = newline then
        do { (line1, n1) \<leftarrow> add_byte c line n;
             (_, n2) \<leftarrow> add_byte (CHR 0x00) line1 n1;
             Some (Inl (line1, n2, cs)) }
      else do { (line1, n1) \<leftarrow> add_byte c line n; getline_loop cs line1 n1 })"

definition compat_getline :: "string \<Rightarrow> nat \<Rightarrow> ((string \<times> nat \<times> string) + nat) option" where
  "compat_getline stream n = getline_loop stream [] n"

lemma getline_loop_rest:
  "getline_loop cs line n = Some (Inl (l, n', rest)) \<Longrightarrow> l \<noteq> [] \<and> length l + length rest = length line + length cs"
proof (induction cs line n rule: getline_loop.induct)
  case (1 line n)
  then show ?case by (auto simp: add_byte_def Let_def split: if_splits)
next
  case (2 c cs line n)
  show ?case
  proof (cases "c = newline")
    case True
    with 2(2) show ?thesis by (auto simp: add_byte_def Let_def split: if_splits)
  next
    case False
    with 2(2) obtain line1 n1 where a: "add_byte c line n = Some (line1, n1)"
      and r: "getline_loop cs line1 n1 = Some (Inl (l, n', rest))"
      by (auto elim!: bind_eq_SomeE)
    then have "length line1 = length line + 1" by (auto simp: add_byte_def Let_def split: if_splits)
    with 2(1) [OF False a refl r] show ?thesis by auto
  qed
qed

text \<open>The lines of a file, read into one buffer that grows as needed.\<close>

function getlines :: "string \<Rightarrow> nat \<Rightarrow> string list option" where
  "getlines stream n =
    (case compat_getline stream n of
       None \<Rightarrow> None
     | Some (Inr _) \<Rightarrow> Some []
     | Some (Inl (line, n1, rest)) \<Rightarrow>
         map_option ((#) line) (getlines rest n1))"
  by pat_completeness auto

termination getlines
proof (relation "measure (\<lambda>(stream, n). length stream)", goal_cases)
  case (2 stream n x2 x1 x y xa ya)
  then show ?case
    using getline_loop_rest [of stream "[]" n x xa ya]
    by (cases x) (auto simp: compat_getline_def)
qed simp

declare getlines.simps [simp del]

text \<open>What the code sees of a line: the characters before the first null character.\<close>

definition c_string :: "string \<Rightarrow> string" where
  "c_string = takeWhile (\<lambda>c. c \<noteq> CHR 0x00)"

section \<open>Values of symbols\<close>

definition conf_warning :: "kstate \<Rightarrow> kstate" where
  "conf_warning st = st\<lparr>conf_warnings := Suc (conf_warnings st)\<rparr>"

definition warn_unless_auto :: "def_index \<Rightarrow> kstate \<Rightarrow> kstate" where
  "warn_unless_auto def st = (if def \<noteq> S_DEF_AUTO then conf_warning st else st)"

definition set_conf_tri :: "symid \<Rightarrow> def_index \<Rightarrow> tristate \<Rightarrow> kstate \<Rightarrow> kstate" where
  "set_conf_tri s def v st = set_flag s {def_flag def} (set_def_tri s def v st)"

text \<open>The code at label \<^verbatim>\<open>done\<close> of \<^verbatim>\<open>conf_set_sym_val\<close>.\<close>

definition set_conf_string :: "symid \<Rightarrow> def_index \<Rightarrow> string \<Rightarrow> kstate \<Rightarrow> bool \<times> kstate" where
  "set_conf_string s def p st =
    (if sym_string_valid st s p then (False, set_flag s {def_flag def} (set_def_val s def (VStr p) st))
     else (True, warn_unless_auto def st))"

text \<open>The case of a string constant: the opening quote, then \<open>unescape\<close>.\<close>

definition set_conf_quoted :: "symid \<Rightarrow> def_index \<Rightarrow> string \<Rightarrow> kstate \<Rightarrow> bool \<times> kstate" where
  "set_conf_quoted s def p st =
    (case p of
       [] \<Rightarrow> (False, st)
     | c # cs \<Rightarrow>
         if c \<noteq> dquote then (False, st)
         else (case unescape cs of
                 None \<Rightarrow> (True, warn_unless_auto def st)
               | Some str \<Rightarrow> set_conf_string s def str st))"

definition first_is :: "string \<Rightarrow> char \<Rightarrow> bool" where
  "first_is p c \<longleftrightarrow> (case p of [] \<Rightarrow> False | x # _ \<Rightarrow> x = c)"

text \<open>\<^verbatim>\<open>conf_set_sym_val\<close>; the flag is its result: the value was rejected.\<close>

definition conf_set_sym_val :: "symid \<Rightarrow> def_index \<Rightarrow> string \<Rightarrow> kstate \<Rightarrow> bool \<times> kstate" where
  "conf_set_sym_val s def p st =
    (case sym_type (syms st s) of
       S_TRISTATE \<Rightarrow>
         if first_is p (CHR ''m'') then (False, set_conf_tri s def Mod st)
         else if first_is p (CHR ''y'') then (False, set_conf_tri s def Yes st)
         else if first_is p (CHR ''n'') then (False, set_conf_tri s def No st)
         else (True, warn_unless_auto def st)
     | S_BOOLEAN \<Rightarrow>
         if first_is p (CHR ''y'') then (False, set_conf_tri s def Yes st)
         else if first_is p (CHR ''n'') then (False, set_conf_tri s def No st)
         else (True, warn_unless_auto def st)
     | S_OTHER \<Rightarrow>
         if \<not> first_is p dquote
         then set_conf_string s def p (upd_sym s (\<lambda>r. r\<lparr>sym_type := S_STRING\<rparr>) st)
         else set_conf_quoted s def p st
     | S_STRING \<Rightarrow> set_conf_quoted s def p st
     | S_INT \<Rightarrow> set_conf_string s def p st
     | S_HEX \<Rightarrow> set_conf_string s def p st
     | S_UNKNOWN \<Rightarrow> (False, st))"

section \<open>Lines of a configuration file\<close>

datatype conf_line =
    Unset string          \<comment> \<open>\<^verbatim>\<open># CONFIG_FOO is not set\<close>\<close>
  | Assign string string  \<comment> \<open>\<^verbatim>\<open>CONFIG_FOO=value\<close>\<close>
  | Skip                  \<comment> \<open>a line that is passed over\<close>
  | Junk                  \<comment> \<open>a line that gets a warning\<close>

definition is_prefix :: "string \<Rightarrow> string \<Rightarrow> bool" where
  "is_prefix p s \<longleftrightarrow> take (length p) s = p"

text \<open>The value after the equals sign: up to the newline, without a carriage return before it.\<close>

definition strip_newline :: "string \<Rightarrow> string" where
  "strip_newline p =
    (let v = takeWhile (\<lambda>c. c \<noteq> newline) p in
     if newline \<in> set p \<and> v \<noteq> [] \<and> last v = cr then butlast v else v)"

text \<open>
  The tests of \<^verbatim>\<open>conf_read_simple\<close> on a line. Its text after \<^verbatim>\<open># \<close> is read at \<^verbatim>\<open>line + 2\<close>, which is past the
  end if the line is a single \<^verbatim>\<open>#\<close>.
\<close>

definition classify :: "string \<Rightarrow> string \<Rightarrow> conf_line option" where
  "classify pfx line =
    (if first_is line (CHR ''#'') then
       (if length line < 2 then None
        else if \<not> is_prefix pfx (drop 2 line) then Some Skip
        else
          let r = drop (length pfx) (drop 2 line) in
          case dropWhile (\<lambda>c. c \<noteq> CHR '' '') r of
            [] \<Rightarrow> Some Skip
          | _ # p \<Rightarrow>
              if is_prefix ''is not set'' p then Some (Unset (takeWhile (\<lambda>c. c \<noteq> CHR '' '') r)) else Some Skip)
     else if is_prefix pfx line then
       (let r = drop (length pfx) line in
        case dropWhile (\<lambda>c. c \<noteq> CHR ''='') r of
          [] \<Rightarrow> Some Skip
        | _ # p \<Rightarrow> Some (Assign (takeWhile (\<lambda>c. c \<noteq> CHR ''='') r) (strip_newline p)))
     else if first_is line cr \<or> first_is line newline then Some Skip
     else Some Junk)"

text \<open>
  The symbol a line is about: an unknown name only counts as a change when the user's
  configuration is read, and makes a new symbol otherwise.
\<close>

definition conf_symbol :: "def_index \<Rightarrow> symbol_type \<Rightarrow> string \<Rightarrow> kstate \<Rightarrow> symid option \<times> kstate" where
  "conf_symbol def ty n st =
    (if def = S_DEF_USER then
       (case sym_find (Some n) st of
          None \<Rightarrow> (None, sym_add_change_count 1 st)
        | Some s \<Rightarrow> (Some s, st))
     else
       let (s, st1) = sym_lookup (Some n) {} st in
       (Some s, if sym_type (syms st1 s) = S_UNKNOWN then upd_sym s (\<lambda>r. r\<lparr>sym_type := ty\<rparr>) st1 else st1))"

definition warn_override :: "def_index \<Rightarrow> symid \<Rightarrow> kstate \<Rightarrow> kstate" where
  "warn_override def s st = (if has_flag st s (def_flag def) then conf_warning st else st)"

text \<open>The code at label \<^verbatim>\<open>setsym\<close>: the value of a choice value decides the choice.\<close>

definition conf_set_choice :: "def_index \<Rightarrow> symid \<Rightarrow> kstate \<Rightarrow> kstate option" where
  "conf_set_choice def s st =
    (if \<not> sym_is_choice_value st s then Some st
     else
       do { p \<leftarrow> sym_get_choice_prop st s;
            cs \<leftarrow> prop_get_symbol st p;
            let v = sv_tri (sdef (syms st s) def);
            let cv = sv_tri (sdef (syms st cs) def);
            let st1 = (case v of
                         No \<Rightarrow> st
                       | Mod \<Rightarrow> if cv = Yes then clear_flag cs {def_flag def} (conf_warning st) else st
                       | Yes \<Rightarrow> set_def_val cs def (VSym s) (if cv \<noteq> No then conf_warning st else st));
            Some (set_def_tri cs def (EXPR_OR cv (sv_tri (sdef (syms st1 s) def))) st1) })"

definition conf_line_step :: "string \<Rightarrow> def_index \<Rightarrow> string \<Rightarrow> kstate \<Rightarrow> kstate option" where
  "conf_line_step pfx def line st =
    do { cl \<leftarrow> classify pfx line;
         case cl of
           Skip \<Rightarrow> Some st
         | Junk \<Rightarrow> Some (conf_warning st)
         | Unset n \<Rightarrow>
             (case conf_symbol def S_BOOLEAN n st of
                (None, st1) \<Rightarrow> Some st1
              | (Some s, st1) \<Rightarrow>
                  let st2 = warn_override def s st1 in
                  conf_set_choice def s
                    (if is_bool_type (sym_type (syms st2 s)) then set_conf_tri s def No st2 else st2))
         | Assign n v \<Rightarrow>
             (case conf_symbol def S_OTHER n st of
                (None, st1) \<Rightarrow> Some st1
              | (Some s, st1) \<Rightarrow>
                  (case conf_set_sym_val s def v (warn_override def s st1) of
                     (True, st2) \<Rightarrow> Some st2
                   | (False, st2) \<Rightarrow> conf_set_choice def s st2)) }"

fun conf_lines :: "string \<Rightarrow> def_index \<Rightarrow> string list \<Rightarrow> kstate \<Rightarrow> kstate option" where
  "conf_lines pfx def [] st = Some st"
| "conf_lines pfx def (l # ls) st =
     do { st1 \<leftarrow> conf_line_step pfx def (c_string l) st; conf_lines pfx def ls st1 }"

text \<open>The reset of all symbols before a file is read.\<close>

definition reset_symbol :: "def_index \<Rightarrow> symid \<Rightarrow> kstate \<Rightarrow> kstate" where
  "reset_symbol def s st =
    upd_sym s (\<lambda>r. r\<lparr>flags := insert SYMBOL_CHANGED (flags r) - {def_flag def, SYMBOL_VALID} \<union>
                        (if SYMBOL_CHOICE \<in> flags r then {def_flag def} else {}),
                     sdef := (sdef r)(def := \<lparr>sv_val = VNull, sv_tri = No\<rparr>)\<rparr>) st"

section \<open>Reading a configuration\<close>

text \<open>The code from label \<^verbatim>\<open>load\<close> on. The result of \<^verbatim>\<open>conf_read_simple\<close> is 0 here.\<close>

definition conf_load :: "calc \<Rightarrow> string \<Rightarrow> def_index \<Rightarrow> string \<Rightarrow> kstate \<Rightarrow> kstate option" where
  "conf_load scv pfx def content st =
    do { let st1 = st\<lparr>conf_warnings := 0, conf_unsaved := 0\<rparr>;
         let st2 = fold (reset_symbol def) (for_all_symbols st1) st1;
         ls \<leftarrow> getlines content 0;
         st3 \<leftarrow> conf_lines pfx def ls st2;
         calc_opt scv (modules_sym st3) st3 }"

text \<open>
  \<^verbatim>\<open>conf_expand_value\<close>: names are replaced in a fixed buffer of \<^verbatim>\<open>SYMBOL_MAXLENGTH\<close> characters; the
  lengths are not checked.
\<close>

function conf_expand_loop :: "calc \<Rightarrow> string \<Rightarrow> string \<Rightarrow> kstate \<Rightarrow> (string \<times> kstate) option" where
  "conf_expand_loop scv inp res st =
    (case dropWhile (\<lambda>c. c \<noteq> CHR ''$'') inp of
       [] \<Rightarrow> if length res + length inp < SYMBOL_MAXLENGTH then Some (res @ inp, st) else None
     | _ # src \<Rightarrow>
         let res1 = res @ takeWhile (\<lambda>c. c \<noteq> CHR ''$'') inp;
             name = takeWhile name_char src in
         if \<not> length res1 < SYMBOL_MAXLENGTH \<or> \<not> length name < SYMBOL_MAXLENGTH then None
         else
           let (s, st1) = sym_lookup (Some name) {} st in
           do { st2 \<leftarrow> scv s st1;
                (symval, st3) \<leftarrow> sym_get_string_value scv s st2;
                if length res1 + length symval < SYMBOL_MAXLENGTH
                then conf_expand_loop scv (dropWhile name_char src) (res1 @ symval) st3 else None })"
  by pat_completeness auto

termination conf_expand_loop
  by (relation "measure (\<lambda>(scv, inp, res, st). length inp)") (auto intro: dropWhile_name_shorter)

declare conf_expand_loop.simps [simp del]

definition conf_expand_value :: "calc \<Rightarrow> string \<Rightarrow> kstate \<Rightarrow> (string \<times> kstate) option" where
  "conf_expand_value scv inp st = conf_expand_loop scv inp [] st"

text \<open>
  The defaults of the symbol of \<^verbatim>\<open>option defconfig_list\<close>, tried in order: the first file that can be
  opened.
\<close>

fun find_defconfig :: "calc \<Rightarrow> (string \<Rightarrow> string option) \<Rightarrow> propid list \<Rightarrow> kstate \<Rightarrow> (string option \<times> kstate) option" where
  "find_defconfig scv fs [] st = Some (None, st)"
| "find_defconfig scv fs (p # ps) st =
     do { (v, st1) \<leftarrow> expr_calc_value scv (ev_expr (p_visible (props st p))) st;
          if v = No then find_defconfig scv fs ps st1
          else
            do { e \<leftarrow> p_expr (props st1 p);
                 case e of
                   XSymbol s \<Rightarrow>
                     do { n \<leftarrow> sym_name (syms st1 s);
                          (name, st2) \<leftarrow> conf_expand_value scv n st1;
                          case fs name of
                            Some content \<Rightarrow> Some (Some content, st2)
                          | None \<Rightarrow> find_defconfig scv fs ps st2 }
                 | _ \<Rightarrow> find_defconfig scv fs ps st1 } }"

text \<open>
  \<^verbatim>\<open>conf_read_simple\<close>: \<open>fs\<close> is \<^verbatim>\<open>zconf_fopen\<close>, \<open>cfg\<close> the name \<^verbatim>\<open>conf_get_configname\<close> returns. The flag is the
  result of the function: nothing was read.
\<close>

definition conf_read_simple ::
    "calc \<Rightarrow> (string \<Rightarrow> string option) \<Rightarrow> string \<Rightarrow> string \<Rightarrow> string option \<Rightarrow> def_index \<Rightarrow> kstate \<Rightarrow> (bool \<times> kstate) option" where
  "conf_read_simple scv fs cfg pfx name def st =
    (case name of
       Some n \<Rightarrow>
         (case fs n of
            None \<Rightarrow> Some (True, st)
          | Some content \<Rightarrow> map_option (Pair False) (conf_load scv pfx def content st))
     | None \<Rightarrow>
         (case fs cfg of
            Some content \<Rightarrow> map_option (Pair False) (conf_load scv pfx def content st)
          | None \<Rightarrow>
              let st1 = sym_add_change_count 1 st in
              (case sym_defconfig_list st1 of
                 None \<Rightarrow> map_option (Pair True) (calc_opt scv (modules_sym st1) st1)
               | Some d \<Rightarrow>
                   do { (c, st2) \<leftarrow> find_defconfig scv fs (for_all_properties st1 d P_DEFAULT) st1;
                        case c of
                          None \<Rightarrow> Some (True, st2)
                        | Some content \<Rightarrow> map_option (Pair False) (conf_load scv pfx def content st2) })))"

text \<open>\<^verbatim>\<open>strcmp\<close> of two values; a null pointer or the pointer of a choice is not a string.\<close>

fun cval_str :: "cval \<Rightarrow> string option" where
  "cval_str (VStr x) = Some x"
| "cval_str _ = None"

text \<open>Does the calculated value of a symbol differ from what the file said?\<close>

definition conf_differs :: "symid \<Rightarrow> kstate \<Rightarrow> bool option" where
  "conf_differs s st =
    (if sym_is_choice st s \<or> has_flag st s SYMBOL_AUTO then Some False
     else if sym_has_value st s \<and> has_flag st s SYMBOL_WRITE then
       (if is_bool_type (sym_type (syms st s))
        then Some (sv_tri (sdef (syms st s) S_DEF_USER) \<noteq> tri_of st s)
        else do { c \<leftarrow> cval_str (sv_val (curr (syms st s)));
                  d \<leftarrow> cval_str (sv_val (sdef (syms st s) S_DEF_USER));
                  Some (c \<noteq> d) })
     else Some (sym_has_value st s \<or> has_flag st s SYMBOL_WRITE))"

definition count_unsaved :: "kstate \<Rightarrow> kstate" where
  "count_unsaved st = st\<lparr>conf_unsaved := Suc (conf_unsaved st)\<rparr>"

fun conf_compare :: "calc \<Rightarrow> symid list \<Rightarrow> kstate \<Rightarrow> kstate option" where
  "conf_compare scv [] st = Some st"
| "conf_compare scv (s # ss) st =
     do { st1 \<leftarrow> scv s st;
          d \<leftarrow> conf_differs s st1;
          conf_compare scv ss (if d then count_unsaved st1 else st1) }"

text \<open>The second loop of \<^verbatim>\<open>conf_read\<close>.\<close>

definition conf_cleanup :: "calc \<Rightarrow> symid \<Rightarrow> kstate \<Rightarrow> kstate option" where
  "conf_cleanup scv s st =
    (if \<not> (sym_has_value st s \<and> \<not> sym_is_choice_value st s) then Some st
     else
       let st1 = (if visible (syms st s) = No \<and> conf_unsaved st = 0
                  then clear_flag s {SYMBOL_DEF_USER} st else st) in
       if sym_type (syms st1 s) \<in> {S_STRING, S_INT, S_HEX} then
         do { v \<leftarrow> cval_str (sv_val (sdef (syms st1 s) S_DEF_USER));
              (ok, st2) \<leftarrow> sym_string_within_range scv s v st1;
              Some (if ok then st2
                    else count_unsaved (clear_flag s {SYMBOL_VALID, SYMBOL_DEF_USER} st2)) }
       else Some st1)"

fun conf_cleanups :: "calc \<Rightarrow> symid list \<Rightarrow> kstate \<Rightarrow> kstate option" where
  "conf_cleanups scv [] st = Some st"
| "conf_cleanups scv (s # ss) st = do { st1 \<leftarrow> conf_cleanup scv s st; conf_cleanups scv ss st1 }"

definition conf_read ::
    "calc \<Rightarrow> (string \<Rightarrow> string option) \<Rightarrow> string \<Rightarrow> string \<Rightarrow> string option \<Rightarrow> kstate \<Rightarrow> (bool \<times> kstate) option" where
  "conf_read scv fs cfg pfx name st =
    do { (failed, st1) \<leftarrow> conf_read_simple scv fs cfg pfx name S_DEF_USER (sym_set_change_count 0 st);
         if failed then Some (True, st1)
         else
           do { st2 \<leftarrow> conf_compare scv (for_all_symbols st1) st1;
                st3 \<leftarrow> conf_cleanups scv (for_all_symbols st2) st2;
                Some (False, sym_add_change_count
                  (if conf_warnings st3 \<noteq> 0 \<or> conf_unsaved st3 \<noteq> 0 then 1 else 0) st3) } }"

end
