(* ===== verification/Kconf_Write.thy ===== *)
theory Kconf_Write
  imports Kconf_Confdata
begin

text \<open>
  Writing configuration files (\<^verbatim>\<open>support/kconfig/confdata.c\<close>): the printers, the full and the minimal
  configuration, and the generated files of \<^verbatim>\<open>conf_write_autoconf\<close>. A stream written with
  \<^verbatim>\<open>fprintf\<close> is the string of the characters written so far. \<open>None\<close> has the meaning it has in
  \<open>Kconf_Confdata\<close>.
\<close>

section \<open>Printers\<close>

text \<open>
  \<^verbatim>\<open>struct conf_printer\<close>: the functions get the type and the name of a symbol, its value as a string,
  and whether the argument \<^verbatim>\<open>arg\<close> is non-null.
\<close>

record conf_printer =
  print_symbol :: "string \<Rightarrow> symbol_type \<Rightarrow> string \<Rightarrow> string \<Rightarrow> bool \<Rightarrow> string"
  print_comment :: "string \<Rightarrow> string"

definition kconfig_print_symbol :: "string \<Rightarrow> symbol_type \<Rightarrow> string \<Rightarrow> string \<Rightarrow> bool \<Rightarrow> string" where
  "kconfig_print_symbol pfx type name value arg =
    (if is_bool_type type \<and> first_is value (CHR ''n'')
     then (if arg then [] else ''# '' @ pfx @ name @ '' is not set'' @ [newline])
     else pfx @ name @ ''='' @ value @ [newline])"

text \<open>The lines of a comment, each behind \<open>start\<close>; the loop stops at the end of the string.\<close>

fun comment_lines :: "string \<Rightarrow> string \<Rightarrow> string" where
  "comment_lines start p =
    (let l = takeWhile (\<lambda>c. c \<noteq> newline) p;
         out = start @ (if l \<noteq> [] then CHR '' '' # l else []) @ [newline] in
     case dropWhile (\<lambda>c. c \<noteq> newline) p of
       [] \<Rightarrow> out
     | _ # q \<Rightarrow> out @ comment_lines start q)"

declare comment_lines.simps [simp del]

definition kconfig_print_comment :: "string \<Rightarrow> string" where
  "kconfig_print_comment value = comment_lines ''#'' value"

definition header_print_symbol :: "string \<Rightarrow> symbol_type \<Rightarrow> string \<Rightarrow> string \<Rightarrow> bool \<Rightarrow> string" where
  "header_print_symbol pfx type name value arg =
    (case type of
       S_BOOLEAN \<Rightarrow>
         if first_is value (CHR ''n'') then []
         else ''#define '' @ pfx @ name @ (if first_is value (CHR ''m'') then ''_MODULE'' else []) @ '' 1'' @ [newline]
     | S_TRISTATE \<Rightarrow>
         if first_is value (CHR ''n'') then []
         else ''#define '' @ pfx @ name @ (if first_is value (CHR ''m'') then ''_MODULE'' else []) @ '' 1'' @ [newline]
     | S_HEX \<Rightarrow> ''#define '' @ pfx @ name @ '' '' @ (if has_0x value then [] else ''0x'') @ value @ [newline]
     | S_STRING \<Rightarrow> ''#define '' @ pfx @ name @ '' '' @ value @ [newline]
     | S_INT \<Rightarrow> ''#define '' @ pfx @ name @ '' '' @ value @ [newline]
     | _ \<Rightarrow> [])"

definition header_print_comment :: "string \<Rightarrow> string" where
  "header_print_comment value = ''/*'' @ [newline] @ comment_lines '' *'' value @ '' */'' @ [newline]"

definition toupper :: "char \<Rightarrow> char" where
  "toupper c = (if islower c then char_of (code c - 32) else c)"

definition tristate_print_symbol :: "string \<Rightarrow> symbol_type \<Rightarrow> string \<Rightarrow> string \<Rightarrow> bool \<Rightarrow> string" where
  "tristate_print_symbol pfx type name value arg =
    (case value of
       [] \<Rightarrow> if type = S_TRISTATE then pfx @ name @ ''='' @ [CHR 0x00, newline] else []
     | c # _ \<Rightarrow>
         if type = S_TRISTATE \<and> c \<noteq> CHR ''n'' then pfx @ name @ ''='' @ [toupper c, newline] else [])"

definition kconfig_printer_cb :: conf_printer where
  "kconfig_printer_cb = \<lparr>print_symbol = kconfig_print_symbol, print_comment = kconfig_print_comment\<rparr>"

definition header_printer_cb :: conf_printer where
  "header_printer_cb = \<lparr>print_symbol = header_print_symbol, print_comment = header_print_comment\<rparr>"

definition tristate_printer_cb :: conf_printer where
  "tristate_printer_cb = \<lparr>print_symbol = tristate_print_symbol, print_comment = kconfig_print_comment\<rparr>"

definition conf_write_symbol ::
    "calc \<Rightarrow> string \<Rightarrow> conf_printer \<Rightarrow> bool \<Rightarrow> symid \<Rightarrow> kstate \<Rightarrow> (string \<times> kstate) option" where
  "conf_write_symbol scv pfx printer arg s st =
    (let type = sym_type (syms st s) in
     if type = S_OTHER \<or> type = S_UNKNOWN then Some ([], st)
     else
       do { (str, st1) \<leftarrow> sym_get_string_value scv s st;
            Some (print_symbol printer pfx type (name_of st1 s)
                    (if type = S_STRING then sym_escape_string_value str else str) arg, st1) })"

text \<open>\<^verbatim>\<open>snprintf\<close> cuts the heading to the 255 characters that fit its buffer.\<close>

definition conf_write_heading :: "conf_printer \<Rightarrow> kstate \<Rightarrow> string option" where
  "conf_write_heading printer st =
    do { p \<leftarrow> m_prompt (menus st rootmenu);
         t \<leftarrow> p_text (props st p);
         Some (print_comment printer (take 255
           ([newline] @ ''Automatically generated file; DO NOT EDIT.'' @ [newline] @ t @ [newline]))) }"

section \<open>The configuration file\<close>

text \<open>What \<^verbatim>\<open>conf_write\<close> does for one menu entry; the accumulator is the output and the state.\<close>

definition write_entry :: "nat \<Rightarrow> calc \<Rightarrow> string \<Rightarrow> menuid \<Rightarrow> string \<times> kstate \<Rightarrow> (string \<times> kstate) option" where
  "write_entry n scv pfx m = (\<lambda>(out, st).
    case m_sym (menus st m) of
      None \<Rightarrow>
        do { (v, st1) \<leftarrow> menu_is_visible n scv m st;
             if \<not> v then Some (out, st1)
             else
               do { t \<leftarrow> menu_get_prompt st1 m;
                    Some (out @ [newline] @ ''#'' @ [newline] @ ''# '' @ t @ [newline] @ ''#'' @ [newline], st1) } }
    | Some s \<Rightarrow>
        if sym_is_choice st s then Some (out, st)
        else
          do { st1 \<leftarrow> scv s st;
               if \<not> has_flag st1 s SYMBOL_WRITE then Some (out, st1)
               else
                 do { (l, st2) \<leftarrow> conf_write_symbol scv pfx kconfig_printer_cb False s
                        (clear_flag s {SYMBOL_WRITE} st1);
                      Some (out @ l, st2) } })"

text \<open>
  \<^verbatim>\<open>conf_write\<close> from the heading to the end of the loop, and the change count it resets. Choosing
  the file names and renaming the temporary file are not modelled.
\<close>

definition conf_write :: "nat \<Rightarrow> calc \<Rightarrow> string \<Rightarrow> kstate \<Rightarrow> (string \<times> kstate) option" where
  "conf_write n scv pfx st =
    do { h \<leftarrow> conf_write_heading kconfig_printer_cb st;
         st1 \<leftarrow> (if conf_get_changed st then Some st else sym_clear_all_valid scv st);
         (out, st2) \<leftarrow> menu_walk n snd (write_entry n scv pfx) (m_list (menus st1 rootmenu)) (h, st1);
         Some (out, sym_set_change_count 0 st2) }"

section \<open>The minimal configuration\<close>

definition is_choice_default :: "calc \<Rightarrow> symid \<Rightarrow> kstate \<Rightarrow> (bool \<times> kstate) option" where
  "is_choice_default scv s st =
    (if \<not> sym_is_choice_value st s then Some (False, st)
     else
       do { p \<leftarrow> sym_get_choice_prop st s;
            cs \<leftarrow> prop_get_symbol st p;
            (ds, st1) \<leftarrow> sym_choice_default scv cs st;
            Some (\<not> sym_is_optional st1 cs \<and> ds = Some s \<and>
                  sym_type (syms st1 s) = S_BOOLEAN \<and> tri_of st1 s = Yes, st1) })"

definition defconfig_entry :: "nat \<Rightarrow> calc \<Rightarrow> string \<Rightarrow> menuid \<Rightarrow> string \<times> kstate \<Rightarrow> (string \<times> kstate) option" where
  "defconfig_entry n scv pfx m = (\<lambda>(out, st).
    case m_sym (menus st m) of
      None \<Rightarrow> do { (_, st1) \<leftarrow> menu_is_visible n scv m st; Some (out, st1) }
    | Some s \<Rightarrow>
        if sym_is_choice st s then Some (out, st)
        else
          do { st1 \<leftarrow> scv s st;
               if \<not> has_flag st1 s SYMBOL_WRITE then Some (out, st1)
               else
                 let st2 = clear_flag s {SYMBOL_WRITE} st1 in
                 if \<not> sym_is_changable st2 s then Some (out, st2)
                 else
                   do { (v, st3) \<leftarrow> sym_get_string_value scv s st2;
                        (d, st4) \<leftarrow> sym_get_string_default scv s st3;
                        if v = d then Some (out, st4)
                        else
                          do { (c, st5) \<leftarrow> is_choice_default scv s st4;
                               if c then Some (out, st5)
                               else do { (l, st6) \<leftarrow> conf_write_symbol scv pfx kconfig_printer_cb False s st5;
                                         Some (out @ l, st6) } } } })"

definition conf_write_defconfig :: "nat \<Rightarrow> calc \<Rightarrow> string \<Rightarrow> kstate \<Rightarrow> (string \<times> kstate) option" where
  "conf_write_defconfig n scv pfx st =
    do { st1 \<leftarrow> sym_clear_all_valid scv st;
         menu_walk n snd (defconfig_entry n scv pfx) (m_list (menus st1 rootmenu)) ([], st1) }"

section \<open>Generated files\<close>

text \<open>Has the symbol changed since \<^verbatim>\<open>auto.conf\<close> was written? (the tests of \<^verbatim>\<open>conf_split_config\<close>)\<close>

definition split_changed :: "calc \<Rightarrow> symid \<Rightarrow> kstate \<Rightarrow> (bool \<times> kstate) option" where
  "split_changed scv s st =
    (if has_flag st s SYMBOL_AUTO \<or> sym_name (syms st s) = None then Some (False, st)
     else if has_flag st s SYMBOL_WRITE then
       (if has_flag st s SYMBOL_DEF_AUTO then
          (if is_bool_type (sym_type (syms st s))
           then Some (tri_of st s \<noteq> sv_tri (sdef (syms st s) S_DEF_AUTO), st)
           else if sym_type (syms st s) \<in> {S_STRING, S_HEX, S_INT} then
             do { (v, st1) \<leftarrow> sym_get_string_value scv s st;
                  d \<leftarrow> cval_str (sv_val (sdef (syms st1 s) S_DEF_AUTO));
                  Some (v \<noteq> d, st1) }
           else Some (True, st))
        else Some (\<not> (is_bool_type (sym_type (syms st s)) \<and> tri_of st s = No), st))
     else Some (has_flag st s SYMBOL_DEF_AUTO, st))"

definition tolower :: "char \<Rightarrow> char" where
  "tolower c = (if isupper c then char_of (code c + 32) else c)"

text \<open>The dependency file of a symbol: lower case, \<^verbatim>\<open>_\<close> becomes \<^verbatim>\<open>/\<close>, and \<^verbatim>\<open>.h\<close> is appended.\<close>

definition split_path :: "string \<Rightarrow> string" where
  "split_path name = map (\<lambda>c. if tolower c = CHR ''_'' then CHR ''/'' else tolower c) name @ ''.h''"

text \<open>The files \<^verbatim>\<open>conf_split_config\<close> touches; creating them and their directories is not modelled.\<close>

fun split_config :: "calc \<Rightarrow> symid list \<Rightarrow> kstate \<Rightarrow> (string list \<times> kstate) option" where
  "split_config scv [] st = Some ([], st)"
| "split_config scv (s # ss) st =
     do { st1 \<leftarrow> scv s st;
          (c, st2) \<leftarrow> split_changed scv s st1;
          (fs, st3) \<leftarrow> split_config scv ss st2;
          Some ((if c then [split_path (name_of st2 s)] else []) @ fs, st3) }"

text \<open>The loop of \<^verbatim>\<open>conf_write_autoconf\<close>, which appends to three files.\<close>

fun autoconf_symbols ::
    "calc \<Rightarrow> string \<Rightarrow> symid list \<Rightarrow> string \<times> string \<times> string \<Rightarrow> kstate \<Rightarrow> ((string \<times> string \<times> string) \<times> kstate) option" where
  "autoconf_symbols scv pfx [] out st = Some (out, st)"
| "autoconf_symbols scv pfx (s # ss) (conf, tristate, hdr) st =
     do { st1 \<leftarrow> scv s st;
          if \<not> has_flag st1 s SYMBOL_WRITE \<or> sym_name (syms st1 s) = None
          then autoconf_symbols scv pfx ss (conf, tristate, hdr) st1
          else
            do { (a, st2) \<leftarrow> conf_write_symbol scv pfx kconfig_printer_cb True s st1;
                 (b, st3) \<leftarrow> conf_write_symbol scv pfx tristate_printer_cb True s st2;
                 (c, st4) \<leftarrow> conf_write_symbol scv pfx header_printer_cb False s st3;
                 autoconf_symbols scv pfx ss (conf @ a, tristate @ b, hdr @ c) st4 } }"

text \<open>
  \<^verbatim>\<open>conf_write_autoconf\<close>: the dependency files touched and the contents of \<^verbatim>\<open>auto.conf\<close>,
  \<^verbatim>\<open>tristate.conf\<close> and \<^verbatim>\<open>autoconf.h\<close>. \<open>auto\<close> is the name of the old \<^verbatim>\<open>auto.conf\<close>.
\<close>

definition conf_write_autoconf ::
    "calc \<Rightarrow> (string \<Rightarrow> string option) \<Rightarrow> string \<Rightarrow> string \<Rightarrow> string \<Rightarrow> kstate \<Rightarrow>
      (string list \<times> (string \<times> string \<times> string) \<times> kstate) option" where
  "conf_write_autoconf scv fs cfg pfx auto st =
    do { st1 \<leftarrow> sym_clear_all_valid scv st;
         (_, st2) \<leftarrow> conf_read_simple scv fs cfg pfx (Some auto) S_DEF_AUTO st1;
         (deps, st3) \<leftarrow> split_config scv (for_all_symbols st2) st2;
         h1 \<leftarrow> conf_write_heading kconfig_printer_cb st3;
         h2 \<leftarrow> conf_write_heading tristate_printer_cb st3;
         h3 \<leftarrow> conf_write_heading header_printer_cb st3;
         (out, st4) \<leftarrow> autoconf_symbols scv pfx (for_all_symbols st3) (h1, h2, h3) st3;
         Some (deps, out, st4) }"

end
