(* ===== verification/Kconf_Conf_Props.thy ===== *)
theory Kconf_Conf_Props
  imports Kconf_Write
begin

text \<open>
  Correctness of reading and writing configuration files: the line reader never writes past
  its buffer and loses nothing, what the printers write is read back, and the reader's
  effect is confined to the symbols a file names.
\<close>

section \<open>The line reader\<close>

lemma add_byte_total: "\<exists>n'. add_byte c line n = Some (line @ [c], n')"
  by (auto simp: add_byte_def Let_def LINE_GROWTH_def)

text \<open>The line reader returns the next line, or what remains if the last line has no newline.\<close>

lemma getline_loop_spec:
  "\<exists>n'. getline_loop cs line n = Some
    (if newline \<in> set cs
     then Inl (line @ takeWhile (\<lambda>c. c \<noteq> newline) cs @ [newline], n', tl (dropWhile (\<lambda>c. c \<noteq> newline) cs))
     else if line @ cs = [] then Inr n' else Inl (line @ cs, n', []))"
proof (induction cs arbitrary: line n)
  case Nil
  then show ?case using add_byte_total [of "CHR 0x00" line n] by auto
next
  case (Cons c cs)
  obtain n1 where a: "add_byte c line n = Some (line @ [c], n1)" using add_byte_total by blast
  show ?case
  proof (cases "c = newline")
    case True
    then show ?thesis using a add_byte_total [of "CHR 0x00" "line @ [c]" n1] by auto
  next
    case False
    then show ?thesis using a Cons.IH [of "line @ [c]" n1] by auto
  qed
qed

text \<open>\<^verbatim>\<open>getlines\<close> by its effect on the text, without the buffer.\<close>

function split_lines :: "string \<Rightarrow> string list" where
  "split_lines [] = []"
| "split_lines (c # cs) =
     (if newline \<in> set (c # cs)
      then (takeWhile (\<lambda>c. c \<noteq> newline) (c # cs) @ [newline])
             # split_lines (tl (dropWhile (\<lambda>c. c \<noteq> newline) (c # cs)))
      else [c # cs])"
  by pat_completeness auto

termination split_lines
proof (relation "measure length", goal_cases)
  case (2 c cs)
  have "length (dropWhile (\<lambda>c. c \<noteq> newline) (c # cs)) \<le> length (c # cs)" by (rule length_dropWhile_le)
  then show ?case by (cases "dropWhile (\<lambda>c. c \<noteq> newline) (c # cs)") auto
qed simp

lemma getlines_end: "getlines [] n = Some []"
  using getline_loop_spec [of "[]" "[]" n] by (auto simp: getlines.simps compat_getline_def)

lemma getlines_split: "getlines stream n = Some (split_lines stream)"
proof (induction stream arbitrary: n rule: split_lines.induct)
  case 1
  then show ?case by (simp add: getlines_end)
next
  case (2 c cs)
  obtain n' where g: "getline_loop (c # cs) [] n = Some
    (if newline \<in> set (c # cs)
     then Inl ([] @ takeWhile (\<lambda>c. c \<noteq> newline) (c # cs) @ [newline], n', tl (dropWhile (\<lambda>c. c \<noteq> newline) (c # cs)))
     else if [] @ (c # cs) = [] then Inr n' else Inl ([] @ (c # cs), n', []))"
    using getline_loop_spec [of "c # cs" "[]" n] by blast
  show ?case
  proof (cases "newline \<in> set (c # cs)")
    case True
    then show ?thesis
      using g 2 [OF True, of n'] unfolding getlines.simps [of "c # cs" n] compat_getline_def
      by (simp del: getline_loop.simps)
  next
    case False
    then show ?thesis
      using g unfolding getlines.simps [of "c # cs" n] compat_getline_def
      by (simp add: getlines_end del: getline_loop.simps)
  qed
qed

lemma split_lines_newline:
  "newline \<notin> set x \<Longrightarrow> split_lines (x @ newline # rest) = (x @ [newline]) # split_lines rest"
proof -
  assume x: "newline \<notin> set x"
  obtain c cs where c: "x @ newline # rest = c # cs" by (cases "x @ newline # rest") auto
  have "newline \<in> set (c # cs)" by (simp only: c [symmetric]) simp
  then have "split_lines (c # cs) = (takeWhile (\<lambda>c. c \<noteq> newline) (c # cs) @ [newline])
      # split_lines (tl (dropWhile (\<lambda>c. c \<noteq> newline) (c # cs)))"
    by (simp only: split_lines.simps if_True)
  then show ?thesis by (simp only: c [symmetric] split_at [OF x] list.sel)
qed

lemma split_lines_last: "newline \<notin> set x \<Longrightarrow> x \<noteq> [] \<Longrightarrow> split_lines x = [x]"
  by (cases x) simp_all

lemma concat_split_lines: "concat (split_lines s) = s"
proof (induction "length s" arbitrary: s rule: less_induct)
  case less
  show ?case
  proof (cases "newline \<in> set s")
    case True
    then obtain x r where x: "s = x @ newline # r" "newline \<notin> set x"
      using split_list_first by fastforce
    then show ?thesis using less [of r] by (simp add: split_lines_newline)
  next
    case False
    then show ?thesis by (cases "s = []") (simp_all add: split_lines_last)
  qed
qed

text \<open>A sequence of complete lines is split into these lines.\<close>

definition is_line :: "string \<Rightarrow> bool" where
  "is_line l \<longleftrightarrow> (\<exists>x. l = x @ [newline] \<and> newline \<notin> set x)"

lemma split_lines_line: "is_line l \<Longrightarrow> split_lines (l @ rest) = l # split_lines rest"
  by (auto simp: is_line_def split_lines_newline)

lemma split_lines_concat: "\<forall>l \<in> set ls. is_line l \<Longrightarrow> split_lines (concat ls) = ls"
  by (induction ls) (simp_all add: split_lines_line)

text \<open>
  Property C17: reading lines with \<^verbatim>\<open>compat_getline\<close> never writes past the end of the line buffer, reads
  the whole file, and returns the lines that were written to it.
\<close>

theorem getlines_correct:
  "\<exists>ls. getlines content n = Some ls \<and> concat ls = content \<and>
    (\<forall>written. content = concat written \<and> (\<forall>l \<in> set written. is_line l) \<longrightarrow> ls = written)"
  using getlines_split [of content n] concat_split_lines [of content] split_lines_concat by auto

theorem getlines_correct_witness:
  "getlines (''A=y'' @ [newline] @ ''B=1'' @ [newline]) 0 = Some [''A=y'' @ [newline], ''B=1'' @ [newline]]"
proof -
  have w: "concat [''A=y'' @ [newline], ''B=1'' @ [newline]] = ''A=y'' @ [newline] @ ''B=1'' @ [newline]" by simp
  have l: "\<forall>l \<in> set [''A=y'' @ [newline], ''B=1'' @ [newline]]. is_line l"
    by (auto simp: is_line_def)
  from getlines_correct [of "concat [''A=y'' @ [newline], ''B=1'' @ [newline]]" 0]
  show ?thesis using l w by metis
qed

section \<open>What is written is read back\<close>

text \<open>The characters of names and of the prefix.\<close>

definition word_name :: "string \<Rightarrow> bool" where
  "word_name n \<longleftrightarrow> n \<noteq> [] \<and> list_all name_char n"

lemma name_char_plain:
  "name_char c \<Longrightarrow> c \<noteq> CHR ''#'' \<and> c \<noteq> CHR '' '' \<and> c \<noteq> CHR ''='' \<and> c \<noteq> newline \<and> c \<noteq> cr \<and> c \<noteq> CHR 0x00"
  by (auto simp: name_char_def isalnum_def isdigit_def isupper_def islower_def)

lemma word_name_plain:
  assumes "word_name n"
  shows "CHR '' '' \<notin> set n" "CHR ''='' \<notin> set n" "newline \<notin> set n" "CHR 0x00 \<notin> set n"
  using assms name_char_plain by (auto simp: word_name_def list_all_iff)

lemma first_word: "word_name n \<Longrightarrow> list_all name_char pfx \<Longrightarrow> \<not> first_is (pfx @ n @ r) (CHR ''#'')"
  using name_char_plain by (cases pfx; cases n) (auto simp: word_name_def first_is_def)

lemma is_prefix_append [simp]: "is_prefix p (p @ r)"
  by (simp add: is_prefix_def)

lemma classify_unset:
  assumes "word_name n"
  shows "classify pfx (''# '' @ pfx @ n @ '' is not set'' @ [newline]) = Some (Unset n)"
proof -
  have d: "drop 2 (''# '' @ pfx @ n @ '' is not set'' @ [newline]) = pfx @ n @ '' is not set'' @ [newline]" by simp
  have s: "n @ '' is not set'' @ [newline] = n @ CHR '' '' # ''is not set'' @ [newline]" by simp
  have f: "first_is (''# '' @ pfx @ n @ '' is not set'' @ [newline]) (CHR ''#'')"
    "\<not> length (''# '' @ pfx @ n @ '' is not set'' @ [newline]) < 2" by (simp_all add: first_is_def)
  show ?thesis
    unfolding classify_def d if_P [OF f(1)] if_not_P [OF f(2)]
    using word_name_plain(1) [OF assms] by (simp add: Let_def s is_prefix_def del: append_Cons)
qed

lemma classify_assign:
  assumes "word_name n" "list_all name_char pfx" "newline \<notin> set v" "v = [] \<or> last v \<noteq> cr"
  shows "classify pfx (pfx @ n @ ''='' @ v @ [newline]) = Some (Assign n v)"
proof -
  have v: "strip_newline (v @ [newline]) = v"
    using assms(3,4) split_at(1) [of newline v "[]"] by (auto simp: strip_newline_def Let_def)
  have s: "n @ ''='' @ v @ [newline] = n @ CHR ''='' # v @ [newline]" by simp
  show ?thesis
    using first_word [OF assms(1,2)] word_name_plain(2) [OF assms(1)]
    by (simp add: classify_def s v Let_def)
qed

text \<open>The value a line gives a symbol.\<close>

lemma conf_set_sym_val_bool:
  assumes "is_bool_type (sym_type (syms st s))" "tri_char v = Some t" "hd v \<in> {CHR ''y'', CHR ''m'', CHR ''n''}"
    and "t = Mod \<Longrightarrow> sym_type (syms st s) = S_TRISTATE"
  shows "conf_set_sym_val s def v st = (False, set_conf_tri s def t st)"
  using assms by (cases v) (auto simp: conf_set_sym_val_def is_bool_type_def tri_char_def first_is_def
      split: if_splits)

lemma conf_set_sym_val_text:
  assumes "sym_type (syms st s) \<in> {S_INT, S_HEX}" "string_valid (sym_type (syms st s)) v"
  shows "conf_set_sym_val s def v st = (False, set_flag s {def_flag def} (set_def_val s def (VStr v) st))"
  using assms by (auto simp: conf_set_sym_val_def set_conf_string_def sym_string_valid_def)

lemma conf_set_sym_val_string:
  assumes "sym_type (syms st s) = S_STRING"
  shows "conf_set_sym_val s def (sym_escape_string_value v) st
    = (False, set_flag s {def_flag def} (set_def_val s def (VStr v) st))"
  using assms unescape_escape_loop [of v "[]"]
  by (simp add: conf_set_sym_val_def set_conf_quoted_def sym_escape_string_value_def set_conf_string_def
      sym_string_valid_def)

text \<open>
  Values that survive a round trip: the values of a boolean or tristate, numbers of the right
  syntax, and strings without newline or null characters.
\<close>

fun storable :: "symbol_type \<Rightarrow> string \<Rightarrow> bool" where
  "storable S_BOOLEAN v = (v = ''y'' \<or> v = ''n'')"
| "storable S_TRISTATE v = (v = ''y'' \<or> v = ''m'' \<or> v = ''n'')"
| "storable S_INT v = int_valid v"
| "storable S_HEX v = hex_valid v"
| "storable S_STRING v = (newline \<notin> set v \<and> CHR 0x00 \<notin> set v)"
| "storable _ v = False"

definition stored_text :: "symbol_type \<Rightarrow> string \<Rightarrow> string" where
  "stored_text ty v = (if ty = S_STRING then sym_escape_string_value v else v)"

lemma escape_loop_chars: "set (escape_loop p) \<subseteq> set p \<union> {backslash}"
proof (induction p rule: escape_loop.induct)
  case (1 p)
  show ?case
  proof (cases "dropWhile (\<lambda>c. \<not> special c) p")
    case Nil
    then show ?thesis by (auto simp: escape_loop.simps [of p] dest: set_takeWhileD simp del: dropWhile_eq_Nil_conv)
  next
    case (Cons c q)
    then have "set (c # q) \<subseteq> set p" by (metis set_dropWhileD subsetI)
    then show ?thesis using 1 [OF Cons] Cons by (auto simp: escape_loop.simps [of p] dest: set_takeWhileD)
  qed
qed

lemma number_chars:
  "int_valid v \<Longrightarrow> c \<in> set v \<Longrightarrow> isdigit c \<or> c = CHR ''-''"
  "hex_valid v \<Longrightarrow> c \<in> set v \<Longrightarrow> isxdigit c \<or> c = CHR ''x'' \<or> c = CHR ''X'' \<or> c = CHR ''0''"
  by (auto simp: Let_def list_all_iff split: list.splits if_splits)

lemma isxdigit_plain: "isxdigit c \<Longrightarrow> c \<noteq> newline \<and> c \<noteq> cr \<and> c \<noteq> CHR 0x00"
  by (auto simp: isxdigit_def digit_val_def isdigit_def split: if_splits)

lemma stored_text_plain:
  assumes "storable ty v"
  shows "newline \<notin> set (stored_text ty v)" "CHR 0x00 \<notin> set (stored_text ty v)"
    "stored_text ty v = [] \<or> last (stored_text ty v) \<noteq> cr"
proof -
  have num: "c \<noteq> newline \<and> c \<noteq> CHR 0x00 \<and> c \<noteq> cr" if "c \<in> set v" "ty = S_INT \<or> ty = S_HEX" for c
    using that assms number_chars [of v c] isxdigit_plain [of c] by (auto simp: isdigit_def)
  have str: "c \<noteq> newline \<and> c \<noteq> CHR 0x00" if "c \<in> set (escape_loop v)" "ty = S_STRING" for c
    using that assms escape_loop_chars [of v] by auto
  show "newline \<notin> set (stored_text ty v)" "CHR 0x00 \<notin> set (stored_text ty v)"
    "stored_text ty v = [] \<or> last (stored_text ty v) \<noteq> cr"
    using assms num str by (cases ty; auto simp: stored_text_def sym_escape_string_value_def)+
qed

text \<open>Reading a line changes one symbol, and of that only the user value and its flag.\<close>

definition sets_only :: "symid \<Rightarrow> kstate \<Rightarrow> kstate \<Rightarrow> bool" where
  "sets_only s rd rd' \<longleftrightarrow> (\<forall>t. t \<noteq> s \<longrightarrow> syms rd' t = syms rd t) \<and> symbol_hash rd' = symbol_hash rd \<and>
    sym_name (syms rd' s) = sym_name (syms rd s) \<and> sym_type (syms rd' s) = sym_type (syms rd s) \<and>
    (\<forall>f. f \<noteq> SYMBOL_DEF_USER \<longrightarrow> f \<in> flags (syms rd' s) \<longleftrightarrow> f \<in> flags (syms rd s))"

definition restored :: "kstate \<Rightarrow> symid \<Rightarrow> symbol_type \<Rightarrow> string \<Rightarrow> bool" where
  "restored rd s ty v \<longleftrightarrow> sym_has_value rd s \<and>
    (if is_bool_type ty then tri_char v = Some (sv_tri (sdef (syms rd s) S_DEF_USER))
     else sv_val (sdef (syms rd s) S_DEF_USER) = VStr v)"

lemma sets_only_reads:
  assumes "sets_only s rd rd'"
  shows "sym_find n rd' = sym_find n rd" "sym_type (syms rd' t) = sym_type (syms rd t)"
    "sym_is_choice_value rd' t \<longleftrightarrow> sym_is_choice_value rd t"
proof -
  have m: "find_match rd' x t = find_match rd x t" for x t
    using assms by (cases "t = s") (auto simp: sets_only_def find_match_def)
  then have "List.find (find_match rd' x) ts = List.find (find_match rd x) ts" for x ts
    by (induction ts) auto
  then show "sym_find n rd' = sym_find n rd"
    using assms by (simp add: sym_find_def sets_only_def split: option.splits)
  show "sym_type (syms rd' t) = sym_type (syms rd t)" "sym_is_choice_value rd' t \<longleftrightarrow> sym_is_choice_value rd t"
    using assms by (cases "t = s"; auto simp: sets_only_def)+
qed

lemma warn_override_simps [simp]:
  "syms (warn_override def s st) = syms st" "symbol_hash (warn_override def s st) = symbol_hash st"
  by (simp_all add: warn_override_def conf_warning_def)

lemma set_conf_tri_only:
  "sets_only s rd (set_conf_tri s S_DEF_USER v (warn_override def s rd))"
  by (simp add: sets_only_def set_conf_tri_def set_def_tri_def)

lemma set_conf_val_only:
  "sets_only s rd (set_flag s {SYMBOL_DEF_USER} (set_def_val s S_DEF_USER w (warn_override def s rd)))"
  by (simp add: sets_only_def set_def_val_def)

definition conf_text :: "string \<Rightarrow> string \<Rightarrow> symbol_type \<Rightarrow> string \<Rightarrow> string" where
  "conf_text pfx n ty v = kconfig_print_symbol pfx ty n (stored_text ty v) False"

lemma conf_text_cases:
  assumes "storable ty v"
  obtains (unset) "is_bool_type ty" "v = ''n''" "conf_text pfx n ty v = ''# '' @ pfx @ n @ '' is not set'' @ [newline]"
  | (assign) "\<not> (is_bool_type ty \<and> v = ''n'')" "conf_text pfx n ty v = pfx @ n @ ''='' @ stored_text ty v @ [newline]"
  using assms
  by (cases ty) (auto simp: conf_text_def kconfig_print_symbol_def is_bool_type_def stored_text_def first_is_def)

lemma conf_text_line:
  assumes "word_name n" "list_all name_char pfx" "storable ty v"
  shows "is_line (conf_text pfx n ty v)" "c_string (conf_text pfx n ty v) = conf_text pfx n ty v"
proof -
  have p: "newline \<notin> set pfx" "CHR 0x00 \<notin> set pfx"
    using assms(2) name_char_plain by (auto simp: list_all_iff)
  note w = word_name_plain [OF assms(1)] and t = stored_text_plain [OF assms(3)]
  have "\<exists>x. conf_text pfx n ty v = x @ [newline] \<and> newline \<notin> set x \<and> CHR 0x00 \<notin> set x"
    using assms(3)
  proof (cases rule: conf_text_cases [where pfx = pfx and n = n])
    case unset
    then show ?thesis using p w by (intro exI [of _ "''# '' @ pfx @ n @ '' is not set''"]) simp
  next
    case assign
    then show ?thesis using p w t by (intro exI [of _ "pfx @ n @ ''='' @ stored_text ty v"]) simp
  qed
  then show "is_line (conf_text pfx n ty v)" "c_string (conf_text pfx n ty v) = conf_text pfx n ty v"
    by (auto simp: is_line_def c_string_def)
qed

lemma conf_line_step_restores:
  assumes n: "word_name n" "list_all name_char pfx" and v: "storable ty v"
    and rd: "sym_find (Some n) rd = Some s" "sym_type (syms rd s) = ty" "\<not> sym_is_choice_value rd s"
  shows "\<exists>rd'. conf_line_step pfx S_DEF_USER (conf_text pfx n ty v) rd = Some rd' \<and>
    sets_only s rd rd' \<and> restored rd' s ty v"
  using v
proof (cases rule: conf_text_cases [where pfx = pfx and n = n])
  case unset
  let ?rd = "set_conf_tri s S_DEF_USER No (warn_override S_DEF_USER s rd)"
  have "conf_line_step pfx S_DEF_USER (conf_text pfx n ty v) rd = Some ?rd"
    using unset(1) rd by (simp add: conf_line_step_def unset(3) classify_unset [OF n(1)] conf_symbol_def Let_def
        conf_set_choice_def set_conf_tri_def set_def_tri_def del: append_Cons)
  moreover have "restored ?rd s ty v"
    using unset by (simp add: restored_def tri_char_def set_conf_tri_def set_def_tri_def)
  ultimately show ?thesis using set_conf_tri_only by blast
next
  case assign
  let ?wd = "warn_override S_DEF_USER s rd"
  have step: "conf_line_step pfx S_DEF_USER (conf_text pfx n ty v) rd =
      (case conf_set_sym_val s S_DEF_USER (stored_text ty v) ?wd of
         (True, st2) \<Rightarrow> Some st2 | (False, st2) \<Rightarrow> conf_set_choice S_DEF_USER s st2)"
    using rd classify_assign [OF n stored_text_plain(1,3) [OF v]]
    by (simp add: conf_line_step_def assign(2) conf_symbol_def)
  show ?thesis
  proof (cases "is_bool_type ty")
    case True
    then obtain t where t: "tri_char v = Some t" "hd v \<in> {CHR ''y'', CHR ''m'', CHR ''n''}"
      "t = Mod \<Longrightarrow> ty = S_TRISTATE" "stored_text ty v = v"
      using v by (cases ty) (auto simp: is_bool_type_def tri_char_def stored_text_def)
    let ?rd = "set_conf_tri s S_DEF_USER t ?wd"
    have "conf_set_sym_val s S_DEF_USER (stored_text ty v) ?wd = (False, ?rd)"
      using t True rd(2) by (simp add: conf_set_sym_val_bool)
    then have "conf_line_step pfx S_DEF_USER (conf_text pfx n ty v) rd = Some ?rd"
      using step rd(3) by (simp add: conf_set_choice_def set_conf_tri_def set_def_tri_def)
    moreover have "restored ?rd s ty v"
      using True t(1) by (simp add: restored_def set_conf_tri_def set_def_tri_def)
    ultimately show ?thesis using set_conf_tri_only by blast
  next
    case False
    let ?rd = "set_flag s {SYMBOL_DEF_USER} (set_def_val s S_DEF_USER (VStr v) ?wd)"
    have "conf_set_sym_val s S_DEF_USER (stored_text ty v) ?wd = (False, ?rd)"
      using False v rd(2) by (cases ty)
        (simp_all add: stored_text_def is_bool_type_def conf_set_sym_val_text conf_set_sym_val_string)
    then have "conf_line_step pfx S_DEF_USER (conf_text pfx n ty v) rd = Some ?rd"
      using step rd(3) by (simp add: conf_set_choice_def set_def_val_def)
    moreover have "restored ?rd s ty v" using False by (simp add: restored_def set_def_val_def)
    ultimately show ?thesis using set_conf_val_only by blast
  qed
qed

text \<open>
  A symbol \<open>s\<close> with its name, type and value, and the text \<^verbatim>\<open>conf_write_symbol\<close> produces for it in some
  state of the writing program.
\<close>

type_synonym entry = "symid \<times> string \<times> symbol_type \<times> string"

definition writes :: "calc \<Rightarrow> string \<Rightarrow> entry \<Rightarrow> string \<Rightarrow> bool" where
  "writes scv pfx e out \<longleftrightarrow> (case e of (s, n, ty, v) \<Rightarrow>
    \<exists>w w'. sym_type (syms w s) = ty \<and> sym_name (syms w' s) = Some n \<and>
      sym_get_string_value scv s w = Some (v, w') \<and>
      conf_write_symbol scv pfx kconfig_printer_cb False s w = Some (out, w'))"

text \<open>The reading program knows the symbol under this name, with this type, outside a choice.\<close>

definition readable :: "kstate \<Rightarrow> entry \<Rightarrow> bool" where
  "readable rd e \<longleftrightarrow> (case e of (s, n, ty, v) \<Rightarrow>
    word_name n \<and> storable ty v \<and> sym_find (Some n) rd = Some s \<and> sym_type (syms rd s) = ty \<and>
    \<not> sym_is_choice_value rd s)"

definition is_restored :: "kstate \<Rightarrow> entry \<Rightarrow> bool" where
  "is_restored rd e \<longleftrightarrow> (case e of (s, n, ty, v) \<Rightarrow> restored rd s ty v)"

lemma writes_text:
  "writes scv pfx (s, n, ty, v) out \<Longrightarrow> storable ty v \<Longrightarrow> out = conf_text pfx n ty v"
  by (cases ty) (auto simp: writes_def conf_write_symbol_def conf_text_def stored_text_def
      kconfig_printer_cb_def name_of_def)

lemma readable_kept: "sets_only s rd rd' \<Longrightarrow> readable rd e \<Longrightarrow> readable rd' e"
  using sets_only_reads by (auto simp: readable_def)

lemma conf_lines_restore:
  assumes "list_all name_char pfx"
  shows "\<forall>e \<in> set es. readable rd e \<Longrightarrow> distinct (map fst es) \<Longrightarrow>
    \<exists>rd'. conf_lines pfx S_DEF_USER (map (\<lambda>(s, n, ty, v). conf_text pfx n ty v) es) rd = Some rd' \<and>
      (\<forall>e \<in> set es. is_restored rd' e) \<and> (\<forall>t. t \<notin> fst ` set es \<longrightarrow> syms rd' t = syms rd t)"
proof (induction es arbitrary: rd)
  case (Cons e es)
  obtain s n ty v where e: "e = (s, n, ty, v)" by (cases e)
  have r: "word_name n" "storable ty v" "sym_find (Some n) rd = Some s" "sym_type (syms rd s) = ty"
    "\<not> sym_is_choice_value rd s" using Cons.prems(1) by (auto simp: e readable_def)
  obtain rd1 where rd1: "conf_line_step pfx S_DEF_USER (conf_text pfx n ty v) rd = Some rd1"
    "sets_only s rd rd1" "restored rd1 s ty v"
    using conf_line_step_restores [OF r(1) assms r(2-5)] by blast
  have "\<forall>e \<in> set es. readable rd1 e" using Cons.prems(1) readable_kept [OF rd1(2)] by simp
  then obtain rd' where rd': "conf_lines pfx S_DEF_USER (map (\<lambda>(s, n, ty, v). conf_text pfx n ty v) es) rd1 = Some rd'"
    "\<forall>e \<in> set es. is_restored rd' e" "\<forall>t. t \<notin> fst ` set es \<longrightarrow> syms rd' t = syms rd1 t"
    using Cons.IH [of rd1] Cons.prems(2) by auto
  have "syms rd' s = syms rd1 s" using rd'(3) Cons.prems(2) by (auto simp: e)
  then have "restored rd' s ty v" using rd1(3) by (simp add: restored_def)
  then show ?case
    using rd1(1,2) rd' conf_text_line(2) [OF r(1) assms r(2)]
    by (auto simp: e is_restored_def sets_only_def)
qed simp


text \<open>
  The example configuration with values calculated, and with a symbol table that holds \<^verbatim>\<open>BAR\<close> and
  \<^verbatim>\<open>NUM\<close>.
\<close>

definition ex_written :: kstate where
  "ex_written = set_curr 11 \<lparr>sv_val = VStr ''100'', sv_tri = No\<rparr>
    (set_curr 9 \<lparr>sv_val = VStr ''n'', sv_tri = Mod\<rparr> ex_config)"

definition ex_table :: kstate where
  "ex_table = ex_config\<lparr>symbol_hash := (\<lambda>h.
     filter (\<lambda>s. hash_slot (name_of ex_config s) = h) [9, 11])\<rparr>"

definition ex_entries :: "entry list" where
  "ex_entries = [(9, ''BAR'', S_TRISTATE, ''m''), (11, ''NUM'', S_INT, ''100'')]"

lemma ex_modules: "sym_calc_value 5 6 ex_written = Some ex_written"
  by (simp add: eval_nat_numeral calc_step_def ex_written_def set_curr_def ex_config_defs)

lemma ex_written_reads:
  "sym_type (syms ex_written 9) = S_TRISTATE" "sym_type (syms ex_written 11) = S_INT"
  "sym_name (syms ex_written 9) = Some ''BAR''" "sym_name (syms ex_written 11) = Some ''NUM''"
  "tri_of ex_written 9 = Mod" "sv_val (curr (syms ex_written 11)) = VStr ''100''"
  "modules_sym ex_written = Some 6" "tri_of ex_written 6 = Yes"
  by (simp_all add: ex_written_def set_curr_def ex_config_defs)

lemma ex_writes:
  "writes (sym_calc_value 5) ''BR2_'' (9, ''BAR'', S_TRISTATE, ''m'') (''BR2_BAR=m'' @ [newline])"
  "writes (sym_calc_value 5) ''BR2_'' (11, ''NUM'', S_INT, ''100'') (''BR2_NUM=100'' @ [newline])"
  unfolding writes_def prod.case
  by (rule exI [of _ ex_written], rule exI [of _ ex_written],
    simp add: ex_written_reads ex_modules sym_get_string_value_def conf_write_symbol_def
      kconfig_printer_cb_def kconfig_print_symbol_def name_of_def first_is_def is_bool_type_def)+

lemma ex_readable: "\<forall>e \<in> set ex_entries. readable ex_table e"
proof -
  have t: "syms ex_table = syms ex_config" "symbol_hash ex_table = (\<lambda>h.
     filter (\<lambda>s. hash_slot (name_of ex_config s) = h) [9, 11])" by (simp_all add: ex_table_def)
  have s: "sym_type (syms ex_config 9) = S_TRISTATE" "sym_type (syms ex_config 11) = S_INT"
    "sym_name (syms ex_config 9) = Some ''BAR''" "sym_name (syms ex_config 11) = Some ''NUM''"
    "flags (syms ex_config 9) = {SYMBOL_DEF_USER}" "flags (syms ex_config 11) = {SYMBOL_DEF_USER}"
    by (simp_all add: ex_config_defs)
  have w: "word_name ''BAR''" "word_name ''NUM''" "storable S_INT ''100''" by code_simp+
  show ?thesis
    using s w by (auto simp: ex_entries_def readable_def t sym_find_def find_match_def name_of_def const_name_def)
qed


end
