(* ===== verification/Kconf_Deps.thy ===== *)
theory Kconf_Deps
  imports Kconf_Calc
begin

text \<open>
  The search for recursive dependencies (\<^verbatim>\<open>support/kconfig/symbol.c\<close>): \<^verbatim>\<open>sym_check_deps\<close> and the
  functions it calls, and the loop of \<^verbatim>\<open>conf_parse\<close> (\<^verbatim>\<open>zconf.y\<close>) that starts it for every symbol.

  The search runs after the \<^verbatim>\<open>Kconfig\<close> files are read. Its state adds to the global state the
  stack of \<^verbatim>\<open>struct dep_stack\<close> frames, top first, and the lines printed. The functions call each
  other through \<^verbatim>\<open>sym_check_deps\<close>, whose depth of calls is bounded as that of \<open>sym_calc_value\<close>.
  \<open>None\<close> stands for the bound being reached, for a null pointer that the code would dereference,
  and for a return that leaves \<^verbatim>\<open>check_top\<close> pointing to a dead frame.
\<close>

section \<open>The stack and the messages\<close>

record dep_stack =
  ds_sym :: symid
  ds_prop :: "propid option"
  ds_expr :: "expr option"

text \<open>
  The lines printed, without file names and line numbers: the two headings, the five explanations
  of a step in the cycle, and the complaint about an expression that is no condition.
\<close>

datatype dep_line =
    UnexpectedRecursive | RecursiveDependency
  | ValueContains symid prop_type symid | DependsOn symid symid | ChoiceContains symid symid
  | PartOfChoice symid symid | SelectedBy symid symid
  | HowToCheck expr_type

record check_state =
  ck :: kstate
  check_top :: "dep_stack list"
  printed :: "dep_line list"

type_synonym checker = "symid \<Rightarrow> check_state \<Rightarrow> (symid option \<times> check_state) option"

definition dep_stack_insert :: "symid \<Rightarrow> check_state \<Rightarrow> check_state" where
  "dep_stack_insert s c = c\<lparr>check_top := \<lparr>ds_sym = s, ds_prop = None, ds_expr = None\<rparr> # check_top c\<rparr>"

definition dep_stack_remove :: "check_state \<Rightarrow> check_state" where
  "dep_stack_remove c = c\<lparr>check_top := tl (check_top c)\<rparr>"

text \<open>The assignments to \<^verbatim>\<open>stack.prop\<close> and \<^verbatim>\<open>stack.expr\<close> of the frame on top.\<close>

definition set_stack_prop :: "propid \<Rightarrow> check_state \<Rightarrow> check_state" where
  "set_stack_prop p c = c\<lparr>check_top := (case check_top c of [] \<Rightarrow> [] | f # fs \<Rightarrow> f\<lparr>ds_prop := Some p\<rparr> # fs)\<rparr>"

definition set_stack_expr :: "expr option \<Rightarrow> check_state \<Rightarrow> check_state" where
  "set_stack_expr e c = c\<lparr>check_top := (case check_top c of [] \<Rightarrow> [] | f # fs \<Rightarrow> f\<lparr>ds_expr := e\<rparr> # fs)\<rparr>"

text \<open>The loop that looks for a property with a menu entry, with the last value of \<^verbatim>\<open>menu\<close>.\<close>

fun find_menu :: "kstate \<Rightarrow> propid list \<Rightarrow> menuid option \<Rightarrow> propid option \<times> menuid option" where
  "find_menu st [] m = (None, m)"
| "find_menu st (p # ps) m =
     (case p_menu (props st p) of Some x \<Rightarrow> (Some p, Some x) | None \<Rightarrow> find_menu st ps None)"

text \<open>The explanation of one frame; \<open>None\<close> if the property or menu whose position is printed is null.\<close>

definition print_frame :: "kstate \<Rightarrow> dep_stack \<Rightarrow> symid \<Rightarrow> propid option \<Rightarrow> menuid option \<Rightarrow> dep_line option" where
  "print_frame st f nxt prop m =
    (let s = ds_sym f in
     if ds_expr f \<noteq> None then map_option (\<lambda>p. ValueContains s (p_type (props st p)) nxt) prop
     else if ds_prop f \<noteq> None then map_option (\<lambda>p. DependsOn s nxt) prop
     else if sym_is_choice st s then map_option (\<lambda>_. ChoiceContains s nxt) m
     else if sym_is_choice_value st s then map_option (\<lambda>_. PartOfChoice s nxt) m
     else map_option (\<lambda>p. SelectedBy s nxt) prop)"

text \<open>The loop over the frames of the cycle, from the first one to the top of the stack.\<close>

fun print_frames :: "kstate \<Rightarrow> symid \<Rightarrow> dep_stack list \<Rightarrow> menuid option \<Rightarrow> dep_line list option" where
  "print_frames st last_sym [] m = Some []"
| "print_frames st last_sym (f # fs) m =
     (let s = ds_sym f;
          nxt = (case fs of [] \<Rightarrow> last_sym | g # _ \<Rightarrow> ds_sym g);
          prop0 = (case ds_prop f of Some p \<Rightarrow> Some p
                   | None \<Rightarrow> (case sym_prop (syms st s) of [] \<Rightarrow> None | p # _ \<Rightarrow> Some p));
          (prop, m') = (if sym_is_choice st s \<or> sym_is_choice_value st s
                        then find_menu st (sym_prop (syms st s)) m else (prop0, m)) in
      do { head \<leftarrow> (if s = last_sym then map_option (\<lambda>_. [RecursiveDependency]) prop else Some []);
           line \<leftarrow> print_frame st f nxt prop m';
           rest \<leftarrow> print_frames st last_sym fs m';
           Some (head @ line # rest) })"

text \<open>
  For a choice value the frame of the value is put on the stack for the time of the call, and the
  cycle starts at its choice. A choice value without choice would end the call with this frame
  still on the stack.
\<close>

definition sym_check_print_recursive :: "symid \<Rightarrow> check_state \<Rightarrow> check_state option" where
  "sym_check_print_recursive last_sym c =
    do { (start, stack) \<leftarrow>
           (if sym_is_choice_value (ck c) last_sym then
              do { p \<leftarrow> sym_get_choice_prop (ck c) last_sym;
                   cs \<leftarrow> prop_get_symbol (ck c) p;
                   Some (cs, check_top (dep_stack_insert last_sym c)) }
            else Some (last_sym, check_top c));
         case dropWhile (\<lambda>f. ds_sym f \<noteq> start) stack of
           [] \<Rightarrow> if sym_is_choice_value (ck c) last_sym then None
                 else Some (c\<lparr>printed := printed c @ [UnexpectedRecursive]\<rparr>)
         | f # _ \<Rightarrow>
             do { ls \<leftarrow> print_frames (ck c) start (f # rev (takeWhile (\<lambda>f. ds_sym f \<noteq> start) stack)) None;
                  Some (c\<lparr>printed := printed c @ ls\<rparr>) } }"

section \<open>The search\<close>

text \<open>\<^verbatim>\<open>sym2 = m1; if (sym2) return sym2; return m2\<close>.\<close>

definition or_else ::
    "(check_state \<Rightarrow> (symid option \<times> check_state) option) \<Rightarrow> (check_state \<Rightarrow> (symid option \<times> check_state) option)
      \<Rightarrow> check_state \<Rightarrow> (symid option \<times> check_state) option" where
  "or_else m1 m2 c =
    do { (r, c1) \<leftarrow> m1 c; case r of Some t \<Rightarrow> Some (Some t, c1) | None \<Rightarrow> m2 c1 }"

fun check_expr :: "checker \<Rightarrow> expr \<Rightarrow> check_state \<Rightarrow> (symid option \<times> check_state) option" where
  "check_expr scd (XOr a b) c = or_else (check_expr scd a) (check_expr scd b) c"
| "check_expr scd (XAnd a b) c = or_else (check_expr scd a) (check_expr scd b) c"
| "check_expr scd (XNot a) c = check_expr scd a c"
| "check_expr scd (XEqual a b) c = or_else (scd a) (scd b) c"
| "check_expr scd (XUnequal a b) c = or_else (scd a) (scd b) c"
| "check_expr scd (XSymbol a) c = scd a c"
| "check_expr scd e c = Some (None, c\<lparr>printed := printed c @ [HowToCheck (etype e)]\<rparr>)"

definition sym_check_expr_deps :: "checker \<Rightarrow> expr option \<Rightarrow> check_state \<Rightarrow> (symid option \<times> check_state) option" where
  "sym_check_expr_deps scd e c = (case e of None \<Rightarrow> Some (None, c) | Some e \<Rightarrow> check_expr scd e c)"

text \<open>The loop of \<^verbatim>\<open>sym_check_sym_deps\<close> over the properties.\<close>

fun check_dep_props :: "checker \<Rightarrow> symid \<Rightarrow> propid list \<Rightarrow> check_state \<Rightarrow> (symid option \<times> check_state) option" where
  "check_dep_props scd s [] c = Some (None, c)"
| "check_dep_props scd s (p # ps) c =
     (if p_type (props (ck c) p) = P_CHOICE \<or> p_type (props (ck c) p) = P_SELECT
      then check_dep_props scd s ps c
      else
        or_else (sym_check_expr_deps scd (ev_expr (p_visible (props (ck c) p))))
          (\<lambda>c1. if p_type (props (ck c1) p) \<noteq> P_DEFAULT \<or> sym_is_choice (ck c1) s
                then check_dep_props scd s ps c1
                else or_else (sym_check_expr_deps scd (p_expr (props (ck c1) p)))
                       (\<lambda>c2. check_dep_props scd s ps (set_stack_expr None c2))
                       (set_stack_expr (p_expr (props (ck c1) p)) c1))
          (set_stack_prop p c))"

definition sym_check_sym_deps :: "checker \<Rightarrow> symid \<Rightarrow> check_state \<Rightarrow> (symid option \<times> check_state) option" where
  "sym_check_sym_deps scd s c =
    (let c0 = dep_stack_insert s c in
     do { (r, c1) \<leftarrow>
            or_else (sym_check_expr_deps scd (ev_expr (rev_dep (syms (ck c0) s))))
              (check_dep_props scd s (sym_prop (syms (ck c0) s))) c0;
          Some (r, dep_stack_remove c1) })"

definition upd_ck :: "(kstate \<Rightarrow> kstate) \<Rightarrow> check_state \<Rightarrow> check_state" where
  "upd_ck f c = c\<lparr>ck := f (ck c)\<rparr>"

fun check_values :: "checker \<Rightarrow> symid list \<Rightarrow> check_state \<Rightarrow> (symid option \<times> check_state) option" where
  "check_values scd [] c = Some (None, c)"
| "check_values scd (v # vs) c = or_else (sym_check_sym_deps scd v) (check_values scd vs) c"

definition sym_check_choice_deps :: "checker \<Rightarrow> symid \<Rightarrow> check_state \<Rightarrow> (symid option \<times> check_state) option" where
  "sym_check_choice_deps scd choice c =
    (let c0 = dep_stack_insert choice c in
     do { ss \<leftarrow> choice_list (ck c0) choice;
          let c1 = upd_ck (set_flag choice {SYMBOL_CHECK, SYMBOL_CHECKED} \<circ>
                fold (\<lambda>v. set_flag v {SYMBOL_CHECK, SYMBOL_CHECKED}) ss) c0;
          (r, c2) \<leftarrow>
            or_else (\<lambda>c. do { (r, c') \<leftarrow> sym_check_sym_deps scd choice c;
                             Some (r, upd_ck (clear_flag choice {SYMBOL_CHECK}) c') })
              (check_values scd ss) c1;
          let c3 = upd_ck (fold (\<lambda>v. clear_flag v {SYMBOL_CHECK}) ss) c2;
          r' \<leftarrow>
            (case r of
               None \<Rightarrow> Some None
             | Some t \<Rightarrow>
                 if sym_is_choice_value (ck c3) t then
                   do { p \<leftarrow> sym_get_choice_prop (ck c3) t;
                        Some (if prop_get_symbol (ck c3) p = Some choice then Some choice else Some t) }
                 else Some (Some t));
          Some (r', dep_stack_remove c3) })"

definition check_step :: "checker \<Rightarrow> checker" where
  "check_step scd s c =
    (if has_flag (ck c) s SYMBOL_CHECK then
       do { c1 \<leftarrow> sym_check_print_recursive s c; Some (Some s, c1) }
     else if has_flag (ck c) s SYMBOL_CHECKED then Some (None, c)
     else
       do { (r, c') \<leftarrow>
              (if sym_is_choice_value (ck c) s then
                 do { p \<leftarrow> sym_get_choice_prop (ck (dep_stack_insert s c)) s;
                      cs \<leftarrow> prop_get_symbol (ck (dep_stack_insert s c)) p;
                      (r, c1) \<leftarrow> scd cs (dep_stack_insert s c);
                      Some (r, dep_stack_remove c1) }
               else if sym_is_choice (ck c) s then sym_check_choice_deps scd s c
               else
                 do { (r, c1) \<leftarrow> sym_check_sym_deps scd s
                        (upd_ck (set_flag s {SYMBOL_CHECK, SYMBOL_CHECKED}) c);
                      Some (r, upd_ck (clear_flag s {SYMBOL_CHECK}) c1) });
            Some (if r = Some s then None else r, c') })"

primrec sym_check_deps :: "nat \<Rightarrow> checker" where
  "sym_check_deps 0 s c = None"
| "sym_check_deps (Suc n) s c = check_step (sym_check_deps n) s c"

text \<open>The loop of \<^verbatim>\<open>conf_parse\<close> over all symbols, with the number of errors \<^verbatim>\<open>zconfnerrs\<close>.\<close>

fun check_all_deps :: "nat \<Rightarrow> symid list \<Rightarrow> nat \<Rightarrow> check_state \<Rightarrow> (nat \<times> check_state) option" where
  "check_all_deps n [] errs c = Some (errs, c)"
| "check_all_deps n (s # ss) errs c =
     do { (r, c1) \<leftarrow> sym_check_deps n s c;
          check_all_deps n ss (if r \<noteq> None then errs + 1 else errs) c1 }"

definition conf_check_deps :: "nat \<Rightarrow> kstate \<Rightarrow> (nat \<times> check_state) option" where
  "conf_check_deps n st = check_all_deps n (for_all_symbols st) 0 \<lparr>ck = st, check_top = [], printed = []\<rparr>"

end
