(* ===== verification/Kconf_Deps_Props.thy ===== *)
theory Kconf_Deps_Props
  imports Kconf_Deps
begin

text \<open>
  The search for recursive dependencies finds exactly the cycles: its depth-first search with the
  marks \<^verbatim>\<open>SYMBOL_CHECK\<close> and \<^verbatim>\<open>SYMBOL_CHECKED\<close> is compared with the dependency graph of the
  configuration.
\<close>

section \<open>The dependency graph\<close>

text \<open>The state without the marks of the search. It does not change, so all that is static is stated over it.\<close>

definition erase :: "kstate \<Rightarrow> kstate" where
  "erase st = st\<lparr>syms := (\<lambda>s. (syms st s)\<lparr>flags := flags (syms st s) - {SYMBOL_CHECK, SYMBOL_CHECKED}\<rparr>)\<rparr>"

text \<open>
  The choice of a choice value, and the group of a symbol: a choice value belongs to the group of
  its choice, every other symbol is a group of its own.
\<close>

definition choice_of :: "kstate \<Rightarrow> symid \<Rightarrow> symid option" where
  "choice_of st s = do { p \<leftarrow> sym_get_choice_prop st s; prop_get_symbol st p }"

definition rep :: "kstate \<Rightarrow> symid \<Rightarrow> symid" where
  "rep st s = (if sym_is_choice_value st s then the (choice_of st s) else s)"

definition members :: "kstate \<Rightarrow> symid \<Rightarrow> symid set" where
  "members st s = (case choice_list st s of None \<Rightarrow> {} | Some ss \<Rightarrow> set ss)"

text \<open>
  The symbols that the search follows from an expression, from a property of a symbol and from a
  symbol: \<open>deps\<close>.
\<close>

definition prop_deps :: "kstate \<Rightarrow> symid \<Rightarrow> propid \<Rightarrow> symid set" where
  "prop_deps st s p =
    (if p_type (props st p) = P_CHOICE \<or> p_type (props st p) = P_SELECT then {}
     else opt_syms (ev_expr (p_visible (props st p))) \<union>
       (if p_type (props st p) \<noteq> P_DEFAULT \<or> sym_is_choice st s then {} else opt_syms (p_expr (props st p))))"

definition deps :: "kstate \<Rightarrow> symid \<Rightarrow> symid set" where
  "deps st s = opt_syms (ev_expr (rev_dep (syms st s))) \<union> (\<Union>p \<in> set (sym_prop (syms st s)). prop_deps st s p)"

text \<open>
  What the calculation of a value depends on: the symbols in its conditions; for a choice value also
  the choice, and what the other values of the choice depend on, for one of them is selected.
\<close>

inductive_set dep_edge :: "kstate \<Rightarrow> (symid \<times> symid) set" for st where
  own: "t \<in> deps st s \<Longrightarrow> (s, t) \<in> dep_edge st"
| of_choice: "sym_is_choice_value st v \<Longrightarrow> choice_of st v = Some c \<Longrightarrow> (v, c) \<in> dep_edge st"
| of_sibling: "sym_is_choice_value st v \<Longrightarrow> choice_of st v = Some c \<Longrightarrow> w \<in> members st c \<Longrightarrow> t \<in> deps st w \<Longrightarrow>
    (v, t) \<in> dep_edge st"

text \<open>
  The same between groups: a choice and its values are one node, whose values may refer to the
  choice.
\<close>

definition group_edge :: "kstate \<Rightarrow> (symid \<times> symid) set" where
  "group_edge st = {(rep st s, rep st t) | s t. t \<in> deps st s \<and>
     \<not> (sym_is_choice_value st s \<and> choice_of st s = Some t)}"

text \<open>The symbols from which no cycle is reached.\<close>

definition acyclic_from :: "kstate \<Rightarrow> symid set" where
  "acyclic_from st = Wellfounded.acc ((dep_edge st)\<inverse>)"

lemma acyclic_fromI: "(\<And>t. (s, t) \<in> dep_edge st \<Longrightarrow> t \<in> acyclic_from st) \<Longrightarrow> s \<in> acyclic_from st"
  by (auto simp: acyclic_from_def intro: accI)

lemma acyclic_from_no_cycle:
  assumes "s \<in> acyclic_from st" "(s, t) \<in> (dep_edge st)\<^sup>*"
  shows "(t, t) \<notin> (dep_edge st)\<^sup>+"
proof -
  have "t \<in> acyclic_from st"
    using assms(2,1) by (induction) (auto simp: acyclic_from_def dest: acc_downward)
  then show ?thesis unfolding acyclic_from_def
  proof (induction rule: acc.induct)
    case (accI x)
    show ?case
    proof
      assume "(x, x) \<in> (dep_edge st)\<^sup>+"
      then obtain y where "(x, y) \<in> dep_edge st" "(y, x) \<in> (dep_edge st)\<^sup>*" by (meson tranclD)
      then have "(y, y) \<in> (dep_edge st)\<^sup>+" by auto
      then show False using accI.IH \<open>(x, y) \<in> dep_edge st\<close> by auto
    qed
  qed
qed

text \<open>A cycle of groups is reached from the symbol.\<close>

definition group_cycle :: "kstate \<Rightarrow> symid \<Rightarrow> bool" where
  "group_cycle st s \<longleftrightarrow> (\<exists>t. (rep st s, t) \<in> (group_edge st)\<^sup>* \<and> (t, t) \<in> (group_edge st)\<^sup>+)"

text \<open>
  Configurations as the parser and \<^verbatim>\<open>menu_finalize\<close> leave them, for the finite set \<open>U\<close> of symbols: choices and
  their values refer to each other, choices are not values of choices, both have a property with a
  menu entry, and a symbol that is selected is defined (it has a property).
\<close>

definition deps_wf :: "kstate \<Rightarrow> symid set \<Rightarrow> bool" where
  "deps_wf st U \<longleftrightarrow> finite U \<and> (\<forall>s \<in> U. deps st s \<subseteq> U \<and>
    (sym_is_choice_value st s \<longrightarrow> (\<exists>c \<in> U. choice_of st s = Some c \<and> sym_is_choice st c \<and> s \<in> members st c)) \<and>
    (sym_is_choice st s \<longrightarrow> \<not> sym_is_choice_value st s \<and> choice_list st s \<noteq> None \<and>
       (\<forall>v \<in> members st s. v \<in> U \<and> sym_is_choice_value st v \<and> choice_of st v = Some s)) \<and>
    (sym_is_choice st s \<or> sym_is_choice_value st s \<longrightarrow>
       (\<exists>p \<in> set (sym_prop (syms st s)). p_menu (props st p) \<noteq> None)) \<and>
    (ev_expr (rev_dep (syms st s)) \<noteq> None \<longrightarrow> sym_prop (syms st s) \<noteq> []))"

text \<open>
  The colours of depth-first search: a symbol is gray while \<^verbatim>\<open>SYMBOL_CHECK\<close> is set, and black when
  it has been checked.
\<close>

definition gray :: "check_state \<Rightarrow> symid set" where
  "gray c = {s. has_flag (ck c) s SYMBOL_CHECK}"

definition visited :: "check_state \<Rightarrow> symid set" where
  "visited c = {s. has_flag (ck c) s SYMBOL_CHECKED}"

abbreviation black :: "check_state \<Rightarrow> symid set" where
  "black c \<equiv> visited c - gray c"

abbreviation stack_syms :: "check_state \<Rightarrow> symid list" where
  "stack_syms c \<equiv> map ds_sym (check_top c)"

definition reports :: "check_state \<Rightarrow> nat" where
  "reports c = count_list (printed c) RecursiveDependency"

text \<open>
  The invariant of the search, what later states keep of earlier ones, and the contract of a part
  of the search that visits the symbols \<open>T\<close>: without a report all of them are checked and no cycle is
  reached from a checked symbol; with a report there is a cycle. A symbol is returned only after a
  report, and it is a gray one.
\<close>

definition good :: "kstate \<Rightarrow> symid set \<Rightarrow> check_state \<Rightarrow> bool" where
  "good K U c \<longleftrightarrow> erase (ck c) = K \<and> gray c \<subseteq> U \<and> gray c \<subseteq> visited c \<and>
    (\<forall>v \<in> U. sym_is_choice_value K v \<longrightarrow> (v \<in> visited c \<longleftrightarrow> the (choice_of K v) \<in> visited c)) \<and>
    (\<forall>f \<in> set (check_top c). ds_sym f \<in> U \<and> sym_prop (syms K (ds_sym f)) \<noteq> [])"

definition ahead :: "kstate \<Rightarrow> symid set \<Rightarrow> check_state \<Rightarrow> check_state \<Rightarrow> bool" where
  "ahead K U c c' \<longleftrightarrow> good K U c' \<and> gray c' = gray c \<and> visited c \<subseteq> visited c' \<and> stack_syms c' = stack_syms c"

definition searched ::
    "kstate \<Rightarrow> symid set \<Rightarrow> symid set \<Rightarrow> check_state \<Rightarrow> (symid option \<times> check_state) option \<Rightarrow> bool" where
  "searched K U T c m \<longleftrightarrow> run False m (\<lambda>(r, c'). ahead K U c c' \<and> (\<forall>t. r = Some t \<longrightarrow> t \<in> gray c) \<and>
    reports c \<le> reports c' \<and>
    (reports c' = reports c \<longrightarrow> r = None \<and> T \<subseteq> black c' \<and>
       (black c \<subseteq> acyclic_from K \<longrightarrow> black c' \<subseteq> acyclic_from K)) \<and>
    (reports c < reports c' \<longrightarrow> (\<exists>t \<in> T. group_cycle K t)))"

text \<open>
  What a part of the search needs: the gray symbols are on the stack and lead to the symbols to
  visit, and the bound on the depth of the calls is not reached. \<open>callee\<close> is the contract of
  \<^verbatim>\<open>sym_check_deps\<close>.
\<close>

definition ready :: "kstate \<Rightarrow> symid set \<Rightarrow> nat \<Rightarrow> symid set \<Rightarrow> check_state \<Rightarrow> bool" where
  "ready K U n T c \<longleftrightarrow> good K U c \<and> (\<forall>g \<in> gray c. rep K g \<in> set (stack_syms c)) \<and> T \<subseteq> U \<and>
    (\<forall>t \<in> T. t \<in> black c \<or> (\<forall>g \<in> gray c. (rep K g, rep K t) \<in> (group_edge K)\<^sup>+)) \<and>
    2 * card (U - visited c) + 1 < n"

definition callee :: "kstate \<Rightarrow> symid set \<Rightarrow> nat \<Rightarrow> checker \<Rightarrow> bool" where
  "callee K U n scd \<longleftrightarrow> (\<forall>s c. good K U c \<longrightarrow> (\<forall>g \<in> gray c. rep K g \<in> set (stack_syms c)) \<longrightarrow> s \<in> U \<longrightarrow>
    s \<in> black c \<or> (\<forall>g \<in> gray c. (rep K g, rep K s) \<in> (group_edge K)\<^sup>+) \<longrightarrow>
    2 * card (U - visited c) + (if sym_is_choice_value K s then 1 else 0) < n \<longrightarrow>
    searched K U {s} c (scd s c))"

section \<open>Parts of the search\<close>

lemma searchedI:
  assumes "m = Some (r, c')" "ahead K U c c'" "\<And>t. r = Some t \<Longrightarrow> t \<in> gray c" "reports c \<le> reports c'"
    and "reports c' = reports c \<Longrightarrow> r = None" "reports c' = reports c \<Longrightarrow> T \<subseteq> black c'"
    and "reports c' = reports c \<Longrightarrow> black c \<subseteq> acyclic_from K \<Longrightarrow> black c' \<subseteq> acyclic_from K"
    and "reports c < reports c' \<Longrightarrow> \<exists>t \<in> T. group_cycle K t"
  shows "searched K U T c m"
  using assms by (auto simp: searched_def)

lemma searchedE:
  assumes "searched K U T c m"
  obtains r c' where "m = Some (r, c')" "ahead K U c c'" "\<And>t. r = Some t \<Longrightarrow> t \<in> gray c" "reports c \<le> reports c'"
    and "reports c' = reports c \<Longrightarrow> r = None" "reports c' = reports c \<Longrightarrow> T \<subseteq> black c'"
    and "reports c' = reports c \<Longrightarrow> black c \<subseteq> acyclic_from K \<Longrightarrow> black c' \<subseteq> acyclic_from K"
    and "reports c < reports c' \<Longrightarrow> \<exists>t \<in> T. group_cycle K t"
  using assms by (auto simp: searched_def run_False)

lemma ahead_trans: "ahead K U c c1 \<Longrightarrow> ahead K U c1 c2 \<Longrightarrow> ahead K U c c2"
  by (auto simp: ahead_def)

lemma or_else_searched:
  assumes "searched K U T1 c (m1 c)" "\<And>c'. ahead K U c c' \<Longrightarrow> searched K U T2 c' (m2 c')"
  shows "searched K U (T1 \<union> T2) c (or_else m1 m2 c)"
  using assms(1)
proof (rule searchedE)
  fix r1 c1
  assume m1: "m1 c = Some (r1, c1)" "ahead K U c c1" "\<And>t. r1 = Some t \<Longrightarrow> t \<in> gray c" "reports c \<le> reports c1"
    "reports c1 = reports c \<Longrightarrow> r1 = None" "reports c1 = reports c \<Longrightarrow> T1 \<subseteq> black c1"
    "reports c1 = reports c \<Longrightarrow> black c \<subseteq> acyclic_from K \<Longrightarrow> black c1 \<subseteq> acyclic_from K"
    "reports c < reports c1 \<Longrightarrow> \<exists>t \<in> T1. group_cycle K t"
  show ?thesis
  proof (cases r1)
    case (Some t)
    then show ?thesis using m1 by (intro searchedI [where r = r1 and c' = c1]) (auto simp: or_else_def)
  next
    case None
    from assms(2) [OF m1(2)] show ?thesis
    proof (rule searchedE)
      fix r2 c2
      assume m2: "m2 c1 = Some (r2, c2)" "ahead K U c1 c2" "\<And>t. r2 = Some t \<Longrightarrow> t \<in> gray c1" "reports c1 \<le> reports c2"
        "reports c2 = reports c1 \<Longrightarrow> r2 = None" "reports c2 = reports c1 \<Longrightarrow> T2 \<subseteq> black c2"
        "reports c2 = reports c1 \<Longrightarrow> black c1 \<subseteq> acyclic_from K \<Longrightarrow> black c2 \<subseteq> acyclic_from K"
        "reports c1 < reports c2 \<Longrightarrow> \<exists>t \<in> T2. group_cycle K t"
      have g: "gray c1 = gray c" "gray c2 = gray c1" "visited c1 \<subseteq> visited c2" using m1(2) m2(2) by (auto simp: ahead_def)
      show ?thesis
      proof (rule searchedI)
        show "or_else m1 m2 c = Some (r2, c2)" by (simp add: or_else_def m1(1) None m2(1))
        show "ahead K U c c2" using m1(2) m2(2) by (rule ahead_trans)
        show "reports c \<le> reports c2" using m1(4) m2(4) by simp
        show "t \<in> gray c" if "r2 = Some t" for t using m2(3) that g by simp
        show "r2 = None" if "reports c2 = reports c" using m1(4) m2(4,5) that by simp
        show "T1 \<union> T2 \<subseteq> black c2" if "reports c2 = reports c"
          using m1(4,6) m2(4,6) that g by auto
        show "black c2 \<subseteq> acyclic_from K" if "reports c2 = reports c" "black c \<subseteq> acyclic_from K"
          using m1(4,7) m2(4,7) that by simp
        show "\<exists>t \<in> T1 \<union> T2. group_cycle K t" if "reports c < reports c2"
          using m1(4,8) m2(4,8) that by (cases "reports c < reports c1") auto
      qed
    qed
  qed
qed

lemma ready_ahead: "finite U \<Longrightarrow> ready K U n T c \<Longrightarrow> ahead K U c c' \<Longrightarrow> ready K U n T c'"
proof -
  assume a: "finite U" "ready K U n T c" "ahead K U c c'"
  then have "card (U - visited c') \<le> card (U - visited c)" by (intro card_mono) (auto simp: ahead_def)
  then show ?thesis using a by (auto simp: ready_def ahead_def)
qed

lemma ready_subset: "ready K U n T c \<Longrightarrow> T' \<subseteq> T \<Longrightarrow> ready K U n T' c"
  by (auto simp: ready_def)

lemma callee_call:
  assumes "callee K U n scd" "good K U c" "\<forall>g \<in> gray c. rep K g \<in> set (stack_syms c)" "s \<in> U"
    "s \<in> black c \<or> (\<forall>g \<in> gray c. (rep K g, rep K s) \<in> (group_edge K)\<^sup>+)"
    "2 * card (U - visited c) + (if sym_is_choice_value K s then 1 else 0) < n"
  shows "searched K U {s} c (scd s c)"
  using assms unfolding callee_def by blast

lemma callee_ready: "callee K U n scd \<Longrightarrow> ready K U n T c \<Longrightarrow> s \<in> T \<Longrightarrow> searched K U {s} c (scd s c)"
  by (rule callee_call) (auto simp: ready_def split: if_splits)

lemma searched_nothing: "good K U c \<Longrightarrow> searched K U {} c (Some (None, c))"
  by (rule searchedI) (auto simp: ahead_def)

lemma searched_message:
  "good K U c \<Longrightarrow> l \<noteq> RecursiveDependency \<Longrightarrow> searched K U {} c (Some (None, c\<lparr>printed := printed c @ [l]\<rparr>))"
  by (rule searchedI [OF refl]) (auto simp: ahead_def good_def gray_def visited_def reports_def)

lemma two_calls:
  assumes "finite U" "callee K U n scd" "ready K U n {a, b} c"
  shows "searched K U {a, b} c (or_else (scd a) (scd b) c)"
proof -
  have "searched K U {b} c' (scd b c')" if "ahead K U c c'" for c'
    using callee_ready [OF assms(2) ready_ahead [OF assms(1,3) that]] by simp
  moreover have "searched K U {a} c (scd a c)" using callee_ready [OF assms(2,3)] by simp
  ultimately show ?thesis using or_else_searched [of K U "{a}" c "scd a" "{b}" "scd b"] by (simp add: insert_commute)
qed

lemma check_expr_searched:
  assumes "finite U" "callee K U n scd"
  shows "ready K U n (expr_syms e) c \<Longrightarrow> searched K U (expr_syms e) c (check_expr scd e c)"
proof (induction e arbitrary: c)
  case (XOr a b)
  have "ready K U n (expr_syms a) c" "\<And>c'. ahead K U c c' \<Longrightarrow> ready K U n (expr_syms b) c'"
    using ready_subset [OF XOr.prems] ready_subset [OF ready_ahead [OF assms(1) XOr.prems]] by auto
  then show ?case using or_else_searched XOr.IH by simp
next
  case (XAnd a b)
  have "ready K U n (expr_syms a) c" "\<And>c'. ahead K U c c' \<Longrightarrow> ready K U n (expr_syms b) c'"
    using ready_subset [OF XAnd.prems] ready_subset [OF ready_ahead [OF assms(1) XAnd.prems]] by auto
  then show ?case using or_else_searched XAnd.IH by simp
next
  case (XSymbol x)
  then show ?case using callee_ready [OF assms(2) XSymbol] by simp
qed (simp_all add: two_calls [OF assms] ready_def searched_message)

lemma sym_check_expr_deps_searched:
  "finite U \<Longrightarrow> callee K U n scd \<Longrightarrow> ready K U n (opt_syms e) c \<Longrightarrow>
    searched K U (opt_syms e) c (sym_check_expr_deps scd e c)"
  by (cases e) (simp_all add: opt_syms_def sym_check_expr_deps_def check_expr_searched searched_nothing ready_def)

lemma erase_reads:
  "props (erase st) = props st" "sym_prop (syms (erase st) s) = sym_prop (syms st s)"
  "rev_dep (syms (erase st) s) = rev_dep (syms st s)"
  "sym_is_choice (erase st) s \<longleftrightarrow> sym_is_choice st s"
  "sym_is_choice_value (erase st) s \<longleftrightarrow> sym_is_choice_value st s"
  by (simp_all add: erase_def)

lemma erase_choice:
  "sym_get_choice_prop (erase st) = sym_get_choice_prop st" "prop_get_symbol (erase st) = prop_get_symbol st"
  "choice_list (erase st) = choice_list st"
  by (simp_all add: fun_eq_iff sym_get_choice_prop_def first_prop_def for_all_properties_def prop_get_symbol_def
      choice_list_def erase_reads cong: option.case_cong)

lemma good_reads:
  assumes "good K U c"
  shows "props (ck c) = props K" "sym_prop (syms (ck c) s) = sym_prop (syms K s)"
    "rev_dep (syms (ck c) s) = rev_dep (syms K s)"
    "sym_is_choice (ck c) s \<longleftrightarrow> sym_is_choice K s"
    "sym_is_choice_value (ck c) s \<longleftrightarrow> sym_is_choice_value K s"
    "sym_get_choice_prop (ck c) = sym_get_choice_prop K" "prop_get_symbol (ck c) = prop_get_symbol K"
    "choice_list (ck c) = choice_list K"
  using assms by (auto simp: good_def erase_reads erase_choice)

text \<open>Changes of the stack.\<close>

lemma stack_updates [simp]:
  "ck (dep_stack_insert s c) = ck c" "ck (dep_stack_remove c) = ck c" "ck (set_stack_prop p c) = ck c"
  "ck (set_stack_expr e c) = ck c" "printed (dep_stack_insert s c) = printed c"
  "printed (dep_stack_remove c) = printed c" "printed (set_stack_prop p c) = printed c"
  "printed (set_stack_expr e c) = printed c"
  by (simp_all add: dep_stack_insert_def dep_stack_remove_def set_stack_prop_def set_stack_expr_def)

lemma same_ck:
  "ck c' = ck c \<Longrightarrow> gray c' = gray c" "ck c' = ck c \<Longrightarrow> visited c' = visited c"
  "printed c' = printed c \<Longrightarrow> reports c' = reports c"
  by (simp_all add: gray_def visited_def reports_def)

lemma stack_updates_state [simp]:
  "gray (dep_stack_insert s c) = gray c" "gray (dep_stack_remove c) = gray c"
  "gray (set_stack_prop p c) = gray c" "gray (set_stack_expr e c) = gray c"
  "visited (dep_stack_insert s c) = visited c" "visited (dep_stack_remove c) = visited c"
  "visited (set_stack_prop p c) = visited c" "visited (set_stack_expr e c) = visited c"
  "reports (dep_stack_insert s c) = reports c" "reports (dep_stack_remove c) = reports c"
  "reports (set_stack_prop p c) = reports c" "reports (set_stack_expr e c) = reports c"
  by (rule same_ck, simp)+

lemma stack_syms_simps [simp]:
  "stack_syms (dep_stack_insert s c) = s # stack_syms c" "stack_syms (dep_stack_remove c) = tl (stack_syms c)"
  "stack_syms (set_stack_prop p c) = stack_syms c" "stack_syms (set_stack_expr e c) = stack_syms c"
  by (simp_all add: dep_stack_insert_def dep_stack_remove_def set_stack_prop_def set_stack_expr_def map_tl
      split: list.splits)

lemma good_iff: "good K U c \<longleftrightarrow> erase (ck c) = K \<and> gray c \<subseteq> U \<and> gray c \<subseteq> visited c \<and>
    (\<forall>v \<in> U. sym_is_choice_value K v \<longrightarrow> (v \<in> visited c \<longleftrightarrow> the (choice_of K v) \<in> visited c)) \<and>
    (\<forall>s \<in> set (stack_syms c). s \<in> U \<and> sym_prop (syms K s) \<noteq> [])"
  by (simp add: good_def)

lemma searched_from:
  assumes "searched K U T c1 m" "ck c1 = ck c" "stack_syms c1 = stack_syms c" "printed c1 = printed c"
  shows "searched K U T c m"
  using assms same_ck(1,2) [OF assms(2)] same_ck(3) [OF assms(4)] by (auto simp: searched_def ahead_def run_False)

lemma ready_from:
  assumes "ready K U n T c" "ck c1 = ck c" "stack_syms c1 = stack_syms c"
  shows "ready K U n T c1"
  using assms same_ck(1,2) [OF assms(2)] unfolding ready_def good_iff by simp

lemma check_props_searched:
  assumes fin: "finite U" and scd: "callee K U n scd"
  shows "ready K U n (\<Union>p \<in> set ps. prop_deps K s p) c \<Longrightarrow>
    searched K U (\<Union>p \<in> set ps. prop_deps K s p) c (check_dep_props scd s ps c)"
proof (induction ps arbitrary: c)
  case Nil
  then show ?case by (simp add: searched_nothing ready_def)
next
  case (Cons p ps)
  let ?T = "\<Union>p \<in> set ps. prop_deps K s p"
  have k: "ahead K U c c' \<Longrightarrow> ready K U n T c'" if "T \<subseteq> (\<Union>p \<in> set (p # ps). prop_deps K s p)" for T c'
    using ready_subset [OF ready_ahead [OF fin Cons.prems] that] .
  have g: "good K U c" using Cons.prems by (simp add: ready_def)
  note r = good_reads [OF g]
  have refl: "ahead K U c c" using g by (simp add: ahead_def)
  show ?case
  proof (cases "p_type (props K p) = P_CHOICE \<or> p_type (props K p) = P_SELECT")
    case True
    then show ?thesis using Cons.IH [OF k [OF _ refl]] by (simp add: r prop_deps_def)
  next
    case False
    let ?V = "opt_syms (ev_expr (p_visible (props K p)))" and ?c = "set_stack_prop p c"
    let ?m2 = "\<lambda>c1. if p_type (props (ck c1) p) \<noteq> P_DEFAULT \<or> sym_is_choice (ck c1) s then check_dep_props scd s ps c1
      else or_else (sym_check_expr_deps scd (p_expr (props (ck c1) p)))
         (\<lambda>c2. check_dep_props scd s ps (set_stack_expr None c2)) (set_stack_expr (p_expr (props (ck c1) p)) c1)"
    let ?D = "if p_type (props K p) \<noteq> P_DEFAULT \<or> sym_is_choice K s then {} else opt_syms (p_expr (props K p))"
    have pd: "prop_deps K s p = ?V \<union> ?D" using False by (simp add: prop_deps_def)
    have "searched K U ?V ?c (sym_check_expr_deps scd (ev_expr (p_visible (props (ck c) p))) ?c)"
      unfolding r by (rule sym_check_expr_deps_searched [OF fin scd ready_from [OF k [OF _ refl]]]) (auto simp: pd)
    moreover have "searched K U (?D \<union> ?T) c1 (?m2 c1)" if "ahead K U ?c c1" for c1
    proof -
      have a1: "ahead K U c c1" using that by (simp add: ahead_def)
      have g1: "good K U c1" using that by (simp add: ahead_def)
      note r1 = good_reads [OF g1]
      show ?thesis
      proof (cases "p_type (props K p) \<noteq> P_DEFAULT \<or> sym_is_choice K s")
        case True
        then show ?thesis using Cons.IH [OF k [OF _ a1]] by (simp add: r1)
      next
        case False
        let ?c1 = "set_stack_expr (p_expr (props K p)) c1"
        have "searched K U ?D ?c1 (sym_check_expr_deps scd (p_expr (props K p)) ?c1)"
          using False sym_check_expr_deps_searched [OF fin scd ready_from [OF k [OF _ a1]],
              of "p_expr (props K p)" ?c1] by (auto simp: pd)
        moreover have "searched K U ?T c2 (check_dep_props scd s ps (set_stack_expr None c2))" if "ahead K U ?c1 c2" for c2
        proof -
          have a2: "ahead K U c c2" using that a1 by (auto simp: ahead_def)
          show ?thesis
            by (rule searched_from [OF Cons.IH [OF ready_from [OF k [OF _ a2]]]]) simp_all
        qed
        ultimately have "searched K U (?D \<union> ?T) ?c1 (or_else (sym_check_expr_deps scd (p_expr (props K p)))
            (\<lambda>c2. check_dep_props scd s ps (set_stack_expr None c2)) ?c1)"
          by (rule or_else_searched)
        then show ?thesis using False searched_from [of K U "?D \<union> ?T" ?c1 _ c1] by (simp add: r1)
      qed
    qed
    ultimately have "searched K U (?V \<union> (?D \<union> ?T)) ?c (or_else (sym_check_expr_deps scd (ev_expr (p_visible (props (ck c) p)))) ?m2 ?c)"
      by (rule or_else_searched)
    then have "searched K U (?V \<union> (?D \<union> ?T)) c (or_else (sym_check_expr_deps scd (ev_expr (p_visible (props (ck c) p)))) ?m2 ?c)"
      by (rule searched_from) simp_all
    then show ?thesis using False by (simp add: pd r Un_assoc)
  qed
qed

lemma sym_check_sym_deps_searched:
  assumes wf: "deps_wf K U" and scd: "callee K U n scd" and s: "s \<in> U" and g: "good K U c"
    and cover: "\<forall>g \<in> gray c. rep K g \<in> insert s (set (stack_syms c))"
    and paths: "\<forall>t \<in> deps K s. t \<in> black c \<or> (\<forall>g \<in> gray c. (rep K g, rep K t) \<in> (group_edge K)\<^sup>+)"
    and room: "2 * card (U - visited c) + 1 < n"
  shows "searched K U (deps K s) c (sym_check_sym_deps scd s c)"
proof -
  have fin: "finite U" using wf by (simp add: deps_wf_def)
  note r = good_reads [OF g]
  show ?thesis
  proof (cases "sym_prop (syms K s) = []")
    case True
    then have "ev_expr (rev_dep (syms K s)) = None" using wf s by (auto simp: deps_wf_def)
    then show ?thesis
      using True searched_nothing [OF g]
      by (simp add: sym_check_sym_deps_def deps_def opt_syms_def r or_else_def sym_check_expr_deps_def
          dep_stack_insert_def dep_stack_remove_def)
  next
    case False
    let ?c = "dep_stack_insert s c" and ?P = "\<Union>p \<in> set (sym_prop (syms K s)). prop_deps K s p"
    let ?m1 = "sym_check_expr_deps scd (ev_expr (rev_dep (syms K s)))" and ?m2 = "check_dep_props scd s (sym_prop (syms K s))"
    have rdy: "ready K U n (deps K s) ?c"
      using g cover paths room s False wf unfolding ready_def good_iff by (auto simp: deps_wf_def)
    have "searched K U (opt_syms (ev_expr (rev_dep (syms K s)))) ?c (?m1 ?c)"
      by (rule sym_check_expr_deps_searched [OF fin scd ready_subset [OF rdy]]) (simp add: deps_def)
    moreover have "searched K U ?P c1 (?m2 c1)" if "ahead K U ?c c1" for c1
      by (rule check_props_searched [OF fin scd ready_subset [OF ready_ahead [OF fin rdy that]]]) (simp add: deps_def)
    ultimately have "searched K U (deps K s) ?c (or_else ?m1 ?m2 ?c)"
      unfolding deps_def by (rule or_else_searched)
    then show ?thesis
    proof (rule searchedE)
      fix r1 c1
      assume m: "or_else ?m1 ?m2 ?c = Some (r1, c1)" "ahead K U ?c c1" and
        rest: "\<And>t. r1 = Some t \<Longrightarrow> t \<in> gray ?c" "reports ?c \<le> reports c1"
        "reports c1 = reports ?c \<Longrightarrow> r1 = None" "reports c1 = reports ?c \<Longrightarrow> deps K s \<subseteq> black c1"
        "reports c1 = reports ?c \<Longrightarrow> black ?c \<subseteq> acyclic_from K \<Longrightarrow> black c1 \<subseteq> acyclic_from K"
        "reports ?c < reports c1 \<Longrightarrow> \<exists>t \<in> deps K s. group_cycle K t"
      have "ahead K U c (dep_stack_remove c1)"
        using m(2) g unfolding ahead_def good_iff by (auto simp: list.set_sel(2))
      then show ?thesis
        using rest m(1) by (intro searchedI [of _ r1 "dep_stack_remove c1"]) (simp_all add: sym_check_sym_deps_def r Let_def)
    qed
  qed
qed

section \<open>Reporting\<close>

lemma find_menu_finds:
  "\<exists>p \<in> set ps. p_menu (props st p) \<noteq> None \<Longrightarrow> \<exists>p m'. find_menu st ps m = (Some p, Some m')"
  by (induction ps arbitrary: m) (fastforce split: option.splits)+

definition printable :: "kstate \<Rightarrow> symid \<Rightarrow> bool" where
  "printable st s \<longleftrightarrow> sym_prop (syms st s) \<noteq> [] \<and> (sym_is_choice st s \<or> sym_is_choice_value st s \<longrightarrow>
    (\<exists>p \<in> set (sym_prop (syms st s)). p_menu (props st p) \<noteq> None))"

lemma print_frames_prints:
  "\<forall>f \<in> set fs. printable st (ds_sym f) \<Longrightarrow>
    \<exists>ls. print_frames st start fs m = Some ls \<and> (fs \<noteq> [] \<and> ds_sym (hd fs) = start \<longrightarrow> RecursiveDependency \<in> set ls)"
proof (induction fs arbitrary: m)
  case (Cons f fs)
  then have f: "printable st (ds_sym f)" by simp
  show ?case
  proof (cases "sym_is_choice st (ds_sym f) \<or> sym_is_choice_value st (ds_sym f)")
    case True
    then obtain p m' where "find_menu st (sym_prop (syms st (ds_sym f))) m = (Some p, Some m')"
      using f find_menu_finds by (fastforce simp: printable_def)
    moreover obtain ls where "print_frames st start fs (Some m') = Some ls" using Cons by fastforce
    ultimately show ?thesis using True by (auto simp: print_frame_def Let_def)
  next
    case False
    moreover obtain p ps where "sym_prop (syms st (ds_sym f)) = p # ps" using f by (auto simp: printable_def neq_Nil_conv)
    moreover obtain ls where "print_frames st start fs m = Some ls" using Cons by fastforce
    ultimately show ?thesis by (auto simp: print_frame_def Let_def split: option.splits)
  qed
qed simp

lemma print_recursive_reports:
  assumes wf: "deps_wf K U" and g: "good K U c" and s: "s \<in> U" and st: "rep K s \<in> set (stack_syms c)"
  shows "\<exists>ls. sym_check_print_recursive s c = Some (c\<lparr>printed := printed c @ ls\<rparr>) \<and> RecursiveDependency \<in> set ls"
proof -
  note r = good_reads [OF g]
  have pr: "printable (ck c) t" if "t \<in> set (stack_syms c)" for t
    using g wf that unfolding good_iff printable_def r deps_wf_def by blast
  define stack where "stack = (if sym_is_choice_value K s then check_top (dep_stack_insert s c) else check_top c)"
  have prs: "\<forall>f \<in> set stack. printable (ck c) (ds_sym f)"
  proof -
    have "printable (ck c) s" if "sym_is_choice_value K s"
      using wf s that unfolding printable_def r deps_wf_def by force
    then show ?thesis using pr by (auto simp: stack_def dep_stack_insert_def)
  qed
  have "rep K s \<in> set (map ds_sym stack)" using st by (auto simp: stack_def dep_stack_insert_def)
  then obtain f fs where f: "dropWhile (\<lambda>f. ds_sym f \<noteq> rep K s) stack = f # fs"
    by (cases "dropWhile (\<lambda>f. ds_sym f \<noteq> rep K s) stack") auto
  have f1: "ds_sym f = rep K s" using hd_dropWhile [of "\<lambda>f. ds_sym f \<noteq> rep K s" stack] f by simp
  have f2: "f \<in> set stack" using f by (metis set_dropWhileD list.set_intros(1))
  let ?fs = "f # rev (takeWhile (\<lambda>f. ds_sym f \<noteq> rep K s) stack)"
  have "\<forall>f \<in> set ?fs. printable (ck c) (ds_sym f)" using prs f2 by (auto dest: set_takeWhileD)
  then obtain ls where ls: "print_frames (ck c) (rep K s) ?fs None = Some ls" "RecursiveDependency \<in> set ls"
    using print_frames_prints [of ?fs "ck c" "rep K s" None] f1 by auto
  show ?thesis
  proof (cases "sym_is_choice_value K s")
    case True
    then obtain p where "sym_get_choice_prop K s = Some p" "prop_get_symbol K p = Some (rep K s)"
      using wf s by (auto simp: deps_wf_def choice_of_def rep_def elim!: bind_eq_SomeE)
    then show ?thesis using True f ls by (auto simp: sym_check_print_recursive_def r stack_def simp del: print_frames.simps)
  next
    case False
    then show ?thesis using f ls by (auto simp: sym_check_print_recursive_def r stack_def rep_def simp del: print_frames.simps)
  qed
qed

section \<open>Marking\<close>

abbreviation marks :: "sym_flag set" where
  "marks \<equiv> {SYMBOL_CHECK, SYMBOL_CHECKED}"

lemma flags_marked [simp]:
  "flags (syms (fold (\<lambda>v. set_flag v fs) ss st) t) = flags (syms st t) \<union> (if t \<in> set ss then fs else {})"
  "flags (syms (fold (\<lambda>v. clear_flag v fs) ss st) t) = flags (syms st t) - (if t \<in> set ss then fs else {})"
  by (induction ss arbitrary: st) auto

lemma erase_marked [simp]:
  "erase (set_flag s marks st) = erase st" "erase (clear_flag s {SYMBOL_CHECK} st) = erase st"
  by (auto simp: erase_def set_flag_def clear_flag_def upd_sym_def fun_eq_iff intro!: kstate.equality symbol.equality)

lemma erase_marked_all [simp]:
  "erase (fold (\<lambda>v. set_flag v marks) ss st) = erase st"
  "erase (fold (\<lambda>v. clear_flag v {SYMBOL_CHECK}) ss st) = erase st"
  by (induction ss arbitrary: st) auto

lemma upd_ck_simps [simp]:
  "ck (upd_ck f c) = f (ck c)" "check_top (upd_ck f c) = check_top c" "printed (upd_ck f c) = printed c"
  "reports (upd_ck f c) = reports c"
  by (simp_all add: upd_ck_def reports_def)

lemma marked_state [simp]:
  "gray (upd_ck (set_flag s marks) c) = insert s (gray c)" "visited (upd_ck (set_flag s marks) c) = insert s (visited c)"
  "gray (upd_ck (clear_flag s {SYMBOL_CHECK}) c) = gray c - {s}" "visited (upd_ck (clear_flag s {SYMBOL_CHECK}) c) = visited c"
  "gray (upd_ck (fold (\<lambda>v. clear_flag v {SYMBOL_CHECK}) ss) c) = gray c - set ss"
  "visited (upd_ck (fold (\<lambda>v. clear_flag v {SYMBOL_CHECK}) ss) c) = visited c"
  "gray (upd_ck (set_flag s marks \<circ> fold (\<lambda>v. set_flag v marks) ss) c) = insert s (set ss) \<union> gray c"
  "visited (upd_ck (set_flag s marks \<circ> fold (\<lambda>v. set_flag v marks) ss) c) = insert s (set ss) \<union> visited c"
  by (auto simp: gray_def visited_def)

lemma group_edge_own:
  "t \<in> deps K s \<Longrightarrow> \<not> (sym_is_choice_value K s \<and> choice_of K s = Some t) \<Longrightarrow> (rep K s, rep K t) \<in> group_edge K"
  by (auto simp: group_edge_def)

lemma choice_wf:
  assumes "deps_wf K U" "v \<in> U" "sym_is_choice_value K v"
  obtains c where "choice_of K v = Some c" "rep K v = c" "c \<in> U" "sym_is_choice K c" "\<not> sym_is_choice_value K c"
    "rep K c = c" "v \<in> members K c"
  using assms by (fastforce simp: deps_wf_def rep_def)

lemma members_wf:
  assumes "deps_wf K U" "s \<in> U" "sym_is_choice K s" "v \<in> members K s"
  shows "v \<in> U" "sym_is_choice_value K v" "choice_of K v = Some s" "rep K v = s" "v \<noteq> s"
proof -
  have "v \<in> U \<and> sym_is_choice_value K v \<and> choice_of K v = Some s \<and> \<not> sym_is_choice_value K s"
    using assms unfolding deps_wf_def by blast
  then show "v \<in> U" "sym_is_choice_value K v" "choice_of K v = Some s" "rep K v = s" "v \<noteq> s"
    by (auto simp: rep_def)
qed

lemma group_cycle_dep:
  assumes wf: "deps_wf K U" and s: "s \<in> U" and t: "t \<in> deps K s" "group_cycle K t"
  shows "group_cycle K s"
proof (cases "sym_is_choice_value K s \<and> choice_of K s = Some t")
  case True
  then have "rep K s = rep K t" using choice_wf [OF wf s] by (metis option.inject)
  then show ?thesis using t(2) by (simp add: group_cycle_def)
next
  case False
  then show ?thesis using group_edge_own [OF t(1) False] t(2) unfolding group_cycle_def by (meson converse_rtrancl_into_rtrancl)
qed

lemma room_less:
  "finite U \<Longrightarrow> s \<in> U \<Longrightarrow> s \<notin> visited c \<Longrightarrow> insert s (visited c) \<subseteq> V \<Longrightarrow> 2 * card (U - visited c) < Suc n \<Longrightarrow>
    2 * card (U - V) + 1 < n"
proof -
  assume a: "finite U" "s \<in> U" "s \<notin> visited c" "insert s (visited c) \<subseteq> V" "2 * card (U - visited c) < Suc n"
  have "U - V \<subset> U - visited c" using a by auto
  then have "card (U - V) < card (U - visited c)" using a(1) by (intro psubset_card_mono) auto
  then show ?thesis using a(5) by simp
qed

lemma plain_searched:
  assumes wf: "deps_wf K U" and scd: "callee K U n scd" and s: "s \<in> U" "s \<notin> gray c" "s \<notin> visited c"
    and plain: "\<not> sym_is_choice_value K s" "\<not> sym_is_choice K s"
    and g: "good K U c" and cover: "\<forall>g \<in> gray c. rep K g \<in> set (stack_syms c)"
    and paths: "\<forall>g \<in> gray c. (rep K g, rep K s) \<in> (group_edge K)\<^sup>+"
    and room: "2 * card (U - visited c) < Suc n"
  shows "searched K U {s} c (do { (r, c1) \<leftarrow> sym_check_sym_deps scd s (upd_ck (set_flag s marks) c);
    Some (if r = Some s then None else r, upd_ck (clear_flag s {SYMBOL_CHECK}) c1) })"
proof -
  let ?c = "upd_ck (set_flag s marks) c"
  have fin: "finite U" using wf by (simp add: deps_wf_def)
  have rep: "rep K s = s" using plain by (simp add: rep_def)
  have vis: "the (choice_of K v) \<noteq> s" if "v \<in> U" "sym_is_choice_value K v" for v
    using choice_wf [OF wf that] plain(2) by (metis option.sel)
  have "good K U ?c"
    using g s(1) vis plain(1) unfolding good_iff by auto
  then have "searched K U (deps K s) ?c (sym_check_sym_deps scd s ?c)"
  proof (rule sym_check_sym_deps_searched [OF wf scd s(1)])
    show "\<forall>g \<in> gray ?c. rep K g \<in> insert s (set (stack_syms ?c))" using cover rep by auto
    have "(rep K g, rep K t) \<in> (group_edge K)\<^sup>+" if "t \<in> deps K s" "g \<in> gray ?c" for g t
      using group_edge_own [OF that(1)] plain paths that(2) by (auto intro: trancl_into_trancl)
    then show "\<forall>t \<in> deps K s. t \<in> black ?c \<or> (\<forall>g \<in> gray ?c. (rep K g, rep K t) \<in> (group_edge K)\<^sup>+)" by blast
    show "2 * card (U - visited ?c) + 1 < n" using room_less [OF fin s(1,3) order_refl room] by simp
  qed
  then show ?thesis
  proof (rule searchedE)
    fix r1 c1
    assume m: "sym_check_sym_deps scd s ?c = Some (r1, c1)" "ahead K U ?c c1" "\<And>t. r1 = Some t \<Longrightarrow> t \<in> gray ?c"
      "reports ?c \<le> reports c1" "reports c1 = reports ?c \<Longrightarrow> r1 = None" "reports c1 = reports ?c \<Longrightarrow> deps K s \<subseteq> black c1"
      "reports c1 = reports ?c \<Longrightarrow> black ?c \<subseteq> acyclic_from K \<Longrightarrow> black c1 \<subseteq> acyclic_from K"
      "reports ?c < reports c1 \<Longrightarrow> \<exists>t \<in> deps K s. group_cycle K t"
    let ?c1 = "upd_ck (clear_flag s {SYMBOL_CHECK}) c1"
    have a: "good K U c1" "gray c1 = insert s (gray c)" "insert s (visited c) \<subseteq> visited c1" "stack_syms c1 = stack_syms c"
      using m(2) by (auto simp: ahead_def)
    have ok: "s \<in> acyclic_from K" if "deps K s \<subseteq> acyclic_from K"
      using that plain(1) by - (rule acyclic_fromI, auto elim: dep_edge.cases)
    show ?thesis
    proof (rule searchedI)
      show "do { (r, c1) \<leftarrow> sym_check_sym_deps scd s ?c;
          Some (if r = Some s then None else r, upd_ck (clear_flag s {SYMBOL_CHECK}) c1) } =
        Some (if r1 = Some s then None else r1, ?c1)" by (simp add: m(1))
      show "ahead K U c ?c1" using a s(2) unfolding ahead_def good_iff by auto
      show "t \<in> gray c" if "(if r1 = Some s then None else r1) = Some t" for t using m(3) that by (auto split: if_splits)
      show "reports c \<le> reports ?c1" using m(4) by simp
      show "(if r1 = Some s then None else r1) = None" if "reports ?c1 = reports c" using m(5) that by simp
      show "{s} \<subseteq> black ?c1" using a by auto
      show "black ?c1 \<subseteq> acyclic_from K" if "reports ?c1 = reports c" "black c \<subseteq> acyclic_from K"
      proof -
        have "black ?c \<subseteq> acyclic_from K" using that(2) by auto
        then have "black c1 \<subseteq> acyclic_from K" "deps K s \<subseteq> black c1" using m(6,7) that(1) by simp_all
        then show ?thesis using ok by auto
      qed
      show "\<exists>t \<in> {s}. group_cycle K t" if "reports c < reports ?c1"
        using m(8) that group_cycle_dep [OF wf s(1)] by auto
    qed
  qed
qed

lemma value_searched:
  assumes wf: "deps_wf K U" and scd: "callee K U n scd" and v: "v \<in> U" "v \<notin> gray c" "sym_is_choice_value K v"
    and g: "good K U c" and cover: "\<forall>g \<in> gray c. rep K g \<in> set (stack_syms c)"
    and paths: "\<forall>g \<in> gray c. (rep K g, rep K v) \<in> (group_edge K)\<^sup>+"
    and room: "2 * card (U - visited c) < n"
  shows "searched K U {v} c (do { (r, c1) \<leftarrow> scd (rep K v) (dep_stack_insert v c);
    Some (if r = Some v then None else r, dep_stack_remove c1) })"
proof (rule choice_wf [OF wf v(1,3)])
  fix s assume s: "choice_of K v = Some s" "rep K v = s" "s \<in> U" "sym_is_choice K s" "\<not> sym_is_choice_value K s"
    "rep K s = s" "v \<in> members K s"
  let ?c = "dep_stack_insert v c"
  have p: "sym_prop (syms K v) \<noteq> []" using wf v(1,3) by (force simp: deps_wf_def)
  have "good K U ?c" using g v(1) p unfolding good_iff by simp
  then have "searched K U {s} ?c (scd s ?c)"
    using callee_call [OF scd, of ?c s] cover paths room s by simp
  then show ?thesis
  proof (rule searchedE)
    fix r1 c1
    assume m: "scd s ?c = Some (r1, c1)" "ahead K U ?c c1" "\<And>t. r1 = Some t \<Longrightarrow> t \<in> gray ?c"
      "reports ?c \<le> reports c1" "reports c1 = reports ?c \<Longrightarrow> r1 = None" "reports c1 = reports ?c \<Longrightarrow> {s} \<subseteq> black c1"
      "reports c1 = reports ?c \<Longrightarrow> black ?c \<subseteq> acyclic_from K \<Longrightarrow> black c1 \<subseteq> acyclic_from K"
      "reports ?c < reports c1 \<Longrightarrow> \<exists>t \<in> {s}. group_cycle K t"
    have a: "good K U c1" "gray c1 = gray c" "visited c \<subseteq> visited c1" "stack_syms c1 = v # stack_syms c"
      using m(2) by (auto simp: ahead_def)
    have nv: "r1 \<noteq> Some v" using m(3) v(2) by auto
    show ?thesis
    proof (rule searchedI)
      show "do { (r, c1) \<leftarrow> scd (rep K v) ?c; Some (if r = Some v then None else r, dep_stack_remove c1) }
        = Some (r1, dep_stack_remove c1)" using m(1) nv by (simp add: s(2))
      show "ahead K U c (dep_stack_remove c1)" using a g unfolding ahead_def good_iff by simp
      show "{v} \<subseteq> black (dep_stack_remove c1)" if "reports (dep_stack_remove c1) = reports c"
        using m(6) that a v s unfolding good_iff by auto
      show "\<exists>t \<in> {v}. group_cycle K t" if "reports c < reports (dep_stack_remove c1)"
        using m(8) that s by (simp add: group_cycle_def)
    qed (use m in simp_all)
  qed
qed

lemma check_values_searched:
  assumes wf: "deps_wf K U" and scd: "callee K U n scd"
  shows "set vs \<subseteq> U \<Longrightarrow> ready K U n (\<Union>v \<in> set vs. deps K v) c \<Longrightarrow>
    searched K U (\<Union>v \<in> set vs. deps K v) c (check_values scd vs c)"
proof (induction vs arbitrary: c)
  case Nil
  then show ?case by (simp add: searched_nothing ready_def)
next
  case (Cons v vs)
  have fin: "finite U" using wf by (simp add: deps_wf_def)
  have "searched K U (deps K v) c (sym_check_sym_deps scd v c)"
    using Cons.prems unfolding ready_def by (intro sym_check_sym_deps_searched [OF wf scd]) auto
  moreover have "searched K U (\<Union>v \<in> set vs. deps K v) c1 (check_values scd vs c1)" if "ahead K U c c1" for c1
    using Cons.prems by (intro Cons.IH ready_subset [OF ready_ahead [OF fin Cons.prems(2) that]]) auto
  ultimately have "searched K U (deps K v \<union> (\<Union>v \<in> set vs. deps K v)) c
      (or_else (sym_check_sym_deps scd v) (check_values scd vs) c)"
    by (rule or_else_searched)
  then show ?case by simp
qed

lemma group_cycle_members:
  assumes "deps_wf K U" "s \<in> U" "sym_is_choice K s" "v \<in> members K s" "t \<in> deps K v" "group_cycle K t"
  shows "group_cycle K s"
proof -
  have "group_cycle K v" using group_cycle_dep [OF assms(1) members_wf(1) [OF assms(1-4)] assms(5,6)] .
  moreover have "rep K s = s" using assms(1-3) by (auto simp: deps_wf_def rep_def)
  ultimately show ?thesis using members_wf(4) [OF assms(1-4)] by (simp add: group_cycle_def)
qed

text \<open>The symbol that \<^verbatim>\<open>sym_check_choice_deps\<close> returns.\<close>

lemma choice_result:
  assumes wf: "deps_wf K U" and s: "s \<in> U" "sym_is_choice K s" and r: "\<And>t. r = Some t \<Longrightarrow> t \<in> insert s (members K s) \<union> G"
    and G: "G \<subseteq> U"
  shows "\<exists>r'. (case r of None \<Rightarrow> Some None
     | Some t \<Rightarrow> if sym_is_choice_value K t then
          do { p \<leftarrow> sym_get_choice_prop K t; Some (if prop_get_symbol K p = Some s then Some s else Some t) }
        else Some (Some t)) = Some r' \<and>
     (\<forall>t. r' = Some t \<longrightarrow> t \<noteq> s \<longrightarrow> t \<in> G) \<and> (r = None \<longrightarrow> r' = None)"
proof (cases r)
  case (Some t)
  have t: "t \<in> U" "t \<in> insert s (members K s) \<union> G"
    using r [OF Some] s G members_wf(1) [OF wf s] by auto
  show ?thesis
  proof (cases "sym_is_choice_value K t")
    case True
    then obtain p c where p: "sym_get_choice_prop K t = Some p" "prop_get_symbol K p = Some c" "choice_of K t = Some c"
      using choice_wf [OF wf t(1)] by (metis choice_of_def bind_eq_SomeE)
    then show ?thesis using True Some t(2) members_wf(3) [OF wf s, of t] by auto
  next
    case False
    then show ?thesis using Some t(2) members_wf(2) [OF wf s, of t] by auto
  qed
qed simp

text \<open>The search through the choice itself and then through its values, which stay marked.\<close>

lemma choice_body_searched:
  assumes wf: "deps_wf K U" and scd: "callee K U n scd" and s: "s \<in> U" "sym_is_choice K s" "s \<notin> G"
    and ss: "choice_list K s = Some ss"
    and g: "good K U c1" and gray: "gray c1 = insert s (set ss) \<union> G" and stack: "stack_syms c1 = s # stk"
    and vis: "insert s (set ss) \<subseteq> visited c1"
    and cover: "\<forall>g \<in> G. rep K g \<in> set stk" and paths: "\<forall>g \<in> G. (rep K g, s) \<in> (group_edge K)\<^sup>+"
    and room: "2 * card (U - visited c1) + 1 < n"
  shows "\<exists>r c3. or_else (\<lambda>c. do { (r, c') \<leftarrow> sym_check_sym_deps scd s c; Some (r, upd_ck (clear_flag s {SYMBOL_CHECK}) c') })
      (check_values scd ss) c1 = Some (r, c3) \<and>
    good K U c3 \<and> gray c3 = set ss \<union> G \<and> visited c1 \<subseteq> visited c3 \<and> stack_syms c3 = stack_syms c1 \<and>
    (\<forall>t. r = Some t \<longrightarrow> t \<in> gray c1) \<and> reports c1 \<le> reports c3 \<and>
    (reports c3 = reports c1 \<longrightarrow> r = None \<and> (black c1 \<subseteq> acyclic_from K \<longrightarrow>
       black c3 \<subseteq> acyclic_from K \<and> s \<in> acyclic_from K \<and> (\<forall>v \<in> set ss. deps K v \<subseteq> acyclic_from K))) \<and>
    (reports c1 < reports c3 \<longrightarrow> group_cycle K s)"
proof -
  have fin: "finite U" using wf by (simp add: deps_wf_def)
  have M: "members K s = set ss" using ss by (simp add: members_def)
  note mem = members_wf [OF wf s(1,2), unfolded M]
  have nv: "\<not> sym_is_choice_value K s" "rep K s = s" using wf s(1,2) by (auto simp: deps_wf_def rep_def)
  have to_s: "(rep K g, s) \<in> (group_edge K)\<^sup>*" if "g \<in> gray c1" for g
    using that paths nv mem(4) unfolding gray by (auto intro: trancl_into_rtrancl)
  have cover1: "\<forall>g \<in> gray c1. rep K g \<in> set (stack_syms c1)"
    using cover nv mem(4) unfolding gray stack by auto
  have edge: "(s, rep K t) \<in> group_edge K" if "t \<in> deps K v" "v = s \<or> v \<in> set ss \<and> t \<noteq> s" for t v
    using group_edge_own [OF that(1)] that(2) nv mem(3,4) by auto
  have "searched K U (deps K s) c1 (sym_check_sym_deps scd s c1)"
    using cover1 edge [of _ s] to_s
    by (intro sym_check_sym_deps_searched [OF wf scd s(1) g _ _ room]) (blast intro: rtrancl_into_trancl1)+
  then obtain r2 c2 where m: "sym_check_sym_deps scd s c1 = Some (r2, c2)" "ahead K U c1 c2" "\<And>t. r2 = Some t \<Longrightarrow> t \<in> gray c1"
      "reports c1 \<le> reports c2" "reports c2 = reports c1 \<Longrightarrow> r2 = None" "reports c2 = reports c1 \<Longrightarrow> deps K s \<subseteq> black c2"
      "reports c2 = reports c1 \<Longrightarrow> black c1 \<subseteq> acyclic_from K \<Longrightarrow> black c2 \<subseteq> acyclic_from K"
      "reports c1 < reports c2 \<Longrightarrow> \<exists>t \<in> deps K s. group_cycle K t"
    by (rule searchedE) (rule that)
  define c2' where "c2' = upd_ck (clear_flag s {SYMBOL_CHECK}) c2"
  have a: "good K U c2" "gray c2 = gray c1" "visited c1 \<subseteq> visited c2" "stack_syms c2 = stack_syms c1"
    using m(2) by (simp_all add: ahead_def)
  have c2': "gray c2' = set ss \<union> G" "visited c2' = visited c2" "stack_syms c2' = stack_syms c1" "reports c2' = reports c2"
    "black c2' = insert s (black c2)"
    using a(2-4) gray mem(5) s(3) vis by (auto simp: c2'_def)
  have g2: "good K U c2'" using a(1) unfolding good_def by (auto simp: c2'_def)
  have ok: "s \<in> acyclic_from K" if "reports c2 = reports c1" "black c1 \<subseteq> acyclic_from K"
  proof (rule acyclic_fromI)
    fix t assume "(s, t) \<in> dep_edge K"
    then show "t \<in> acyclic_from K" using m(6,7) [OF that(1)] that(2) nv(1) by (auto elim!: dep_edge.cases)
  qed
  have cyc: "group_cycle K s" if "reports c1 < reports c2" using m(8) [OF that] group_cycle_dep [OF wf s(1)] by auto
  show ?thesis
  proof (cases r2)
    case (Some t)
    then show ?thesis using m(1,3,4,5) g2 c2' a(3) cyc
      by (intro exI [of _ r2] exI [of _ c2']) (auto simp: or_else_def c2'_def [symmetric])
  next
    case None
    have "ready K U n (\<Union>v \<in> set ss. deps K v) c2'"
      unfolding ready_def
    proof (intro conjI ballI)
      show "rep K g \<in> set (stack_syms c2')" if "g \<in> gray c2'" for g using cover1 that c2' gray by auto
      show "(\<Union>v \<in> set ss. deps K v) \<subseteq> U" using wf mem(1) by (auto simp: deps_wf_def)
      fix t assume "t \<in> (\<Union>v \<in> set ss. deps K v)"
      then obtain v where v: "v \<in> set ss" "t \<in> deps K v" by auto
      show "t \<in> black c2' \<or> (\<forall>g \<in> gray c2'. (rep K g, rep K t) \<in> (group_edge K)\<^sup>+)"
      proof (cases "t = s")
        case False
        then have "(s, rep K t) \<in> group_edge K" using edge [OF v(2)] v(1) by simp
        moreover have "gray c2' \<subseteq> gray c1" unfolding c2'(1) gray by auto
        ultimately show ?thesis using to_s by (blast intro: rtrancl_into_trancl1)
      qed (use c2'(5) in simp)
    next
      have "card (U - visited c2') \<le> card (U - visited c1)" using fin a(3) c2'(2) by (intro card_mono) auto
      then show "2 * card (U - visited c2') + 1 < n" using room by simp
    qed (rule g2)
    then have "searched K U (\<Union>v \<in> set ss. deps K v) c2' (check_values scd ss c2')"
      using check_values_searched [OF wf scd] mem(1) by blast
    then obtain r3 c3 where k: "check_values scd ss c2' = Some (r3, c3)" "ahead K U c2' c3" "\<And>t. r3 = Some t \<Longrightarrow> t \<in> gray c2'"
      "reports c2' \<le> reports c3" "reports c3 = reports c2' \<Longrightarrow> r3 = None"
      "reports c3 = reports c2' \<Longrightarrow> (\<Union>v \<in> set ss. deps K v) \<subseteq> black c3"
      "reports c3 = reports c2' \<Longrightarrow> black c2' \<subseteq> acyclic_from K \<Longrightarrow> black c3 \<subseteq> acyclic_from K"
      "reports c2' < reports c3 \<Longrightarrow> \<exists>t \<in> \<Union>v \<in> set ss. deps K v. group_cycle K t"
      by (rule searchedE) (rule that)
    have "or_else (\<lambda>c. do { (r, c') \<leftarrow> sym_check_sym_deps scd s c; Some (r, upd_ck (clear_flag s {SYMBOL_CHECK}) c') })
      (check_values scd ss) c1 = Some (r3, c3)" using m(1) k(1) None by (simp add: or_else_def c2'_def)
    moreover have "good K U c3 \<and> gray c3 = set ss \<union> G \<and> visited c1 \<subseteq> visited c3 \<and> stack_syms c3 = stack_syms c1"
      using k(2) c2' a(3) by (auto simp: ahead_def)
    moreover have "\<forall>t. r3 = Some t \<longrightarrow> t \<in> gray c1" using k(3) c2'(1) gray by auto
    moreover have "reports c1 \<le> reports c3" using m(4) k(4) c2'(4) by simp
    moreover have "r3 = None \<and> (black c1 \<subseteq> acyclic_from K \<longrightarrow> black c3 \<subseteq> acyclic_from K \<and> s \<in> acyclic_from K \<and>
       (\<forall>v \<in> set ss. deps K v \<subseteq> acyclic_from K))" if "reports c3 = reports c1"
    proof -
      have e: "reports c2 = reports c1" "reports c3 = reports c2'" using that m(4) k(4) c2'(4) by auto
      show ?thesis using k(5-7) [OF e(2)] m(7) [OF e(1)] ok [OF e(1)] c2'(5) by auto
    qed
    moreover have "group_cycle K s" if "reports c1 < reports c3"
    proof (cases "reports c1 < reports c2")
      case False
      then have "reports c2' < reports c3" using that m(4) c2'(4) by simp
      then show ?thesis using k(8) group_cycle_members [OF wf s(1,2)] M by auto
    qed (rule cyc)
    ultimately show ?thesis by blast
  qed
qed

lemma choice_searched:
  assumes wf: "deps_wf K U" and scd: "callee K U n scd" and s: "s \<in> U" "s \<notin> gray c" "s \<notin> visited c" "sym_is_choice K s"
    and g: "good K U c" and cover: "\<forall>g \<in> gray c. rep K g \<in> set (stack_syms c)"
    and paths: "\<forall>g \<in> gray c. (rep K g, rep K s) \<in> (group_edge K)\<^sup>+"
    and room: "2 * card (U - visited c) < Suc n"
  shows "searched K U {s} c (do { (r, c1) \<leftarrow> sym_check_choice_deps scd s c; Some (if r = Some s then None else r, c1) })"
proof -
  have fin: "finite U" using wf by (simp add: deps_wf_def)
  obtain ss where ss: "choice_list K s = Some ss" using wf s(1,4) by (fastforce simp: deps_wf_def)
  then have M: "members K s = set ss" by (simp add: members_def)
  note mem = members_wf [OF wf s(1,4), unfolded M]
  have nv: "\<not> sym_is_choice_value K s" "rep K s = s" using wf s(1,4) by (auto simp: deps_wf_def rep_def)
  have p: "sym_prop (syms K s) \<noteq> []" using wf s(1,4) by (force simp: deps_wf_def)
  define c1 where "c1 = upd_ck (set_flag s marks \<circ> fold (\<lambda>v. set_flag v marks) ss) (dep_stack_insert s c)"
  have c1: "gray c1 = insert s (set ss) \<union> gray c" "visited c1 = insert s (set ss) \<union> visited c"
    "stack_syms c1 = s # stack_syms c" "reports c1 = reports c" "erase (ck c1) = K"
    using g by (simp_all add: c1_def good_def)
  have vis: "v \<in> visited c1 \<longleftrightarrow> the (choice_of K v) \<in> visited c1" if v: "v \<in> U" "sym_is_choice_value K v" for v
  proof (cases "choice_of K v = Some s")
    case True
    then have "v \<in> set ss" using choice_wf [OF wf v] M by (metis option.inject)
    then show ?thesis using True c1(2) by simp
  next
    case False
    obtain x where x: "choice_of K v = Some x" "\<not> sym_is_choice_value K x" using choice_wf [OF wf v] by metis
    then show ?thesis using False v mem g nv(1) unfolding good_iff c1(2) by auto
  qed
  have g1: "good K U c1" using g s(1) mem p vis c1 unfolding good_iff by auto
  have room1: "2 * card (U - visited c1) + 1 < n" using room_less [OF fin s(1,3) _ room, of "visited c1"] c1(2) by auto
  have vis1: "insert s (set ss) \<subseteq> visited c1" using c1(2) by auto
  obtain r c3 where b: "or_else (\<lambda>c. do { (r, c') \<leftarrow> sym_check_sym_deps scd s c; Some (r, upd_ck (clear_flag s {SYMBOL_CHECK}) c') })
      (check_values scd ss) c1 = Some (r, c3)"
    "good K U c3" "gray c3 = set ss \<union> gray c" "visited c1 \<subseteq> visited c3" "stack_syms c3 = stack_syms c1"
    "\<forall>t. r = Some t \<longrightarrow> t \<in> gray c1" "reports c1 \<le> reports c3"
    "reports c3 = reports c1 \<longrightarrow> r = None \<and> (black c1 \<subseteq> acyclic_from K \<longrightarrow>
       black c3 \<subseteq> acyclic_from K \<and> s \<in> acyclic_from K \<and> (\<forall>v \<in> set ss. deps K v \<subseteq> acyclic_from K))"
    "reports c1 < reports c3 \<longrightarrow> group_cycle K s"
    using choice_body_searched [OF wf scd s(1,4,2) ss g1 c1(1,3) vis1 cover paths [unfolded nv(2)] room1] by blast
  define c3' where "c3' = upd_ck (fold (\<lambda>v. clear_flag v {SYMBOL_CHECK}) ss) c3"
  define c4 where "c4 = dep_stack_remove c3'"
  have fresh: "set ss \<inter> gray c = {}"
    using g s(3) mem(1-3) unfolding good_iff by fastforce
  have c4: "gray c4 = gray c" "visited c4 = visited c3" "stack_syms c4 = stack_syms c" "reports c4 = reports c3"
    "black c4 = set ss \<union> black c3" "erase (ck c4) = K"
    using b(2-5) c1(2,3) fresh by (auto simp: c4_def c3'_def good_def)
  have g4: "good K U c4" using b(2,3) g c4(1-3,6) unfolding good_iff by auto
  obtain r' where r': "(case r of None \<Rightarrow> Some None
     | Some t \<Rightarrow> if sym_is_choice_value K t then
          do { p \<leftarrow> sym_get_choice_prop K t; Some (if prop_get_symbol K p = Some s then Some s else Some t) }
        else Some (Some t)) = Some r'" "\<forall>t. r' = Some t \<longrightarrow> t \<noteq> s \<longrightarrow> t \<in> gray c" "r = None \<longrightarrow> r' = None"
    using choice_result [OF wf s(1,4), of r "gray c"] b(6) c1(1) M g unfolding good_iff by auto
  have k: "ck c3' = ck c4" by (simp add: c4_def)
  have "sym_check_choice_deps scd s c = Some (r', c4)"
    using b(1) r'(1) ss good_reads(8) [OF g]
    by (cases r) (auto simp: sym_check_choice_deps_def Let_def c1_def [symmetric] c3'_def [symmetric] c4_def [symmetric] k good_reads [OF g4]
        good_reads(5) [OF b(2)] split: if_splits elim!: bind_eq_SomeE)
  note eq = this
  show ?thesis
  proof (rule searchedI)
    show "do { (r, c1) \<leftarrow> sym_check_choice_deps scd s c; Some (if r = Some s then None else r, c1) } =
      Some (if r' = Some s then None else r', c4)" by (simp add: eq)
    show "ahead K U c c4" using g4 c4(1-3) b(4) c1(2) by (auto simp: ahead_def)
    show "t \<in> gray c" if "(if r' = Some s then None else r') = Some t" for t using r'(2) that by (auto split: if_splits)
    show "reports c \<le> reports c4" using b(7) c1(4) c4(4) by simp
    show "(if r' = Some s then None else r') = None" if "reports c4 = reports c" using b(8) r'(3) that c1(4) c4(4) by auto
    show "{s} \<subseteq> black c4" using b(4) c1(2) c4(1,2) s(2) by auto
    show "black c4 \<subseteq> acyclic_from K" if "reports c4 = reports c" "black c \<subseteq> acyclic_from K"
    proof -
      have "black c1 \<subseteq> acyclic_from K" using that(2) c1(1,2) by auto
      then have ok: "black c3 \<subseteq> acyclic_from K" "s \<in> acyclic_from K" "\<forall>v \<in> set ss. deps K v \<subseteq> acyclic_from K"
        using b(8) that(1) c1(4) c4(4) by auto
      have "v \<in> acyclic_from K" if v: "v \<in> set ss" for v
      proof (rule acyclic_fromI)
        fix t assume "(v, t) \<in> dep_edge K"
        then show "t \<in> acyclic_from K" using ok(2,3) v mem(3) [OF v] M by (auto elim!: dep_edge.cases)
      qed
      then show ?thesis using ok(1) c4(5) by auto
    qed
    show "\<exists>t \<in> {s}. group_cycle K t" if "reports c < reports c4" using b(9) that c1(4) c4(4) by simp
  qed
qed

section \<open>The whole search\<close>

lemma bind_after:
  "Option.bind (case y of (r, c) \<Rightarrow> Some (r, f c)) (\<lambda>(r, c). Some (h r, c)) = (case y of (r, c) \<Rightarrow> Some (h r, f c))"
  by (cases y) simp

lemma check_step_searched:
  assumes wf: "deps_wf K U" and scd: "callee K U n scd"
  shows "callee K U (Suc n) (check_step scd)"
  unfolding callee_def
proof (intro allI impI)
  fix s c
  assume g: "good K U c" and cover: "\<forall>g \<in> gray c. rep K g \<in> set (stack_syms c)" and s: "s \<in> U"
    and paths: "s \<in> black c \<or> (\<forall>g \<in> gray c. (rep K g, rep K s) \<in> (group_edge K)\<^sup>+)"
    and room: "2 * card (U - visited c) + (if sym_is_choice_value K s then 1 else 0) < Suc n"
  note r = good_reads [OF g]
  consider (gray) "s \<in> gray c" | (black) "s \<in> black c" | (white) "s \<notin> gray c" "s \<notin> visited c" by blast
  then show "searched K U {s} c (check_step scd s c)"
  proof cases
    case gray
    obtain ls where ls: "sym_check_print_recursive s c = Some (c\<lparr>printed := printed c @ ls\<rparr>)" "RecursiveDependency \<in> set ls"
      using print_recursive_reports [OF wf g s] cover gray by blast
    have rep: "reports c < reports (c\<lparr>printed := printed c @ ls\<rparr>)"
      using ls(2) by (simp add: reports_def count_list_0_iff flip: neq0_conv)
    have "(rep K s, rep K s) \<in> (group_edge K)\<^sup>+" using paths gray by auto
    then have cyc: "group_cycle K s" by (auto simp: group_cycle_def)
    show ?thesis
      using gray ls(1) rep cyc g
      by (intro searchedI [of _ "Some s" "c\<lparr>printed := printed c @ ls\<rparr>"])
        (auto simp: check_step_def gray_def visited_def ahead_def good_def)
  next
    case black
    then show ?thesis using g
      by (intro searchedI [of _ None c]) (auto simp: check_step_def gray_def visited_def ahead_def)
  next
    case white
    then have st: "check_step scd s c =
       do { (r, c') \<leftarrow>
              (if sym_is_choice_value K s then
                 do { p \<leftarrow> sym_get_choice_prop K s; cs \<leftarrow> prop_get_symbol K p;
                      (r, c1) \<leftarrow> scd cs (dep_stack_insert s c); Some (r, dep_stack_remove c1) }
               else if sym_is_choice K s then sym_check_choice_deps scd s c
               else do { (r, c1) \<leftarrow> sym_check_sym_deps scd s (upd_ck (set_flag s marks) c);
                         Some (r, upd_ck (clear_flag s {SYMBOL_CHECK}) c1) });
            Some (if r = Some s then None else r, c') }"
      by (simp add: check_step_def gray_def visited_def r)
    have paths': "\<forall>g \<in> gray c. (rep K g, rep K s) \<in> (group_edge K)\<^sup>+" using paths white by auto
    show ?thesis
    proof (cases "sym_is_choice_value K s")
      case True
      obtain p where "sym_get_choice_prop K s = Some p" "prop_get_symbol K p = Some (rep K s)"
        using choice_wf [OF wf s True] by (metis choice_of_def bind_eq_SomeE)
      then show ?thesis using value_searched [OF wf scd s white(1) True g cover paths'] room True
        by (simp add: st bind_after)
    next
      case False
      then show ?thesis
        using choice_searched [OF wf scd s white _ g cover paths'] plain_searched [OF wf scd s white False _ g cover paths'] room
        by (cases "sym_is_choice K s") (simp_all add: st bind_after)
    qed
  qed
qed

lemma sym_check_deps_searched: "deps_wf K U \<Longrightarrow> callee K U n (sym_check_deps n)"
proof (induction n)
  case (Suc n)
  have "sym_check_deps (Suc n) = check_step (sym_check_deps n)" by (simp add: fun_eq_iff)
  then show ?case using check_step_searched [OF Suc.prems Suc.IH] Suc.prems by simp
qed (simp add: callee_def)

lemma check_all_searched:
  assumes wf: "deps_wf K U" and fuel: "2 * card U + 1 < n"
  shows "good K U c \<Longrightarrow> gray c = {} \<Longrightarrow> set ss \<subseteq> U \<Longrightarrow>
    \<exists>c'. check_all_deps n ss errs c = Some (errs, c') \<and> good K U c' \<and> gray c' = {} \<and> reports c \<le> reports c' \<and>
      (reports c' = reports c \<longrightarrow> black c \<subseteq> acyclic_from K \<longrightarrow> set ss \<subseteq> acyclic_from K) \<and>
      (reports c < reports c' \<longrightarrow> (\<exists>s \<in> set ss. group_cycle K s))"
proof (induction ss arbitrary: c)
  case (Cons s ss)
  have fin: "finite U" using wf by (simp add: deps_wf_def)
  have "card (U - visited c) \<le> card U" using fin by (intro card_mono) auto
  then have "searched K U {s} c (sym_check_deps n s c)"
    using callee_call [OF sym_check_deps_searched [OF wf] Cons.prems(1)] Cons.prems(2,3) fuel by simp
  then obtain r c1 where m: "sym_check_deps n s c = Some (r, c1)" "ahead K U c c1" "\<And>t. r = Some t \<Longrightarrow> t \<in> gray c"
      "reports c \<le> reports c1" "reports c1 = reports c \<Longrightarrow> r = None" "reports c1 = reports c \<Longrightarrow> {s} \<subseteq> black c1"
      "reports c1 = reports c \<Longrightarrow> black c \<subseteq> acyclic_from K \<Longrightarrow> black c1 \<subseteq> acyclic_from K"
      "reports c < reports c1 \<Longrightarrow> \<exists>t \<in> {s}. group_cycle K t"
    by (rule searchedE) (rule that)
  have r: "r = None" using m(3) Cons.prems(2) by (cases r) auto
  have a: "good K U c1" "gray c1 = {}" using m(2) Cons.prems(2) by (auto simp: ahead_def)
  obtain c' where c': "check_all_deps n ss errs c1 = Some (errs, c')" "good K U c'" "gray c' = {}" "reports c1 \<le> reports c'"
    "reports c' = reports c1 \<longrightarrow> black c1 \<subseteq> acyclic_from K \<longrightarrow> set ss \<subseteq> acyclic_from K"
    "reports c1 < reports c' \<longrightarrow> (\<exists>s \<in> set ss. group_cycle K s)"
    using Cons.IH [OF a] Cons.prems(3) by auto
  have "set (s # ss) \<subseteq> acyclic_from K" if "reports c' = reports c" "black c \<subseteq> acyclic_from K"
  proof -
    have e: "reports c1 = reports c" "reports c' = reports c1" using that(1) m(4) c'(4) by simp_all
    then show ?thesis using m(6,7) c'(5) that(2) by auto
  qed
  moreover have "\<exists>s \<in> set (s # ss). group_cycle K s" if "reports c < reports c'"
    using that m(8) c'(6) by (cases "reports c < reports c1") auto
  moreover have "check_all_deps n (s # ss) errs c = Some (errs, c')" using m(1) c'(1) r by simp
  ultimately show ?case using c'(2,3,4) m(4) by auto
qed simp

definition unmarked :: "kstate \<Rightarrow> bool" where
  "unmarked st \<longleftrightarrow> (\<forall>s. flags (syms st s) \<inter> marks = {})"

lemma unmarked_good:
  assumes "unmarked st"
  shows "good st U \<lparr>ck = st, check_top = [], printed = []\<rparr>" "gray \<lparr>ck = st, check_top = [], printed = []\<rparr> = {}"
    "visited \<lparr>ck = st, check_top = [], printed = []\<rparr> = {}" "reports \<lparr>ck = st, check_top = [], printed = []\<rparr> = 0"
proof -
  have "erase st = st" using assms
    by (auto simp: erase_def unmarked_def fun_eq_iff intro!: kstate.equality symbol.equality)
  then show "good st U \<lparr>ck = st, check_top = [], printed = []\<rparr>" "gray \<lparr>ck = st, check_top = [], printed = []\<rparr> = {}"
    "visited \<lparr>ck = st, check_top = [], printed = []\<rparr> = {}" "reports \<lparr>ck = st, check_top = [], printed = []\<rparr> = 0"
    using assms by (auto simp: good_def gray_def visited_def unmarked_def reports_def)
qed

section \<open>Results\<close>


text \<open>
  Property C20: the search raises no false alarm: when it reports a recursive dependency, there is a cycle of
  symbols and choices in the configuration.
\<close>

theorem conf_check_deps_sound:
  assumes "deps_wf st U" "unmarked st" "set (for_all_symbols st) \<subseteq> U" "2 * card U + 1 < n"
    and "conf_check_deps n st = Some (errs, c)" "RecursiveDependency \<in> set (printed c)"
  shows "\<exists>t. (t, t) \<in> (group_edge st)\<^sup>+"
proof -
  note u = unmarked_good [OF assms(2)]
  have "reports c > 0 \<longrightarrow> (\<exists>s. group_cycle st s)"
    using check_all_searched [OF assms(1,4) u(1,2) assms(3), of 0] u(3,4) assms(5) by (auto simp: conf_check_deps_def)
  then show ?thesis using assms(6) by (auto simp: reports_def group_cycle_def count_list_0_iff simp flip: neq0_conv)
qed

text \<open>
  Property C21: a recursive dependency is reported but never counted as an error: \<^verbatim>\<open>sym_check_deps\<close> called
  by \<^verbatim>\<open>conf_parse\<close> returns null for every symbol, so that \<^verbatim>\<open>zconfnerrs\<close> stays 0 and the program goes on.
\<close>

theorem conf_check_deps_never_fails:
  assumes "deps_wf st U" "unmarked st" "set (for_all_symbols st) \<subseteq> U" "2 * card U + 1 < n"
  shows "\<exists>c. conf_check_deps n st = Some (0, c)"
  using check_all_searched [OF assms(1,4) unmarked_good(1,2) [OF assms(2)] assms(3), of 0]
  by (auto simp: conf_check_deps_def)

section \<open>Examples\<close>

text \<open>
  The example configuration with a prompt condition for \<^verbatim>\<open>BAR\<close> (\<^verbatim>\<open>FOO\<close> depends on \<^verbatim>\<open>BAR\<close>), and with
  its symbols in a bucket of the table.
\<close>

definition ex_deps :: "expr option \<Rightarrow> symid list \<Rightarrow> kstate" where
  "ex_deps e ss = ex_config\<lparr>
     props := (props ex_config)(0 := (props ex_config 0)\<lparr>p_visible := \<lparr>ev_expr = e, ev_tri = No\<rparr>\<rparr>),
     symbol_hash := (\<lambda>_. [])(0 := ss)\<rparr>"

lemma hash_syms_single: "symbol_hash st = (\<lambda>_. [])(i := ss) \<Longrightarrow> i < SYMBOL_HASHSIZE \<Longrightarrow> hash_syms st = ss"
proof -
  assume a: "symbol_hash st = (\<lambda>_. [])(i := ss)" "i < SYMBOL_HASHSIZE"
  then have "[0..<SYMBOL_HASHSIZE] = [0..<i] @ i # [Suc i..<SYMBOL_HASHSIZE]"
    using upt_add_eq_append [of 0 i "SYMBOL_HASHSIZE - i"] upt_conv_Cons [OF a(2)] by simp
  then have "hash_syms st = concat (map (symbol_hash st) [0..<i]) @ symbol_hash st i @ concat (map (symbol_hash st) [Suc i..<SYMBOL_HASHSIZE])"
    by (simp add: hash_syms_def)
  moreover have "concat (map (\<lambda>_. []) ks) = ([] :: symid list)" for ks :: "nat list" by (induction ks) auto
  ultimately show ?thesis using a(1) by simp
qed

lemma ex_deps_symbols: "for_all_symbols (ex_deps e [9, 10]) = [9, 10]"
proof -
  have "hash_syms (ex_deps e [9, 10]) = [9, 10]"
    by (rule hash_syms_single [of _ 0]) (simp_all add: ex_deps_def SYMBOL_HASHSIZE_def)
  then show ?thesis by (simp add: for_all_symbols_def) (simp add: ex_deps_def ex_config_defs)
qed

lemma ex_deps_unmarked: "unmarked (ex_deps e ss)"
  by (auto simp: unmarked_def ex_deps_def ex_config_defs)

lemma ex_deps_wf: "opt_syms e \<subseteq> {9, 10} \<Longrightarrow> deps_wf (ex_deps e ss) {9, 10}"
  by (simp add: deps_wf_def ex_deps_def ex_config_defs deps_def prop_deps_def opt_syms_def)


lemma ex_deps_cycle:
  "map_option (\<lambda>(errs, c). printed c) (conf_check_deps 6 (ex_deps (Some (XSymbol 10)) [9, 10])) =
    Some [RecursiveDependency, DependsOn 9 10, DependsOn 10 9]"
  unfolding conf_check_deps_def ex_deps_symbols by code_simp

theorem conf_check_deps_sound_witness: "\<exists>t. (t, t) \<in> (group_edge (ex_deps (Some (XSymbol 10)) [9, 10]))\<^sup>+"
proof -
  obtain errs c where c: "conf_check_deps 6 (ex_deps (Some (XSymbol 10)) [9, 10]) = Some (errs, c)"
    "printed c = [RecursiveDependency, DependsOn 9 10, DependsOn 10 9]"
    using ex_deps_cycle by auto
  show ?thesis
    by (rule conf_check_deps_sound [OF ex_deps_wf ex_deps_unmarked _ _ c(1)])
      (simp_all add: ex_deps_symbols opt_syms_def c(2))
qed

theorem conf_check_deps_never_fails_witness:
  "\<exists>c. conf_check_deps 6 (ex_deps (Some (XSymbol 10)) [9, 10]) = Some (0, c) \<and> RecursiveDependency \<in> set (printed c)"
proof -
  obtain c where c: "conf_check_deps 6 (ex_deps (Some (XSymbol 10)) [9, 10]) = Some (0, c)"
    using conf_check_deps_never_fails [OF ex_deps_wf ex_deps_unmarked, of "Some (XSymbol 10)" "[9, 10]" 6]
    by (auto simp: ex_deps_symbols opt_syms_def)
  then show ?thesis using ex_deps_cycle by auto
qed


text \<open>
  A configuration with a choice \<^verbatim>\<open>MODE\<close>, whose value \<^verbatim>\<open>FAST\<close> depends on \<^verbatim>\<open>EXPERT\<close>, which depends on
  \<^verbatim>\<open>MODE\<close>.
\<close>

definition ex_choice :: kstate where
  "ex_choice = ex_config\<lparr>
     syms := (syms ex_config)
       (14 := (user_sym ''MODE'' S_BOOLEAN \<lparr>sv_val = VNull, sv_tri = No\<rparr> [4, 5] None)\<lparr>flags := {SYMBOL_CHOICE}\<rparr>,
        15 := (user_sym ''FAST'' S_BOOLEAN \<lparr>sv_val = VNull, sv_tri = No\<rparr> [6, 7] None)\<lparr>flags := {SYMBOL_CHOICEVAL}\<rparr>,
        16 := user_sym ''EXPERT'' S_BOOLEAN \<lparr>sv_val = VNull, sv_tri = No\<rparr> [8] None),
     props := (props ex_config)
       (4 := free_property\<lparr>p_sym := Some 14, p_type := P_PROMPT, p_text := Some ''mode'', p_menu := Some 1\<rparr>,
        5 := free_property\<lparr>p_sym := Some 14, p_type := P_CHOICE, p_expr := Some (XList [15])\<rparr>,
        6 := free_property\<lparr>p_sym := Some 15, p_type := P_PROMPT, p_text := Some ''fast'', p_menu := Some 2,
               p_visible := \<lparr>ev_expr = Some (XSymbol 16), ev_tri = No\<rparr>\<rparr>,
        7 := free_property\<lparr>p_sym := Some 15, p_type := P_CHOICE, p_expr := Some (XSymbol 14)\<rparr>,
        8 := free_property\<lparr>p_sym := Some 16, p_type := P_PROMPT, p_text := Some ''expert'', p_menu := Some 3,
               p_visible := \<lparr>ev_expr = Some (XSymbol 14), ev_tri = No\<rparr>\<rparr>)\<rparr>"

text \<open>
  Whether this is reported as a recursive dependency depends on the order of the symbols in the
  table: \<^verbatim>\<open>sym_check_choice_deps\<close> removes the mark of the choice before it follows its values.
\<close>

lemma choice_order_dependent:
  "map_option (\<lambda>(errs, c). printed c) (check_all_deps 9 [14, 15, 16] 0 \<lparr>ck = ex_choice, check_top = [], printed = []\<rparr>) = Some []"
  "map_option (\<lambda>(errs, c). printed c) (check_all_deps 9 [16, 14, 15] 0 \<lparr>ck = ex_choice, check_top = [], printed = []\<rparr>)
    = Some [RecursiveDependency, DependsOn 16 14, ChoiceContains 14 15, DependsOn 15 16]"
  by code_simp+

text \<open>
  A symbol that is selected but not defined has no property whose position could be printed: when a
  cycle starts at it, \<^verbatim>\<open>sym_check_print_recursive\<close> dereferences a null pointer.
\<close>

lemma undefined_symbol_null:
  assumes "check_top c = [f, \<lparr>ds_sym = s, ds_prop = None, ds_expr = None\<rparr>]" "ds_sym f \<noteq> s"
    and "sym_prop (syms (ck c) s) = []" "\<not> sym_is_choice (ck c) s" "\<not> sym_is_choice_value (ck c) s"
  shows "sym_check_print_recursive s c = None"
  using assms by (simp add: sym_check_print_recursive_def)

end
