(* ===== verification/Kconf_Parse.thy ===== *)
theory Kconf_Parse
  imports Kconf_Menu
begin

text \<open>
  What the parser does with the statements of the Kconfig files: the actions of the grammar in
  \<^verbatim>\<open>support/kconfig/zconf.y\<close>. The data types below are the phrases of the grammar, in the order in
  which the parser reduces them, after the lexer has replaced each \<^verbatim>\<open>source\<close> statement by the
  statements of its file. Syntax errors, after which \<^verbatim>\<open>conf_parse\<close> exits, have no phrases. \<open>None\<close> stands
  for a null pointer that the code would dereference.
\<close>

section \<open>Symbols and conditions\<close>

datatype word_token = T_WORD string | T_WORD_QUOTE string

fun parse_symbol :: "word_token \<Rightarrow> kstate \<Rightarrow> symid \<times> kstate" where
  "parse_symbol (T_WORD w) st = sym_lookup (Some w) {} st"
| "parse_symbol (T_WORD_QUOTE w) st = sym_lookup (Some w) {SYMBOL_CONST} st"

datatype expr_phrase =
    PSymbol word_token
  | PEqual word_token word_token
  | PUnequal word_token word_token
  | PNot expr_phrase
  | POr expr_phrase expr_phrase
  | PAnd expr_phrase expr_phrase

fun parse_expr :: "expr_phrase \<Rightarrow> kstate \<Rightarrow> expr \<times> kstate" where
  "parse_expr (PSymbol w) st = (let (s, st1) = parse_symbol w st in (expr_alloc_symbol s, st1))"
| "parse_expr (PEqual v w) st =
     (let (s, st1) = parse_symbol v st; (t, st2) = parse_symbol w st1 in (expr_alloc_comp E_EQUAL s t, st2))"
| "parse_expr (PUnequal v w) st =
     (let (s, st1) = parse_symbol v st; (t, st2) = parse_symbol w st1 in (expr_alloc_comp E_UNEQUAL s t, st2))"
| "parse_expr (PNot a) st = (let (e, st1) = parse_expr a st in (expr_alloc_one E_NOT e, st1))"
| "parse_expr (POr a b) st =
     (let (e, st1) = parse_expr a st; (f, st2) = parse_expr b st1 in (expr_alloc_two E_OR e f, st2))"
| "parse_expr (PAnd a b) st =
     (let (e, st1) = parse_expr a st; (f, st2) = parse_expr b st1 in (expr_alloc_two E_AND e f, st2))"

definition parse_if :: "expr_phrase option \<Rightarrow> kstate \<Rightarrow> expr option \<times> kstate" where
  "parse_if c st = (case c of None \<Rightarrow> (None, st) | Some a \<Rightarrow> let (e, st1) = parse_expr a st in (Some e, st1))"

section \<open>Options of an entry\<close>

type_synonym prompt_phrase = "string \<times> expr_phrase option"

datatype config_option =
    OType symbol_type "prompt_phrase option"
  | OPrompt prompt_phrase
  | ODefault symbol_type expr_phrase "expr_phrase option"
  | OSelect string "expr_phrase option"
  | ORange word_token word_token "expr_phrase option"
  | OOption "(string \<times> string option) list"
  | ODepends expr_phrase
  | OHelp string

definition parse_prompt :: "prompt_phrase \<Rightarrow> kstate \<Rightarrow> kstate option" where
  "parse_prompt pr st =
    (let (c, st1) = parse_if (snd pr) st in map_option snd (menu_add_prompt P_PROMPT (fst pr) c st1))"

definition parse_prompt_opt :: "prompt_phrase option \<Rightarrow> kstate \<Rightarrow> kstate option" where
  "parse_prompt_opt pr st = (case pr of None \<Rightarrow> Some st | Some p \<Rightarrow> parse_prompt p st)"

definition parse_depends :: "expr_phrase \<Rightarrow> kstate \<Rightarrow> kstate option" where
  "parse_depends a st = (let (e, st1) = parse_expr a st in menu_add_dep (Some e) st1)"

definition parse_help :: "string \<Rightarrow> kstate \<Rightarrow> kstate" where
  "parse_help t st = upd_menu (current_entry st) (\<lambda>r. r\<lparr>m_help := Some t\<rparr>) st"

text \<open>\<^verbatim>\<open>kconf_id_lookup\<close> for the words with \<^verbatim>\<open>TF_OPTION\<close>.\<close>

definition option_id :: "string \<Rightarrow> option_token option" where
  "option_id w =
    (if w = ''modules'' then Some T_OPT_MODULES
     else if w = ''defconfig_list'' then Some T_OPT_DEFCONFIG_LIST
     else if w = ''env'' then Some T_OPT_ENV else None)"

text \<open>
  The actions of symbol options can report an error; they carry the number \<^verbatim>\<open>zconfnerrs\<close>. An \<^verbatim>\<open>env\<close>
  option without an argument reads a null string.
\<close>

type_synonym parser_state = "nat \<times> kstate"

fun parse_symbol_option ::
    "(string \<Rightarrow> string option) \<Rightarrow> string \<times> string option \<Rightarrow> parser_state \<Rightarrow> parser_state option" where
  "parse_symbol_option env (w, arg) (errs, st) =
    (case option_id w of
       None \<Rightarrow> Some (errs, st)
     | Some token \<Rightarrow>
         if token = T_OPT_ENV \<and> arg = None then None
         else do { (err, st1) \<leftarrow> menu_add_option env token (case arg of None \<Rightarrow> [] | Some a \<Rightarrow> a) st;
                   Some (if err then Suc errs else errs, st1) })"

primrec parse_all :: "('a \<Rightarrow> 'b \<Rightarrow> 'b option) \<Rightarrow> 'a list \<Rightarrow> 'b \<Rightarrow> 'b option" where
  "parse_all f [] st = Some st"
| "parse_all f (x # xs) st = do { st1 \<leftarrow> f x st; parse_all f xs st1 }"

fun parse_config_option ::
    "(string \<Rightarrow> string option) \<Rightarrow> config_option \<Rightarrow> parser_state \<Rightarrow> parser_state option" where
  "parse_config_option env (OType ty pr) (errs, st) =
     do { st1 \<leftarrow> parse_prompt_opt pr st; (_, st2) \<leftarrow> menu_set_type ty st1; Some (errs, st2) }"
| "parse_config_option env (OPrompt pr) (errs, st) = map_option (Pair errs) (parse_prompt pr st)"
| "parse_config_option env (ODefault ty a c) (errs, st) =
     (let (e, st1) = parse_expr a st; (d, st2) = parse_if c st1 in
      do { st3 \<leftarrow> menu_add_expr P_DEFAULT (Some e) d st2;
           (_, st4) \<leftarrow> (if ty \<noteq> S_UNKNOWN then menu_set_type ty st3 else Some (True, st3));
           Some (errs, st4) })"
| "parse_config_option env (OSelect w c) (errs, st) =
     (let (d, st1) = parse_if c st; (s, st2) = sym_lookup (Some w) {} st1 in
      map_option (Pair errs) (menu_add_symbol P_SELECT s d st2))"
| "parse_config_option env (ORange v w c) (errs, st) =
     (let (s, st1) = parse_symbol v st; (t, st2) = parse_symbol w st1; (d, st3) = parse_if c st2 in
      map_option (Pair errs) (menu_add_expr P_RANGE (Some (expr_alloc_comp E_RANGE s t)) d st3))"
| "parse_config_option env (OOption os) pst = parse_all (parse_symbol_option env) os pst"
| "parse_config_option env (ODepends a) (errs, st) = map_option (Pair errs) (parse_depends a st)"
| "parse_config_option env (OHelp t) (errs, st) = Some (errs, parse_help t st)"

text \<open>A choice is a boolean or a tristate; its default is a plain \<^verbatim>\<open>default\<close>.\<close>

datatype choice_option =
    CBool "prompt_phrase option"
  | CTristate "prompt_phrase option"
  | CPrompt prompt_phrase
  | COptional
  | CDefault string "expr_phrase option"
  | CDepends expr_phrase
  | CHelp string

fun parse_choice_option :: "choice_option \<Rightarrow> kstate \<Rightarrow> kstate option" where
  "parse_choice_option (CBool pr) st =
     do { st1 \<leftarrow> parse_prompt_opt pr st; map_option snd (menu_set_type S_BOOLEAN st1) }"
| "parse_choice_option (CTristate pr) st =
     do { st1 \<leftarrow> parse_prompt_opt pr st; map_option snd (menu_set_type S_TRISTATE st1) }"
| "parse_choice_option (CPrompt pr) st = parse_prompt pr st"
| "parse_choice_option COptional st =
     do { s \<leftarrow> m_sym (menus st (current_entry st)); Some (set_flag s {SYMBOL_OPTIONAL} st) }"
| "parse_choice_option (CDefault w c) st =
     (let (d, st1) = parse_if c st; (s, st2) = sym_lookup (Some w) {} st1 in menu_add_symbol P_DEFAULT s d st2)"
| "parse_choice_option (CDepends a) st = parse_depends a st"
| "parse_choice_option (CHelp t) st = Some (parse_help t st)"

section \<open>Statements\<close>

text \<open>
  The lists of \<^verbatim>\<open>depends on\<close> and \<^verbatim>\<open>visible if\<close> clauses of a menu come in this order; the grammar
  lets a choice hold only some of the statements.
\<close>

datatype stmt =
    SConfig string "config_option list"
  | SMenuconfig string "config_option list"
  | SChoice "string option" "choice_option list" "stmt list"
  | SIf expr_phrase "stmt list"
  | SMenu string "expr_phrase option list" "expr_phrase list" "stmt list"
  | SComment string "expr_phrase list"

definition parse_visible :: "expr_phrase option \<Rightarrow> kstate \<Rightarrow> kstate option" where
  "parse_visible c st = (let (e, st1) = parse_if c st in Some (menu_add_visibility e st1))"

definition config_entry_start :: "string \<Rightarrow> kstate \<Rightarrow> kstate option" where
  "config_entry_start w st =
    (let (s, st1) = sym_lookup (Some w) {} st in menu_add_entry (Some s) (set_flag s {SYMBOL_OPTIONAL} st1))"

definition menuconfig_end :: "kstate \<Rightarrow> kstate" where
  "menuconfig_end st =
    (case m_prompt (menus st (current_entry st)) of
       None \<Rightarrow> st
     | Some p \<Rightarrow> upd_prop p (\<lambda>pr. pr\<lparr>p_type := P_MENU\<rparr>) st)"

definition choice_start :: "string option \<Rightarrow> kstate \<Rightarrow> kstate option" where
  "choice_start w st =
    (let (s, st1) = sym_lookup w {SYMBOL_CHOICE} st in
     do { st2 \<leftarrow> menu_add_entry (Some s) (set_flag s {SYMBOL_AUTO} st1);
          menu_add_expr P_CHOICE None None st2 })"

definition if_start :: "expr_phrase \<Rightarrow> kstate \<Rightarrow> kstate option" where
  "if_start a st =
    (let (e, st1) = parse_expr a st in
     do { st2 \<leftarrow> menu_add_entry None st1; menu_add_dep (Some e) st2 })"

definition prompt_entry :: "prop_type \<Rightarrow> string \<Rightarrow> kstate \<Rightarrow> kstate option" where
  "prompt_entry ty t st =
    do { st1 \<leftarrow> menu_add_entry None st; map_option snd (menu_add_prompt ty t None st1) }"

definition with_errs :: "(kstate \<Rightarrow> kstate option) \<Rightarrow> parser_state \<Rightarrow> parser_state option" where
  "with_errs f = (\<lambda>(errs, st). map_option (Pair errs) (f st))"

fun parse_stmt :: "(string \<Rightarrow> string option) \<Rightarrow> stmt \<Rightarrow> parser_state \<Rightarrow> parser_state option"
and parse_stmts :: "(string \<Rightarrow> string option) \<Rightarrow> stmt list \<Rightarrow> parser_state \<Rightarrow> parser_state option" where
  "parse_stmt env (SConfig w os) ps =
     do { ps1 \<leftarrow> with_errs (config_entry_start w) ps; parse_all (parse_config_option env) os ps1 }"
| "parse_stmt env (SMenuconfig w os) ps =
     do { ps1 \<leftarrow> with_errs (config_entry_start w) ps;
          ps2 \<leftarrow> parse_all (parse_config_option env) os ps1;
          with_errs (Some \<circ> menuconfig_end) ps2 }"
| "parse_stmt env (SChoice w os b) ps =
     do { ps1 \<leftarrow> with_errs (choice_start w) ps;
          ps2 \<leftarrow> with_errs (parse_all parse_choice_option os) ps1;
          ps3 \<leftarrow> parse_stmts env b (map_prod id menu_add_menu ps2);
          with_errs menu_end_menu ps3 }"
| "parse_stmt env (SIf a b) ps =
     do { ps1 \<leftarrow> with_errs (if_start a) ps;
          ps2 \<leftarrow> parse_stmts env b (map_prod id menu_add_menu ps1);
          with_errs menu_end_menu ps2 }"
| "parse_stmt env (SMenu t vs ds b) ps =
     do { ps1 \<leftarrow> with_errs (prompt_entry P_MENU t) ps;
          ps2 \<leftarrow> with_errs (parse_all parse_visible vs) ps1;
          ps3 \<leftarrow> with_errs (parse_all parse_depends ds) ps2;
          ps4 \<leftarrow> parse_stmts env b (map_prod id menu_add_menu ps3);
          with_errs menu_end_menu ps4 }"
| "parse_stmt env (SComment t ds) ps =
     do { ps1 \<leftarrow> with_errs (prompt_entry P_COMMENT t) ps; with_errs (parse_all parse_depends ds) ps1 }"
| "parse_stmts env [] ps = Some ps"
| "parse_stmts env (x # xs) ps = do { ps1 \<leftarrow> parse_stmt env x ps; parse_stmts env xs ps1 }"

text \<open>\<^verbatim>\<open>conf_parse\<close> up to the end of \<^verbatim>\<open>zconfparse\<close>; a \<^verbatim>\<open>mainmenu\<close> statement comes first.\<close>

definition parse_file ::
    "string \<Rightarrow> (string \<Rightarrow> string option) \<Rightarrow> string option \<Rightarrow> stmt list \<Rightarrow> kstate \<Rightarrow> parser_state option" where
  "parse_file release env mainmenu ss st =
    do { (p, st1) \<leftarrow> menu_add_prompt P_MENU ''Buildroot Configuration'' None (menu_init (sym_init release st));
         let st2 = upd_menu rootmenu (\<lambda>r. r\<lparr>m_prompt := Some p\<rparr>) st1;
         st3 \<leftarrow> (case mainmenu of
                   None \<Rightarrow> Some st2
                 | Some t \<Rightarrow> map_option snd (menu_add_prompt P_MENU t None st2));
         parse_stmts env ss (0, st3) }"

end
