(* ===== verification/Kconf_Walk.thy ===== *)
theory Kconf_Walk
  imports Kconf_Write Kconf_Calc_Frame
begin

text \<open>
  The menu entries as a tree, and the loops of \<^verbatim>\<open>confdata.c\<close> that climb its links: they visit the entries
  in preorder.
\<close>

section \<open>Menu trees\<close>

datatype mtree = Entry menuid "mtree list"

fun first_entry :: "mtree list \<Rightarrow> menuid option" where
  "first_entry [] = None"
| "first_entry (Entry m cs # ts) = Some m"

fun preorder :: "mtree list \<Rightarrow> menuid list" where
  "preorder [] = []"
| "preorder (Entry m cs # ts) = m # preorder cs @ preorder ts"

fun height :: "mtree list \<Rightarrow> nat" where
  "height [] = 0"
| "height (Entry m cs # ts) = max (Suc (height cs)) (height ts)"

text \<open>The links of the entries, and the trees they form below the entry \<open>par\<close>.\<close>

definition links :: "kstate \<Rightarrow> menuid \<Rightarrow> menuid option \<times> menuid option \<times> menuid option" where
  "links st m = (m_list (menus st m), m_next (menus st m), m_parent (menus st m))"

fun forest :: "(menuid \<Rightarrow> menuid option \<times> menuid option \<times> menuid option) \<Rightarrow> menuid \<Rightarrow> mtree list \<Rightarrow> bool" where
  "forest L par [] = True"
| "forest L par (Entry m cs # ts) =
     (L m = (first_entry cs, first_entry ts, Some par) \<and> forest L m cs \<and> forest L par ts)"

primrec walk_list :: "(menuid \<Rightarrow> 'a \<Rightarrow> 'a option) \<Rightarrow> menuid list \<Rightarrow> 'a \<Rightarrow> 'a option" where
  "walk_list f [] acc = Some acc"
| "walk_list f (m # ms) acc = do { acc1 \<leftarrow> f m acc; walk_list f ms acc1 }"

lemma walk_list_append: "walk_list f (xs @ ys) acc = Option.bind (walk_list f xs acc) (walk_list f ys)"
  by (induction xs arbitrary: acc) simp_all

section \<open>The loop visits the entries in preorder\<close>

text \<open>What comes after the last entry below \<open>par\<close>.\<close>

definition after :: "nat \<Rightarrow> kstate \<Rightarrow> menuid \<Rightarrow> menuid option option" where
  "after n st par = (case n of 0 \<Rightarrow> None
     | Suc k \<Rightarrow> (case m_next (menus st par) of Some x \<Rightarrow> Some (Some x) | None \<Rightarrow> next_above k st par))"

lemma next_above_after: "m_parent (menus st m) = Some par \<Longrightarrow> next_above n st m = after n st par"
  by (simp add: next_above.simps [of n st m] after_def split: nat.split)

lemma next_above_links: "links st = links st' \<Longrightarrow> next_above n st m = next_above n st' m"
proof (induction n arbitrary: m)
  case 0
  then show ?case by (simp add: next_above.simps [of 0] links_def fun_eq_iff split: option.split)
next
  case (Suc n)
  then show ?case by (simp add: next_above.simps [of "Suc n"] links_def fun_eq_iff split: option.split)
qed

lemma after_links: "links st = links st' \<Longrightarrow> after n st par = after n st' par"
  using next_above_links [of st st'] by (auto simp: after_def links_def fun_eq_iff split: nat.split option.split)

lemma menu_succ_links: "links st = links st' \<Longrightarrow> menu_succ n st m = menu_succ n st' m"
  using next_above_links [of st st'] by (auto simp: menu_succ_def links_def fun_eq_iff split: option.split)

lemma first_entry_None: "first_entry ts = None \<longleftrightarrow> ts = []"
  by (cases ts rule: first_entry.cases) simp_all

lemma menu_walk_forest:
  assumes keep: "\<And>m acc acc'. f m acc = Some acc' \<Longrightarrow> links (state_of acc') = links (state_of acc)"
  shows "forest (links st) par ts \<Longrightarrow> ts \<noteq> [] \<Longrightarrow> links (state_of acc) = links st \<Longrightarrow>
    (\<And>k. d \<le> k \<Longrightarrow> after k st par = Some y) \<Longrightarrow> d + height ts \<le> n \<Longrightarrow>
    menu_walk (length (preorder ts) + n) state_of f (first_entry ts) acc =
      Option.bind (walk_list f (preorder ts) acc) (menu_walk n state_of f y)"
proof (induction ts arbitrary: par d y n acc rule: preorder.induct)
  case (2 m cs ts)
  let ?N = "length (preorder cs) + (length (preorder ts) + n)"
  have "links st m = (first_entry cs, first_entry ts, Some par)" using 2(3) by simp
  then have L: "m_list (menus st m) = first_entry cs" "m_next (menus st m) = first_entry ts" "m_parent (menus st m) = Some par"
    "forest (links st) m cs" "forest (links st) par ts"
    using 2(3) by (simp_all add: links_def [of st m])
  have aft: "after k st m = Some (if ts = [] then y else first_entry ts)" if k0: "Suc d \<le> k" for k
  proof -
    obtain k' where k: "k = Suc k'" "d \<le> k'" using k0 by (cases k) auto
    show ?thesis
      using 2(6) [OF k(2)] next_above_after [OF L(3)] first_entry_None [of ts]
      by (cases "first_entry ts") (auto simp: after_def [of "Suc k'" st m] k L(2))
  qed
  have rest: "menu_walk (length (preorder ts) + n) state_of f (if ts = [] then y else first_entry ts) acc1 =
      Option.bind (walk_list f (preorder ts) acc1) (menu_walk n state_of f y)" if "links (state_of acc1) = links st" for acc1
  proof (cases "ts = []")
    case False
    then show ?thesis using 2(2) [OF L(5) False that 2(6)] 2(7) by simp
  qed simp
  have below: "Option.bind (menu_succ ?N (state_of acc1) m) (\<lambda>x. menu_walk ?N state_of f x acc1) =
      Option.bind (walk_list f (preorder cs) acc1) (\<lambda>acc2. Option.bind (walk_list f (preorder ts) acc2) (menu_walk n state_of f y))"
    if a: "links (state_of acc1) = links st" for acc1
  proof (cases "cs = []")
    case True
    then have "menu_succ ?N (state_of acc1) m = Some (if ts = [] then y else first_entry ts)"
      using menu_succ_links [OF a] L(1,2) next_above_after [OF L(3)] 2(6) [of ?N] 2(7) first_entry_None [of ts]
      by (cases "first_entry ts") (auto simp: menu_succ_def)
    then show ?thesis using rest [OF a] True by simp
  next
    case False
    obtain c where c: "first_entry cs = Some c" using first_entry_None [of cs] False by (cases "first_entry cs") auto
    have s: "menu_succ ?N (state_of acc1) m = Some (first_entry cs)"
      using menu_succ_links [OF a] L(1) c by (simp add: menu_succ_def)
    have "menu_walk ?N state_of f (first_entry cs) acc1 = Option.bind (walk_list f (preorder cs) acc1)
        (menu_walk (length (preorder ts) + n) state_of f (if ts = [] then y else first_entry ts))"
      by (rule 2(1) [OF L(4) False a aft]) (use 2(7) in \<open>auto simp: max_def split: if_splits\<close>)
    moreover have "Option.bind (walk_list f (preorder cs) acc1)
        (menu_walk (length (preorder ts) + n) state_of f (if ts = [] then y else first_entry ts)) =
      Option.bind (walk_list f (preorder cs) acc1) (\<lambda>acc2. Option.bind (walk_list f (preorder ts) acc2) (menu_walk n state_of f y))"
    proof (cases "walk_list f (preorder cs) acc1")
      case (Some acc2)
      have "links (state_of acc2) = links (state_of acc1)" if "walk_list f ms acc1 = Some acc2" for ms acc1 acc2
        using that keep by (induction ms arbitrary: acc1) (auto elim!: bind_eq_SomeE)
      then have "links (state_of acc2) = links st" using Some a by metis
      then show ?thesis using rest Some by simp
    qed simp
    ultimately show ?thesis using s by simp
  qed
  show ?case
  proof (cases "f m acc")
    case (Some acc1)
    then have "links (state_of acc1) = links st" using keep [OF Some] 2(5) by simp
    from below [OF this] show ?thesis using Some by (simp add: walk_list_append add.assoc)
  qed simp
qed simp

section \<open>Writing the configuration\<close>

lemma links_static: "static st' = static st \<Longrightarrow> links st' = links st"
proof -
  have "links (static st) = links st" for st by (simp add: links_def fun_eq_iff static_def static_menu_def)
  then show "static st' = static st \<Longrightarrow> links st' = links st" by metis
qed

lemma menu_is_visible_inv:
  assumes call: "calc_call True Q scv"
  shows "(\<forall>m st. Q st \<longrightarrow> run True (menu_is_visible n scv m st) (\<lambda>(v, st'). Q st')) \<and>
    (\<forall>c st. Q st \<longrightarrow> run True (any_visible n scv c st) (\<lambda>(v, st'). Q st'))"
proof (induction n)
  case 0
  have "Q st \<longrightarrow> run True (any_visible 0 scv c st) (\<lambda>(v, st'). Q st')" for c st by (cases c) simp_all
  then show ?case by simp
next
  case (Suc n)
  note pair = calc_call.then_run_pair [OF call] and inv = calc_call.axioms(1) [OF call]
  have any: "run True (any_visible n scv c st) (\<lambda>x. (fst x \<longrightarrow> Q (set_flag s {SYMBOL_DEF_USER} (snd x))) \<and> (\<not> fst x \<longrightarrow> Q (snd x)))"
    if "Q st" for c s st
    by (rule run_mono [OF Suc [THEN conjunct2, rule_format, OF that]]) (auto simp: calc_inv.q_def_user [OF inv])
  have "run True (menu_is_visible (Suc n) scv m st) (\<lambda>(v, st'). Q st')" if "Q st" for m st
    using that any
    by (auto simp: case_prod_unfold split: option.splits
        intro!: pair [OF calc_call.expr_calc_value_inv [OF call]] pair [OF calc_call.calc_prop_visible_inv [OF call]]
          run_mono [OF calc_call.scv_inv [OF call]])
  moreover have "run True (any_visible (Suc n) scv c st) (\<lambda>(v, st'). Q st')" if "Q st" for c st
  proof (cases c)
    case (Some a)
    show ?thesis unfolding Some any_visible.simps run_bind
      by (rule run_mono [OF Suc [THEN conjunct1, rule_format, OF that]]) (use Suc in auto)
  qed (use that in simp)
  ultimately show ?case by blast
qed

lemma write_entry_static:
  assumes "write_entry n (sym_calc_value k) pfx m (out, st) = Some (out', st')"
  shows "static st' = static st"
proof -
  let ?Q = "\<lambda>x. static x = static st"
  note call = frame.sym_calc_value_call [of st k]
  note pair = calc_call.then_run_pair [OF call]
  have w: "run True (conf_write_symbol (sym_calc_value k) pfx kconfig_printer_cb False s x) (\<lambda>(l, y). ?Q y)" if "?Q x" for s x
    using that by (auto simp: conf_write_symbol_def Let_def case_prod_unfold
        intro!: pair [OF calc_call.sym_get_string_value_inv [OF call]])
  have "run True (write_entry n (sym_calc_value k) pfx m (out, st)) (\<lambda>(l, y). ?Q y)"
  proof (cases "m_sym (menus st m)")
    case None
    show ?thesis unfolding write_entry_def prod.case None option.case run_bind
      by (rule pair [OF menu_is_visible_inv [OF call, THEN conjunct1, rule_format]]) (auto simp: run_True elim!: bind_eq_SomeE)
  next
    case (Some s)
    have W: "run True (do { (l, st2) \<leftarrow> conf_write_symbol (sym_calc_value k) pfx kconfig_printer_cb False s
        (clear_flag s {SYMBOL_WRITE} x); Some (out @ l, st2) }) (\<lambda>(l, y). ?Q y)" if "?Q x" for x
      unfolding run_bind by (rule pair [OF w]) (use that in \<open>simp_all add: dynamic_flags_def\<close>)
    have "run True (sym_calc_value k s st) (\<lambda>y. ?Q y)" by (rule calc_call.scv_inv [OF call]) simp
    then have "run True (sym_calc_value k s st) (\<lambda>x. run True (if \<not> has_flag x s SYMBOL_WRITE then Some (out, x)
      else do { (l, st2) \<leftarrow> conf_write_symbol (sym_calc_value k) pfx kconfig_printer_cb False s
        (clear_flag s {SYMBOL_WRITE} x); Some (out @ l, st2) }) (\<lambda>(l, y). ?Q y))"
      by (rule run_mono) (use W in simp)
    then show ?thesis unfolding write_entry_def prod.case Some option.case by (cases "sym_is_choice st s") (simp_all add: run_bind)
  qed
  then show ?thesis using assms by simp
qed

lemma write_entry_links:
  "write_entry n (sym_calc_value k) pfx m acc = Some acc' \<Longrightarrow> links (snd acc') = links (snd acc)"
  using links_static [OF write_entry_static, of n k pfx m "fst acc" "snd acc" "fst acc'" "snd acc'"] by simp

lemma links_clear_valid: "links (clear_valid ss st) = links st"
  unfolding clear_valid_def by (induction ss arbitrary: st) (simp_all add: links_def fun_eq_iff)

lemma sym_clear_all_valid_links:
  assumes "sym_clear_all_valid (sym_calc_value k) st = Some st'"
  shows "links st' = links st"
proof -
  let ?st1 = "sym_add_change_count 1 (clear_valid (for_all_symbols st) st)"
  have "links ?st1 = links st"
    using links_clear_valid [of "for_all_symbols st" st] by (simp add: sym_add_change_count_def sym_set_change_count_def links_def fun_eq_iff)
  moreover have "static st' = static ?st1"
  proof (cases "modules_sym ?st1")
    case None then show ?thesis using assms by (simp add: sym_clear_all_valid_def calc_opt_def Let_def)
  next
    case (Some s)
    have "run True (sym_calc_value k s ?st1) (\<lambda>y. static y = static ?st1)"
      by (rule calc_call.scv_inv [OF frame.sym_calc_value_call]) simp
    then show ?thesis using assms Some by (simp add: sym_clear_all_valid_def calc_opt_def Let_def)
  qed
  ultimately show ?thesis using links_static [of st' ?st1] by simp
qed

lemma conf_write_walk:
  assumes "forest (links st) rootmenu ts" "links st rootmenu = (first_entry ts, None, None)"
    and "length (preorder ts) + height ts + 2 \<le> n"
  shows "conf_write n (sym_calc_value k) pfx st =
    do { h \<leftarrow> conf_write_heading kconfig_printer_cb st;
         st1 \<leftarrow> (if conf_get_changed st then Some st else sym_clear_all_valid (sym_calc_value k) st);
         (out, st2) \<leftarrow> walk_list (write_entry n (sym_calc_value k) pfx) (preorder ts) (h, st1);
         Some (out, sym_set_change_count 0 st2) }"
proof -
  let ?f = "write_entry n (sym_calc_value k) pfx"
  have "menu_walk n snd ?f (m_list (menus st1 rootmenu)) (h, st1) = walk_list ?f (preorder ts) (h, st1)"
    if "links st1 = links st" for h st1
  proof (cases "ts = []")
    case False
    have L: "links st1 rootmenu = (first_entry ts, None, None)" using assms(2) that by simp
    then have "m_list (menus st1 rootmenu) = first_entry ts" by (simp add: links_def)
    moreover have a: "after i st1 rootmenu = Some None" if "1 \<le> i" for i
      using that L by (cases i) (simp_all add: after_def links_def next_above.simps)
    moreover obtain n' where n': "n = length (preorder ts) + n'" using assms(3) le_Suc_ex [of "length (preorder ts)" n] by auto
    moreover have "1 + height ts \<le> n'" using assms(3) n' by simp
    moreover have "forest (links st1) rootmenu ts" using assms(1) that by simp
    ultimately have "menu_walk n snd ?f (m_list (menus st1 rootmenu)) (h, st1) =
        Option.bind (walk_list ?f (preorder ts) (h, st1)) (menu_walk n' snd ?f None)"
      using menu_walk_forest [of ?f snd st1 rootmenu ts "(h, st1)" 1 None n'] write_entry_links False by auto
    moreover have "menu_walk n' snd ?f None x = Some x" for x by (cases n') simp_all
    ultimately show ?thesis by (cases "walk_list ?f (preorder ts) (h, st1)") simp_all
  next
    case True
    then have "m_list (menus st1 rootmenu) = None" using assms(2) that by (metis links_def first_entry.simps(1) fst_conv)
    then show ?thesis using True by (cases n) simp_all
  qed
  then show ?thesis
    unfolding conf_write_def using sym_clear_all_valid_links [of k st]
    by (cases "sym_clear_all_valid (sym_calc_value k) st") simp_all
qed

text \<open>
  Property C24: \<^verbatim>\<open>conf_write\<close> visits the menu entries in preorder. For a state whose entries form a tree
  below the root, the loop that climbs the links of the entries writes the heading and then what a
  pass over the list of the entries, in the order of the menus, writes; it ends, and it visits each entry once.
\<close>

theorem conf_write_preorder:
  assumes "forest (links st) rootmenu ts" "links st rootmenu = (first_entry ts, None, None)"
    and "length (preorder ts) + height ts + 2 \<le> n"
  shows "conf_write n (sym_calc_value k) pfx st =
    do { h \<leftarrow> conf_write_heading kconfig_printer_cb st;
         st1 \<leftarrow> (if conf_get_changed st then Some st else sym_clear_all_valid (sym_calc_value k) st);
         (out, st2) \<leftarrow> walk_list (write_entry n (sym_calc_value k) pfx) (preorder ts) (h, st1);
         Some (out, sym_set_change_count 0 st2) }"
  by (rule conf_write_walk [OF assms])

text \<open>A menu with one entry, followed by a comment.\<close>

definition ex_walk :: kstate where
  "ex_walk = init_state\<lparr>
     props := (props init_state)(0 := free_property\<lparr>p_type := P_MENU, p_text := Some ''Main''\<rparr>),
     menus := (menus init_state)
       (0 := free_menu\<lparr>m_list := Some 1, m_prompt := Some 0\<rparr>,
        1 := free_menu\<lparr>m_parent := Some 0, m_next := Some 3, m_list := Some 2, m_prompt := Some 0\<rparr>,
        2 := free_menu\<lparr>m_parent := Some 1, m_sym := Some symbol_yes\<rparr>,
        3 := free_menu\<lparr>m_parent := Some 0\<rparr>),
     sym_change_count := 1\<rparr>"

theorem conf_write_preorder_witness:
  "conf_write 9 (sym_calc_value 2) ''BR2_'' ex_walk =
    do { h \<leftarrow> conf_write_heading kconfig_printer_cb ex_walk;
         (out, st2) \<leftarrow> walk_list (write_entry 9 (sym_calc_value 2) ''BR2_'') [1, 2, 3] (h, ex_walk);
         Some (out, sym_set_change_count 0 st2) }"
  using conf_write_preorder [of ex_walk "[Entry 1 [Entry 2 []], Entry 3 []]" 9 2 "''BR2_''"]
  by (simp add: ex_walk_def links_def free_menu_def conf_get_changed_def)

end
