(* ===== verification/Kconf_Parse_Tree.thy ===== *)
theory Kconf_Parse_Tree
  imports Kconf_Parse Kconf_Walk
begin

text \<open>
  The parser builds the menu tree that the nesting of the statements describes, with the entries
  numbered in the order of the statements.
\<close>

section \<open>The tree of a list of statements\<close>

fun body :: "stmt \<Rightarrow> stmt list option" where
  "body (SConfig w os) = None"
| "body (SMenuconfig w os) = None"
| "body (SChoice w os b) = Some b"
| "body (SIf a b) = Some b"
| "body (SMenu t vs ds b) = Some b"
| "body (SComment t ds) = None"

lemma body_size [termination_simp]: "body s = Some b \<Longrightarrow> size_list size b < size s"
  by (cases s) simp_all

fun entry_count :: "stmt list \<Rightarrow> nat" where
  "entry_count [] = 0"
| "entry_count (s # ss) = Suc ((case body s of None \<Rightarrow> 0 | Some b \<Rightarrow> entry_count b) + entry_count ss)"

definition inside :: "stmt \<Rightarrow> stmt list" where
  "inside s = (case body s of None \<Rightarrow> [] | Some b \<Rightarrow> b)"

lemma inside_size [termination_simp]: "size_list size (inside s) \<le> size s"
  by (cases s) (simp_all add: inside_def)

lemma entry_count_inside: "entry_count (s # ss) = Suc (entry_count (inside s) + entry_count ss)"
  by (simp add: inside_def split: option.split)

fun shape :: "menuid \<Rightarrow> stmt list \<Rightarrow> mtree list" where
  "shape k [] = []"
| "shape k (s # ss) = Entry k (shape (Suc k) (inside s)) # shape (Suc (k + entry_count (inside s))) ss"

lemma preorder_shape: "preorder (shape k ss) = [k..<k + entry_count ss]"
proof (induction k ss rule: shape.induct)
  case (2 k s ss)
  let ?i = "entry_count (inside s)" and ?j = "entry_count ss"
  have "[k..<k + entry_count (s # ss)] = k # [Suc k..<Suc k + (?i + ?j)]"
    by (simp only: entry_count_inside upt_conv_Cons) (simp add: upt_conv_Cons)
  also have "[Suc k..<Suc k + (?i + ?j)] = [Suc k..<Suc k + ?i] @ [Suc k + ?i..<Suc k + ?i + ?j]"
    by (metis add.assoc le_add1 upt_add_eq_append)
  finally show ?case using 2 by (simp add: add.assoc)
qed simp

lemma forest_cong: "(\<And>x. x \<in> set (preorder ts) \<Longrightarrow> L x = L' x) \<Longrightarrow> forest L par ts \<longleftrightarrow> forest L' par ts"
  by (induction ts arbitrary: par rule: preorder.induct) simp_all

section \<open>The tree pointers of the parser\<close>

type_synonym pointers =
  "(menuid \<Rightarrow> menuid option \<times> menuid option \<times> menuid option) \<times> menuid option \<times> menuid \<times> entry_ptr \<times> menuid"

definition pointers :: "kstate \<Rightarrow> pointers" where
  "pointers st = (links st, current_menu st, current_entry st, last_entry st, next_menu st)"

fun target :: "entry_ptr \<Rightarrow> menuid" where
  "target (AtList x) = x"
| "target (AtNext x) = x"

fun link :: "entry_ptr \<Rightarrow> menuid option \<Rightarrow> menuid option \<times> menuid option \<times> menuid option \<Rightarrow> menuid option \<times> menuid option \<times> menuid option" where
  "link (AtList _) v (l, n, p) = (v, n, p)"
| "link (AtNext _) v (l, n, p) = (l, v, p)"

fun add_entry :: "pointers \<Rightarrow> pointers" where
  "add_entry (L, cm, ce, le, k) =
    (let L1 = L(k := (None, None, cm)) in (L1(target le := link le (Some k) (L1 (target le))), cm, k, AtNext k, Suc k))"

fun open_menu :: "pointers \<Rightarrow> pointers" where
  "open_menu (L, cm, ce, le, k) = (L, Some ce, ce, AtList ce, k)"

fun close_menu :: "pointers \<Rightarrow> pointers" where
  "close_menu (L, Some m, ce, le, k) = (L, snd (snd (L m)), ce, AtNext m, k)"
| "close_menu (L, None, ce, le, k) = (L, None, ce, le, k)"

function follow :: "stmt list \<Rightarrow> pointers \<Rightarrow> pointers" where
  "follow [] t = t"
| "follow (s # ss) t =
     follow ss (case body s of None \<Rightarrow> add_entry t | Some b \<Rightarrow> close_menu (follow b (open_menu (add_entry t))))"
  by pat_completeness auto
termination by (relation "measure (\<lambda>(ss, t). size_list size ss)") (auto simp: body_size termination_simp dest: body_size)

lemma follow_shape:
  assumes "t = (L, Some c, ce, le, k)" "target le < k" "c < k" "link le None (L (target le)) = L (target le)"
  shows "\<exists>L' ce' le'. follow ss t = (L', Some c, ce', le', k + entry_count ss) \<and> forest L' c (shape k ss) \<and>
    L' (target le) = link le (first_entry (shape k ss)) (L (target le)) \<and>
    (\<forall>x < k. x \<noteq> target le \<longrightarrow> L' x = L x)"
  using assms
proof (induction k ss arbitrary: t L c ce le rule: shape.induct)
  case (2 k s ss)
  define L1 where "L1 = (L(k := (None, None, Some c)))(target le := link le (Some k) (L (target le)))"
  have a: "add_entry t = (L1, Some c, k, AtNext k, Suc k)" using 2(3,4) by (simp add: L1_def Let_def)
  have k1: "L1 k = (None, None, Some c)" using 2(4) by (simp add: L1_def)
  let ?k2 = "Suc (k + entry_count (inside s))"
  obtain L2 ce2 where inner: "(case body s of None \<Rightarrow> add_entry t | Some b \<Rightarrow> close_menu (follow b (open_menu (add_entry t)))) =
      (L2, Some c, ce2, AtNext k, ?k2)" and L2: "forest L2 k (shape (Suc k) (inside s))"
      "L2 k = (first_entry (shape (Suc k) (inside s)), None, Some c)" "\<And>x. x < k \<Longrightarrow> L2 x = L1 x"
  proof (cases "body s")
    case None
    then show ?thesis using a k1 by (intro that [of L1 k]) (simp_all add: inside_def)
  next
    case (Some b)
    have i: "inside s = b" using Some by (simp add: inside_def)
    obtain L2 ce2 le2 where f: "follow b (L1, Some k, k, AtList k, Suc k) = (L2, Some k, ce2, le2, Suc k + entry_count b)"
      "forest L2 k (shape (Suc k) b)" "L2 k = link (AtList k) (first_entry (shape (Suc k) b)) (L1 k)"
      "\<And>x. x < Suc k \<Longrightarrow> x \<noteq> k \<Longrightarrow> L2 x = L1 x"
      using 2(1) [of "(L1, Some k, k, AtList k, Suc k)" L1 k k "AtList k"] k1 by (auto simp: i)
    then show ?thesis using a Some i k1 by (intro that [of L2 ce2]) simp_all
  qed
  obtain L3 ce3 le3 where rest: "follow ss (L2, Some c, ce2, AtNext k, ?k2) = (L3, Some c, ce3, le3, ?k2 + entry_count ss)"
    "forest L3 c (shape ?k2 ss)" "L3 k = link (AtNext k) (first_entry (shape ?k2 ss)) (L2 k)"
    "\<And>x. x < ?k2 \<Longrightarrow> x \<noteq> k \<Longrightarrow> L3 x = L2 x"
    using 2(2) [of "(L2, Some c, ce2, AtNext k, ?k2)" L2 c ce2 "AtNext k"] 2(5) L2(2) by auto
  have "forest L3 k (shape (Suc k) (inside s)) \<longleftrightarrow> forest L2 k (shape (Suc k) (inside s))"
    by (rule forest_cong) (use rest(4) in \<open>auto simp: preorder_shape\<close>)
  then have "forest L3 c (shape k (s # ss))" using rest(2,3) L2 by simp
  moreover have "\<And>x. x < k \<Longrightarrow> L3 x = L1 x" using rest(4) L2(3) by simp
  moreover have "follow (s # ss) t = (L3, Some c, ce3, le3, k + entry_count (s # ss))"
    using inner rest(1) by (simp only: follow.simps entry_count_inside) simp
  ultimately show ?case using 2(4) by (auto simp: L1_def)
qed auto

section \<open>The actions follow the pointers\<close>

text \<open>The options of an entry leave the pointers and the symbols of the entries alone.\<close>

definition stage :: "kstate \<Rightarrow> pointers \<times> (menuid \<Rightarrow> symid option)" where
  "stage st = (pointers st, \<lambda>m. m_sym (menus st m))"

lemma pointers_stage: "stage st' = stage st \<Longrightarrow> pointers st' = pointers st"
  by (simp add: stage_def)

lemma stage_upd_sym [simp]: "stage (upd_sym s f st) = stage st" "stage (upd_prop p g st) = stage st"
  "stage (set_flag s fl st) = stage st"
  by (simp_all add: stage_def pointers_def links_def fun_eq_iff upd_prop_def)

lemma stage_upd_menu:
  assumes "\<And>r. m_list (f r) = m_list r" "\<And>r. m_next (f r) = m_next r" "\<And>r. m_parent (f r) = m_parent r" "\<And>r. m_sym (f r) = m_sym r"
  shows "stage (upd_menu m f st) = stage st"
  using assms by (simp add: stage_def pointers_def links_def fun_eq_iff upd_menu_def)

lemma stage_alloc [simp]: "stage (snd (alloc_symbol n fl h st)) = stage st"
  "stage (snd (prop_alloc ty s st)) = stage st"
  by (auto simp: alloc_symbol_def prop_alloc_def Let_def stage_def pointers_def links_def fun_eq_iff split: option.split)

lemma stage_sym_lookup [simp]: "stage (snd (sym_lookup n fl st)) = stage st"
  by (simp add: sym_lookup_def split: option.split)

lemma stage_parse_symbol [simp]: "stage (snd (parse_symbol w st)) = stage st"
  by (cases w) simp_all

lemma stage_parse_expr [simp]: "stage (snd (parse_expr a st)) = stage st"
  by (induction a arbitrary: st) (simp_all add: case_prod_unfold Let_def)

lemma stage_parse_if [simp]: "stage (snd (parse_if c st)) = stage st"
  by (simp add: parse_if_def case_prod_unfold Let_def split: option.split)

lemma stage_menu_add_prop: "menu_add_prop ty pr e d st = Some (p, st') \<Longrightarrow> stage st' = stage st"
  by (auto simp: menu_add_prop_def Let_def case_prod_unfold stage_upd_menu elim!: bind_eq_SomeE split: if_splits)

lemma stage_adds:
  "menu_add_prompt ty t d st = Some (p, st') \<Longrightarrow> stage st' = stage st"
  "menu_add_expr ty e d st = Some st' \<Longrightarrow> stage st' = stage st"
  "menu_add_symbol ty s d st = Some st' \<Longrightarrow> stage st' = stage st"
  "menu_add_dep d st = Some st' \<Longrightarrow> stage st' = stage st"
  "menu_set_type sty st = Some (b, st') \<Longrightarrow> stage st' = stage st"
  "stage (menu_add_visibility d st) = stage st"
  by (auto simp: menu_add_prompt_def menu_add_expr_def menu_add_symbol_def menu_add_dep_def menu_set_type_def
      menu_add_visibility_def stage_upd_menu dest: stage_menu_add_prop elim!: bind_eq_SomeE split: if_splits)

lemma stage_prop_add_env: "prop_add_env env v st = Some st' \<Longrightarrow> stage st' = stage st"
proof -
  have d: "stage (sym_add_default s x st) = stage st" for s x st
    by (simp add: sym_add_default_def case_prod_unfold Let_def)
  have l: "stage (st\<lparr>sym_env_list := x\<rparr>) = stage st" for x st by (simp add: stage_def pointers_def links_def fun_eq_iff)
  show "prop_add_env env v st = Some st' \<Longrightarrow> stage st' = stage st"
    by (auto simp: prop_add_env_def case_prod_unfold Let_def d l split: if_splits option.splits elim!: bind_eq_SomeE)
qed

lemma stage_menu_add_option: "menu_add_option env tok a st = Some (b, st') \<Longrightarrow> stage st' = stage st"
proof -
  have "stage (st\<lparr>modules_sym := x\<rparr>) = stage st" "stage (st\<lparr>sym_defconfig_list := x\<rparr>) = stage st" for x
    by (simp_all add: stage_def pointers_def links_def fun_eq_iff)
  then show "menu_add_option env tok a st = Some (b, st') \<Longrightarrow> stage st' = stage st"
    by (auto simp: menu_add_option_def Let_def dest: stage_prop_add_env split: option_token.splits option.splits)
qed

lemma parse_all_keeps:
  "(\<And>x st st'. f x st = Some st' \<Longrightarrow> g st' = g st) \<Longrightarrow> parse_all f xs st = Some st' \<Longrightarrow> g st' = g st"
  by (induction xs arbitrary: st) (auto elim!: bind_eq_SomeE)

lemma stage_options:
  "parse_prompt pr st = Some st' \<Longrightarrow> stage st' = stage st"
  "parse_prompt_opt po st = Some st' \<Longrightarrow> stage st' = stage st"
  "parse_depends a st = Some st' \<Longrightarrow> stage st' = stage st"
  "parse_visible c st = Some st' \<Longrightarrow> stage st' = stage st"
  "stage (parse_help t st) = stage st"
  "stage (menuconfig_end st) = stage st"
proof -
  show a: "parse_prompt pr st = Some st' \<Longrightarrow> stage st' = stage st" for pr
    by (auto simp: parse_prompt_def case_prod_unfold Let_def dest: stage_adds(1))
  show "parse_prompt_opt po st = Some st' \<Longrightarrow> stage st' = stage st"
    by (cases po) (auto simp: parse_prompt_opt_def dest: a)
qed (auto simp: parse_depends_def parse_visible_def parse_help_def menuconfig_end_def case_prod_unfold Let_def
    stage_upd_menu stage_adds dest: stage_adds(4) split: option.split)

lemma stage_config_option:
  "parse_config_option env c ps = Some ps' \<Longrightarrow> stage (snd ps') = stage (snd ps)"
proof (induction env c ps rule: parse_config_option.induct)
  case (6 env os ps)
  have "stage (snd y) = stage (snd x)" if "parse_symbol_option env o' x = Some y" for o' x y
    using that by (cases o'; cases x) (auto elim!: bind_eq_SomeE dest: stage_menu_add_option split: option.splits if_splits)
  from parse_all_keeps [of "parse_symbol_option env" "stage \<circ> snd" os ps ps'] this 6 show ?case by simp
qed (auto simp: case_prod_unfold Let_def stage_options dest!: stage_options(1-3) stage_adds(2,3,5)
    elim!: bind_eq_SomeE split: if_splits)

lemma stage_choice_option: "parse_choice_option c st = Some st' \<Longrightarrow> stage st' = stage st"
  by (cases c) (auto simp: case_prod_unfold Let_def stage_options dest!: stage_options(1-3) stage_adds(2,3,5)
    elim!: bind_eq_SomeE)

lemmas pointers_adds = stage_adds [THEN pointers_stage]
lemmas pointers_upd_sym [simp] = stage_upd_sym [THEN pointers_stage]
lemmas pointers_sym_lookup [simp] = stage_sym_lookup [THEN pointers_stage] stage_parse_expr [THEN pointers_stage]
lemmas pointers_options = stage_options [THEN pointers_stage]

lemma pointers_menu_add_entry: "menu_add_entry s st = Some st' \<Longrightarrow> pointers st' = add_entry (pointers st)"
proof -
  let ?k = "next_menu st"
  let ?st2 = "(store_entry (last_entry st) ?k (upd_menu ?k (\<lambda>_. free_menu\<lparr>m_sym := s, m_parent := current_menu st\<rparr>)
      (st\<lparr>next_menu := Suc ?k\<rparr>)))\<lparr>last_entry := AtNext ?k, current_entry := ?k\<rparr>"
  have "pointers ?st2 = add_entry (pointers st)"
    by (cases "last_entry st")
      (auto simp: pointers_def links_def store_entry_def upd_menu_def Let_def free_menu_def fun_eq_iff)
  then show "menu_add_entry s st = Some st' \<Longrightarrow> pointers st' = add_entry (pointers st)"
    by (auto simp: menu_add_entry_def Let_def upd_menu_def dest: pointers_adds(3) split: option.splits)
qed

lemma pointers_starts:
  "config_entry_start w st = Some st' \<Longrightarrow> pointers st' = add_entry (pointers st)"
  "choice_start n st = Some st' \<Longrightarrow> pointers st' = add_entry (pointers st)"
  "if_start a st = Some st' \<Longrightarrow> pointers st' = add_entry (pointers st)"
  "prompt_entry ty t st = Some st' \<Longrightarrow> pointers st' = add_entry (pointers st)"
  by (auto simp: config_entry_start_def choice_start_def if_start_def prompt_entry_def case_prod_unfold Let_def
      dest!: pointers_menu_add_entry pointers_adds(1,2,4) elim!: bind_eq_SomeE)

lemma pointers_menus: "pointers (menu_add_menu st) = open_menu (pointers st)"
  "menu_end_menu st = Some st' \<Longrightarrow> pointers st' = close_menu (pointers st)"
  by (auto simp: menu_add_menu_def menu_end_menu_def pointers_def links_def fun_eq_iff elim!: bind_eq_SomeE)

lemma with_errs_Some: "with_errs f ps = Some ps' \<longleftrightarrow> (fst ps' = fst ps \<and> f (snd ps) = Some (snd ps'))"
  by (cases ps; cases ps') (auto simp: with_errs_def)

lemma stage_lists:
  "parse_all (parse_config_option env) os ps = Some ps' \<Longrightarrow> stage (snd ps') = stage (snd ps)"
  "parse_all parse_choice_option cs st = Some st' \<Longrightarrow> stage st' = stage st"
  "parse_all parse_depends ds st = Some st' \<Longrightarrow> stage st' = stage st"
  "parse_all parse_visible vs st = Some st' \<Longrightarrow> stage st' = stage st"
  using parse_all_keeps [of "parse_config_option env" "\<lambda>x. stage (snd x)" os ps ps'] stage_config_option
    parse_all_keeps [of parse_choice_option stage cs st st'] stage_choice_option
    parse_all_keeps [of parse_depends stage ds st st'] parse_all_keeps [of parse_visible stage vs st st'] stage_options(3,4)
  by blast+

lemmas pointers_lists = stage_lists [THEN pointers_stage]

lemma parse_follow:
  "parse_stmt env s ps = Some ps' \<Longrightarrow> pointers (snd ps') =
    (case body s of None \<Rightarrow> add_entry (pointers (snd ps)) | Some b \<Rightarrow> close_menu (follow b (open_menu (add_entry (pointers (snd ps))))))"
  "parse_stmts env ss ps = Some ps' \<Longrightarrow> pointers (snd ps') = follow ss (pointers (snd ps))"
proof (induction env s ps and env ss ps arbitrary: ps' and ps' rule: parse_stmt_parse_stmts.induct)
  case (3 env w os b ps)
  then obtain ps1 ps2 ps3 where *: "with_errs (choice_start w) ps = Some ps1"
    "with_errs (parse_all parse_choice_option os) ps1 = Some ps2"
    "parse_stmts env b (map_prod id menu_add_menu ps2) = Some ps3" "with_errs menu_end_menu ps3 = Some ps'"
    by (auto elim!: bind_eq_SomeE)
  from 3(1) [OF *(1-3)] * show ?case
    by (auto simp: with_errs_Some pointers_menus(1) dest!: pointers_starts(2) pointers_menus(2) pointers_lists(2))
next
  case (5 env t vs ds b ps)
  then obtain ps1 ps2 ps3 ps4 where *: "with_errs (prompt_entry P_MENU t) ps = Some ps1"
    "with_errs (parse_all parse_visible vs) ps1 = Some ps2" "with_errs (parse_all parse_depends ds) ps2 = Some ps3"
    "parse_stmts env b (map_prod id menu_add_menu ps3) = Some ps4" "with_errs menu_end_menu ps4 = Some ps'"
    by (auto elim!: bind_eq_SomeE)
  from 5(1) [OF *(1-4)] * show ?case
    by (auto simp: with_errs_Some pointers_menus(1) dest!: pointers_starts(4) pointers_menus(2) pointers_lists(3,4))
qed (auto simp: with_errs_Some pointers_options pointers_menus(1)
    dest!: pointers_starts pointers_menus(2) pointers_lists elim!: bind_eq_SomeE)

end
