(* ===== verification/Kconf_Parse_Total.thy ===== *)
theory Kconf_Parse_Total
  imports Kconf_Parse_Tree
begin

text \<open>
  The actions of the parser never follow a null pointer: what each of them needs of the state and keeps.
\<close>

section \<open>Parsing ends without a null pointer\<close>

fun ok_pointers :: "pointers \<Rightarrow> bool" where
  "ok_pointers (L, cm, ce, le, k) \<longleftrightarrow>
    (\<forall>x p. snd (snd (L x)) = Some p \<longrightarrow> p < x) \<and> ce < k \<and> target le < k \<and> (\<exists>c < k. cm = Some c) \<and>
    link le None (L (target le)) = L (target le)"

lemma link_parent [simp]: "snd (snd (link le v l)) = snd (snd l)"
  by (cases "(le, v, l)" rule: link.cases) simp_all

lemma ok_add_entry: "ok_pointers t \<Longrightarrow> ok_pointers (add_entry t)"
  by (cases t) (auto simp: Let_def split: if_splits)

lemma ok_open_menu:
  assumes "ok_pointers (L, cm, ce, le, k)" "L ce = (None, n, p)"
  shows "ok_pointers (open_menu (L, cm, ce, le, k))"
  using assms by auto

text \<open>The last entry added has no entries below it; the entry that is closed has none after it.\<close>

lemma ok_follow:
  "ok_pointers (L, Some c, ce, le, k) \<Longrightarrow> ok_pointers (follow ss (L, Some c, ce, le, k))"
proof (induction k ss arbitrary: L c ce le rule: shape.induct)
  case (2 k s ss)
  let ?t = "(L, Some c, ce, le, k)"
  obtain L1 where a: "add_entry ?t = (L1, Some c, k, AtNext k, Suc k)" "L1 k = (None, None, Some c)"
    using 2(3) by (auto simp: Let_def)
  have o1: "ok_pointers (L1, Some c, k, AtNext k, Suc k)" using ok_add_entry [OF 2(3)] unfolding a(1) .
  let ?k2 = "Suc (k + entry_count (inside s))"
  obtain L2 ce2 where inner: "(case body s of None \<Rightarrow> add_entry ?t | Some b \<Rightarrow> close_menu (follow b (open_menu (add_entry ?t)))) =
      (L2, Some c, ce2, AtNext k, ?k2)" "ok_pointers (L2, Some c, ce2, AtNext k, ?k2)"
  proof (cases "body s")
    case None
    then show ?thesis using a o1 by (intro that [of L1 k]) (simp_all add: inside_def)
  next
    case (Some b)
    have i: "inside s = b" using Some by (simp add: inside_def)
    have o2: "ok_pointers (L1, Some k, k, AtList k, Suc k)" using o1 a(2) by auto
    obtain L2 ce2 le2 where f: "follow b (L1, Some k, k, AtList k, Suc k) = (L2, Some k, ce2, le2, Suc k + entry_count b)"
      "L2 k = link (AtList k) (first_entry (shape (Suc k) b)) (L1 k)"
      using follow_shape [OF refl, of "AtList k" "Suc k" k L1 b k] a(2) by auto
    have "ok_pointers (L2, Some k, ce2, le2, Suc k + entry_count b)" using 2(1) [of L1 k k "AtList k"] o2 f i by simp
    moreover have "c < Suc (k + entry_count b)" using 2(3) by simp
    ultimately show ?thesis using a Some i f by (intro that [of L2 ce2]) auto
  qed
  then show ?case using 2(2) by simp
qed simp

text \<open>Symbols the parser finds or makes are never the fixed \<^verbatim>\<open>symbol_mod\<close>, unless the word is \<^verbatim>\<open>m\<close>.\<close>

definition own_ids :: "kstate \<Rightarrow> bool" where
  "own_ids st \<longleftrightarrow> symbol_mod < next_sym st \<and> (\<forall>h. symbol_mod \<notin> set (symbol_hash st h))"

fun word_of :: "word_token \<Rightarrow> string" where
  "word_of (T_WORD w) = w"
| "word_of (T_WORD_QUOTE w) = w"

fun words :: "expr_phrase \<Rightarrow> string set" where
  "words (PSymbol v) = {word_of v}"
| "words (PEqual v w) = {word_of v, word_of w}"
| "words (PUnequal v w) = {word_of v, word_of w}"
| "words (PNot a) = words a"
| "words (POr a b) = words a \<union> words b"
| "words (PAnd a b) = words a \<union> words b"

definition words_if :: "expr_phrase option \<Rightarrow> string set" where
  "words_if c = (case c of None \<Rightarrow> {} | Some a \<Rightarrow> words a)"

lemma own_ids_alloc: "own_ids st \<Longrightarrow> own_ids (snd (alloc_symbol n fl h st))" "own_ids st \<Longrightarrow> fst (alloc_symbol n fl h st) \<noteq> symbol_mod"
  by (auto simp: own_ids_def alloc_symbol_def Let_def)

lemma sym_lookup_own:
  assumes "own_ids st"
  shows "own_ids (snd (sym_lookup n fl st))" "fst (sym_lookup n fl st) = symbol_mod \<Longrightarrow> n = Some ''m''"
  using assms own_ids_alloc [OF assms]
  by (auto simp: sym_lookup_def const_name_def own_ids_def [of st] split: option.splits if_splits dest: find_SomeD)

lemma parse_symbol_own:
  assumes "own_ids st"
  shows "own_ids (snd (parse_symbol w st))" "fst (parse_symbol w st) = symbol_mod \<Longrightarrow> word_of w = ''m''"
  using sym_lookup_own [OF assms] by (cases w; auto)+


lemma parse_expr_own:
  assumes "own_ids st"
  shows "own_ids (snd (parse_expr a st)) \<and> (symbol_mod \<in> expr_syms (fst (parse_expr a st)) \<longrightarrow> ''m'' \<in> words a)"
  using assms
proof (induction a arbitrary: st)
  case (PEqual v w)
  then show ?case using parse_symbol_own [OF PEqual] parse_symbol_own [OF parse_symbol_own(1) [OF PEqual]]
    by (auto simp: case_prod_unfold Let_def)
next
  case (PUnequal v w)
  then show ?case using parse_symbol_own [OF PUnequal] parse_symbol_own [OF parse_symbol_own(1) [OF PUnequal]]
    by (auto simp: case_prod_unfold Let_def)
next
  case (POr a b)
  then show ?case using POr.IH(1) [OF POr.prems] POr.IH(2) [of "snd (parse_expr a st)"] by (auto simp: case_prod_unfold Let_def)
next
  case (PAnd a b)
  then show ?case using PAnd.IH(1) [OF PAnd.prems] PAnd.IH(2) [of "snd (parse_expr a st)"] by (auto simp: case_prod_unfold Let_def)
qed (auto simp: case_prod_unfold Let_def expr_alloc_symbol_def dest: parse_symbol_own)

lemma parse_if_own:
  assumes "own_ids st"
  shows "own_ids (snd (parse_if c st))" "symbol_mod \<in> opt_syms (fst (parse_if c st)) \<Longrightarrow> ''m'' \<in> words_if c"
  using assms parse_expr_own [OF assms] by (auto simp: parse_if_def words_if_def case_prod_unfold Let_def split: option.splits)

lemma modules_lookup [simp]: "modules_sym (snd (sym_lookup n fl st)) = modules_sym st"
  "modules_sym (snd (parse_symbol w st)) = modules_sym st"
proof -
  show a: "modules_sym (snd (sym_lookup n fl st)) = modules_sym st" for n fl
    by (auto simp: sym_lookup_def alloc_symbol_def Let_def split: option.split)
  show "modules_sym (snd (parse_symbol w st)) = modules_sym st" by (cases w) (simp_all add: a)
qed

lemma modules_parse [simp]: "modules_sym (snd (parse_expr a st)) = modules_sym st" "modules_sym (snd (parse_if c st)) = modules_sym st"
proof -
  show a: "modules_sym (snd (parse_expr a st)) = modules_sym st" for a
    by (induction a arbitrary: st) (simp_all add: case_prod_unfold Let_def)
  show "modules_sym (snd (parse_if c st)) = modules_sym st" by (simp add: parse_if_def case_prod_unfold Let_def a split: option.split)
qed

lemma check_dep_total: "modules_sym st \<noteq> None \<or> symbol_mod \<notin> expr_syms e \<Longrightarrow> \<exists>e'. check_dep st e = Some e'"
  by (induction st e rule: check_dep.induct) auto

lemma parents_total: "(\<And>x p. m_parent (menus st x) = Some p \<Longrightarrow> p < x) \<Longrightarrow> m \<le> n \<Longrightarrow> \<exists>ms. parents n st m = Some ms"
proof (induction n arbitrary: m)
  case 0
  then show ?case by (cases "m_parent (menus st m)") (auto simp: parents.simps [of 0] dest: Suc_leI)
next
  case (Suc n)
  show ?case
  proof (cases "m_parent (menus st m)")
    case (Some p)
    then have "p \<le> n" using Suc.prems(1) [OF Some] Suc.prems(2) by simp
    then show ?thesis using Suc.IH [OF Suc.prems(1)] Some by (auto simp: parents.simps [of "Suc n"])
  qed (simp add: parents.simps [of "Suc n"])
qed

text \<open>What the actions need and keep; \<open>b\<close> says that the modules symbol is known.\<close>

definition fit :: "bool \<Rightarrow> kstate \<Rightarrow> bool" where
  "fit b st \<longleftrightarrow> own_ids st \<and> ok_pointers (pointers st) \<and> (b \<longrightarrow> modules_sym st \<noteq> None)"

definition tables :: "kstate \<Rightarrow> symid \<times> (nat \<Rightarrow> symid list) \<times> symid option" where
  "tables st = (next_sym st, symbol_hash st, modules_sym st)"

lemma fit_same: "stage st' = stage st \<Longrightarrow> tables st' = tables st \<Longrightarrow> fit b st' \<longleftrightarrow> fit b st"
  by (simp add: fit_def own_ids_def stage_def tables_def)

lemma fit_upd [simp]: "fit b (upd_sym s f st) \<longleftrightarrow> fit b st" "fit b (upd_prop p g st) \<longleftrightarrow> fit b st"
  "fit b (set_flag s fl st) \<longleftrightarrow> fit b st" "fit b (snd (prop_alloc ty so st)) \<longleftrightarrow> fit b st"
  by (rule fit_same, simp, simp add: tables_def prop_alloc_def set_flag_def upd_prop_def Let_def split: option.split)+

lemma fit_upd_menu:
  assumes "\<And>r. m_list (f r) = m_list r" "\<And>r. m_next (f r) = m_next r" "\<And>r. m_parent (f r) = m_parent r" "\<And>r. m_sym (f r) = m_sym r"
  shows "fit b (upd_menu m f st) \<longleftrightarrow> fit b st"
  by (rule fit_same [OF stage_upd_menu [OF assms]]) (simp add: tables_def upd_menu_def)

lemma fit_lookup: "fit b st \<Longrightarrow> fit b (snd (sym_lookup n fl st))" "fit b st \<Longrightarrow> fit b (snd (parse_symbol w st))"
  "fit b st \<Longrightarrow> fit b (snd (parse_expr a st))" "fit b st \<Longrightarrow> fit b (snd (parse_if c st))"
  using sym_lookup_own parse_symbol_own parse_expr_own parse_if_own stage_parse_symbol [THEN pointers_stage]
    stage_parse_if [THEN pointers_stage]
  by (auto simp: fit_def)

lemma fit_check_dep: "fit b st \<Longrightarrow> b \<or> symbol_mod \<notin> opt_syms d \<Longrightarrow> \<exists>d'. menu_check_dep st d = Some d'"
  using check_dep_total [of st] by (fastforce simp: fit_def menu_check_dep_def split: option.splits)

lemma menu_add_prop_total:
  assumes "fit b st" "b \<or> symbol_mod \<notin> opt_syms d"
  shows "run False (menu_add_prop ty pr e d st) (\<lambda>(p, st'). fit b st')"
proof -
  let ?st1 = "snd (prop_alloc ty (m_sym (menus st (current_entry st))) st)"
  have f: "fit b ?st1" using assms(1) by simp
  obtain d' where d: "menu_check_dep ?st1 d = Some d'" using fit_check_dep [OF f assms(2)] by auto
  have "m_parent (menus ?st1 x) = Some p \<Longrightarrow> p < x" "current_entry st < next_menu ?st1" for x p
    using f stage_alloc(2) [of ty "m_sym (menus st (current_entry st))" st]
    by (auto simp: fit_def pointers_def links_def stage_def)
  then obtain ms where "parents (next_menu ?st1) ?st1 (current_entry st) = Some ms"
    using parents_total [of ?st1 "current_entry st" "next_menu ?st1"] by auto
  then show ?thesis using d f by (auto simp: menu_add_prop_def case_prod_unfold Let_def fit_upd_menu)
qed


fun option_words :: "config_option \<Rightarrow> string set" where
  "option_words (OType ty pr) = (case pr of None \<Rightarrow> {} | Some p \<Rightarrow> words_if (snd p))"
| "option_words (OPrompt pr) = words_if (snd pr)"
| "option_words (ODefault ty a c) = words_if c"
| "option_words (OSelect w c) = words_if c"
| "option_words (ORange v w c) = words_if c"
| "option_words (OOption os) = {}"
| "option_words (ODepends a) = words a"
| "option_words (OHelp t) = {}"

fun choice_words :: "choice_option \<Rightarrow> string set" where
  "choice_words (CBool pr) = (case pr of None \<Rightarrow> {} | Some p \<Rightarrow> words_if (snd p))"
| "choice_words (CTristate pr) = (case pr of None \<Rightarrow> {} | Some p \<Rightarrow> words_if (snd p))"
| "choice_words (CPrompt pr) = words_if (snd pr)"
| "choice_words COptional = {}"
| "choice_words (CDefault w c) = words_if c"
| "choice_words (CDepends a) = words a"
| "choice_words (CHelp t) = {}"

text \<open>The words in the conditions of a statement, and that each \<^verbatim>\<open>env\<close> option has its argument.\<close>

fun cond_words :: "stmt \<Rightarrow> string set" where
  "cond_words (SConfig w os) = \<Union> (option_words ` set os)"
| "cond_words (SMenuconfig w os) = \<Union> (option_words ` set os)"
| "cond_words (SChoice w os b) = \<Union> (choice_words ` set os) \<union> \<Union> (cond_words ` set b)"
| "cond_words (SIf a b) = words a \<union> \<Union> (cond_words ` set b)"
| "cond_words (SMenu t vs ds b) = \<Union> (words ` set ds) \<union> \<Union> (cond_words ` set b)"
| "cond_words (SComment t ds) = \<Union> (words ` set ds)"

fun env_args_option :: "config_option \<Rightarrow> bool" where
  "env_args_option (OOption os) \<longleftrightarrow> (''env'', None) \<notin> set os"
| "env_args_option c \<longleftrightarrow> True"

fun env_args :: "stmt \<Rightarrow> bool" where
  "env_args (SConfig w os) \<longleftrightarrow> list_all env_args_option os"
| "env_args (SMenuconfig w os) \<longleftrightarrow> list_all env_args_option os"
| "env_args (SChoice w os b) \<longleftrightarrow> list_all env_args b"
| "env_args (SIf a b) \<longleftrightarrow> list_all env_args b"
| "env_args (SMenu t vs ds b) \<longleftrightarrow> list_all env_args b"
| "env_args (SComment t ds) \<longleftrightarrow> True"

text \<open>A state in which the entry with a symbol \<open>s\<close> is the current one.\<close>

definition on_symbol :: "bool \<Rightarrow> kstate \<Rightarrow> bool" where
  "on_symbol b st \<longleftrightarrow> fit b st \<and> m_sym (menus st (current_entry st)) \<noteq> None"

lemma on_symbol_stage: "on_symbol b st \<Longrightarrow> stage st' = stage st \<Longrightarrow> fit b st' \<Longrightarrow> on_symbol b st'"
  by (auto simp: on_symbol_def stage_def pointers_def fun_eq_iff)

lemma adds_total:
  assumes "fit b st"
  shows "b \<or> symbol_mod \<notin> opt_syms d \<Longrightarrow> run False (menu_add_prompt ty t d st) (\<lambda>(p, st'). fit b st')"
    "b \<or> symbol_mod \<notin> opt_syms d \<Longrightarrow> run False (menu_add_expr ty e d st) (fit b)"
    "b \<or> symbol_mod \<notin> opt_syms d \<Longrightarrow> run False (menu_add_symbol ty s d st) (fit b)"
    "b \<or> symbol_mod \<notin> opt_syms d \<Longrightarrow> run False (menu_add_dep d st) (fit b)"
    "fit b (menu_add_visibility d st)"
    "m_sym (menus st (current_entry st)) \<noteq> None \<Longrightarrow> run False (menu_set_type sty st) (\<lambda>(x, st'). fit b st')"
proof -
  note t = menu_add_prop_total [OF assms]
  show "b \<or> symbol_mod \<notin> opt_syms d \<Longrightarrow> run False (menu_add_prompt ty t d st) (\<lambda>(p, st'). fit b st')"
    using t by (simp add: menu_add_prompt_def)
  show "b \<or> symbol_mod \<notin> opt_syms d \<Longrightarrow> run False (menu_add_expr ty e d st) (fit b)"
    "b \<or> symbol_mod \<notin> opt_syms d \<Longrightarrow> run False (menu_add_symbol ty s d st) (fit b)"
    using t by (fastforce simp: menu_add_expr_def menu_add_symbol_def run_False case_prod_unfold)+
  show "b \<or> symbol_mod \<notin> opt_syms d \<Longrightarrow> run False (menu_add_dep d st) (fit b)"
    using fit_check_dep [OF assms, of d] assms by (auto simp: menu_add_dep_def fit_upd_menu)
  show "fit b (menu_add_visibility d st)" using assms by (simp add: menu_add_visibility_def fit_upd_menu)
  show "m_sym (menus st (current_entry st)) \<noteq> None \<Longrightarrow> run False (menu_set_type sty st) (\<lambda>(x, st'). fit b st')"
    using assms by (auto simp: menu_set_type_def)
qed


lemma sym_lookup_on: "on_symbol b st \<Longrightarrow> on_symbol b (snd (sym_lookup n fl st))"
  "on_symbol b st \<Longrightarrow> on_symbol b (snd (parse_symbol w st))" "on_symbol b st \<Longrightarrow> on_symbol b (snd (parse_expr a st))"
  "on_symbol b st \<Longrightarrow> on_symbol b (snd (parse_if c st))" "on_symbol b st \<Longrightarrow> on_symbol b (set_flag s fs st)"
  by (rule on_symbol_stage, assumption, simp, simp add: fit_lookup on_symbol_def)+

lemma on_symbol_run:
  assumes "on_symbol b st" "run False m (\<lambda>x. fit b (g x))" "\<And>x. m = Some x \<Longrightarrow> stage (g x) = stage st"
  shows "run False m (\<lambda>x. on_symbol b (g x))"
  using assms on_symbol_stage [OF assms(1)] by (auto simp: run_False)

lemma on_symbol_adds:
  assumes "on_symbol b st"
  shows "b \<or> symbol_mod \<notin> opt_syms d \<Longrightarrow> run False (menu_add_prompt ty t d st) (\<lambda>x. on_symbol b (snd x))"
    "b \<or> symbol_mod \<notin> opt_syms d \<Longrightarrow> run False (menu_add_expr ty e d st) (on_symbol b)"
    "b \<or> symbol_mod \<notin> opt_syms d \<Longrightarrow> run False (menu_add_symbol ty s d st) (on_symbol b)"
    "b \<or> symbol_mod \<notin> opt_syms d \<Longrightarrow> run False (menu_add_dep d st) (on_symbol b)"
    "run False (menu_set_type sty st) (\<lambda>x. on_symbol b (snd x))"
proof -
  have f: "fit b st" "m_sym (menus st (current_entry st)) \<noteq> None" using assms by (simp_all add: on_symbol_def)
  note t = adds_total [OF f(1), unfolded case_prod_unfold]
  show "b \<or> symbol_mod \<notin> opt_syms d \<Longrightarrow> run False (menu_add_prompt ty t d st) (\<lambda>x. on_symbol b (snd x))"
    by (rule on_symbol_run [OF assms t(1)]) (auto dest: stage_adds(1))
  show "b \<or> symbol_mod \<notin> opt_syms d \<Longrightarrow> run False (menu_add_expr ty e d st) (on_symbol b)"
    by (rule on_symbol_run [OF assms, where g = "\<lambda>x. x", OF t(2)]) (auto dest: stage_adds(2))
  show "b \<or> symbol_mod \<notin> opt_syms d \<Longrightarrow> run False (menu_add_symbol ty s d st) (on_symbol b)"
    by (rule on_symbol_run [OF assms, where g = "\<lambda>x. x", OF t(3)]) (auto dest: stage_adds(3))
  show "b \<or> symbol_mod \<notin> opt_syms d \<Longrightarrow> run False (menu_add_dep d st) (on_symbol b)"
    by (rule on_symbol_run [OF assms, where g = "\<lambda>x. x", OF t(4)]) (auto dest: stage_adds(4))
  show "run False (menu_set_type sty st) (\<lambda>x. on_symbol b (snd x))"
    by (rule on_symbol_run [OF assms t(6) [OF f(2)]]) (auto dest: stage_adds(5))
qed

lemma on_symbol_cond:
  assumes "on_symbol b st" "b \<or> ''m'' \<notin> words_if c"
  shows "b \<or> symbol_mod \<notin> opt_syms (fst (parse_if c st))"
  using assms parse_if_own [of st c] by (auto simp: on_symbol_def fit_def)

lemma prompt_on_symbol:
  assumes "on_symbol b st" "b \<or> ''m'' \<notin> words_if (snd pr)"
  shows "run False (parse_prompt pr st) (on_symbol b)"
  using on_symbol_adds(1) [OF sym_lookup_on(4) [OF assms(1), of "snd pr"] on_symbol_cond [OF assms], of P_PROMPT "fst pr"]
  by (auto simp: parse_prompt_def case_prod_unfold Let_def run_False)

lemma prompt_opt_on_symbol:
  "on_symbol b st \<Longrightarrow> b \<or> ''m'' \<notin> (case pr of None \<Rightarrow> {} | Some p \<Rightarrow> words_if (snd p)) \<Longrightarrow> run False (parse_prompt_opt pr st) (on_symbol b)"
  using prompt_on_symbol by (cases pr) (auto simp: parse_prompt_opt_def)

lemma depends_fit:
  assumes "fit b st" "b \<or> ''m'' \<notin> words a"
  shows "run False (parse_depends a st) (fit b)"
  using adds_total(4) [OF fit_lookup(3) [OF assms(1)], of "Some (fst (parse_expr a st))"] parse_expr_own [of st a] assms
  by (auto simp: parse_depends_def case_prod_unfold Let_def fit_def [of b st])

lemma depends_on_symbol:
  assumes "on_symbol b st" "b \<or> ''m'' \<notin> words a"
  shows "run False (parse_depends a st) (on_symbol b)"
  by (rule on_symbol_run [OF assms(1), where g = "\<lambda>x. x"], rule depends_fit)
    (use assms stage_options(3) in \<open>auto simp: on_symbol_def\<close>)

lemma help_on_symbol: "on_symbol b st \<Longrightarrow> on_symbol b (parse_help t st)"
  by (rule on_symbol_stage, assumption, rule stage_options) (simp add: on_symbol_def parse_help_def fit_upd_menu)

lemma menu_add_option_on_symbol:
  assumes "on_symbol b st"
  shows "run False (menu_add_option env tok a st) (\<lambda>x. on_symbol b (snd x))"
proof (rule on_symbol_run [OF assms])
  have d: "fit b (sym_add_default s x st)" if "fit b st" for s x st
    using that by (simp add: sym_add_default_def case_prod_unfold Let_def fit_lookup)
  have l: "fit b (st\<lparr>sym_env_list := y\<rparr>) = fit b st" "fit b (st\<lparr>sym_defconfig_list := x\<rparr>) = fit b st"
    "x \<noteq> None \<Longrightarrow> fit b st \<Longrightarrow> fit b (st\<lparr>modules_sym := x\<rparr>)" for x y st
    by (simp_all add: fit_def own_ids_def pointers_def links_def)
  show "run False (menu_add_option env tok a st) (\<lambda>x. fit b (snd x))"
    using assms
    by (cases tok) (auto simp: menu_add_option_def prop_add_env_def on_symbol_def Let_def case_prod_unfold l d fit_lookup split: option.split)
qed (use stage_menu_add_option in auto)


lemma parse_all_run:
  assumes "\<And>x st. x \<in> set xs \<Longrightarrow> Q st \<Longrightarrow> run False (f x st) Q" "Q st"
  shows "run False (parse_all f xs st) Q"
  using assms
proof (induction xs arbitrary: st)
  case (Cons x xs)
  from Cons.prems(1) [of x st] Cons.prems(2) have "run False (f x st) Q" by simp
  then show ?case by (auto intro!: Cons.IH Cons.prems(1) elim!: run_mono)
qed simp

lemma config_option_on_symbol:
  assumes "on_symbol b (snd ps)" "b \<or> ''m'' \<notin> option_words c" "env_args_option c"
  shows "run False (parse_config_option env c ps) (\<lambda>ps'. on_symbol b (snd ps'))"
proof -
  obtain errs st where ps: "ps = (errs, st)" "on_symbol b st" using assms(1) by (cases ps) simp
  have pair: "run False (map_option (Pair errs) m) (\<lambda>ps'. on_symbol b (snd ps'))" if "run False m (on_symbol b)" for m
    using that by (auto simp: run_False)
  show ?thesis
  proof (cases c)
    case (OType ty pr)
    show ?thesis unfolding ps OType parse_config_option.simps run_bind
      by (rule run_mono [OF prompt_opt_on_symbol [OF ps(2)]])
        (use assms(2) OType in \<open>auto simp: case_prod_unfold elim!: run_mono dest: on_symbol_adds(5)\<close>)
  next
    case (OPrompt pr)
    then show ?thesis using ps assms(2) prompt_on_symbol [OF ps(2), of pr] by (simp add: pair)
  next
    case (ODefault ty a d)
    have s1: "on_symbol b (snd (parse_expr a st))" by (rule sym_lookup_on(3) [OF ps(2)])
    have "run False (menu_add_expr P_DEFAULT (Some (fst (parse_expr a st))) (fst (parse_if d (snd (parse_expr a st))))
        (snd (parse_if d (snd (parse_expr a st))))) (on_symbol b)"
      by (rule on_symbol_adds(2) [OF sym_lookup_on(4) [OF s1] on_symbol_cond [OF s1]]) (use assms(2) ODefault in simp)
    then show ?thesis unfolding ps ODefault
      by (auto simp: case_prod_unfold Let_def elim!: run_mono dest: on_symbol_adds(5))
  next
    case (OSelect w d)
    have "run False (menu_add_symbol P_SELECT (fst (sym_lookup (Some w) {} (snd (parse_if d st)))) (fst (parse_if d st))
        (snd (sym_lookup (Some w) {} (snd (parse_if d st))))) (on_symbol b)"
      by (rule on_symbol_adds(3) [OF sym_lookup_on(1) [OF sym_lookup_on(4) [OF ps(2)]] on_symbol_cond [OF ps(2)]])
        (use assms(2) OSelect in simp)
    then show ?thesis unfolding ps OSelect by (simp add: case_prod_unfold Let_def pair)
  next
    case (ORange v w d)
    let ?st2 = "snd (parse_symbol w (snd (parse_symbol v st)))"
    have s2: "on_symbol b ?st2" by (intro sym_lookup_on(2) ps(2))
    have "run False (menu_add_expr P_RANGE e (fst (parse_if d ?st2)) (snd (parse_if d ?st2))) (on_symbol b)" for e
      by (rule on_symbol_adds(2) [OF sym_lookup_on(4) [OF s2] on_symbol_cond [OF s2]]) (use assms(2) ORange in simp)
    then show ?thesis unfolding ps ORange by (simp add: case_prod_unfold Let_def pair)
  next
    case (OOption os)
    have "run False (parse_symbol_option env x y) (\<lambda>z. on_symbol b (snd z))" if "x \<in> set os" "on_symbol b (snd y)" for x y
    proof -
      have "run False (menu_add_option env tok a (snd y)) (\<lambda>x. on_symbol b (snd x))" for tok a
        by (rule menu_add_option_on_symbol [OF that(2)])
      then show ?thesis using that assms(3) OOption
        by (cases x; cases y) (auto simp: option_id_def case_prod_unfold elim!: run_mono split: option.splits if_splits)
    qed
    then show ?thesis unfolding OOption parse_config_option.simps using assms(1) by (intro parse_all_run) auto
  next
    case (ODepends a)
    then show ?thesis using ps assms(2) depends_on_symbol [OF ps(2), of a] by (simp add: pair)
  next
    case (OHelp t)
    then show ?thesis using ps help_on_symbol by simp
  qed
qed

lemma choice_option_on_symbol:
  assumes "on_symbol b st" "b \<or> ''m'' \<notin> choice_words c"
  shows "run False (parse_choice_option c st) (on_symbol b)"
proof -
  have typed: "run False (do { st1 \<leftarrow> parse_prompt_opt pr st; map_option snd (menu_set_type sty st1) }) (on_symbol b)"
    if "b \<or> ''m'' \<notin> (case pr of None \<Rightarrow> {} | Some p \<Rightarrow> words_if (snd p))" for pr sty
    unfolding run_bind
    by (rule run_mono [OF prompt_opt_on_symbol [OF assms(1) that]]) (use on_symbol_adds(5) in \<open>fastforce simp: run_False\<close>)
  show ?thesis
  proof (cases c)
    case (CDefault w d)
    have "run False (menu_add_symbol P_DEFAULT (fst (sym_lookup (Some w) {} (snd (parse_if d st)))) (fst (parse_if d st))
        (snd (sym_lookup (Some w) {} (snd (parse_if d st))))) (on_symbol b)"
      by (rule on_symbol_adds(3) [OF sym_lookup_on(1) [OF sym_lookup_on(4) [OF assms(1)]] on_symbol_cond [OF assms(1)]])
        (use assms(2) CDefault in simp)
    then show ?thesis unfolding CDefault by (simp add: case_prod_unfold Let_def)
  qed (use assms typed prompt_on_symbol depends_on_symbol help_on_symbol sym_lookup_on(5) in \<open>auto simp: on_symbol_def [of b st]\<close>)
qed


lemma last_entry_upd_menu: "last_entry (upd_menu m f st) = last_entry st"
  by (simp add: upd_menu_def)

lemma add_entry_state:
  obtains st2 where "pointers st2 = add_entry (pointers st)" "tables st2 = tables st" "m_sym (menus st2 (current_entry st2)) = s"
    "menu_add_entry s st = (case s of None \<Rightarrow> Some st2 | Some sy \<Rightarrow> menu_add_symbol P_SYMBOL sy None st2)"
proof
  let ?k = "next_menu st"
  let ?st2 = "(store_entry (last_entry st) ?k (upd_menu ?k (\<lambda>_. free_menu\<lparr>m_sym := s, m_parent := current_menu st\<rparr>)
      (st\<lparr>next_menu := Suc ?k\<rparr>)))\<lparr>last_entry := AtNext ?k, current_entry := ?k\<rparr>"
  show "pointers ?st2 = add_entry (pointers st)" "tables ?st2 = tables st" "m_sym (menus ?st2 (current_entry ?st2)) = s"
    by (cases "last_entry st"; auto simp: pointers_def links_def tables_def store_entry_def upd_menu_def Let_def free_menu_def fun_eq_iff)+
  show "menu_add_entry s st = (case s of None \<Rightarrow> Some ?st2 | Some sy \<Rightarrow> menu_add_symbol P_SYMBOL sy None ?st2)"
    by (cases s) (simp_all add: menu_add_entry_def Let_def last_entry_upd_menu)
qed

lemma menu_add_entry_fit:
  assumes "fit b st"
  shows "run False (menu_add_entry s st) (\<lambda>st'. fit b st' \<and> (s \<noteq> None \<longrightarrow> on_symbol b st'))"
proof -
  obtain st2 where st2: "pointers st2 = add_entry (pointers st)" "tables st2 = tables st" "m_sym (menus st2 (current_entry st2)) = s"
    "menu_add_entry s st = (case s of None \<Rightarrow> Some st2 | Some sy \<Rightarrow> menu_add_symbol P_SYMBOL sy None st2)"
    by (rule add_entry_state)
  have f: "fit b st2" using assms st2(1,2) ok_add_entry by (simp add: fit_def own_ids_def tables_def)
  show ?thesis
  proof (cases s)
    case (Some sy)
    then have "on_symbol b st2" using f st2(3) by (simp add: on_symbol_def)
    from on_symbol_adds(3) [OF this, of None P_SYMBOL sy] show ?thesis
      unfolding st2(4) unfolding Some option.case by (rule run_mono) (auto simp: on_symbol_def)
  qed (use f st2(4) in simp)
qed

lemma starts_fit:
  assumes "fit b st"
  shows "run False (config_entry_start w st) (on_symbol b)" "run False (choice_start n st) (on_symbol b)"
    "b \<or> ''m'' \<notin> words a \<Longrightarrow> run False (if_start a st) (fit b)" "run False (prompt_entry ty t st) (fit b)"
proof -
  have add: "run False (menu_add_entry (Some s) x) (on_symbol b)" if "fit b x" for s x
    by (rule run_mono [OF menu_add_entry_fit [OF that]]) simp
  have none: "run False (menu_add_entry None x) (fit b)" if "fit b x" for x
    by (rule run_mono [OF menu_add_entry_fit [OF that]]) simp
  show "run False (config_entry_start w st) (on_symbol b)"
    using add fit_lookup(1) [OF assms] by (simp add: config_entry_start_def case_prod_unfold Let_def)
  show "run False (choice_start n st) (on_symbol b)"
    unfolding choice_start_def case_prod_unfold Let_def run_bind
    by (rule run_mono [OF add]) (use fit_lookup(1) [OF assms] on_symbol_adds(2) in auto)
  show "run False (prompt_entry ty t st) (fit b)" unfolding prompt_entry_def run_bind
    by (rule run_mono [OF none [OF assms]]) (use adds_total(1) [of b _ None ty t] in \<open>fastforce simp: run_False\<close>)
  show "run False (if_start a st) (fit b)" if "b \<or> ''m'' \<notin> words a"
    unfolding if_start_def case_prod_unfold Let_def run_bind
    by (rule run_mono [OF none [OF fit_lookup(3) [OF assms]]])
      (use that parse_expr_own [of st a] assms in \<open>auto simp: fit_def [of b st] intro!: adds_total(4)\<close>)
qed


lemma run_with_errs: "run False (f (snd ps)) Q \<Longrightarrow> run False (with_errs f ps) (\<lambda>ps'. Q (snd ps') \<and> f (snd ps) = Some (snd ps'))"
  by (cases ps) (auto simp: with_errs_def run_False)

text \<open>Opening the entry that was added last, and closing it.\<close>

lemma open_fit:
  assumes "fit b st" "fit b st'" "pointers st' = add_entry (pointers st)"
  shows "fit b (menu_add_menu st')"
proof -
  obtain L c ce le k where p: "pointers st = (L, Some c, ce, le, k)" "ok_pointers (L, Some c, ce, le, k)"
    using assms(1) by (cases "pointers st") (auto simp: fit_def)
  obtain L1 where a: "add_entry (L, Some c, ce, le, k) = (L1, Some c, k, AtNext k, Suc k)" "L1 k = (None, None, Some c)"
    using p(2) by (auto simp: Let_def)
  have "ok_pointers (open_menu (add_entry (pointers st)))"
    unfolding p(1) a(1) by (rule ok_open_menu [where n = None and p = "Some c"]) (use ok_add_entry [OF p(2)] a in metis)+
  then show ?thesis using assms(2) pointers_menus(1) [of st'] assms(3)
    by (simp add: fit_def own_ids_def menu_add_menu_def)
qed

lemma close_fit:
  assumes "fit b st" "pointers st = follow ss (open_menu (add_entry (pointers st0)))" "fit b st0"
  shows "run False (menu_end_menu st) (fit b)"
proof -
  obtain L c ce le k where p: "pointers st0 = (L, Some c, ce, le, k)" "ok_pointers (L, Some c, ce, le, k)"
    using assms(3) by (cases "pointers st0") (auto simp: fit_def)
  define s where "s = SIf (PSymbol (T_WORD [])) ss"
  have "ok_pointers (follow [s] (pointers st0))" unfolding p(1) by (rule ok_follow [OF p(2)])
  moreover have "follow [s] (pointers st0) = close_menu (pointers st)" by (simp add: s_def assms(2))
  moreover obtain cm where "current_menu st = Some cm" using assms(1) by (auto simp: fit_def pointers_def)
  ultimately show ?thesis using assms(1) pointers_menus(2) [of st]
    by (auto simp: menu_end_menu_def fit_def own_ids_def)
qed

lemma block_fit:
  assumes "fit b (snd ps0)" "fit b (snd ps)" "pointers (snd ps) = add_entry (pointers (snd ps0))"
    and "fit b (snd (map_prod id menu_add_menu ps)) \<Longrightarrow>
      run False (parse_stmts env ss (map_prod id menu_add_menu ps)) (\<lambda>ps'. fit b (snd ps'))"
  shows "run False (parse_stmts env ss (map_prod id menu_add_menu ps)) (\<lambda>ps2. run False (with_errs menu_end_menu ps2) (\<lambda>ps'. fit b (snd ps')))"
proof -
  have "fit b (snd (map_prod id menu_add_menu ps))" using open_fit [OF assms(1-3)] by simp
  from assms(4) [OF this] obtain ps2 where ps2: "parse_stmts env ss (map_prod id menu_add_menu ps) = Some ps2" "fit b (snd ps2)"
    by (auto simp: run_False)
  have "pointers (snd ps2) = follow ss (open_menu (add_entry (pointers (snd ps0))))"
    using parse_follow(2) [OF ps2(1)] assms(3) by (simp add: pointers_menus(1))
  from run_with_errs [where f = menu_end_menu and ps = ps2, OF close_fit [OF ps2(2) this assms(1)]]
  show ?thesis using ps2(1) by (auto elim: run_mono)
qed


lemma options_fit:
  assumes "on_symbol b (snd ps)" "b \<or> ''m'' \<notin> \<Union> (option_words ` set os)" "list_all env_args_option os"
  shows "run False (parse_all (parse_config_option env) os ps) (\<lambda>ps'. fit b (snd ps'))"
proof -
  have "run False (parse_all (parse_config_option env) os ps) (\<lambda>ps'. on_symbol b (snd ps'))"
    by (rule parse_all_run) (use assms in \<open>auto intro!: config_option_on_symbol simp: list_all_iff\<close>)
  then show ?thesis by (rule run_mono) (simp add: on_symbol_def)
qed

lemma clauses_fit:
  "fit b st \<Longrightarrow> b \<or> ''m'' \<notin> \<Union> (words ` set ds) \<Longrightarrow> run False (parse_all parse_depends ds st) (fit b)"
  "fit b st \<Longrightarrow> run False (parse_all parse_visible vs st) (fit b)"
  "on_symbol b st \<Longrightarrow> b \<or> ''m'' \<notin> \<Union> (choice_words ` set cs) \<Longrightarrow> run False (parse_all parse_choice_option cs st) (fit b)"
proof -
  show "fit b st \<Longrightarrow> b \<or> ''m'' \<notin> \<Union> (words ` set ds) \<Longrightarrow> run False (parse_all parse_depends ds st) (fit b)"
    by (rule parse_all_run) (auto intro!: depends_fit)
  show "fit b st \<Longrightarrow> run False (parse_all parse_visible vs st) (fit b)"
    by (rule parse_all_run) (auto simp: parse_visible_def case_prod_unfold Let_def intro!: adds_total(5) fit_lookup)
  assume "on_symbol b st" "b \<or> ''m'' \<notin> \<Union> (choice_words ` set cs)"
  then have "run False (parse_all parse_choice_option cs st) (on_symbol b)"
    by (intro parse_all_run) (auto intro!: choice_option_on_symbol)
  then show "run False (parse_all parse_choice_option cs st) (fit b)" by (rule run_mono) (simp add: on_symbol_def)
qed

lemma parse_total:
  "fit b (snd ps) \<Longrightarrow> b \<or> ''m'' \<notin> cond_words s \<Longrightarrow> env_args s \<Longrightarrow> run False (parse_stmt env s ps) (\<lambda>ps'. fit b (snd ps'))"
  "fit b (snd ps) \<Longrightarrow> b \<or> ''m'' \<notin> \<Union> (cond_words ` set ss) \<Longrightarrow> list_all env_args ss \<Longrightarrow>
    run False (parse_stmts env ss ps) (\<lambda>ps'. fit b (snd ps'))"
proof (induction env s ps and env ss ps rule: parse_stmt_parse_stmts.induct)
  case (1 env w os ps)
  from run_with_errs [where ps = ps and f = "config_entry_start w", OF starts_fit(1) [OF 1(1), of w]]
  show ?case using 1 by (auto intro!: options_fit elim!: run_mono)
next
  case (2 env w os ps)
  have e: "fit b st \<Longrightarrow> fit b (menuconfig_end st)" for b st by (simp add: menuconfig_end_def split: option.split)
  from run_with_errs [where ps = ps and f = "config_entry_start w", OF starts_fit(1) [OF 2(1), of w]]
  show ?case using 2 unfolding parse_stmt.simps run_bind
    by (elim run_mono) (rule run_mono [OF options_fit], auto simp: with_errs_def e)
next
  case (3 env w os ss ps)
  from starts_fit(2) [OF 3(2), of w] obtain st1 where st1: "choice_start w (snd ps) = Some st1" "on_symbol b st1" by (auto simp: run_False)
  from clauses_fit(3) [OF st1(2), of os] 3(3) obtain st2 where st2: "parse_all parse_choice_option os st1 = Some st2" "fit b st2"
    by (auto simp: run_False)
  have p: "pointers st2 = add_entry (pointers (snd ps))" using pointers_starts(2) [OF st1(1)] pointers_lists(2) [OF st2(1)] by simp
  have "run False (parse_stmts env ss (map_prod id menu_add_menu (fst ps, st2))) (\<lambda>ps2. run False (with_errs menu_end_menu ps2) (\<lambda>ps'. fit b (snd ps')))"
    by (rule block_fit [OF 3(2)]) (use 3 st1 st2 p in \<open>auto simp: with_errs_def case_prod_unfold\<close>)
  then show ?case using st1(1) st2(1) by (simp add: with_errs_def case_prod_unfold)
next
  case (4 env a ss ps)
  from starts_fit(3) [OF 4(2), of a] 4(3) obtain st1 where st1: "if_start a (snd ps) = Some st1" "fit b st1" by (auto simp: run_False)
  have "run False (parse_stmts env ss (map_prod id menu_add_menu (fst ps, st1))) (\<lambda>ps2. run False (with_errs menu_end_menu ps2) (\<lambda>ps'. fit b (snd ps')))"
    by (rule block_fit [OF 4(2)]) (use 4 st1 pointers_starts(3) [OF st1(1)] in \<open>auto simp: with_errs_def case_prod_unfold\<close>)
  then show ?case using st1(1) by (simp add: with_errs_def case_prod_unfold)
next
  case (5 env t vs ds ss ps)
  from starts_fit(4) [OF 5(2), of P_MENU t] obtain st1 where st1: "prompt_entry P_MENU t (snd ps) = Some st1" "fit b st1" by (auto simp: run_False)
  from clauses_fit(2) [OF st1(2), of vs] obtain st2 where st2: "parse_all parse_visible vs st1 = Some st2" "fit b st2" by (auto simp: run_False)
  from clauses_fit(1) [OF st2(2), of ds] 5(3) obtain st3 where st3: "parse_all parse_depends ds st2 = Some st3" "fit b st3" by (auto simp: run_False)
  have p: "pointers st3 = add_entry (pointers (snd ps))"
    using pointers_starts(4) [OF st1(1)] pointers_lists(4) [OF st2(1)] pointers_lists(3) [OF st3(1)] by simp
  have "run False (parse_stmts env ss (map_prod id menu_add_menu (fst ps, st3))) (\<lambda>ps2. run False (with_errs menu_end_menu ps2) (\<lambda>ps'. fit b (snd ps')))"
    by (rule block_fit [OF 5(2)]) (use 5 st1 st2 st3 p in \<open>auto simp: with_errs_def case_prod_unfold\<close>)
  then show ?case using st1(1) st2(1) st3(1) by (simp add: with_errs_def case_prod_unfold)
next
  case (6 env t ds ps)
  from starts_fit(4) [OF 6(1), of P_COMMENT t] obtain st1 where st1: "prompt_entry P_COMMENT t (snd ps) = Some st1" "fit b st1" by (auto simp: run_False)
  from clauses_fit(1) [OF st1(2), of ds] 6(2) show ?case using st1 by (auto simp: with_errs_def case_prod_unfold run_False)
next
  case (8 env s ss ps)
  from 8 obtain ps1 where "parse_stmt env s ps = Some ps1" "fit b (snd ps1)" by (auto simp: run_False)
  then show ?case using 8 by auto
qed simp


lemma parse_file_total:
  assumes "''m'' \<notin> \<Union> (cond_words ` set ss)" "list_all env_args ss"
  shows "\<exists>errs st. parse_file release env mainmenu ss init_state = Some (errs, st)"
proof -
  let ?st0 = "menu_init (sym_init release init_state)"
  have "fit False init_state"
    by (simp add: fit_def own_ids_def pointers_def links_def init_state_def free_menu_def)
  then have "fit False (sym_init release init_state)"
    by (simp add: sym_init_def sym_add_default_def case_prod_unfold Let_def fit_lookup)
  moreover have "links (sym_init release init_state) = links init_state"
  proof -
    have "pointers (sym_init release init_state) = pointers init_state"
      by (rule pointers_stage) (simp add: sym_init_def sym_add_default_def case_prod_unfold Let_def)
    then show ?thesis by (simp add: pointers_def)
  qed
  ultimately have "fit False ?st0"
    by (auto simp: fit_def own_ids_def menu_init_def pointers_def links_def init_state_def free_menu_def fun_eq_iff)
  from adds_total(1) [OF this, of None P_MENU "''Buildroot Configuration''"] obtain p st1 where
    st1: "menu_add_prompt P_MENU ''Buildroot Configuration'' None ?st0 = Some (p, st1)" "fit False st1"
    by (auto simp: run_False)
  let ?st2 = "upd_menu rootmenu (\<lambda>r. r\<lparr>m_prompt := Some p\<rparr>) st1"
  have "fit False ?st2" using st1(2) by (simp add: fit_upd_menu)
  moreover from adds_total(1) [OF this, of None P_MENU] have
    "\<exists>q st3. menu_add_prompt P_MENU t None ?st2 = Some (q, st3) \<and> fit False st3" for t by (auto simp: run_False)
  ultimately obtain st3 where st3: "(case mainmenu of None \<Rightarrow> Some ?st2 | Some t \<Rightarrow> map_option snd (menu_add_prompt P_MENU t None ?st2)) = Some st3"
    "fit False st3" by (cases mainmenu) (auto, fastforce)
  then show ?thesis using st1 parse_total(2) [of False "(0, st3)" ss env] assms
    by (auto simp: parse_file_def run_False Let_def)
qed


lemma parse_file_tree:
  assumes "parse_file release env mainmenu ss init_state = Some (errs, st)"
  shows "forest (links st) rootmenu (shape 1 ss) \<and> links st rootmenu = (first_entry (shape 1 ss), None, None) \<and>
    preorder (shape 1 ss) = [1..<next_menu st] \<and> next_menu st = 1 + entry_count ss"
proof -
  obtain p st1 st2 where st: "menu_add_prompt P_MENU ''Buildroot Configuration'' None (menu_init (sym_init release init_state)) = Some (p, st1)"
    "(case mainmenu of None \<Rightarrow> Some (upd_menu rootmenu (\<lambda>r. r\<lparr>m_prompt := Some p\<rparr>) st1)
       | Some t \<Rightarrow> map_option snd (menu_add_prompt P_MENU t None (upd_menu rootmenu (\<lambda>r. r\<lparr>m_prompt := Some p\<rparr>) st1))) = Some st2"
    "parse_stmts env ss (0, st2) = Some (errs, st)"
    using assms by (auto simp: parse_file_def Let_def elim!: bind_eq_SomeE)
  have "pointers (menu_init x) = (links x, Some 0, 0, AtList 0, next_menu x)" for x
    by (simp add: menu_init_def pointers_def links_def fun_eq_iff)
  moreover have "links (sym_init release init_state) = (\<lambda>_. (None, None, None))" "next_menu (sym_init release init_state) = 1"
  proof -
    have "pointers (sym_init release init_state) = pointers init_state"
      by (rule pointers_stage) (simp add: sym_init_def sym_add_default_def case_prod_unfold Let_def)
    then show "links (sym_init release init_state) = (\<lambda>_. (None, None, None))" "next_menu (sym_init release init_state) = 1"
      by (simp_all add: pointers_def links_def init_state_def free_menu_def fun_eq_iff)
  qed
  ultimately have "pointers st2 = (\<lambda>_. (None, None, None), Some 0, 0, AtList 0, 1)"
    using pointers_adds(1) [OF st(1)] st(2) by (auto simp: stage_upd_menu [THEN pointers_stage] dest: pointers_adds(1) split: option.splits)
  then obtain L' ce' le' where "pointers st = (L', Some 0, ce', le', 1 + entry_count ss)" "forest L' 0 (shape 1 ss)"
    "L' 0 = (first_entry (shape 1 ss), None, None)"
    using parse_follow(2) [OF st(3)] follow_shape [of _ "\<lambda>_. (None, None, None)" 0 0 "AtList 0" 1 ss, OF refl] by auto
  then show ?thesis by (simp add: pointers_def preorder_shape)
qed

text \<open>
  Property C22: the parser builds the tree of its statements. From the initial state, when the actions of
  the grammar have run on a list of statements, the menu entries below the root are linked, through
  \<^verbatim>\<open>list\<close>, \<^verbatim>\<open>next\<close> and \<^verbatim>\<open>parent\<close>, as the statements are nested, and in the order of the statements.
\<close>

theorem parse_builds_tree:
  assumes "parse_file release env mainmenu ss init_state = Some (errs, st)"
  shows "forest (links st) rootmenu (shape 1 ss) \<and> links st rootmenu = (first_entry (shape 1 ss), None, None) \<and>
    preorder (shape 1 ss) = [1..<next_menu st]"
  using parse_file_tree [OF assms] by blast

definition ex_stmts :: "stmt list" where
  "ex_stmts = [SMenu ''Target'' [] [] [SConfig ''A'' [OType S_BOOLEAN (Some (''Alpha'', None))], SComment ''note'' []],
     SConfig ''B'' [ODefault S_UNKNOWN (PSymbol (T_WORD ''y'')) (Some (PNot (PSymbol (T_WORD ''A''))))]]"

lemma ex_stmts_ok: "''m'' \<notin> \<Union> (cond_words ` set ex_stmts)" "list_all env_args ex_stmts"
  by (simp_all add: ex_stmts_def words_if_def)


text \<open>The menu around one of two symbols becomes an inner node.\<close>

lemma ex_shape: "shape 1 ex_stmts = [Entry 1 [Entry 2 [], Entry 3 []], Entry 4 []]"
  by (simp add: ex_stmts_def inside_def eval_nat_numeral)

theorem parse_builds_tree_witness:
  "\<exists>errs st. parse_file ''4.9'' (\<lambda>_. None) None ex_stmts init_state = Some (errs, st) \<and>
    forest (links st) rootmenu [Entry 1 [Entry 2 [], Entry 3 []], Entry 4 []] \<and> links st rootmenu = (Some 1, None, None)"
proof -
  obtain errs st where "parse_file ''4.9'' (\<lambda>_. None) None ex_stmts init_state = Some (errs, st)"
    using parse_file_total [OF ex_stmts_ok] by metis
  from this parse_builds_tree [OF this, unfolded ex_shape] show ?thesis by auto
qed

end
