(* ===== verification/Kconf_Dups.thy ===== *)
theory Kconf_Dups
  imports Kconf_Expr_Props
begin

text \<open>
  \<^verbatim>\<open>expr_eliminate_dups\<close> of \<^verbatim>\<open>support/kconfig/expr.c\<close>. The code works in place, on two pointers into the
  operands of one chain of \<^verbatim>\<open>E_OR\<close> or \<^verbatim>\<open>E_AND\<close> nodes. Here the tree is a value and a pointer is the
  path of its location: for each node on the way whether it goes to the right.
\<close>

section \<open>Locations in an expression\<close>

type_synonym path = "bool list"

fun at :: "expr \<Rightarrow> path \<Rightarrow> expr" where
  "at (XOr l r) (b # p) = at (if b then r else l) p"
| "at (XAnd l r) (b # p) = at (if b then r else l) p"
| "at e p = e"

fun put :: "expr \<Rightarrow> path \<Rightarrow> expr \<Rightarrow> expr" where
  "put (XOr l r) (b # p) x = (if b then XOr l (put r p x) else XOr (put l p x) r)"
| "put (XAnd l r) (b # p) x = (if b then XAnd l (put r p x) else XAnd (put l p x) r)"
| "put e p x = x"

section \<open>Joining pairs of operands\<close>

definition join :: "kstate \<Rightarrow> expr_type \<Rightarrow> expr \<Rightarrow> expr \<Rightarrow> expr option" where
  "join st ty e1 e2 = (if ty = E_OR then expr_join_or st e1 e2 else expr_join_and st e1 e2)"

text \<open>
  \<^verbatim>\<open>expr_eliminate_dups1\<close> for the locations \<open>p\<close> and \<open>q\<close> of the tree; the number is \<^verbatim>\<open>trans_count\<close>.
  The first argument bounds the depth of the calls.
\<close>

fun expr_eliminate_dups1 ::
    "nat \<Rightarrow> kstate \<Rightarrow> expr_type \<Rightarrow> path \<Rightarrow> path \<Rightarrow> expr \<times> nat \<Rightarrow> (expr \<times> nat) option" where
  "expr_eliminate_dups1 0 st ty p q x = None"
| "expr_eliminate_dups1 (Suc n) st ty p q (t, c) =
    (if dest_two ty (at t p) \<noteq> None then
       do { x \<leftarrow> expr_eliminate_dups1 n st ty (p @ [False]) q (t, c);
            expr_eliminate_dups1 n st ty (p @ [True]) q x }
     else if dest_two ty (at t q) \<noteq> None then
       do { x \<leftarrow> expr_eliminate_dups1 n st ty p (q @ [False]) (t, c);
            expr_eliminate_dups1 n st ty p (q @ [True]) x }
     else if p = q then Some (t, c)
     else
       do { (e1, c1) \<leftarrow> (if is_two (etype (at t p))
                        then expr_eliminate_dups1 n st (etype (at t p)) [] [] (at t p, c)
                        else Some (at t p, c));
            let t1 = put t p e1;
            Some (case join st ty e1 (at t1 q) of
                    None \<Rightarrow> (t1, c1)
                  | Some tmp \<Rightarrow> (put (put t1 p (neutral ty)) q tmp, Suc c1)) })"

section \<open>Operands the others contradict\<close>

text \<open>
  Does the negation of the operand occur among the operands of \<open>e2\<close>? The copies the code makes are
  those of a condition; a node that cannot be copied would be a null pointer.
\<close>

definition contradicts :: "kstate \<Rightarrow> expr \<Rightarrow> expr \<Rightarrow> bool option" where
  "contradicts st e1 e2 =
    do { x1 \<leftarrow> expr_copy e1;
         x2 \<leftarrow> expr_copy e2;
         let tmp1 = expr_transform st (expr_alloc_one E_NOT x1);
         Some (if etype e1 = E_OR
               then (case expr_extract_eq_and tmp1 x2 of (tmp, f1, f2) \<Rightarrow> expr_is_yes (Some f1))
               else (case expr_extract_eq_or tmp1 x2 of (tmp, f1, f2) \<Rightarrow> expr_is_no (Some f1))) }"

text \<open>
  \<^verbatim>\<open>expr_eliminate_dups2\<close>. When the second location holds a node of the type, the code goes on to
  compare with the whole of it after its operands.
\<close>

fun expr_eliminate_dups2 ::
    "nat \<Rightarrow> kstate \<Rightarrow> expr_type \<Rightarrow> path \<Rightarrow> path \<Rightarrow> expr \<times> nat \<Rightarrow> (expr \<times> nat) option" where
  "expr_eliminate_dups2 0 st ty p q x = None"
| "expr_eliminate_dups2 (Suc n) st ty p q (t, c) =
    (if dest_two ty (at t p) \<noteq> None then
       do { x \<leftarrow> expr_eliminate_dups2 n st ty (p @ [False]) q (t, c);
            expr_eliminate_dups2 n st ty (p @ [True]) q x }
     else
       do { (t1, c1) \<leftarrow> (if dest_two ty (at t q) \<noteq> None
                        then do { x \<leftarrow> expr_eliminate_dups2 n st ty p (q @ [False]) (t, c);
                                  expr_eliminate_dups2 n st ty p (q @ [True]) x }
                        else Some (t, c));
            if p = q \<or> \<not> is_two (etype (at t1 p)) then Some (t1, c1)
            else
              do { (e1, c2) \<leftarrow> expr_eliminate_dups2 n st (etype (at t1 p)) [] [] (at t1 p, c1);
                   let t2 = put t1 p e1;
                   b \<leftarrow> contradicts st e1 (at t2 q);
                   Some (if b then (put t2 p (if etype e1 = E_OR then expr_alloc_symbol symbol_no
                                              else expr_alloc_symbol symbol_yes), Suc c2)
                         else (t2, c2)) } })"

text \<open>The loop of \<^verbatim>\<open>expr_eliminate_dups\<close>; the bounds of the calls are those the theorem below justifies.\<close>

definition call_depth :: "expr \<Rightarrow> nat" where
  "call_depth e = Suc (size e) * Suc (size e)"

fun dups_loop :: "nat \<Rightarrow> kstate \<Rightarrow> expr \<Rightarrow> expr option" where
  "dups_loop n st e =
    do { (e2, c2) \<leftarrow> (if is_two (etype e)
                     then do { (e1, c1) \<leftarrow> expr_eliminate_dups1 (call_depth e) st (etype e) [] [] (e, 0);
                               expr_eliminate_dups2 (call_depth e) st (etype e1) [] [] (e1, c1) }
                     else Some (e, 0));
         if c2 = 0 then Some e2
         else (case n of 0 \<Rightarrow> None | Suc k \<Rightarrow> dups_loop k st (expr_eliminate_yn e2)) }"

declare dups_loop.simps [simp del]

definition expr_eliminate_dups :: "kstate \<Rightarrow> expr option \<Rightarrow> expr option option" where
  "expr_eliminate_dups st e =
    (case e of None \<Rightarrow> Some None | Some x \<Rightarrow> map_option Some (dups_loop (size x) st x))"

end
