(* ===== verification/Kconf_Dups_Props.thy ===== *)
theory Kconf_Dups_Props
  imports Kconf_Dups
begin

text \<open>
  \<^verbatim>\<open>expr_eliminate_dups\<close> ends, shrinks the condition, and keeps its value while no symbol is \<^verbatim>\<open>m\<close>.
\<close>

section \<open>Chains of one operator\<close>

lemma alloc_two [simp]:
  assumes "is_two ty"
  shows "dest_two ty (expr_alloc_two ty l r) = Some (l, r)" "size (expr_alloc_two ty l r) = Suc (size l + size r)"
    "expr_alloc_two ty l r = expr_alloc_two ty l' r' \<longleftrightarrow> l = l' \<and> r = r'"
  using assms by (auto simp: is_two_def)

text \<open>The locations of the operands of a chain, and that two trees have the same chain.\<close>

fun spine :: "expr_type \<Rightarrow> expr \<Rightarrow> path \<Rightarrow> bool" where
  "spine ty t [] \<longleftrightarrow> True"
| "spine ty t (b # p) \<longleftrightarrow> (case dest_two ty t of None \<Rightarrow> False | Some (l, r) \<Rightarrow> spine ty (if b then r else l) p)"

function skel :: "expr_type \<Rightarrow> expr \<Rightarrow> expr \<Rightarrow> bool" where
  "skel ty t t' \<longleftrightarrow>
    (case (dest_two ty t, dest_two ty t') of
       (Some (l, r), Some (l', r')) \<Rightarrow> skel ty l l' \<and> skel ty r r'
     | (None, None) \<Rightarrow> True
     | _ \<Rightarrow> False)"
  by pat_completeness auto
termination by (relation "measure (\<lambda>(ty, t, t'). size t)") (auto dest!: dest_two_size [OF sym])

declare skel.simps [simp del]

lemma skel_two [simp]:
  "is_two ty \<Longrightarrow> skel ty (expr_alloc_two ty l r) t' \<longleftrightarrow> (\<exists>l' r'. t' = expr_alloc_two ty l' r' \<and> skel ty l l' \<and> skel ty r r')"
  by (cases "dest_two ty t'") (auto simp: skel.simps [of ty "expr_alloc_two ty l r"] dest_two_Some)

lemma skel_leaf: "dest_two ty t = None \<Longrightarrow> skel ty t t' \<longleftrightarrow> dest_two ty t' = None"
  by (simp add: skel.simps [of ty t] split: option.split)

lemma chain_cases:
  obtains (two) l r where "is_two ty" "t = expr_alloc_two ty l r" "dest_two ty t = Some (l, r)" "size t = Suc (size l + size r)"
  | (leaf) "dest_two ty t = None"
proof (cases "dest_two ty t")
  case (Some a)
  obtain l r where a: "a = (l, r)" by (cases a)
  show thesis by (rule two) (use Some a dest_two_size [of ty t l r] in \<open>simp_all add: dest_two_Some\<close>)
qed (rule leaf)

lemma skel_refl: "skel ty t t"
proof (induction "size t" arbitrary: t rule: less_induct)
  case less
  show ?case by (cases rule: chain_cases [of ty t]) (use less in \<open>auto simp: skel_leaf\<close>)
qed

lemma skel_trans: "skel ty t t' \<Longrightarrow> skel ty t' t'' \<Longrightarrow> skel ty t t''"
proof (induction "size t" arbitrary: t t' t'' rule: less_induct)
  case less
  show ?case
  proof (cases rule: chain_cases [of ty t])
    case (two l r)
    then obtain l' r' where 1: "t' = expr_alloc_two ty l' r'" "skel ty l l'" "skel ty r r'" using less.prems(1) by auto
    then obtain l'' r'' where 2: "t'' = expr_alloc_two ty l'' r''" "skel ty l' l''" "skel ty r' r''" using less.prems(2) two(1) by auto
    have "skel ty l l''" "skel ty r r''" by (rule less.hyps [OF _ 1(2) 2(2)], use two in simp, rule less.hyps [OF _ 1(3) 2(3)], use two in simp)
    then show ?thesis using two 2(1) by simp
  qed (use less in \<open>auto simp: skel_leaf\<close>)
qed

lemma at_two [simp]:
  "is_two ty \<Longrightarrow> at (expr_alloc_two ty l r) (b # p) = at (if b then r else l) p"
  "is_two ty \<Longrightarrow> put (expr_alloc_two ty l r) (b # p) x = (if b then expr_alloc_two ty l (put r p x) else expr_alloc_two ty (put l p x) r)"
  by (auto simp: is_two_def)

lemma at_nil [simp]: "at t [] = t" "put t [] x = x"
  by (cases t; simp)+

lemma spine_two [simp]: "is_two ty \<Longrightarrow> spine ty (expr_alloc_two ty l r) (b # p) \<longleftrightarrow> spine ty (if b then r else l) p"
  by (auto simp: is_two_def)

lemma spineE:
  assumes "spine ty t (b # p)"
  obtains l r where "is_two ty" "t = expr_alloc_two ty l r" "spine ty (if b then r else l) p"
  using assms by (cases rule: chain_cases [of ty t]) auto

lemma skel_spine:
  "skel ty t t' \<Longrightarrow> spine ty t p \<Longrightarrow> spine ty t' p \<and> (dest_two ty (at t' p) = None \<longleftrightarrow> dest_two ty (at t p) = None)"
proof (induction p arbitrary: t t')
  case Nil
  then show ?case by (cases rule: chain_cases [of ty t]) (auto simp: skel_leaf dest_two_Some)
next
  case (Cons b p)
  from Cons.prems(2) obtain l r where t: "is_two ty" "t = expr_alloc_two ty l r" "spine ty (if b then r else l) p" by (rule spineE)
  then obtain l' r' where "t' = expr_alloc_two ty l' r'" "skel ty l l'" "skel ty r r'" using Cons.prems(1) by auto
  then show ?case using Cons.IH t by (cases b) simp_all
qed

lemma spine_more: "spine ty t p \<Longrightarrow> dest_two ty (at t p) \<noteq> None \<Longrightarrow> spine ty t (p @ [b])"
proof (induction p arbitrary: t)
  case Nil
  then show ?case by (cases rule: chain_cases [of ty t]) auto
next
  case (Cons a p)
  from Cons.prems(1) show ?case by (rule spineE) (use Cons in auto)
qed

lemma spine_size: "spine ty t p \<Longrightarrow> size (at t p) + length p \<le> size t"
proof (induction p arbitrary: t)
  case (Cons b p)
  from Cons.prems show ?case
    by (rule spineE) (use Cons.IH in \<open>fastforce split: if_splits\<close>)
qed simp

lemma put_size: "spine ty t p \<Longrightarrow> size (put t p x) + size (at t p) = size t + size x"
proof (induction p arbitrary: t)
  case (Cons b p)
  from Cons.prems show ?case
    by (rule spineE) (use Cons.IH in \<open>fastforce split: if_splits\<close>)
qed simp

lemma at_put: "spine ty t p \<Longrightarrow> at (put t p x) p = x"
proof (induction p arbitrary: t)
  case (Cons b p)
  from Cons.prems show ?case by (rule spineE) (use Cons.IH in auto)
qed simp

lemma at_put_other:
  assumes "spine ty t p" "spine ty t q" "dest_two ty (at t p) = None" "dest_two ty (at t q) = None" "p \<noteq> q"
  shows "at (put t p x) q = at t q"
  using assms
proof (induction p arbitrary: t q)
  case Nil
  then show ?case by (cases q) auto
next
  case (Cons b p)
  from Cons.prems(1) obtain l r where t: "is_two ty" "t = expr_alloc_two ty l r" "spine ty (if b then r else l) p" by (rule spineE)
  show ?case
  proof (cases q)
    case Nil
    then show ?thesis using Cons.prems(4) t by (simp add: dest_two_Some)
  next
    case (Cons b' q')
    then show ?thesis using t Cons.prems Cons.IH [of "if b then r else l" q'] by (auto split: if_splits)
  qed
qed

lemma skel_put:
  "spine ty t p \<Longrightarrow> dest_two ty (at t p) = None \<Longrightarrow> dest_two ty x = None \<Longrightarrow> skel ty t (put t p x)"
proof (induction p arbitrary: t)
  case Nil
  then show ?case by (simp add: skel_leaf)
next
  case (Cons b p)
  from Cons.prems(1) show ?case by (rule spineE) (use Cons skel_refl in auto)
qed

section \<open>Values of chains\<close>

lemma chain_val:
  assumes "is_two ty" "const_symbols st" "spine ty t p"
  obtains R where "\<And>x. expr_val st (put t p x) = bop ty (expr_val st x) R"
proof -
  have "\<exists>R. \<forall>x. expr_val st (put t p x) = bop ty (expr_val st x) R" using assms(3)
  proof (induction p arbitrary: t)
    case Nil
    then show ?case using assms(1,2) by (intro exI [of _ "expr_val st (neutral ty)"]) (simp add: expr_val_neutral)
  next
    case (Cons b p)
    from Cons.prems obtain l r where t: "t = expr_alloc_two ty l r" "spine ty (if b then r else l) p" by (rule spineE)
    then obtain R where R: "\<And>x. expr_val st (put (if b then r else l) p x) = bop ty (expr_val st x) R" using Cons.IH by blast
    have "expr_val st (put t (b # p) x) = bop ty (expr_val st x) (bop ty R (expr_val st (if b then l else r)))" for x
      using R [of x] assms(1) by (cases b) (auto simp: t expr_val_alloc_two bop_laws)
    then show ?case by blast
  qed
  then show thesis using that by blast
qed

text \<open>The value of a chain with two operands singled out.\<close>

lemma chain_val2:
  assumes "is_two ty" "const_symbols st" "spine ty t p" "spine ty t q" "dest_two ty (at t p) = None" "dest_two ty (at t q) = None" "p \<noteq> q"
  obtains R where "\<And>x y. expr_val st (put (put t p x) q y) = bop ty (bop ty (expr_val st x) (expr_val st y)) R"
proof -
  have "\<exists>R. \<forall>x y. expr_val st (put (put t p x) q y) = bop ty (bop ty (expr_val st x) (expr_val st y)) R" using assms(3-7)
  proof (induction p arbitrary: t q)
    case Nil
    then show ?case by (cases q) auto
  next
    case (Cons b p)
    from Cons.prems(1) obtain l r where t: "t = expr_alloc_two ty l r" "spine ty (if b then r else l) p" by (rule spineE)
    obtain b' q' where q: "q = b' # q'" using Cons.prems(4) t(1) assms(1) by (cases q) auto
    let ?u = "if b then r else l" and ?w = "if b then l else r"
    have sq: "spine ty (if b' then r else l) q'" using Cons.prems(2) q t(1) assms(1) by simp
    show ?case
    proof (cases "b = b'")
      case True
      then obtain R where R: "\<And>x y. expr_val st (put (put ?u p x) q' y) = bop ty (bop ty (expr_val st x) (expr_val st y)) R"
        using Cons.IH [of ?u q'] Cons.prems t q sq assms(1) by auto
      have "expr_val st (put (put t (b # p) x) q y) = bop ty (bop ty (expr_val st x) (expr_val st y)) (bop ty R (expr_val st ?w))" for x y
        using R [of x y] assms(1) True by (cases b) (auto simp: t q expr_val_alloc_two bop_laws)
      then show ?thesis by blast
    next
      case False
      then have sw: "spine ty ?w q'" using sq by (cases b; cases b') auto
      obtain R1 R2 where R: "\<And>x. expr_val st (put ?u p x) = bop ty (expr_val st x) R1" "\<And>y. expr_val st (put ?w q' y) = bop ty (expr_val st y) R2"
        using chain_val [OF assms(1,2) t(2)] chain_val [OF assms(1,2) sw] by metis
      have "expr_val st (put (put t (b # p) x) q y) = bop ty (bop ty (expr_val st x) (expr_val st y)) (bop ty R1 R2)" for x y
        using R(1) [of x] R(2) [of y] assms(1) False by (cases b; cases b') (auto simp: t q expr_val_alloc_two bop_laws)
      then show ?thesis by blast
    qed
  qed
  then show thesis using that by blast
qed

lemma put_at: "spine ty t p \<Longrightarrow> put t p (at t p) = t"
proof (induction p arbitrary: t)
  case (Cons b p)
  from Cons.prems show ?case by (rule spineE) (use Cons.IH in auto)
qed simp

lemma put_put: "spine ty t p \<Longrightarrow> put (put t p x) p y = put t p y"
proof (induction p arbitrary: t)
  case (Cons b p)
  from Cons.prems show ?case by (rule spineE) (use Cons.IH in auto)
qed simp

text \<open>A chain is bounded by each of its operands.\<close>

lemma chain_absorb:
  assumes "is_two ty" "const_symbols st" "spine ty t p"
  shows "bop ty (expr_val st (at t p)) (expr_val st t) = expr_val st t"
proof -
  obtain R where "\<And>x. expr_val st (put t p x) = bop ty (expr_val st x) R" using chain_val [OF assms] by blast
  from this [of "at t p"] have "expr_val st t = bop ty (expr_val st (at t p)) R" using put_at [OF assms(3)] by simp
  then show ?thesis using assms(1) by (auto simp: is_two_def)
qed

section \<open>What one step keeps\<close>

fun two_valued :: "kstate \<Rightarrow> expr \<Rightarrow> bool" where
  "two_valued st (XOr a b) \<longleftrightarrow> two_valued st a \<and> two_valued st b"
| "two_valued st (XAnd a b) \<longleftrightarrow> two_valued st a \<and> two_valued st b"
| "two_valued st (XNot a) \<longleftrightarrow> two_valued st a"
| "two_valued st (XSymbol s) \<longleftrightarrow> tri_of st s \<noteq> Mod"
| "two_valued st e \<longleftrightarrow> True"

lemma two_valued_val: "two_valued st e \<Longrightarrow> expr_val st e \<noteq> Mod"
  by (induction st e rule: two_valued.induct) (auto simp: kconf_simps max_def min_def split: if_splits)

lemma alloc_two_preds [simp]:
  assumes "is_two ty"
  shows "bool_expr (expr_alloc_two ty l r) \<longleftrightarrow> bool_expr l \<and> bool_expr r"
    "two_valued st (expr_alloc_two ty l r) \<longleftrightarrow> two_valued st l \<and> two_valued st r"
    "yn_free (expr_alloc_two ty l r) \<longleftrightarrow> \<not> is_yn l \<and> \<not> is_yn r \<and> yn_free l \<and> yn_free r"
  using assms by (auto simp: is_two_def)

lemma put_preds:
  assumes "spine ty t p"
  shows "bool_expr t \<Longrightarrow> bool_expr (at t p)" "bool_expr t \<Longrightarrow> bool_expr x \<Longrightarrow> bool_expr (put t p x)"
    "two_valued st t \<Longrightarrow> two_valued st (at t p)" "two_valued st t \<Longrightarrow> two_valued st x \<Longrightarrow> two_valued st (put t p x)"
    "\<not> yn_free x \<Longrightarrow> \<not> yn_free (put t p x)" "is_yn x \<Longrightarrow> p \<noteq> [] \<Longrightarrow> \<not> yn_free (put t p x)"
proof -
  have "(bool_expr t \<longrightarrow> bool_expr (at t p)) \<and> (bool_expr t \<longrightarrow> bool_expr x \<longrightarrow> bool_expr (put t p x)) \<and>
    (two_valued st t \<longrightarrow> two_valued st (at t p)) \<and> (two_valued st t \<longrightarrow> two_valued st x \<longrightarrow> two_valued st (put t p x)) \<and>
    (\<not> yn_free x \<longrightarrow> \<not> yn_free (put t p x)) \<and> (is_yn x \<longrightarrow> p \<noteq> [] \<longrightarrow> \<not> yn_free (put t p x))"
    using assms
  proof (induction p arbitrary: t)
    case (Cons b p)
    from Cons.prems obtain l r where t: "is_two ty" "t = expr_alloc_two ty l r" "spine ty (if b then r else l) p" by (rule spineE)
    from Cons.IH [OF t(3)] show ?case using t(1,2) by (cases p; cases b) auto
  qed simp
  then show "bool_expr t \<Longrightarrow> bool_expr (at t p)" "bool_expr t \<Longrightarrow> bool_expr x \<Longrightarrow> bool_expr (put t p x)"
    "two_valued st t \<Longrightarrow> two_valued st (at t p)" "two_valued st t \<Longrightarrow> two_valued st x \<Longrightarrow> two_valued st (put t p x)"
    "\<not> yn_free x \<Longrightarrow> \<not> yn_free (put t p x)" "is_yn x \<Longrightarrow> p \<noteq> [] \<Longrightarrow> \<not> yn_free (put t p x)"
    by blast+
qed


lemma join_result:
  assumes "join st ty e1 e2 = Some t"
  shows "t = e1 \<or> t = e2 \<or> (\<exists>a b. t = XEqual a b) \<or> (\<exists>a b. t = XUnequal a b) \<or> is_yn t"
proof -
  have "join_sym1 e1 = Some x \<Longrightarrow> join_sym2 e2 = Some x \<Longrightarrow> sym_and_unequal e1 e2 s \<Longrightarrow> XSymbol x = e1 \<or> XSymbol x = e2" for x s
    by (cases "(e1, e2, s)" rule: sym_and_unequal.cases) (auto split: if_splits)
  then show ?thesis using assms expr_copy_Some [of e1]
    by (auto simp: join_def expr_join_or_def expr_join_and_def Let_def is_yn_def expr_alloc_symbol_def
      elim!: join_equal_unequal.elims split: if_splits option.splits)
qed

lemma join_val: "settled st \<Longrightarrow> is_two ty \<Longrightarrow> join st ty e1 e2 = Some t \<Longrightarrow> expr_val st t = bop ty (expr_val st e1) (expr_val st e2)"
  using join_or_val join_and_val by (auto simp: join_def is_two_def kconf_simps)

text \<open>
  One step from the tree \<open>t\<close> with the count \<open>c\<close>: under \<open>A\<close> the value stays; each time the count
  goes up a constant is left behind for \<^verbatim>\<open>expr_eliminate_yn\<close>, and otherwise nothing changes.
\<close>

definition refines :: "bool \<Rightarrow> kstate \<Rightarrow> expr_type \<Rightarrow> expr \<times> nat \<Rightarrow> expr \<times> nat \<Rightarrow> bool" where
  "refines A st ty x y \<longleftrightarrow>
    (A \<longrightarrow> expr_val st (fst y) = expr_val st (fst x)) \<and> (const_symbols st \<longrightarrow> two_valued st (fst x) \<longrightarrow> two_valued st (fst y)) \<and>
    bool_expr (fst y) \<and> size (fst y) \<le> size (fst x) \<and> skel ty (fst x) (fst y) \<and> snd x \<le> snd y \<and>
    (snd y = snd x \<longrightarrow> fst y = fst x) \<and> (snd x < snd y \<longrightarrow> \<not> yn_free (fst y))"

lemma refines_refl: "bool_expr (fst x) \<Longrightarrow> refines A st ty x x"
  by (simp add: refines_def skel_refl)

lemma refines_trans: "refines A st ty x y \<Longrightarrow> refines A st ty y z \<Longrightarrow> refines A st ty x z"
  using skel_trans [of ty "fst x" "fst y" "fst z"]
  by (auto simp: refines_def)

text \<open>Putting a refined operand back.\<close>

lemma refines_put:
  assumes "refines A st ty' (at t p, c) (e1, c1)" "is_two ty" "A \<longrightarrow> settled st" "bool_expr t" "spine ty t p" "dest_two ty (at t p) = None"
    "dest_two ty e1 = None"
  shows "refines A st ty (t, c) (put t p e1, c1)"
proof -
  have v: "expr_val st (put t p e1) = expr_val st t" if A
  proof -
    have "const_symbols st" using assms(3) that by auto
    from chain_val [OF assms(2) this assms(5)] obtain R where "\<And>x. expr_val st (put t p x) = bop ty (expr_val st x) R" by blast
    from this [of e1] this [of "at t p"] show ?thesis using assms(1) that put_at [OF assms(5)] by (simp add: refines_def)
  qed
  note pp = put_preds [OF assms(5)]
  show ?thesis using assms(1,4) v pp(2) [of e1] pp(3) [of st] pp(4,5) [where x = e1] put_size [OF assms(5), of e1] skel_put [OF assms(5-7)] put_at [OF assms(5)]
    by (auto simp: refines_def)
qed

lemma skel_root:
  assumes "is_two ty" "skel ty t t'" "etype t = ty"
  shows "etype t' = ty"
proof -
  obtain l r where "t = expr_alloc_two ty l r" using dest_two_etype [of t] assms(1,3) by (auto simp: dest_two_Some)
  then obtain l' r' where "t' = expr_alloc_two ty l' r'" using assms(1,2) by auto
  then show ?thesis using assms(1) by (auto simp: is_two_def)
qed

lemma dest_two_other: "is_two (etype t) \<Longrightarrow> dest_two ty t = None \<Longrightarrow> etype t' = etype t \<Longrightarrow> dest_two ty t' = None"
  by (cases t; cases t'; cases ty) (auto simp: is_two_def)


lemma etype_of_two: "dest_two ty t \<noteq> None \<Longrightarrow> is_two ty \<and> etype t = ty"
  by (cases "(ty, t)" rule: dest_two.cases) (auto simp: is_two_def)

text \<open>Joining the operands at two locations.\<close>

lemma refines_join:
  assumes "is_two ty" "bool_expr t" "spine ty t p" "spine ty t q" "dest_two ty (at t p) = None" "dest_two ty (at t q) = None" "p \<noteq> q"
    and j: "join st ty (at t p) (at t q) = Some tmp"
  shows "refines (settled st) st ty (t, c) (put (put t p (neutral ty)) q tmp, Suc c)"
proof -
  let ?t1 = "put t p (neutral ty)" and ?t2 = "put (put t p (neutral ty)) q tmp"
  have n: "dest_two ty (neutral ty) = None" "is_yn (neutral ty)" "size (neutral ty) = 0" "bool_expr (neutral ty)"
    using assms(1) by (auto simp: is_two_def is_yn_def)
  have sk1: "skel ty t ?t1" by (rule skel_put [OF assms(3,5) n(1)])
  have at: "at ?t1 q = at t q" by (rule at_put_other [OF assms(3-7)])
  have sp1: "spine ty ?t1 q" "spine ty ?t1 p" using skel_spine [OF sk1] assms(3,4) by simp_all
  have b: "bool_expr (at t p)" "bool_expr (at t q)" using put_preds(1) [OF assms(3)] put_preds(1) [OF assms(4)] assms(2) by simp_all
  have tmp: "dest_two ty tmp = None" "bool_expr tmp" "size tmp \<le> size (at t p) + size (at t q)"
    using join_result [OF j] assms(1,5,6) b by (auto simp: is_yn_def is_two_def)
  have p0: "p \<noteq> []"
  proof
    assume "p = []"
    then have "q = []" using assms(4,5) by (cases q) simp_all
    then show False using assms(7) \<open>p = []\<close> by simp
  qed
  have "put ?t2 p (neutral ty) = ?t2"
    using at_put_other [OF sp1(1,2), of tmp] at assms(5-7) at_put [OF assms(3)] put_at [of ty ?t2 p] skel_spine [OF skel_trans [OF sk1 skel_put [OF sp1(1)]], of tmp p] n(1) tmp(1) assms(3)
    by (metis (no_types, lifting))
  then have yn: "\<not> yn_free ?t2"
    using put_preds(6) [of ty ?t2 p "neutral ty"] n(2) p0 skel_spine [OF skel_trans [OF sk1 skel_put [OF sp1(1)]], of tmp p] at assms(3,6) tmp(1)
    by metis
  have sz: "size ?t2 \<le> size t"
    using put_size [OF assms(3), of "neutral ty"] put_size [OF sp1(1), of tmp] at tmp(3) n(3) by simp
  have sk: "skel ty t ?t2" using skel_trans [OF sk1 skel_put [OF sp1(1)]] at assms(6) tmp(1) by simp
  have v: "expr_val st ?t2 = expr_val st t" if st: "settled st"
  proof -
    have c: "const_symbols st" using st by auto
    obtain R where R: "\<And>x y. expr_val st (put (put t p x) q y) = bop ty (bop ty (expr_val st x) (expr_val st y)) R"
      using chain_val2 [OF assms(1) c assms(3-7)] by blast
    have "put (put t p (at t p)) q (at t q) = t" using put_at [OF assms(3)] put_at [OF assms(4)] by simp
    with R [of "at t p" "at t q"] R [of "neutral ty" tmp] join_val [OF st assms(1) j] expr_val_neutral [OF c assms(1)]
    show ?thesis by (metis bop_laws(2))
  qed
  have tv: "two_valued st ?t2" if c: "const_symbols st" and t: "two_valued st t"
  proof -
    have "two_valued st (at t p)" "two_valued st (at t q)" using put_preds(3) assms(3,4) t by blast+
    moreover have "two_valued st (neutral ty)" using c assms(1) by (auto simp: is_two_def)
    moreover have "two_valued st tmp" using join_result [OF j] calculation c by (auto simp: is_yn_def)
    ultimately show ?thesis using put_preds(4) [OF assms(3) t] put_preds(4) [OF sp1(1)] by blast
  qed
  have "bool_expr ?t2" using put_preds(2) [OF sp1(1) put_preds(2) [OF assms(3,2) n(4)] tmp(2)] .
  then show ?thesis using v tv sz sk yn by (simp add: refines_def)
qed

section \<open>Both passes end\<close>

abbreviation depth_ok :: "nat \<Rightarrow> expr \<Rightarrow> path \<Rightarrow> path \<Rightarrow> bool" where
  "depth_ok n t p q \<equiv> Suc (size t) * Suc (size t) \<le> n + length p + length q"

lemma depth_mono: "depth_ok (Suc n) t p q \<Longrightarrow> size t' \<le> size t \<Longrightarrow> depth_ok n t' (p @ [b]) q \<and> depth_ok n t' p (q @ [b])"
proof -
  assume a: "depth_ok (Suc n) t p q" "size t' \<le> size t"
  have "Suc (size t') * Suc (size t') \<le> Suc (size t) * Suc (size t)" by (rule mult_le_mono) (use a(2) in simp_all)
  then show ?thesis using a(1) by simp
qed

lemma depth_nested:
  assumes "depth_ok (Suc n) t p q" "spine ty t p" "spine ty t q" "p \<noteq> []"
  shows "depth_ok n (at t p) [] []"
proof -
  have l: "length p \<le> size t" "length q \<le> size t" "Suc (size (at t p)) \<le> size t"
    using spine_size [OF assms(2)] spine_size [OF assms(3)] assms(4) by (cases p; simp)+
  have "Suc (size (at t p)) * Suc (size (at t p)) \<le> size t * size t" by (rule mult_le_mono) (use l(3) in simp_all)
  then show ?thesis using assms(1) l(1,2) by simp
qed

lemma depth_zero: "spine ty t p \<Longrightarrow> spine ty t q \<Longrightarrow> \<not> depth_ok 0 t p q"
  using spine_size [of ty t p] spine_size [of ty t q] by (auto simp: not_le)

lemma spine_nonempty:
  assumes "spine ty t q" "dest_two ty (at t p) = None" "p \<noteq> q"
  shows "p \<noteq> []"
  using assms by (cases q) auto

lemma run_two:
  assumes "run False m (refines A st ty x)" "\<And>y. refines A st ty x y \<Longrightarrow> run False (f y) (refines A st ty y)"
  shows "run False (do { y \<leftarrow> m; f y }) (refines A st ty x)"
proof -
  obtain y where y: "m = Some y" "refines A st ty x y" using assms(1) by (auto simp: run_False)
  show ?thesis using y(1) run_mono [OF assms(2) [OF y(2)], of "refines A st ty x"] refines_trans [OF y(2)] by simp
qed

lemma dups1_refines:
  assumes "is_two ty" "bool_expr t" "spine ty t p" "spine ty t q" "depth_ok n t p q"
  shows "run False (expr_eliminate_dups1 n st ty p q (t, c)) (refines (settled st) st ty (t, c))"
  using assms
proof (induction n arbitrary: ty p q t c)
  case 0
  then show ?case using depth_zero by simp
next
  case (Suc n)
  let ?R = "refines (settled st) st ty"
  have again: "run False (expr_eliminate_dups1 n st ty p' q' y) (?R y)"
    if "?R (t, c) y" "spine ty t p'" "spine ty t q'" "p' = p @ [b] \<and> q' = q \<or> p' = p \<and> q' = q @ [b]" for p' q' b y
  proof -
    have y: "bool_expr (fst y)" "size (fst y) \<le> size t" "skel ty t (fst y)" using that(1) by (simp_all add: refines_def)
    have "spine ty (fst y) p'" "spine ty (fst y) q'" using skel_spine [OF y(3)] that(2,3) by simp_all
    moreover have "depth_ok n (fst y) p' q'" using that(4) depth_mono [OF Suc.prems(5) y(2), of b] by blast
    ultimately show ?thesis using Suc.IH [OF Suc.prems(1) y(1), of p' q' "snd y"] by simp
  qed
  note self = refines_refl [of "(t, c)" "settled st" st ty, simplified, OF Suc.prems(2)]
  show ?case
  proof (cases "dest_two ty (at t p) = None")
    case False
    then show ?thesis
      using spine_more [OF Suc.prems(3) False] Suc.prems(4) again [OF self, of _ q] again [of _ "p @ [True]" q True]
      by (auto intro!: run_two simp del: run_bind)
  next
    case np: True
    show ?thesis
    proof (cases "dest_two ty (at t q) = None")
      case False
      then show ?thesis
        using np spine_more [OF Suc.prems(4) False] Suc.prems(3) again [OF self, of p] again [of _ p "q @ [True]" True]
        by (auto intro!: run_two simp del: run_bind)
    next
      case nq: True
      show ?thesis
      proof (cases "p = q")
        case True
        then show ?thesis using np self by simp
      next
        case False
        let ?nested = "if is_two (etype (at t p)) then expr_eliminate_dups1 n st (etype (at t p)) [] [] (at t p, c) else Some (at t p, c)"
        have b: "bool_expr (at t p)" by (rule put_preds(1) [OF Suc.prems(3,2)])
        have "run False ?nested (refines (settled st) st (etype (at t p)) (at t p, c))"
          using Suc.IH [OF _ b, of "etype (at t p)" "[]" "[]" c] depth_nested [OF Suc.prems(5,3,4) spine_nonempty [OF Suc.prems(4) np False]] b
          by (auto intro: refines_refl)
        then obtain e1 c1 where e1: "?nested = Some (e1, c1)" "refines (settled st) st (etype (at t p)) (at t p, c) (e1, c1)"
          by (auto simp: run_False)
        have d1: "dest_two ty e1 = None"
        proof (cases "is_two (etype (at t p))")
          case True
          then show ?thesis using skel_root [OF True, of "at t p" e1] e1(2) dest_two_other [OF True np] by (simp add: refines_def)
        qed (use e1 np in simp)
        define t1 where "t1 = put t p e1"
        have r1: "?R (t, c) (t1, c1)" unfolding t1_def
          by (rule refines_put [OF e1(2) Suc.prems(1) _ Suc.prems(2,3) np d1]) simp
        have s1: "spine ty t1 p" "spine ty t1 q" "bool_expr t1" "at t1 p = e1" "at t1 q = at t q"
          using skel_spine [of ty t t1] r1 Suc.prems(3,4) at_put [OF Suc.prems(3)] at_put_other [OF Suc.prems(3,4) np nq False]
          by (auto simp: refines_def t1_def)
        have "?R (t, c) (case join st ty e1 (at t1 q) of None \<Rightarrow> (t1, c1) | Some tmp \<Rightarrow> (put (put t1 p (neutral ty)) q tmp, Suc c1))"
        proof (cases "join st ty e1 (at t1 q)")
          case (Some tmp)
          have "?R (t1, c1) (put (put t1 p (neutral ty)) q tmp, Suc c1)"
            by (rule refines_join [OF Suc.prems(1) s1(3,1,2)]) (use s1 d1 nq False Some in auto)
          then show ?thesis using Some refines_trans [OF r1] by simp
        qed (use r1 in simp)
        then show ?thesis using np nq False e1(1) unfolding t1_def by (simp add: Let_def)
      qed
    qed
  qed
qed

lemma contradicts_total: "bool_expr e1 \<Longrightarrow> bool_expr e2 \<Longrightarrow> \<exists>b. contradicts st e1 e2 = Some b"
  by (simp add: contradicts_def expr_copy_bool Let_def)

lemma extract_bound:
  assumes "const_symbols st" "is_two ty" "extract_yn (expr_extract_eq ty None e1 e2) = (tmp, neutral ty, f2)"
  shows "bop ty (expr_val st e1) (expr_val st e2) = expr_val st e2"
proof -
  note v = extract_yn_val [OF assms]
  have n: "bop ty a (expr_val st (neutral ty)) = a" for a by (rule expr_val_neutral [OF assms(1,2)])
  show ?thesis using v n assms(1,2) by (cases tmp) (auto simp: with_acc_def bop_laws is_two_def)
qed

lemma contradicts_val:
  assumes "settled st" "is_two (etype e1)" "is_two ty" "ty \<noteq> etype e1" "contradicts st e1 e2 = Some True"
  shows "bop ty (EXPR_NOT (expr_val st e1)) (expr_val st e2) = expr_val st e2"
proof -
  obtain x1 x2 where c: "expr_copy e1 = Some x1" "expr_copy e2 = Some x2" using assms(5) by (auto simp: contradicts_def elim!: bind_eq_SomeE)
  have x: "x1 = e1" "x2 = e2" using expr_copy_Some c by blast+
  let ?n = "expr_transform st (XNot e1)"
  have n: "expr_val st ?n = EXPR_NOT (expr_val st e1)" using expr_transform_val [OF assms(1)] by simp
  have "\<exists>tmp f2. extract_yn (expr_extract_eq ty None ?n e2) = (tmp, neutral ty, f2)"
    using assms(2-5) c x
    by (auto simp: contradicts_def expr_extract_eq_and_def expr_extract_eq_or_def is_two_def Let_def elim!: expr_is_yes.elims expr_is_no.elims split: prod.splits if_splits)
  then show ?thesis using extract_bound [OF settled_const [OF assms(1)] assms(3)] n by metis
qed

lemma refines_contradiction:
  assumes "is_two ty" "bool_expr t" "spine ty t p" "spine ty t q" "dest_two ty (at t p) = None" "p \<noteq> q" "is_two (etype (at t p))"
    and "A \<longrightarrow> settled st \<and> two_valued st t" "contradicts st (at t p) (at t q) = Some True"
  shows "refines A st ty (t, c) (put t p (if etype (at t p) = E_OR then expr_alloc_symbol symbol_no else expr_alloc_symbol symbol_yes), Suc c)"
proof -
  let ?e = "at t p"
  define k where "k = (if etype ?e = E_OR then expr_alloc_symbol symbol_no else expr_alloc_symbol symbol_yes)"
  have ty: "ty \<noteq> etype ?e" using assms(1,5) dest_two_etype [OF assms(7)] by auto
  have k: "is_yn k" "bool_expr k" "size k = 0" "dest_two ty k = None" by (auto simp: k_def is_yn_def expr_alloc_symbol_def)
  have v: "expr_val st (put t p k) = expr_val st t" if A
  proof -
    have st: "settled st" "two_valued st t" "const_symbols st" using assms(8) that by auto
    have a: "bop ty (expr_val st ?e) (expr_val st t) = expr_val st t" "bop ty (expr_val st (at t q)) (expr_val st t) = expr_val st t"
      using chain_absorb [OF assms(1) st(3)] assms(3,4) by blast+
    have "bop ty (EXPR_NOT (expr_val st ?e)) (expr_val st t) = expr_val st t"
      using contradicts_val [OF st(1) assms(7,1) ty assms(9)] a(2) bop_laws(1) by metis
    moreover have "expr_val st ?e \<noteq> Mod" using two_valued_val put_preds(3) [OF assms(3)] st(2) by blast
    moreover obtain R where "\<And>x. expr_val st (put t p x) = bop ty (expr_val st x) R" using chain_val [OF assms(1) st(3) assms(3)] by blast
    ultimately show ?thesis using a(1) ty assms(1,7) st(3)
      by (cases "expr_val st ?e"; cases "expr_val st t") (auto simp: k_def is_two_def expr_alloc_symbol_def kconf_simps max_def min_def split: if_splits)
  qed
  have "const_symbols st \<Longrightarrow> two_valued st k" by (auto simp: k_def expr_alloc_symbol_def)
  then show ?thesis unfolding k_def [symmetric]
    using v put_preds(2,6) [OF assms(3), where x = k] k assms(2) skel_put [OF assms(3,5) k(4)] put_size [OF assms(3), of k] spine_nonempty [OF assms(4,5,6)]
    by (auto simp: refines_def intro: put_preds(4) [OF assms(3)])
qed

lemma dups2_refines:
  assumes "is_two ty" "bool_expr t" "spine ty t p" "spine ty t q" "depth_ok n t p q" "A \<longrightarrow> settled st \<and> two_valued st t"
  shows "run False (expr_eliminate_dups2 n st ty p q (t, c)) (refines A st ty (t, c))"
  using assms
proof (induction n arbitrary: ty p q t c)
  case 0
  then show ?case using depth_zero by simp
next
  case (Suc n)
  let ?R = "refines A st ty"
  have keep: "A \<longrightarrow> settled st \<and> two_valued st (fst y)" if "?R (t, c) y" for y
    using that Suc.prems(6) by (auto simp: refines_def)
  have again: "run False (expr_eliminate_dups2 n st ty p' q' y) (?R y)"
    if "?R (t, c) y" "spine ty t p'" "spine ty t q'" "p' = p @ [b] \<and> q' = q \<or> p' = p \<and> q' = q @ [b]" for p' q' b y
  proof -
    have y: "bool_expr (fst y)" "size (fst y) \<le> size t" "skel ty t (fst y)" using that(1) by (simp_all add: refines_def)
    have "spine ty (fst y) p'" "spine ty (fst y) q'" using skel_spine [OF y(3)] that(2,3) by simp_all
    moreover have "depth_ok n (fst y) p' q'" using that(4) depth_mono [OF Suc.prems(5) y(2), of b] by blast
    ultimately show ?thesis using Suc.IH [OF Suc.prems(1) y(1), of p' q' "snd y"] keep [OF that(1)] by simp
  qed
  note self = refines_refl [of "(t, c)" A st ty, simplified, OF Suc.prems(2)]
  show ?case
  proof (cases "dest_two ty (at t p) = None")
    case False
    then show ?thesis
      using spine_more [OF Suc.prems(3) False] Suc.prems(4) again [OF self, of _ q] again [of _ "p @ [True]" q True]
      by (auto intro!: run_two simp del: run_bind)
  next
    case np: True
    let ?first = "if dest_two ty (at t q) \<noteq> None then do { x \<leftarrow> expr_eliminate_dups2 n st ty p (q @ [False]) (t, c);
        expr_eliminate_dups2 n st ty p (q @ [True]) x } else Some (t, c)"
    have "run False ?first (?R (t, c))"
      using spine_more [OF Suc.prems(4)] Suc.prems(3) again [OF self, of p] again [of _ p "q @ [True]" True] self
      by (auto intro!: run_two simp del: run_bind)
    then obtain t1 c1 where t1: "?first = Some (t1, c1)" "?R (t, c) (t1, c1)" by (auto simp: run_False)
    have s1: "spine ty t1 p" "spine ty t1 q" "bool_expr t1" "dest_two ty (at t1 p) = None" "size t1 \<le> size t"
      using t1(2) skel_spine [of ty t t1] Suc.prems(3,4) np by (auto simp: refines_def)
    show ?thesis
    proof (cases "p = q \<or> \<not> is_two (etype (at t1 p))")
      case True
      then show ?thesis using np t1 by simp
    next
      case False
      have b: "bool_expr (at t1 p)" by (rule put_preds(1) [OF s1(1,3)])
      have "depth_ok (Suc n) t1 p q" using Suc.prems(5) s1(5) mult_le_mono [of "Suc (size t1)" "Suc (size t)"] by fastforce
      from depth_nested [OF this s1(1,2) spine_nonempty [OF s1(2,4)]] False
      have d: "depth_ok n (at t1 p) [] []" by simp
      have "A \<longrightarrow> settled st \<and> two_valued st (at t1 p)" using keep [OF t1(2)] put_preds(3) [OF s1(1)] by auto
      with Suc.IH [OF _ b _ _ d, of "etype (at t1 p)" c1] False
      obtain e1 c2 where e1: "expr_eliminate_dups2 n st (etype (at t1 p)) [] [] (at t1 p, c1) = Some (e1, c2)"
        "refines A st (etype (at t1 p)) (at t1 p, c1) (e1, c2)" by (auto simp: run_False)
      have ety: "etype e1 = etype (at t1 p)" using skel_root [of "etype (at t1 p)" "at t1 p" e1] e1(2) False by (simp add: refines_def)
      have d1: "dest_two ty e1 = None" using dest_two_other [OF _ s1(4) ety] False by simp
      define t2 where "t2 = put t1 p e1"
      have r12: "?R (t1, c1) (t2, c2)" unfolding t2_def
        by (rule refines_put [OF e1(2) Suc.prems(1) _ s1(3,1,4) d1]) (use keep [OF t1(2)] in simp)
      have r2: "?R (t, c) (t2, c2)" by (rule refines_trans [OF t1(2) r12])
      have s2: "spine ty t2 p" "spine ty t2 q" "bool_expr t2" "at t2 p = e1"
        using skel_spine [of ty t1 t2] r12 s1(1,2) at_put [OF s1(1)] by (auto simp: refines_def t2_def)
      obtain k where k: "contradicts st e1 (at t2 q) = Some k"
        using contradicts_total [OF put_preds(1) [OF s2(1,3)] put_preds(1) [OF s2(2,3)]] s2(4) by auto
      have "?R (t2, c2) (if k then (put t2 p (if etype e1 = E_OR then expr_alloc_symbol symbol_no else expr_alloc_symbol symbol_yes), Suc c2) else (t2, c2))"
      proof (cases k)
        case True
        have "?R (t2, c2) (put t2 p (if etype (at t2 p) = E_OR then expr_alloc_symbol symbol_no else expr_alloc_symbol symbol_yes), Suc c2)"
          by (rule refines_contradiction [OF Suc.prems(1) s2(3,1,2)]) (use s2(4) d1 ety False k True keep [OF r2] in auto)
        then show ?thesis using True s2(4) by simp
      qed (use refines_refl s2(3) in simp)
      from refines_trans [OF r2 this] show ?thesis using np t1(1) False e1(1) k unfolding t2_def by (simp add: Let_def)
    qed
  qed
qed

section \<open>The loop\<close>

lemma yn_less: "\<not> yn_free e \<Longrightarrow> size (expr_eliminate_yn e) < size e"
proof -
  have sz: "size (yn_and l r) \<le> Suc (size l + size r)" "size (yn_or l r) \<le> Suc (size l + size r)"
    "is_yn l \<or> is_yn r \<Longrightarrow> size (yn_and l r) < Suc (size l + size r) \<and> size (yn_or l r) < Suc (size l + size r)" for l r
    by (auto simp: yn_and.simps yn_or.simps is_yn_def)
  have yn: "is_yn e \<Longrightarrow> expr_eliminate_yn e = e" for e by (auto simp: is_yn_def)
  show "\<not> yn_free e \<Longrightarrow> size (expr_eliminate_yn e) < size e"
  proof (induction e rule: yn_free.induct)
    case (1 l r)
    then show ?case using expr_eliminate_yn_size [of l] expr_eliminate_yn_size [of r] yn
      sz(1,3) [of "expr_eliminate_yn l" "expr_eliminate_yn r"] by auto
  next
    case (2 l r)
    then show ?case using expr_eliminate_yn_size [of l] expr_eliminate_yn_size [of r] yn
      sz(2,3) [of "expr_eliminate_yn l" "expr_eliminate_yn r"] by auto
  qed simp_all
qed

lemma yn_preds:
  "bool_expr e \<Longrightarrow> bool_expr (expr_eliminate_yn e)"
  "const_symbols st \<Longrightarrow> two_valued st e \<Longrightarrow> two_valued st (expr_eliminate_yn e)"
  by (induction e) (auto simp: yn_and.simps yn_or.simps)

lemma refines_weaken: "refines B st ty x y \<Longrightarrow> A \<longrightarrow> B \<Longrightarrow> refines A st ty x y"
  by (auto simp: refines_def)

lemma pass_refines:
  assumes "is_two (etype e)" "bool_expr e" "A \<longrightarrow> settled st \<and> two_valued st e"
  shows "run False (do { (e1, c1) \<leftarrow> expr_eliminate_dups1 (call_depth e) st (etype e) [] [] (e, 0);
      expr_eliminate_dups2 (call_depth e) st (etype e1) [] [] (e1, c1) }) (refines A st (etype e) (e, 0))"
proof -
  obtain e1 c1 where e1: "expr_eliminate_dups1 (call_depth e) st (etype e) [] [] (e, 0) = Some (e1, c1)"
    "refines (settled st) st (etype e) (e, 0) (e1, c1)"
    using dups1_refines [OF assms(1,2), of "[]" "[]" "call_depth e" st 0] by (auto simp: run_False call_depth_def)
  have r1: "refines A st (etype e) (e, 0) (e1, c1)" by (rule refines_weaken [OF e1(2)]) (use assms(3) in simp)
  have ety: "etype e1 = etype e" using skel_root [OF assms(1), of e e1] e1(2) by (simp add: refines_def)
  have "A \<longrightarrow> settled st \<and> two_valued st e1" using r1 assms(3) by (auto simp: refines_def)
  moreover have "Suc (size e1) * Suc (size e1) \<le> call_depth e"
    unfolding call_depth_def by (rule mult_le_mono) (use e1(2) in \<open>simp_all add: refines_def\<close>)
  ultimately have "run False (expr_eliminate_dups2 (call_depth e) st (etype e1) [] [] (e1, c1)) (refines A st (etype e) (e1, c1))"
    using dups2_refines [of "etype e1" e1 "[]" "[]" "call_depth e" A st c1] assms(1) ety e1(2) by (simp add: refines_def)
  then show ?thesis using e1(1) refines_trans [OF r1] by (auto elim!: run_mono)
qed

lemma dups_loop_correct:
  assumes "bool_expr e" "size e \<le> n" "A \<longrightarrow> settled st \<and> two_valued st e"
  shows "run False (dups_loop n st e) (\<lambda>e'. bool_expr e' \<and> size e' \<le> size e \<and> (A \<longrightarrow> expr_val st e' = expr_val st e))"
  using assms
proof (induction n arbitrary: e)
  case 0
  then have "\<not> is_two (etype e)" by (cases e) (auto simp: is_two_def)
  then show ?case using 0 by (simp add: dups_loop.simps [of 0])
next
  case (Suc n)
  show ?case
  proof (cases "is_two (etype e)")
    case False
    then show ?thesis using Suc.prems by (simp add: dups_loop.simps [of "Suc n"])
  next
    case True
    obtain e2 c2 where e2: "do { (e1, c1) \<leftarrow> expr_eliminate_dups1 (call_depth e) st (etype e) [] [] (e, 0);
      expr_eliminate_dups2 (call_depth e) st (etype e1) [] [] (e1, c1) } = Some (e2, c2)" "refines A st (etype e) (e, 0) (e2, c2)"
      using pass_refines [OF True Suc.prems(1,3)] by (auto simp: run_False simp del: run_bind)
    show ?thesis
    proof (cases "c2 = 0")
      case zero: True
      then show ?thesis using True e2 Suc.prems(1) unfolding dups_loop.simps [of "Suc n"] by (simp add: refines_def)
    next
      case False
      let ?e3 = "expr_eliminate_yn e2"
      have l: "size ?e3 \<le> n" "size ?e3 \<le> size e" "bool_expr ?e3"
        using yn_less [of e2] e2(2) False Suc.prems(2) yn_preds(1) by (auto simp: refines_def)
      have v: "A \<longrightarrow> settled st \<and> two_valued st ?e3" "A \<longrightarrow> expr_val st ?e3 = expr_val st e"
        using e2(2) Suc.prems(3) yn_preds(2) [of st e2] expr_eliminate_yn_val [of st e2] settled_const [of st] by (auto simp: refines_def)
      from Suc.IH [OF l(3,1) v(1)] show ?thesis using True False e2(1) l(2) v(2) unfolding dups_loop.simps [of "Suc n"]
        by (auto elim!: run_mono)
    qed
  qed
qed

text \<open>
  Property C25: \<^verbatim>\<open>expr_eliminate_dups\<close> ends for every condition, and the result is no larger. In a
  calculated configuration in which no symbol of the condition is \<^verbatim>\<open>m\<close>, it has the value of the condition.
\<close>

theorem expr_eliminate_dups_correct:
  assumes "bool_expr e"
  shows "\<exists>e'. expr_eliminate_dups st (Some e) = Some (Some e') \<and> bool_expr e' \<and> size e' \<le> size e \<and>
    (settled st \<longrightarrow> two_valued st e \<longrightarrow> expr_val st e' = expr_val st e)"
  using dups_loop_correct [OF assms order_refl, of "settled st \<and> two_valued st e" st]
  by (auto simp: expr_eliminate_dups_def run_False)

theorem expr_eliminate_dups_correct_witness:
  "\<exists>e'. expr_eliminate_dups ex_state (Some (XAnd (XSymbol 8) (XOr (XSymbol 6) (XSymbol 8)))) = Some (Some e') \<and> expr_val ex_state e' = Yes"
  using expr_eliminate_dups_correct [of "XAnd (XSymbol 8) (XOr (XSymbol 6) (XSymbol 8))" ex_state] ex_state_settled
  by (auto simp: ex_state_defs kconf_simps)

definition ex_contra :: expr where
  "ex_contra = XAnd (XOr (XSymbol 7) (XSymbol 9)) (XAnd (XNot (XSymbol 7)) (XNot (XSymbol 9)))"


end
