(* ===== verification/Kconf_Finalize.thy ===== *)
theory Kconf_Finalize
  imports Kconf_Parse Kconf_Dups
begin

text \<open>
  \<^verbatim>\<open>menu_finalize\<close> (\<^verbatim>\<open>support/kconfig/menu.c\<close>) and the rest of \<^verbatim>\<open>conf_parse\<close>: the dependencies of the menus are
  added to those of their entries, entries that depend on the one before them become its submenu, the
  entries of menus without a prompt move up, and the values of a choice are collected. The warnings
  are not modelled. \<open>None\<close> stands for a null pointer that the code would dereference; the first
  argument of the loops bounds the number of entries they visit.
\<close>

section \<open>Conditions that may be null\<close>

definition copy_opt :: "expr option \<Rightarrow> expr option option" where
  "copy_opt e = (case e of None \<Rightarrow> Some None | Some x \<Rightarrow> map_option Some (expr_copy x))"

text \<open>\<^verbatim>\<open>expr_eliminate_dups(expr_alloc_and(expr_copy(base), expr_transform(e)))\<close>\<close>

definition with_base :: "kstate \<Rightarrow> expr option \<Rightarrow> expr option \<Rightarrow> expr option option" where
  "with_base st base e =
    do { b \<leftarrow> copy_opt base; expr_eliminate_dups st (expr_alloc_and b (map_option (expr_transform st) e)) }"

text \<open>\<^verbatim>\<open>expr_eliminate_dups(expr_transform(expr_trans_compare(e, E_UNEQUAL, &symbol_no)))\<close>\<close>

definition not_no :: "kstate \<Rightarrow> expr option \<Rightarrow> expr option option" where
  "not_no st e = expr_eliminate_dups st (map_option (expr_transform st) (expr_trans_compare e E_UNEQUAL symbol_no))"

section \<open>The entries of one menu\<close>

fun entries :: "nat \<Rightarrow> kstate \<Rightarrow> menuid option \<Rightarrow> menuid list option" where
  "entries n st None = Some []"
| "entries 0 st (Some m) = None"
| "entries (Suc n) st (Some m) = map_option ((#) m) (entries n st (m_next (menus st m)))"

text \<open>The type of a choice is that of its first typed value; the values without a type get it.\<close>

definition has_type :: "kstate \<Rightarrow> menuid \<Rightarrow> bool" where
  "has_type st m \<longleftrightarrow> (case m_sym (menus st m) of None \<Rightarrow> False | Some s \<Rightarrow> sym_type (syms st s) \<noteq> S_UNKNOWN)"

definition choice_type :: "menuid \<Rightarrow> symid \<Rightarrow> menuid list \<Rightarrow> kstate \<Rightarrow> kstate option" where
  "choice_type parent s ms st =
    (if sym_type (syms st s) \<noteq> S_UNKNOWN then Some st
     else
       let st1 = st\<lparr>current_entry := parent\<rparr> in
       case List.find (has_type st1) ms of
         None \<Rightarrow> Some st1
       | Some m \<Rightarrow>
           do { t \<leftarrow> m_sym (menus st1 m); map_option snd (menu_set_type (sym_type (syms st1 t)) st1) })"

definition value_type :: "symid \<Rightarrow> menuid \<Rightarrow> kstate \<Rightarrow> kstate option" where
  "value_type s m st =
    (let st1 = st\<lparr>current_entry := m\<rparr> in
     case m_sym (menus st1 m) of
       None \<Rightarrow> Some st1
     | Some t \<Rightarrow> if sym_type (syms st1 t) = S_UNKNOWN then map_option snd (menu_set_type (sym_type (syms st1 s)) st1)
               else Some st1)"

text \<open>The property \<open>p\<close> of the entry \<open>m\<close>, whose dependencies are \<open>base\<close>.\<close>

definition prop_dep :: "menuid \<Rightarrow> expr option \<Rightarrow> propid \<Rightarrow> kstate \<Rightarrow> kstate option" where
  "prop_dep m base p st =
    (if p_menu (props st p) \<noteq> Some m then Some st
     else
       do { d \<leftarrow> with_base st base (ev_expr (p_visible (props st p)));
            let dep = (case m_sym (menus st m) of
                         None \<Rightarrow> d
                       | Some s \<Rightarrow> if sym_type (syms st s) \<noteq> S_TRISTATE then map_option (expr_trans_bool st) d else d);
            let st1 = upd_prop p (\<lambda>pr. pr\<lparr>p_visible := (p_visible pr)\<lparr>ev_expr := dep\<rparr>\<rparr>) st;
            if p_type (props st1 p) \<noteq> P_SELECT then Some st1
            else
              do { es \<leftarrow> prop_get_symbol st1 p;
                   s \<leftarrow> m_sym (menus st1 m);
                   c \<leftarrow> copy_opt dep;
                   Some (upd_sym es (\<lambda>r. r\<lparr>rev_dep := (rev_dep r)\<lparr>ev_expr :=
                     expr_alloc_or (ev_expr (rev_dep r)) (expr_alloc_and (Some (expr_alloc_symbol s)) c)\<rparr>\<rparr>) st1) } })"

text \<open>The properties the loop of \<^verbatim>\<open>menu_finalize\<close> visits: those of the symbol, or the one prompt.\<close>

definition entry_props :: "kstate \<Rightarrow> menuid \<Rightarrow> propid list" where
  "entry_props st m =
    (case m_sym (menus st m) of
       Some s \<Rightarrow> sym_prop (syms st s)
     | None \<Rightarrow> (case m_prompt (menus st m) of None \<Rightarrow> [] | Some p \<Rightarrow> [p]))"

definition entry_dep :: "expr option \<Rightarrow> menuid \<Rightarrow> kstate \<Rightarrow> kstate option" where
  "entry_dep parentdep m st =
    do { base \<leftarrow> with_base st parentdep (m_dep (menus st m));
         let st1 = upd_menu m (\<lambda>r. r\<lparr>m_dep := base\<rparr>) st;
         parse_all (prop_dep m base) (entry_props st1 m) st1 }"

definition spread_deps :: "menuid \<Rightarrow> kstate \<Rightarrow> kstate option" where
  "spread_deps parent st =
    do { ms \<leftarrow> entries (next_menu st) st (m_list (menus st parent));
         (dep, st1) \<leftarrow>
           (case m_sym (menus st parent) of
              Some s \<Rightarrow>
                if sym_is_choice st s
                then do { st1 \<leftarrow> choice_type parent s ms st;
                          st2 \<leftarrow> parse_all (value_type s) ms st1;
                          Some (Some (expr_alloc_symbol s), st2) }
                else Some (case m_prompt (menus st parent) of
                             Some p \<Rightarrow> ev_expr (p_visible (props st p)) | None \<Rightarrow> m_dep (menus st parent), st)
            | None \<Rightarrow> Some (case m_prompt (menus st parent) of
                              Some p \<Rightarrow> ev_expr (p_visible (props st p)) | None \<Rightarrow> m_dep (menus st parent), st));
         parse_all (entry_dep dep) ms st1 }"

section \<open>Submenus\<close>

text \<open>Does the entry \<open>m\<close> depend on the symbol so that it belongs below it?\<close>

definition belongs :: "symid \<Rightarrow> expr option \<Rightarrow> menuid \<Rightarrow> kstate \<Rightarrow> bool option" where
  "belongs s base m st =
    (let dep = (case m_prompt (menus st m) of
                  Some p \<Rightarrow> ev_expr (p_visible (props st p)) | None \<Rightarrow> m_dep (menus st m)) in
     if \<not> expr_contains_symbol dep s then Some False
     else if expr_depends_symbol dep s then Some True
     else
       do { d \<leftarrow> not_no st dep;
            d1 \<leftarrow> d;
            b \<leftarrow> copy_opt base;
            d2 \<leftarrow> b;
            Some (expr_is_yes (Some (snd (expr_eliminate_eq d1 d2)))) })"

text \<open>The values a choice collects: the part of the last loop that is about choices.\<close>

definition add_choice_value :: "symid \<Rightarrow> menuid \<Rightarrow> kstate \<Rightarrow> kstate option" where
  "add_choice_value s m st =
    (case m_sym (menus st m) of
       None \<Rightarrow> Some st
     | Some t \<Rightarrow>
         if \<not> sym_is_choice st s \<or> sym_is_choice_value st t then Some st
         else
           let st1 = set_flag t {SYMBOL_CHOICEVAL} (st\<lparr>current_entry := m\<rparr>);
               base = expr_alloc_comp E_EQUAL s symbol_yes;
               st2 = (if sym_type (syms st1 s) = S_TRISTATE \<and> sym_type (syms st1 t) \<noteq> S_TRISTATE
                      then fold (\<lambda>p x. if p_menu (props x p) \<noteq> Some m then x
                                       else upd_prop p (\<lambda>pr. pr\<lparr>p_visible := (p_visible pr)\<lparr>ev_expr :=
                                              expr_alloc_and (Some base) (ev_expr (p_visible pr))\<rparr>\<rparr>) x)
                             (sym_prop (syms st1 t))
                             (upd_menu m (\<lambda>r. r\<lparr>m_dep := expr_alloc_and (Some base) (m_dep r)\<rparr>) st1)
                      else st1) in
           do { st3 \<leftarrow> menu_add_symbol P_CHOICE s None st2;
                p \<leftarrow> sym_get_choice_prop st3 s;
                l \<leftarrow> (case p_expr (props st3 p) of None \<Rightarrow> Some [] | Some (XList xs) \<Rightarrow> Some xs | _ \<Rightarrow> None);
                Some (upd_prop p (\<lambda>pr. pr\<lparr>p_expr := Some (XList (l @ [t]))\<rparr>) st3) })"

text \<open>The entries below an entry without a prompt move behind it.\<close>

fun reparent :: "nat \<Rightarrow> menuid \<Rightarrow> menuid \<Rightarrow> kstate \<Rightarrow> (menuid \<times> kstate) option" where
  "reparent n parent m st =
    (let st1 = upd_menu m (\<lambda>r. r\<lparr>m_parent := Some parent\<rparr>) st in
     case m_next (menus st1 m) of
       None \<Rightarrow> Some (m, st1)
     | Some x \<Rightarrow> (case n of 0 \<Rightarrow> None | Suc k \<Rightarrow> reparent k parent x st1))"

declare reparent.simps [simp del]

definition move_up :: "menuid \<Rightarrow> menuid \<Rightarrow> kstate \<Rightarrow> kstate option" where
  "move_up parent m st =
    (case m_list (menus st m) of
       None \<Rightarrow> Some st
     | Some c \<Rightarrow>
         if (case m_prompt (menus st m) of None \<Rightarrow> True | Some p \<Rightarrow> p_text (props st p) = None)
         then do { (lst, st1) \<leftarrow> reparent (next_menu st) parent c st;
                   let st2 = upd_menu lst (\<lambda>r. r\<lparr>m_next := m_next (menus st1 m)\<rparr>) st1;
                   Some (upd_menu m (\<lambda>r. r\<lparr>m_next := m_list r, m_list := None\<rparr>) st2) }
         else Some st)"

fun settle_entries :: "nat \<Rightarrow> menuid \<Rightarrow> symid option \<Rightarrow> menuid option \<Rightarrow> kstate \<Rightarrow> kstate option" where
  "settle_entries n parent so None st = Some st"
| "settle_entries 0 parent so (Some m) st = None"
| "settle_entries (Suc n) parent so (Some m) st =
     do { st1 \<leftarrow> (case so of None \<Rightarrow> Some st | Some s \<Rightarrow> add_choice_value s m st);
          st2 \<leftarrow> move_up parent m st1;
          settle_entries n parent so (m_next (menus st2 m)) st2 }"

text \<open>The end of \<^verbatim>\<open>menu_finalize\<close>: the checks of the symbol and the dependency a prompt gives it.\<close>

definition finish_symbol :: "menuid \<Rightarrow> symid \<Rightarrow> kstate \<Rightarrow> kstate option" where
  "finish_symbol parent s st =
    do { st1 \<leftarrow> (if has_flag st s SYMBOL_WARNED then Some st
                 else do { _ \<leftarrow> sym_check_prop st s; Some (set_flag s {SYMBOL_WARNED} st) });
         Some (case m_prompt (menus st1 parent) of
                 None \<Rightarrow> st1
               | Some p \<Rightarrow>
                   if sym_is_optional st1 s then st1
                   else upd_sym s (\<lambda>r. r\<lparr>rev_dep := (rev_dep r)\<lparr>ev_expr :=
                          expr_alloc_or (ev_expr (rev_dep r))
                            (expr_alloc_and (ev_expr (p_visible (props st1 p))) (Some (expr_alloc_symbol symbol_mod)))\<rparr>\<rparr>) st1) }"

definition close_submenu :: "menuid \<Rightarrow> menuid option \<Rightarrow> kstate \<Rightarrow> kstate" where
  "close_submenu parent lst st =
    (case lst of
       None \<Rightarrow> st
     | Some l \<Rightarrow>
         let st1 = upd_menu parent (\<lambda>r. r\<lparr>m_list := m_next r, m_next := m_next (menus st l)\<rparr>) st in
         upd_menu l (\<lambda>r. r\<lparr>m_next := None\<rparr>) st1)"

definition own_dep :: "menuid \<Rightarrow> symid \<Rightarrow> kstate \<Rightarrow> kstate" where
  "own_dep parent s st =
    upd_sym s (\<lambda>r. r\<lparr>dir_dep := (dir_dep r)\<lparr>ev_expr := expr_alloc_or (ev_expr (dir_dep r)) (m_dep (menus st parent))\<rparr>\<rparr>) st"

fun menu_finalize :: "nat \<Rightarrow> menuid \<Rightarrow> kstate \<Rightarrow> kstate option"
and finalize_entries :: "nat \<Rightarrow> menuid option \<Rightarrow> kstate \<Rightarrow> kstate option"
and finalize_following :: "nat \<Rightarrow> menuid \<Rightarrow> symid \<Rightarrow> expr option \<Rightarrow> menuid option \<Rightarrow> menuid option \<Rightarrow> kstate \<Rightarrow>
    (menuid option \<times> kstate) option" where
  "menu_finalize 0 parent st = None"
| "menu_finalize (Suc n) parent st =
    do { st1 \<leftarrow> (if m_list (menus st parent) \<noteq> None
                 then do { st1 \<leftarrow> spread_deps parent st; finalize_entries n (m_list (menus st1 parent)) st1 }
                 else case m_sym (menus st parent) of
                        None \<Rightarrow> Some st
                      | Some s \<Rightarrow>
                          do { base \<leftarrow> not_no st (case m_prompt (menus st parent) of
                                                   Some p \<Rightarrow> ev_expr (p_visible (props st p)) | None \<Rightarrow> None);
                               (lst, st1) \<leftarrow> finalize_following n parent s base (m_next (menus st parent)) None st;
                               Some (own_dep parent s (close_submenu parent lst st1)) });
         st2 \<leftarrow> settle_entries (next_menu st1) parent (m_sym (menus st1 parent)) (m_list (menus st1 parent)) st1;
         (case m_sym (menus st2 parent) of None \<Rightarrow> Some st2 | Some s \<Rightarrow> finish_symbol parent s st2) }"
| "finalize_entries n None st = Some st"
| "finalize_entries 0 (Some m) st = None"
| "finalize_entries (Suc n) (Some m) st =
     do { st1 \<leftarrow> menu_finalize n m st; finalize_entries n (m_next (menus st1 m)) st1 }"
| "finalize_following n parent s base None lst st = Some (lst, st)"
| "finalize_following 0 parent s base (Some m) lst st = None"
| "finalize_following (Suc n) parent s base (Some m) lst st =
     do { b \<leftarrow> belongs s base m st;
          if \<not> b then Some (lst, st)
          else
            do { st1 \<leftarrow> menu_finalize n m st;
                 let st2 = upd_menu m (\<lambda>r. r\<lparr>m_parent := Some parent\<rparr>) st1;
                 finalize_following n parent s base (m_next (menus st2 m)) (Some m) st2 } }"

end
