(* ===== verification/Kconf_Sane.thy ===== *)
theory Kconf_Sane
  imports Kconf_Menu
begin

text \<open>
  What the configuration satisfies once it is parsed: every condition is a boolean expression, every
  property has the expression its type asks for, and every choice has the property that lists its values.
\<close>

section \<open>The invariant\<close>

definition cond :: "expr option \<Rightarrow> bool" where
  "cond e \<longleftrightarrow> (case e of None \<Rightarrow> True | Some x \<Rightarrow> bool_expr x)"

lemma cond_simps [simp]: "cond None" "cond (Some x) \<longleftrightarrow> bool_expr x"
  by (simp_all add: cond_def)

lemma cond_alloc: "cond a \<Longrightarrow> cond b \<Longrightarrow> cond (expr_alloc_and a b) \<and> cond (expr_alloc_or a b)"
  by (cases a; cases b) simp_all

text \<open>The properties a parsed configuration has, and the choice property of each choice.\<close>

definition prop_ok :: "property \<Rightarrow> bool" where
  "prop_ok pr \<longleftrightarrow> cond (ev_expr (p_visible pr)) \<and>
    (case p_type pr of
       P_SELECT \<Rightarrow> \<exists>s. p_expr pr = Some (XSymbol s)
     | P_DEFAULT \<Rightarrow> p_expr pr \<noteq> None
     | P_RANGE \<Rightarrow> range_syms (p_expr pr) \<noteq> None
     | _ \<Rightarrow> True)"

definition list_prop :: "property \<Rightarrow> bool" where
  "list_prop pr \<longleftrightarrow> p_expr pr = None \<or> (\<exists>xs. p_expr pr = Some (XList xs))"

definition choice_ok :: "kstate \<Rightarrow> symid \<Rightarrow> bool" where
  "choice_ok st s \<longleftrightarrow> (\<exists>p. sym_get_choice_prop st s = Some p \<and> list_prop (props st p))"

definition is_prompt :: "prop_type \<Rightarrow> bool" where
  "is_prompt ty \<longleftrightarrow> ty = P_PROMPT \<or> ty = P_MENU \<or> ty = P_COMMENT"

text \<open>Between its symbol and its first property a choice is one of \<open>X\<close>.\<close>

definition sane_except :: "symid set \<Rightarrow> kstate \<Rightarrow> bool" where
  "sane_except X st \<longleftrightarrow> (\<forall>p. prop_ok (props st p)) \<and> (\<forall>m. cond (m_dep (menus st m)) \<and> cond (m_visibility (menus st m))) \<and>
    (\<forall>s. sym_is_choice st s \<longrightarrow> choice_ok st s \<or> s \<in> X \<and> for_all_properties st s P_CHOICE = []) \<and>
    (\<forall>s. \<forall>p \<in> set (sym_prop (syms st s)). p < next_prop st) \<and>
    (\<forall>m p. m_prompt (menus st m) = Some p \<longrightarrow> p < next_prop st \<and> is_prompt (p_type (props st p)))"

abbreviation sane :: "kstate \<Rightarrow> bool" where
  "sane \<equiv> sane_except {}"

lemma choice_ok_cong:
  assumes "sym_prop (syms st' s) = sym_prop (syms st s)"
    and "\<And>p. p \<in> set (sym_prop (syms st s)) \<Longrightarrow> p_type (props st' p) = p_type (props st p) \<and> p_expr (props st' p) = p_expr (props st p)"
  shows "choice_ok st' s = choice_ok st s"
proof -
  have f: "for_all_properties st' s P_CHOICE = for_all_properties st s P_CHOICE"
    unfolding for_all_properties_def using assms by (auto intro!: filter_cong)
  have "p \<in> set (sym_prop (syms st s))" if "sym_get_choice_prop st s = Some p" for p
    using that by (auto simp: sym_get_choice_prop_def first_prop_def for_all_properties_def dest!: Cons_eq_filterD [OF sym] split: list.splits)
  then show ?thesis using f assms(2) by (auto simp: choice_ok_def sym_get_choice_prop_def first_prop_def list_prop_def)
qed

lemma choice_props_cong:
  assumes "sym_prop (syms st' s) = sym_prop (syms st s)"
    and "\<And>p. p \<in> set (sym_prop (syms st s)) \<Longrightarrow> p_type (props st' p) = p_type (props st p)"
  shows "for_all_properties st' s ty = for_all_properties st s ty"
  unfolding for_all_properties_def using assms by (auto intro!: filter_cong)

text \<open>Updates that keep this.\<close>

lemma sane_upd_sym:
  assumes "sane_except X st" "\<And>r. sym_prop (f r) = sym_prop r" "\<And>r. SYMBOL_CHOICE \<in> flags (f r) \<longleftrightarrow> SYMBOL_CHOICE \<in> flags r"
  shows "sane_except X (upd_sym s f st)"
  using assms choice_ok_cong [of "upd_sym s f st" _ st] choice_props_cong [of "upd_sym s f st" _ st] by (auto simp: sane_except_def)

lemma sane_upd_menu:
  assumes "sane_except X st" "\<And>r. cond (m_dep r) \<Longrightarrow> cond (m_dep (f r))" "\<And>r. cond (m_visibility r) \<Longrightarrow> cond (m_visibility (f r))"
    "\<And>r. m_prompt (f r) = m_prompt r"
  shows "sane_except X (upd_menu m f st)"
  using assms choice_ok_cong [of "upd_menu m f st" _ st] choice_props_cong [of "upd_menu m f st" _ st] by (auto simp: sane_except_def)

lemma sane_upd_prop:
  assumes "sane_except X st" "\<And>r. p_type (f r) = p_type r" "\<And>r. p_expr (f r) = p_expr r"
    "cond (ev_expr (p_visible (f (props st p))))"
  shows "sane_except X (upd_prop p f st)"
proof -
  have "prop_ok (f (props st p))" unfolding prop_ok_def assms(2,3) using assms(1,4) by (simp add: sane_except_def prop_ok_def)
  then show ?thesis using assms choice_ok_cong [of "upd_prop p f st" _ st] choice_props_cong [of "upd_prop p f st" _ st] by (auto simp: sane_except_def)
qed

lemma sane_more: "sane_except X st \<Longrightarrow> sane_except X (st\<lparr>current_entry := m\<rparr>)"
  using choice_ok_cong [of "st\<lparr>current_entry := m\<rparr>" _ st] choice_props_cong [of "st\<lparr>current_entry := m\<rparr>" _ st] by (simp add: sane_except_def)

text \<open>A choice property added to a symbol comes behind the ones it has.\<close>

lemma choice_prop_append:
  assumes "choice_ok st s" "sym_prop (syms st' s) = sym_prop (syms st s) @ ps"
    and "\<And>p. p \<in> set (sym_prop (syms st s)) \<Longrightarrow> p_type (props st' p) = p_type (props st p) \<and> p_expr (props st' p) = p_expr (props st p)"
  shows "choice_ok st' s"
proof -
  have "for_all_properties st' s P_CHOICE = for_all_properties st s P_CHOICE @ filter (\<lambda>p. p_type (props st' p) = P_CHOICE) ps"
    unfolding for_all_properties_def using assms(2,3) by (auto intro!: filter_cong)
  moreover obtain p where p: "sym_get_choice_prop st s = Some p" "list_prop (props st p)" using assms(1) by (auto simp: choice_ok_def)
  moreover have "p \<in> set (sym_prop (syms st s))"
    using p(1) by (auto simp: sym_get_choice_prop_def first_prop_def for_all_properties_def dest!: Cons_eq_filterD [OF sym] split: list.splits)
  ultimately show ?thesis using assms(3)
    by (auto simp: choice_ok_def sym_get_choice_prop_def first_prop_def list_prop_def split: list.splits)
qed

end
