(* ===== verification/Kconf_Finalize_Tree.thy ===== *)
theory Kconf_Finalize_Tree
  imports Kconf_Finalize Kconf_Sane Kconf_Parse_Tree Kconf_Dups_Props
begin

text \<open>
  \<^verbatim>\<open>menu_finalize\<close> ends, keeps the invariant of a parsed configuration, and moves entries around the
  menu tree without changing their order.
\<close>

section \<open>Conditions\<close>

lemma copy_opt_cond: "cond e \<Longrightarrow> copy_opt e = Some e"
  by (cases e) (simp_all add: copy_opt_def expr_copy_bool)

lemma transform_bool: "bool_expr e \<Longrightarrow> bool_expr (expr_transform st e)"
proof (induction st e rule: expr_transform.induct)
  case (5 st a)
  have IH: "bool_expr (expr_transform st a)" using 5(1,5) by simp
  show ?case
  proof (cases rule: transform_not_cases [of st a])
    case (Not b)
    then show ?thesis using IH 5(4) [OF Not(1)] by simp
  qed (use IH 5 in \<open>auto simp: expr_alloc_symbol_def\<close>)
qed auto

lemma dups_total: "cond e \<Longrightarrow> \<exists>e'. expr_eliminate_dups st e = Some e' \<and> cond e' \<and> (e' = None \<longleftrightarrow> e = None)"
  using dups_loop_correct [OF _ order_refl, of _ False st]
  by (cases e) (auto simp: expr_eliminate_dups_def run_False, fastforce)

lemma with_base_total: "cond b \<Longrightarrow> cond e \<Longrightarrow> \<exists>e'. with_base st b e = Some e' \<and> cond e'"
  using dups_total [of "expr_alloc_and b (map_option (expr_transform st) e)" st] cond_alloc [of b "map_option (expr_transform st) e"]
  by (cases e) (auto simp: with_base_def copy_opt_cond transform_bool)

lemma trans_compare_bool:
  "bool_expr e \<Longrightarrow> ty = E_EQUAL \<or> ty = E_UNEQUAL \<Longrightarrow> \<exists>t. trans_compare e ty symbol_no = Some t \<and> bool_expr t"
proof (induction e arbitrary: ty)
  case (XOr l r)
  obtain t u where "trans_compare l E_EQUAL symbol_no = Some t" "bool_expr t" "trans_compare r E_EQUAL symbol_no = Some u" "bool_expr u"
    using XOr.IH(1) [of E_EQUAL] XOr.IH(2) [of E_EQUAL] XOr.prems(1) by auto
  then show ?case using XOr.prems(2) by (auto simp: Let_def)
next
  case (XAnd l r)
  obtain t u where "trans_compare l E_EQUAL symbol_no = Some t" "bool_expr t" "trans_compare r E_EQUAL symbol_no = Some u" "bool_expr u"
    using XAnd.IH(1) [of E_EQUAL] XAnd.IH(2) [of E_EQUAL] XAnd.prems(1) by auto
  then show ?case using XAnd.prems(2) by (auto simp: Let_def)
qed (auto simp: trans_comparison_def expr_copy_bool expr_alloc_symbol_def)

lemma not_no_total: "cond e \<Longrightarrow> \<exists>t. not_no st e = Some (Some t) \<and> bool_expr t"
proof -
  assume "cond e"
  then obtain t where t: "expr_trans_compare e E_UNEQUAL symbol_no = Some t" "bool_expr t"
    using trans_compare_bool [of _ E_UNEQUAL] by (cases e) (auto simp: expr_alloc_symbol_def)
  then show ?thesis using dups_total [of "Some (expr_transform st t)" st] transform_bool [OF t(2), of st]
    by (auto simp: not_no_def cond_def split: option.splits)
qed

section \<open>Steps that keep the tree\<close>

text \<open>A step that keeps the menu tree.\<close>

definition calm :: "kstate \<Rightarrow> kstate \<Rightarrow> bool" where
  "calm st st' \<longleftrightarrow> sane st' \<and> links st' = links st \<and> next_menu st' = next_menu st \<and>
    (\<forall>m. m_sym (menus st' m) = m_sym (menus st m) \<and> m_prompt (menus st' m) = m_prompt (menus st m))"

lemma calm_refl: "sane st \<Longrightarrow> calm st st"
  by (simp add: calm_def)

lemma calm_trans: "calm st st1 \<Longrightarrow> calm st1 st2 \<Longrightarrow> calm st st2"
  by (simp add: calm_def)

lemma calm_sane: "calm st st' \<Longrightarrow> sane st'"
  by (simp add: calm_def)

lemma calm_bind:
  assumes "run False m (calm st)" "\<And>st1. calm st st1 \<Longrightarrow> run False (f st1) (calm st1)"
  shows "run False (do { st1 \<leftarrow> m; f st1 }) (calm st)"
proof -
  obtain st1 where st1: "m = Some st1" "calm st st1" using assms(1) by (auto simp: run_False)
  show ?thesis using st1(1) run_mono [OF assms(2) [OF st1(2)], of "calm st"] calm_trans [OF st1(2)] by simp
qed

lemma calm_all:
  assumes "sane st" "\<And>x st'. x \<in> set xs \<Longrightarrow> calm st st' \<Longrightarrow> run False (f x st') (calm st')"
  shows "run False (parse_all f xs st) (calm st)"
  using assms
proof (induction xs arbitrary: st)
  case (Cons x xs)
  show ?case unfolding parse_all.simps
    by (rule calm_bind) (use Cons calm_sane calm_refl calm_trans in auto)
qed (simp add: calm_refl)

lemma calm_updates:
  assumes "sane st"
  shows "(\<And>r. sym_prop (f r) = sym_prop r) \<Longrightarrow> (\<And>r. SYMBOL_CHOICE \<in> flags (f r) \<longleftrightarrow> SYMBOL_CHOICE \<in> flags r) \<Longrightarrow> calm st (upd_sym s f st)"
    "(\<And>r. cond (m_dep r) \<Longrightarrow> cond (m_dep (g r))) \<Longrightarrow> (\<And>r. m_visibility (g r) = m_visibility r) \<Longrightarrow> (\<And>r. m_sym (g r) = m_sym r) \<Longrightarrow> (\<And>r. m_prompt (g r) = m_prompt r) \<Longrightarrow>
      (\<And>r. m_list (g r) = m_list r) \<Longrightarrow> (\<And>r. m_next (g r) = m_next r) \<Longrightarrow> (\<And>r. m_parent (g r) = m_parent r) \<Longrightarrow> calm st (upd_menu m g st)"
    "(\<And>r. p_type (h r) = p_type r) \<Longrightarrow> (\<And>r. p_expr (h r) = p_expr r) \<Longrightarrow> cond (ev_expr (p_visible (h (props st p)))) \<Longrightarrow> calm st (upd_prop p h st)"
    "calm st (st\<lparr>current_entry := x\<rparr>)"
  using assms sane_upd_sym [OF assms] sane_upd_menu [OF assms] sane_upd_prop [OF assms] sane_more [OF assms]
  by (auto simp: calm_def links_def fun_eq_iff upd_menu_def upd_prop_def)

lemma calm_set_flag: "sane st \<Longrightarrow> SYMBOL_CHOICE \<notin> fs \<Longrightarrow> calm st (set_flag s fs st)"
  unfolding set_flag_def by (rule calm_updates(1)) auto

lemma calm_set_type: "sane st \<Longrightarrow> m_sym (menus st (current_entry st)) \<noteq> None \<Longrightarrow> run False (menu_set_type ty st) (\<lambda>x. calm st (snd x))"
  by (auto simp: menu_set_type_def calm_refl intro!: calm_updates(1))

lemma choice_type_calm:
  assumes "sane st" "m_sym (menus st parent) = Some s"
  shows "run False (choice_type parent s ms st) (calm st)"
proof (cases "sym_type (syms st s) \<noteq> S_UNKNOWN")
  case False
  let ?st1 = "st\<lparr>current_entry := parent\<rparr>"
  have c: "calm st ?st1" by (rule calm_updates(4) [OF assms(1)])
  show ?thesis
  proof (cases "List.find (has_type ?st1) ms")
    case None
    then show ?thesis using False c by (simp add: choice_type_def Let_def)
  next
    case (Some m)
    then obtain t where t: "m_sym (menus ?st1 m) = Some t" using find_SomeD [OF Some] by (auto simp: has_type_def split: option.splits)
    have "run False (menu_set_type ty ?st1) (\<lambda>x. calm st (snd x))" for ty
      by (rule run_mono [OF calm_set_type [OF calm_sane [OF c]]]) (use assms(2) calm_trans [OF c] in auto)
    from this [of "sym_type (syms st t)"] show ?thesis using False Some t by (auto simp: choice_type_def Let_def run_False)
  qed
qed (simp add: choice_type_def calm_refl assms)

lemma value_type_calm:
  assumes "sane st"
  shows "run False (value_type s m st) (calm st)"
proof -
  let ?st1 = "st\<lparr>current_entry := m\<rparr>"
  have c: "calm st ?st1" by (rule calm_updates(4) [OF assms(1)])
  have "run False (menu_set_type ty ?st1) (\<lambda>x. calm st (snd x))" if "m_sym (menus st m) \<noteq> None" for ty
    by (rule run_mono [OF calm_set_type [OF calm_sane [OF c]]]) (use that calm_trans [OF c] in auto)
  then show ?thesis using c by (fastforce simp: value_type_def Let_def run_False split: option.split)
qed

lemma prop_dep_calm:
  assumes "sane st" "cond base" "p_type (props st p) = P_SELECT \<Longrightarrow> m_sym (menus st m) \<noteq> None"
  shows "run False (prop_dep m base p st) (calm st)"
proof (cases "p_menu (props st p) \<noteq> Some m")
  case False
  have pok: "prop_ok (props st p)" using assms(1) by (simp add: sane_except_def)
  obtain d where d: "with_base st base (ev_expr (p_visible (props st p))) = Some d" "cond d"
    using with_base_total [OF assms(2), of "ev_expr (p_visible (props st p))" st] pok by (auto simp: prop_ok_def)
  define dep where "dep = (case m_sym (menus st m) of None \<Rightarrow> d
      | Some s \<Rightarrow> if sym_type (syms st s) \<noteq> S_TRISTATE then map_option (expr_trans_bool st) d else d)"
  have tb: "bool_expr e \<Longrightarrow> bool_expr (expr_trans_bool st e)" for e
    by (induction st e rule: expr_trans_bool.induct) (auto simp: expr_alloc_symbol_def)
  have dc: "cond dep" using d(2) tb by (cases d) (auto simp: dep_def split: option.split)
  define st1 where "st1 = upd_prop p (\<lambda>pr. pr\<lparr>p_visible := (p_visible pr)\<lparr>ev_expr := dep\<rparr>\<rparr>) st"
  have c1: "calm st st1" unfolding st1_def by (rule calm_updates(3) [OF assms(1)]) (use dc in simp_all)
  have same: "p_type (props st1 p) = p_type (props st p)" "p_expr (props st1 p) = p_expr (props st p)" "menus st1 = menus st"
    by (simp_all add: st1_def)
  have sel: "\<exists>es s. prop_get_symbol st1 p = Some es \<and> m_sym (menus st1 m) = Some s" if "p_type (props st p) = P_SELECT"
    using pok that assms(3) same by (auto simp: prop_ok_def prop_get_symbol_def)
  have u: "calm st (upd_sym es (\<lambda>r. r\<lparr>rev_dep := (rev_dep r)\<lparr>ev_expr := e r\<rparr>\<rparr>) st1)" for es e
    by (rule calm_trans [OF c1 calm_updates(1) [OF calm_sane [OF c1]]]) simp_all
  show ?thesis unfolding prop_dep_def using False d(1) sel c1 u copy_opt_cond [OF dc] same(1)
    by (auto simp: Let_def dep_def [symmetric] st1_def [symmetric])
qed (simp add: prop_dep_def calm_refl assms)

lemma entry_dep_calm:
  assumes "sane st" "cond parentdep"
  shows "run False (entry_dep parentdep m st) (calm st)"
proof -
  have "cond (m_dep (menus st m))" using assms(1) by (simp add: sane_except_def)
  from with_base_total [OF assms(2) this, of st] obtain base where b: "with_base st parentdep (m_dep (menus st m)) = Some base" "cond base" by auto
  define st1 where "st1 = upd_menu m (\<lambda>r. r\<lparr>m_dep := base\<rparr>) st"
  have c1: "calm st st1" unfolding st1_def by (rule calm_updates(2) [OF assms(1)]) (use b(2) in simp_all)
  have "run False (parse_all (prop_dep m base) (entry_props st1 m) st1) (calm st1)"
  proof (rule calm_all [OF calm_sane [OF c1]], rule prop_dep_calm [OF calm_sane b(2)])
    fix p st' assume a: "p \<in> set (entry_props st1 m)" "calm st1 st'" "p_type (props st' p) = P_SELECT"
    have "sane st'" using a(2) by (rule calm_sane)
    show "m_sym (menus st' m) \<noteq> None"
    proof
      assume n: "m_sym (menus st' m) = None"
      then have "m_prompt (menus st' m) = Some p" using a(1,2) by (auto simp: entry_props_def calm_def split: option.splits)
      then show False using \<open>sane st'\<close> a(3) unfolding sane_except_def is_prompt_def by fastforce
    qed
  qed
  then show ?thesis using b(1) calm_trans [OF c1] by (auto simp: entry_dep_def st1_def Let_def elim!: run_mono)
qed

lemma spread_deps_calm:
  assumes "sane st" "entries (next_menu st) st (m_list (menus st parent)) = Some ms"
  shows "run False (spread_deps parent st) (calm st)"
proof -
  let ?dep = "case m_prompt (menus st parent) of Some p \<Rightarrow> ev_expr (p_visible (props st p)) | None \<Rightarrow> m_dep (menus st parent)"
  have dep: "cond ?dep" using assms(1) by (auto simp: sane_except_def prop_ok_def split: option.split)
  have all: "run False (parse_all (entry_dep d) ms st1) (calm st)" if "calm st st1" "cond d" for d st1
    by (rule run_mono [OF calm_all [OF calm_sane [OF that(1)]]]) (auto intro: entry_dep_calm calm_sane calm_trans [OF that(1)] that(2))
  have "run False (do { st1 \<leftarrow> choice_type parent s ms st; parse_all (value_type s) ms st1 }) (calm st)" if "m_sym (menus st parent) = Some s" for s
    by (rule calm_bind [OF choice_type_calm [OF assms(1) that]], rule calm_all) (auto intro: value_type_calm calm_sane)
  then obtain st2 where "m_sym (menus st parent) = Some s \<Longrightarrow> do { st1 \<leftarrow> choice_type parent s ms st; parse_all (value_type s) ms st1 } = Some (st2 s) \<and> calm st (st2 s)" for s
    by (auto simp: run_False simp del: run_bind) metis
  then show ?thesis using all [of _ "Some (expr_alloc_symbol _)"] all [OF calm_refl [OF assms(1)] dep] assms(2)
    by (fastforce simp: spread_deps_def expr_alloc_symbol_def split: option.splits elim!: bind_eq_SomeE)
qed

lemma add_choice_prop:
  assumes "sane st" "m_sym (menus st (current_entry st)) = Some t"
  shows "run False (menu_add_symbol P_CHOICE s None st) (calm st)"
proof -
  let ?p = "next_prop st"
  define pr where "pr = free_property\<lparr>p_type := P_CHOICE, p_sym := Some t, p_menu := Some (current_entry st), p_expr := Some (expr_alloc_symbol s)\<rparr>"
  define st' where "st' = upd_sym t (\<lambda>r. r\<lparr>sym_prop := sym_prop r @ [?p]\<rparr>) (st\<lparr>props := (props st)(?p := pr), next_prop := Suc ?p\<rparr>)"
  have r: "menu_add_symbol P_CHOICE s None st = Some st'"
    using assms(2) by (simp add: menu_add_symbol_def menu_add_prop_def prop_alloc_def Let_def menu_check_dep_def st'_def pr_def upd_prop_def upd_sym_def free_property_def)
  have old: "props st' p = props st p" if "p < ?p" for p using that by (simp add: st'_def)
  have lt: "\<And>s p. p \<in> set (sym_prop (syms st s)) \<Longrightarrow> p < ?p" using assms(1) by (simp add: sane_except_def)
  have "choice_ok st' x" if "sym_is_choice st' x" for x
  proof (rule choice_prop_append [of st x st' "if x = t then [?p] else []"])
    show "choice_ok st x" using that assms(1) by (auto simp: sane_except_def st'_def split: if_splits)
  qed (use old lt in \<open>auto simp: st'_def\<close>)
  moreover have "prop_ok (props st' p)" for p using assms(1) by (auto simp: sane_except_def st'_def pr_def prop_ok_def free_property_def)
  moreover have "\<forall>m p. m_prompt (menus st' m) = Some p \<longrightarrow> p < next_prop st' \<and> is_prompt (p_type (props st' p))"
    using assms(1) by (fastforce simp: sane_except_def st'_def)
  ultimately have "sane st'" using assms(1) by (fastforce simp: sane_except_def st'_def)
  then show ?thesis using r by (auto simp: calm_def links_def st'_def fun_eq_iff)
qed

lemma set_choice_list:
  assumes "sane st" "p_type (props st p) = P_CHOICE"
  shows "calm st (upd_prop p (\<lambda>pr. pr\<lparr>p_expr := Some (XList xs)\<rparr>) st)"
proof -
  let ?st' = "upd_prop p (\<lambda>pr. pr\<lparr>p_expr := Some (XList xs)\<rparr>) st"
  have "sym_get_choice_prop ?st' s = sym_get_choice_prop st s" for s
    by (auto simp: sym_get_choice_prop_def first_prop_def for_all_properties_def intro!: arg_cong [where f = "\<lambda>l. case l of [] \<Rightarrow> None | q # _ \<Rightarrow> Some q"] filter_cong)
  then have "choice_ok ?st' s" if "choice_ok st s" for s using that by (auto simp: choice_ok_def list_prop_def)
  moreover have "prop_ok (props ?st' q)" for q using assms by (auto simp: sane_except_def prop_ok_def)
  ultimately have "sane ?st'" using assms(1) by (auto simp: sane_except_def upd_prop_def)
  then show ?thesis by (auto simp: calm_def links_def fun_eq_iff upd_prop_def)
qed

lemma add_choice_value_calm:
  assumes "sane st"
  shows "run False (add_choice_value s m st) (calm st)"
proof (cases "m_sym (menus st m)")
  case (Some t)
  show ?thesis
  proof (cases "\<not> sym_is_choice st s \<or> sym_is_choice_value st t")
    case False
    define st0 where "st0 = st\<lparr>current_entry := m\<rparr>"
    define st1 where "st1 = set_flag t {SYMBOL_CHOICEVAL} st0"
    define base where "base = expr_alloc_comp E_EQUAL s symbol_yes"
    define f where "f = (\<lambda>p x. if p_menu (props x p) \<noteq> Some m then x
        else upd_prop p (\<lambda>pr. pr\<lparr>p_visible := (p_visible pr)\<lparr>ev_expr := expr_alloc_and (Some base) (ev_expr (p_visible pr))\<rparr>\<rparr>) x)"
    define st1' where "st1' = upd_menu m (\<lambda>r. r\<lparr>m_dep := expr_alloc_and (Some base) (m_dep r)\<rparr>) st1"
    define st2 where "st2 = (if sym_type (syms st1 s) = S_TRISTATE \<and> sym_type (syms st1 t) \<noteq> S_TRISTATE
        then fold f (sym_prop (syms st1 t)) st1' else st1)"
    have c0: "calm st st0" unfolding st0_def by (rule calm_updates(4) [OF assms])
    have c1: "calm st st1" unfolding st1_def by (rule calm_trans [OF c0 calm_set_flag [OF calm_sane [OF c0]]]) simp
    have cb: "cond e \<Longrightarrow> cond (expr_alloc_and (Some base) e)" for e using cond_alloc [of "Some base" e] by (simp add: base_def)
    have c1': "calm st st1'" unfolding st1'_def
      by (rule calm_trans [OF c1 calm_updates(2) [OF calm_sane [OF c1]]]) (use cb in simp_all)
    have ff: "calm st x \<Longrightarrow> calm st (f p x)" for p x
      unfolding f_def by (auto intro!: calm_trans [of st x] calm_updates(3) dest: calm_sane simp: cb sane_except_def prop_ok_def)
    have cf: "calm st (fold f ps x) \<and> current_entry (fold f ps x) = current_entry x \<and> (\<forall>y. sym_is_choice (fold f ps x) y = sym_is_choice x y)"
      if "calm st x" for ps x
      using that by (induction ps arbitrary: x) (auto simp: ff, auto simp: f_def upd_prop_def split: if_splits)
    have c2: "calm st st2" using cf [OF c1'] c1 by (simp add: st2_def)
    have e2: "current_entry st2 = m" "sym_is_choice st2 s"
      using cf [OF c1', of "sym_prop (syms st1 t)"] False
      by (auto simp: st2_def st1'_def st1_def st0_def upd_menu_def)
    obtain st3 where st3: "menu_add_symbol P_CHOICE s None st2 = Some st3" "calm st2 st3"
      using add_choice_prop [OF calm_sane [OF c2], of t s] e2(1) Some c2 by (auto simp: run_False calm_def)
    have "sym_is_choice st3 s" using st3(1) e2(2)
      by (auto simp: menu_add_symbol_def menu_add_prop_def prop_alloc_def Let_def menu_check_dep_def upd_prop_def split: option.splits)
    then obtain p where p: "sym_get_choice_prop st3 s = Some p" "list_prop (props st3 p)" using calm_sane [OF st3(2)] by (auto simp: sane_except_def choice_ok_def)
    have "p_type (props st3 p) = P_CHOICE"
      using p(1) by (auto simp: sym_get_choice_prop_def first_prop_def for_all_properties_def dest!: Cons_eq_filterD [OF sym] split: list.splits)
    note last = calm_trans [OF calm_trans [OF c2 st3(2)] set_choice_list [OF calm_sane [OF st3(2)] this]]
    show ?thesis unfolding add_choice_value_def Some option.case Let_def
      using False st3(1) p last
      unfolding st0_def [symmetric] st1_def [symmetric] base_def [symmetric] f_def [symmetric] st1'_def [symmetric] st2_def [symmetric]
      by (auto simp: list_prop_def)
  qed (simp add: add_choice_value_def Some calm_refl assms)
qed (simp add: add_choice_value_def calm_refl assms)

lemma check_prop_total: "sane st \<Longrightarrow> \<exists>ws. sym_check_prop st s = Some ws"
proof -
  assume "sane st"
  then have ok: "prop_ok (props st p)" for p by (simp add: sane_except_def)
  have "\<exists>ws. check_one_prop st s p = Some ws" for p
    using ok [of p] by (cases "p_type (props st p)") (auto simp: check_one_prop_def prop_ok_def prop_get_symbol_def Let_def)
  then have "\<exists>ws. check_props st s ps = Some ws" for ps by (induction ps) (auto, metis bind.bind_lunit)
  then show ?thesis by (simp add: sym_check_prop_def)
qed

lemma finish_symbol_calm:
  assumes "sane st"
  shows "run False (finish_symbol parent s st) (calm st)"
proof -
  obtain st1 where st1: "(if has_flag st s SYMBOL_WARNED then Some st
      else do { _ \<leftarrow> sym_check_prop st s; Some (set_flag s {SYMBOL_WARNED} st) }) = Some st1" "calm st st1"
    using check_prop_total [OF assms, of s] calm_refl [OF assms] calm_set_flag [OF assms, of "{SYMBOL_WARNED}" s]
    by (cases "has_flag st s SYMBOL_WARNED") auto
  have "calm st (upd_sym s (\<lambda>r. r\<lparr>rev_dep := (rev_dep r)\<lparr>ev_expr := e r\<rparr>\<rparr>) st1)" for e
    by (rule calm_trans [OF st1(2) calm_updates(1) [OF calm_sane [OF st1(2)]]]) simp_all
  then show ?thesis using st1 by (auto simp: finish_symbol_def split: option.split)
qed

lemma own_dep_calm: "sane st \<Longrightarrow> calm st (own_dep parent s st)"
  unfolding own_dep_def by (rule calm_updates(1)) simp_all

lemma belongs_total:
  assumes "sane st" "bool_expr b"
  shows "\<exists>r. belongs s (Some b) m st = Some r"
proof -
  let ?dep = "case m_prompt (menus st m) of Some p \<Rightarrow> ev_expr (p_visible (props st p)) | None \<Rightarrow> m_dep (menus st m)"
  have dep: "cond ?dep" using assms(1) by (auto simp: sane_except_def prop_ok_def split: option.split)
  show ?thesis using not_no_total [OF dep, of st] copy_opt_cond [of "Some b"] assms(2)
    by (auto simp: belongs_def Let_def)
qed

section \<open>Segments of siblings\<close>

text \<open>Siblings below \<open>par\<close>, the last of which points to \<open>nxt\<close>.\<close>

type_synonym link_map = "menuid \<Rightarrow> menuid option \<times> menuid option \<times> menuid option"

fun seg :: "link_map \<Rightarrow> menuid \<Rightarrow> mtree list \<Rightarrow> menuid option \<Rightarrow> bool" where
  "seg L par [] nxt = True"
| "seg L par (Entry m cs # ts) nxt =
     (L m = (first_entry cs, if ts = [] then nxt else first_entry ts, Some par) \<and> forest L m cs \<and> seg L par ts nxt)"

fun root_of :: "mtree \<Rightarrow> menuid" where
  "root_of (Entry m cs) = m"

lemma forest_seg: "forest L par ts \<longleftrightarrow> seg L par ts None"
  by (induction ts rule: preorder.induct) auto

lemma first_entry_append: "first_entry (xs @ ys) = (if xs = [] then first_entry ys else first_entry xs)"
  by (cases xs rule: first_entry.cases) auto

lemma preorder_append [simp]: "preorder (xs @ ys) = preorder xs @ preorder ys"
  by (induction xs rule: preorder.induct) auto

lemma preorder_Nil [simp]: "preorder ts = [] \<longleftrightarrow> ts = []"
  by (cases ts rule: preorder.cases) auto

lemma first_entry_preorder: "first_entry ts = (case preorder ts of [] \<Rightarrow> None | x # _ \<Rightarrow> Some x)"
  by (cases ts rule: first_entry.cases) auto

lemma seg_append: "seg L par (xs @ ys) nxt \<longleftrightarrow> seg L par xs (if ys = [] then nxt else first_entry ys) \<and> seg L par ys nxt"
  by (induction xs rule: preorder.induct) (auto simp: first_entry_append)

lemma seg_cong: "(\<And>x. x \<in> set (preorder ts) \<Longrightarrow> L' x = L x) \<Longrightarrow> seg L' par ts nxt \<longleftrightarrow> seg L par ts nxt"
proof (induction ts rule: preorder.induct)
  case (2 m cs ts)
  then show ?case using forest_cong [of cs L' L m] by simp
qed simp

lemma root_in: "t \<in> set ts \<Longrightarrow> root_of t \<in> set (preorder ts)"
  by (induction ts rule: preorder.induct) auto

lemma roots_length: "length ts \<le> length (preorder ts)"
  by (induction ts rule: preorder.induct) auto

text \<open>Closing a segment at its last entry.\<close>

lemma seg_last:
  assumes "seg L par (ts @ [Entry l cs]) nxt" "l \<notin> set (preorder ts) \<union> set (preorder cs)"
  shows "seg (L(l := (fst (L l), nxt', snd (snd (L l))))) par (ts @ [Entry l cs]) nxt'"
proof -
  let ?L = "L(l := (fst (L l), nxt', snd (snd (L l))))"
  have "forest ?L l cs \<longleftrightarrow> forest L l cs" by (rule forest_cong) (use assms(2) in auto)
  moreover have "seg ?L par ts (Some l) \<longleftrightarrow> seg L par ts (Some l)" by (rule seg_cong) (use assms(2) in auto)
  ultimately show ?thesis using assms(1) by (auto simp: seg_append)
qed

lemma links_upd_menu:
  "links (upd_menu m f st) = (links st)(m := (m_list (f (menus st m)), m_next (f (menus st m)), m_parent (f (menus st m))))"
  by (auto simp: links_def fun_eq_iff upd_menu_def)

lemma links_sel: "m_list (menus st m) = fst (links st m)" "m_next (menus st m) = fst (snd (links st m))"
  "m_parent (menus st m) = snd (snd (links st m))"
  by (simp_all add: links_def)

lemma entries_forest: "forest (links st) par ts \<Longrightarrow> length ts \<le> n \<Longrightarrow> entries n st (first_entry ts) = Some (map root_of ts)"
proof (induction ts arbitrary: n rule: preorder.induct)
  case (2 m cs ts)
  then show ?case by (cases n) (simp_all add: links_sel)
qed simp

text \<open>Giving the roots of a segment another parent.\<close>

definition adopt :: "menuid \<Rightarrow> menuid set \<Rightarrow> link_map \<Rightarrow> link_map" where
  "adopt par R L x = (if x \<in> R then (fst (L x), fst (snd (L x)), Some par) else L x)"

lemma adopt_seg:
  "seg L c ts nxt \<Longrightarrow> distinct (preorder ts) \<Longrightarrow> seg (adopt par (root_of ` set ts) L) par ts nxt"
proof (induction ts rule: preorder.induct)
  case (2 m cs ts)
  let ?L = "adopt par (root_of ` set (Entry m cs # ts)) L"
  have "m \<notin> set (preorder cs)" "m \<notin> set (preorder ts)" "set (preorder cs) \<inter> set (preorder ts) = {}" using 2(4) by auto
  moreover from this have "root_of ` set ts \<inter> set (preorder cs) = {}" using root_in by fastforce
  ultimately have "forest ?L m cs \<longleftrightarrow> forest L m cs" by (intro forest_cong) (auto simp: adopt_def)
  moreover have "seg ?L par ts nxt \<longleftrightarrow> seg (adopt par (root_of ` set ts) L) par ts nxt"
    by (rule seg_cong) (use \<open>m \<notin> set (preorder ts)\<close> in \<open>auto simp: adopt_def\<close>)
  moreover have "?L m = (first_entry cs, if ts = [] then nxt else first_entry ts, Some par)" using 2(3) by (simp add: adopt_def)
  ultimately show ?case using 2(2-4) by simp
qed simp

lemma reparent_adopts:
  assumes "seg (links st) c ts None" "ts \<noteq> []" "distinct (preorder ts)" "length ts \<le> Suc n" "sane st"
  shows "\<exists>st1. reparent n par (root_of (hd ts)) st = Some (root_of (last ts), st1) \<and> links st1 = adopt par (root_of ` set ts) (links st) \<and>
    sane st1 \<and> next_menu st1 = next_menu st"
  using assms
proof (induction ts arbitrary: st n)
  case (Cons t ts)
  obtain m cs where t: "t = Entry m cs" by (cases t)
  let ?st1 = "upd_menu m (\<lambda>r. r\<lparr>m_parent := Some par\<rparr>) st"
  have L1: "links ?st1 = (links st)(m := (fst (links st m), fst (snd (links st m)), Some par))"
    by (simp add: links_upd_menu links_sel)
  have s1: "sane ?st1" "next_menu ?st1 = next_menu st" by (rule sane_upd_menu [OF Cons.prems(5)]) (simp_all add: upd_menu_def)
  have nx: "m_next (menus ?st1 m) = first_entry ts" using Cons.prems(1) L1 first_entry_None [of ts] by (cases ts) (auto simp: links_sel t)
  show ?case
  proof (cases ts)
    case Nil
    then show ?thesis using nx s1 L1 by (simp add: reparent.simps [of n] t adopt_def fun_eq_iff)
  next
    case (Cons u us)
    obtain k where n: "n = Suc k" using Cons.prems(4) Cons by (cases n) auto
    have m: "m \<notin> set (preorder ts)" using Cons.prems(3) t by auto
    have "seg (links ?st1) c ts None \<longleftrightarrow> seg (links st) c ts None" unfolding L1 by (rule seg_cong) (use m in auto)
    then obtain st2 where st2: "reparent k par (root_of (hd ts)) ?st1 = Some (root_of (last ts), st2)"
      "links st2 = adopt par (root_of ` set ts) (links ?st1)" "sane st2" "next_menu st2 = next_menu ?st1"
      using Cons.IH [of ?st1 k] Cons.prems Cons n s1(1) t by auto
    have "first_entry ts = Some (root_of (hd ts))" using Cons by (cases u) simp
    moreover have "links st2 = adopt par (root_of ` set (t # ts)) (links st)"
      unfolding st2(2) L1 using m root_in by (fastforce simp: adopt_def fun_eq_iff t)
    ultimately show ?thesis using nx st2 s1(2) n Cons by (simp add: reparent.simps [of "Suc k"] t)
  qed
qed simp

text \<open>What a step may do to the tree: it changes the links of the entries of \<open>X\<close> only.\<close>

definition within :: "menuid set \<Rightarrow> kstate \<Rightarrow> kstate \<Rightarrow> bool" where
  "within X st st' \<longleftrightarrow> sane st' \<and> next_menu st' = next_menu st \<and> (\<forall>x. x \<notin> X \<longrightarrow> links st' x = links st x)"

lemma within_refl: "sane st \<Longrightarrow> within X st st"
  by (simp add: within_def)

lemma within_trans: "within X st st1 \<Longrightarrow> within Y st1 st2 \<Longrightarrow> X \<subseteq> Z \<Longrightarrow> Y \<subseteq> Z \<Longrightarrow> within Z st st2"
  unfolding within_def by (metis subset_eq)

lemma calm_within: "calm st st' \<Longrightarrow> within X st st'"
  by (simp add: calm_def within_def)

lemma within_sane: "within X st st' \<Longrightarrow> sane st'"
  by (simp add: within_def)

lemma move_up_forest:
  assumes "forest (links st) par (Entry c cc # rest)" "distinct (preorder (Entry c cc # rest))" "sane st" "length cc \<le> next_menu st"
  shows "run False (move_up par c st) (\<lambda>st'. within (set (preorder (Entry c cc # rest))) st st' \<and>
    (\<exists>cc' rest'. forest (links st') par (Entry c cc' # rest') \<and> preorder cc' @ preorder rest' = preorder cc @ preorder rest))"
proof (cases "cc = [] \<or> \<not> (case m_prompt (menus st c) of None \<Rightarrow> True | Some p \<Rightarrow> p_text (props st p) = None)")
  case True
  then have "move_up par c st = Some st" using assms(1) first_entry_None [of cc] by (auto simp: move_up_def links_sel split: option.splits)
  then show ?thesis using assms within_refl [OF assms(3)] by auto
next
  case False
  let ?L = "links st" and ?R = "root_of ` set cc" and ?X = "set (preorder (Entry c cc # rest))"
  have Lc: "?L c = (first_entry cc, first_entry rest, Some par)" "forest ?L c cc" "forest ?L par rest" using assms(1) by auto
  have c: "c \<notin> set (preorder cc)" "c \<notin> set (preorder rest)" "distinct (preorder cc)" "set (preorder cc) \<inter> set (preorder rest) = {}"
    using assms(2) by auto
  have R: "?R \<subseteq> set (preorder cc)" using root_in by blast
  obtain st1 where st1: "reparent (next_menu st) par (root_of (hd cc)) st = Some (root_of (last cc), st1)"
    "links st1 = adopt par ?R ?L" "sane st1" "next_menu st1 = next_menu st"
    using reparent_adopts [of st c cc "next_menu st" par] Lc(2) False c(3) assms(3,4) by (auto simp: forest_seg)
  obtain us l lcs where cc: "cc = us @ [Entry l lcs]" using False by (metis append_butlast_last_id mtree.exhaust)
  have l: "root_of (last cc) = l" "l \<in> set (preorder cc)" "l \<notin> set (preorder us) \<union> set (preorder lcs)" using c(3) by (auto simp: cc)
  define st2 where "st2 = upd_menu l (\<lambda>r. r\<lparr>m_next := m_next (menus st1 c)\<rparr>) st1"
  define st3 where "st3 = upd_menu c (\<lambda>r. r\<lparr>m_next := m_list r, m_list := None\<rparr>) st2"
  have L1: "links st1 c = ?L c" using c(1) R by (auto simp: st1(2) adopt_def)
  have L2: "links st2 = (links st1)(l := (fst (links st1 l), first_entry rest, snd (snd (links st1 l))))"
    using L1 Lc(1) by (simp add: st2_def links_upd_menu links_sel)
  have L3: "links st3 = (links st2)(c := (None, first_entry cc, Some par))"
    using L1 Lc(1) l(2) c(1) by (auto simp: st3_def links_upd_menu links_sel L2)
  have "seg (links st1) par cc None" unfolding st1(2) by (rule adopt_seg) (use Lc(2) c(3) in \<open>auto simp: forest_seg\<close>)
  then have "seg (links st2) par cc (first_entry rest)" unfolding L2 cc by (rule seg_last) (use l(3) in auto)
  moreover have "seg (links st3) par cc (first_entry rest) \<longleftrightarrow> seg (links st2) par cc (first_entry rest)"
    unfolding L3 by (rule seg_cong) (use c(1) in auto)
  moreover have "forest (links st3) par rest \<longleftrightarrow> forest ?L par rest"
    by (rule forest_cong) (use c(2,4) l(2) R in \<open>auto simp: L3 L2 st1(2) adopt_def\<close>)
  ultimately have f: "forest (links st3) par (Entry c [] # cc @ rest)"
    using Lc(3) False by (cases "rest = []") (simp_all add: L3 forest_seg seg_append first_entry_append)
  have "sane st2" unfolding st2_def by (rule sane_upd_menu [OF st1(3)]) simp_all
  then have "sane st3" unfolding st3_def by (rule sane_upd_menu) simp_all
  moreover have "next_menu st3 = next_menu st" using st1(4) by (simp add: st3_def st2_def upd_menu_def)
  ultimately have w: "within ?X st st3" using l(2) R by (auto simp: within_def L3 L2 st1(2) adopt_def)
  have "m_list (menus st c) = Some (root_of (hd cc))" using Lc(1) False by (cases cc rule: first_entry.cases) (auto simp: links_sel)
  then have "move_up par c st = Some st3" using False st1(1) by (simp add: move_up_def st3_def st2_def Let_def l(1))
  moreover have "\<exists>cc' rest'. forest (links st3) par (Entry c cc' # rest') \<and> preorder cc' @ preorder rest' = preorder cc @ preorder rest"
    by (rule exI [of _ "[]"], rule exI [of _ "cc @ rest"]) (use f in simp)
  ultimately show ?thesis using w by simp
qed

lemma settle_entries_forest:
  assumes "forest (links st) par ts" "distinct (preorder ts)" "sane st" "length (preorder ts) \<le> n" "length (preorder ts) \<le> next_menu st"
  shows "run False (settle_entries n par so (first_entry ts) st) (\<lambda>st'. within (set (preorder ts)) st st' \<and>
    (\<exists>ts'. forest (links st') par ts' \<and> preorder ts' = preorder ts))"
  using assms
proof (induction n arbitrary: ts st)
  case 0
  then show ?case by (auto simp: within_refl)
next
  case (Suc n)
  show ?case
  proof (cases ts rule: preorder.cases)
    case 1
    then show ?thesis using Suc.prems by (auto simp: within_refl)
  next
    case (2 c cc rest)
    obtain st1 where st1: "(case so of None \<Rightarrow> Some st | Some s \<Rightarrow> add_choice_value s c st) = Some st1" "calm st st1"
      using add_choice_value_calm [OF Suc.prems(3), of _ c] calm_refl [OF Suc.prems(3)] by (cases so) (auto simp: run_False)
    have f1: "forest (links st1) par (Entry c cc # rest)" "next_menu st1 = next_menu st" using Suc.prems(1) st1(2) 2 by (auto simp: calm_def)
    have "length cc \<le> next_menu st1" using roots_length [of cc] Suc.prems(5) f1(2) 2 by simp
    from move_up_forest [OF f1(1) _ calm_sane [OF st1(2)] this] Suc.prems(2) 2
    obtain st2 cc' rest' where st2: "move_up par c st1 = Some st2" "within (set (preorder ts)) st1 st2"
      "forest (links st2) par (Entry c cc' # rest')" "preorder cc' @ preorder rest' = preorder cc @ preorder rest"
      by (auto simp: run_False)
    have d: "distinct (c # preorder cc' @ preorder rest')" using Suc.prems(2) 2 st2(4) by simp
    have "length (preorder cc') + length (preorder rest') = length (preorder cc) + length (preorder rest)" using arg_cong [OF st2(4), of length] by simp
    then have len: "length (preorder rest') \<le> n" "length (preorder rest') \<le> next_menu st2"
      using Suc.prems(4,5) 2 st2(2) f1(2) by (simp_all add: within_def)
    from Suc.IH [OF _ _ within_sane [OF st2(2)] len] st2(3) d
    obtain st3 ts' where st3: "settle_entries n par so (first_entry rest') st2 = Some st3" "within (set (preorder rest')) st2 st3"
      "forest (links st3) par ts'" "preorder ts' = preorder rest'" by (auto simp: run_False)
    have "links st3 x = links st2 x" if "x \<in> set (c # preorder cc')" for x using st3(2) d that by (auto simp: within_def)
    moreover from this have "forest (links st3) c cc' \<longleftrightarrow> forest (links st2) c cc'" by (intro forest_cong) auto
    moreover have "first_entry ts' = first_entry rest'" using st3(4) by (simp add: first_entry_preorder)
    ultimately have "forest (links st3) par (Entry c cc' # ts')" using st2(3) st3(3) by simp
    moreover have "preorder (Entry c cc' # ts') = preorder ts" using st3(4) st2(4) 2 by simp
    moreover have "set (preorder rest') \<subseteq> set (preorder ts)" using arg_cong [OF st2(4), of set] 2 by auto
    moreover have "within (set (preorder ts)) st st3"
      by (rule within_trans [OF calm_within [OF st1(2), of "{}"] within_trans [OF st2(2) st3(2), of "set (preorder ts)"]]) (use calculation(3) in auto)
    moreover have "m_next (menus st2 c) = first_entry rest'" using st2(3) by (simp add: links_sel)
    ultimately have "\<exists>ts'. forest (links st3) par ts' \<and> preorder ts' = preorder ts" "m_next (menus st2 c) = first_entry rest'"
      "within (set (preorder ts)) st st3" by blast+
    then show ?thesis using st1(1) st2(1) st3(1) 2 by simp
  qed
qed

section \<open>The recursion\<close>

text \<open>The entry \<open>m\<close> with the entries below and after it.\<close>

definition node :: "link_map \<Rightarrow> menuid option \<Rightarrow> menuid \<Rightarrow> mtree list \<Rightarrow> mtree list \<Rightarrow> bool" where
  "node L q m cs fs \<longleftrightarrow> L m = (first_entry cs, first_entry fs, q) \<and> forest L m cs \<and>
    (case q of None \<Rightarrow> fs = [] | Some par \<Rightarrow> forest L par fs)"

definition fin_spec :: "nat \<Rightarrow> bool" where
  "fin_spec n \<longleftrightarrow> (\<forall>q m cs fs st. node (links st) q m cs fs \<longrightarrow> distinct (m # preorder cs @ preorder fs) \<longrightarrow> sane st \<longrightarrow>
    length (preorder cs) + length (preorder fs) < next_menu st \<longrightarrow> 2 * (length (preorder cs) + length (preorder fs)) + 1 \<le> n \<longrightarrow>
    run False (menu_finalize n m st) (\<lambda>st'. within (set (m # preorder cs @ preorder fs)) st st' \<and>
      (\<exists>cs' fs'. node (links st') q m cs' fs' \<and> preorder cs' @ preorder fs' = preorder cs @ preorder fs)))"

lemma node_cong:
  "(\<And>x. x \<in> set (m # preorder cs @ preorder fs) \<Longrightarrow> L' x = L x) \<Longrightarrow> node L' q m cs fs \<longleftrightarrow> node L q m cs fs"
  using forest_cong [of cs L' L] forest_cong [of fs L' L] by (auto simp: node_def split: option.split)

lemma finalize_entries_forest:
  assumes "\<And>k. k < n \<Longrightarrow> fin_spec k" "forest (links st) par ts" "distinct (preorder ts)" "sane st" "length (preorder ts) \<le> next_menu st"
    "2 * length (preorder ts) \<le> n"
  shows "run False (finalize_entries n (first_entry ts) st) (\<lambda>st'. within (set (preorder ts)) st st' \<and>
    (\<exists>ts'. forest (links st') par ts' \<and> preorder ts' = preorder ts))"
  using assms
proof (induction n arbitrary: ts st)
  case 0
  then show ?case by (auto simp: within_refl)
next
  case (Suc n)
  show ?case
  proof (cases ts rule: preorder.cases)
    case 1
    then show ?thesis using Suc.prems by (auto simp: within_refl)
  next
    case (2 c cc rest)
    have spec: "fin_spec n" by (rule Suc.prems(1)) simp
    have "node (links st) (Some par) c cc rest" using Suc.prems(2) 2 by (simp add: node_def)
    with spec [unfolded fin_spec_def, rule_format, of st "Some par" c cc rest] Suc.prems 2
    obtain st1 cc' rest' where st1: "menu_finalize n c st = Some st1" "within (set (preorder ts)) st st1"
      "node (links st1) (Some par) c cc' rest'" "preorder cc' @ preorder rest' = preorder cc @ preorder rest" by (auto simp: run_False)
    have d: "distinct (c # preorder cc' @ preorder rest')" using Suc.prems(3) 2 st1(4) by simp
    have "length (preorder cc') + length (preorder rest') = length (preorder cc) + length (preorder rest)" using arg_cong [OF st1(4), of length] by simp
    then have len: "length (preorder rest') \<le> next_menu st1" "2 * length (preorder rest') \<le> n"
      using Suc.prems(5,6) 2 st1(2) by (simp_all add: within_def)
    from st1(3) have n1: "links st1 c = (first_entry cc', first_entry rest', Some par)" "forest (links st1) c cc'" "forest (links st1) par rest'"
      by (simp_all add: node_def)
    from Suc.IH [OF Suc.prems(1) n1(3) _ within_sane [OF st1(2)] len] d
    obtain st2 ts' where st2: "finalize_entries n (first_entry rest') st1 = Some st2" "within (set (preorder rest')) st1 st2"
      "forest (links st2) par ts'" "preorder ts' = preorder rest'" by (auto simp: run_False)
    have same: "links st2 x = links st1 x" if "x \<in> set (c # preorder cc')" for x using st2(2) d that by (auto simp: within_def)
    from this have "forest (links st2) c cc' \<longleftrightarrow> forest (links st1) c cc'" by (intro forest_cong) auto
    then have f: "forest (links st2) par (Entry c cc' # ts')" using n1 st2(3,4) same [of c] by (simp add: first_entry_preorder)
    have "set (preorder rest') \<subseteq> set (preorder ts)" using arg_cong [OF st1(4), of set] 2 by auto
    then have w: "within (set (preorder ts)) st st2" using within_trans [OF st1(2) st2(2)] by blast
    have "\<exists>ts'. forest (links st2) par ts' \<and> preorder ts' = preorder ts"
      by (rule exI [of _ "Entry c cc' # ts'"]) (use f st2(4) st1(4) 2 in simp)
    then show ?thesis using st1(1) st2(1) w n1(1) 2 by (simp add: links_sel)
  qed
qed

text \<open>The entries taken so far point to the next candidate.\<close>

definition last_root :: "mtree list \<Rightarrow> menuid option" where
  "last_root ts = (if ts = [] then None else Some (root_of (last ts)))"

lemma seg_extend:
  assumes "seg L m ab (Some f)" "L f = (first_entry fc, nxt, Some m)" "forest L f fc"
  shows "seg L m (ab @ [Entry f fc]) nxt"
  using assms by (simp add: seg_append)

lemma finalize_following_forest:
  assumes "\<And>k. k < n \<Longrightarrow> fin_spec k" "seg (links st) m ab (first_entry fs)" "forest (links st) par fs"
    "distinct (m # preorder ab @ preorder fs)" "sane st" "length (preorder fs) \<le> next_menu st" "2 * length (preorder fs) \<le> n" "bool_expr b"
  shows "run False (finalize_following n m s (Some b) (first_entry fs) (last_root ab) st) (\<lambda>(lst, st'). within (set (preorder ab @ preorder fs)) st st' \<and>
    (\<exists>ab' fs'. seg (links st') m ab' (first_entry fs') \<and> forest (links st') par fs' \<and> lst = last_root ab' \<and>
      preorder ab' @ preorder fs' = preorder ab @ preorder fs))"
  using assms
proof (induction n arbitrary: ab fs st)
  case 0
  then have "fs = []" by simp
  have "\<exists>ab' fs'. seg (links st) m ab' (first_entry fs') \<and> forest (links st) par fs' \<and> last_root ab = last_root ab' \<and>
      preorder ab' @ preorder fs' = preorder ab @ preorder fs"
    by (rule exI [of _ ab], rule exI [of _ fs]) (use 0 in simp)
  then show ?case using \<open>fs = []\<close> within_refl [OF 0(5)] by simp
next
  case (Suc n)
  have stop: "\<exists>ab' fs'. seg (links st) m ab' (first_entry fs') \<and> forest (links st) par fs' \<and> last_root ab = last_root ab' \<and>
      preorder ab' @ preorder fs' = preorder ab @ preorder fs"
    by (rule exI [of _ ab], rule exI [of _ fs]) (use Suc.prems in simp)
  show ?case
  proof (cases fs rule: preorder.cases)
    case 1
    then show ?thesis using stop within_refl [OF Suc.prems(5)] by simp
  next
    case (2 f fc rest)
    obtain r where r: "belongs s (Some b) f st = Some r" using belongs_total [OF Suc.prems(5,8)] by blast
    show ?thesis
    proof (cases r)
      case False
      then show ?thesis using stop r 2 within_refl [OF Suc.prems(5)] by simp
    next
      case True
      have spec: "fin_spec n" by (rule Suc.prems(1)) simp
      have "node (links st) (Some par) f fc rest" using Suc.prems(3) 2 by (simp add: node_def)
      with spec [unfolded fin_spec_def, rule_format, of st "Some par" f fc rest] Suc.prems 2
      obtain st1 fc' rest' where st1: "menu_finalize n f st = Some st1" "within (set (preorder fs)) st st1"
        "node (links st1) (Some par) f fc' rest'" "preorder fc' @ preorder rest' = preorder fc @ preorder rest" by (auto simp: run_False)
      let ?st2 = "upd_menu f (\<lambda>r. r\<lparr>m_parent := Some m\<rparr>) st1"
      have n1: "links st1 f = (first_entry fc', first_entry rest', Some par)" "forest (links st1) f fc'" "forest (links st1) par rest'"
        using st1(3) by (simp_all add: node_def)
      have L2: "links ?st2 = (links st1)(f := (first_entry fc', first_entry rest', Some m))"
        using n1(1) by (simp add: links_upd_menu links_sel)
      have d: "distinct (m # preorder ab @ f # preorder fc' @ preorder rest')" using Suc.prems(4) 2 st1(4) by simp
      have "seg (links ?st2) m ab (Some f) \<longleftrightarrow> seg (links st) m ab (Some f)"
        by (rule seg_cong) (use st1(2) Suc.prems(4) 2 in \<open>auto simp: L2 within_def\<close>)
      moreover have "forest (links ?st2) f fc' \<longleftrightarrow> forest (links st1) f fc'" "forest (links ?st2) par rest' \<longleftrightarrow> forest (links st1) par rest'"
        by (rule forest_cong; use d in \<open>auto simp: L2\<close>)+
      ultimately have sg: "seg (links ?st2) m (ab @ [Entry f fc']) (first_entry rest')" "forest (links ?st2) par rest'"
        using Suc.prems(2) 2 n1 by (auto intro!: seg_extend simp: L2)
      have s2: "sane ?st2" by (rule sane_upd_menu [OF within_sane [OF st1(2)]]) simp_all
      have nm: "next_menu ?st2 = next_menu st" using st1(2) by (simp add: within_def upd_menu_def)
      moreover have "length (preorder fc') + length (preorder rest') = length (preorder fc) + length (preorder rest)" using arg_cong [OF st1(4), of length] by simp
      ultimately have len: "length (preorder rest') \<le> next_menu ?st2" "2 * length (preorder rest') \<le> n"
        using Suc.prems(6,7) 2 by simp_all
      let ?X = "set (preorder ab @ preorder fs)"
      have X: "set (preorder (ab @ [Entry f fc']) @ preorder rest') = ?X" using arg_cong [OF st1(4), of set] 2 by auto
      have w2: "within ?X st ?st2" using st1(2) s2 2 nm by (auto simp: within_def L2)
      from Suc.IH [OF Suc.prems(1) sg _ s2 len Suc.prems(8)] d
      obtain lst st3 ab' fs' where st3: "finalize_following n m s (Some b) (first_entry rest') (last_root (ab @ [Entry f fc'])) ?st2 = Some (lst, st3)"
        "within (set (preorder (ab @ [Entry f fc']) @ preorder rest')) ?st2 st3" "seg (links st3) m ab' (first_entry fs')" "forest (links st3) par fs'"
        "lst = last_root ab'" "preorder ab' @ preorder fs' = preorder (ab @ [Entry f fc']) @ preorder rest'" by (auto simp: run_False)
      have w: "within ?X st st3" using within_trans [OF w2 st3(2)] X by blast
      have "\<exists>ab' fs'. seg (links st3) m ab' (first_entry fs') \<and> forest (links st3) par fs' \<and> lst = last_root ab' \<and>
          preorder ab' @ preorder fs' = preorder ab @ preorder fs"
        by (rule exI [of _ ab'], rule exI [of _ fs']) (use st3 st1(4) 2 in simp)
      moreover have "m_next (menus ?st2 f) = first_entry rest'" "last_root (ab @ [Entry f fc']) = Some f"
        using n1(1) by (simp_all add: links_sel L2 last_root_def)
      ultimately show ?thesis using r True st1(1) st3(1) w 2 by (simp add: Let_def)
    qed
  qed
qed

lemma close_submenu_node:
  assumes "seg (links st) m ab (first_entry fs)" "links st m = (None, first_entry (ab @ fs), q)" "distinct (m # preorder ab @ preorder fs)"
    "case q of None \<Rightarrow> fs = [] | Some par \<Rightarrow> forest (links st) par fs" "sane st"
  shows "node (links (close_submenu m (last_root ab) st)) q m ab fs \<and> within (set (m # preorder ab)) st (close_submenu m (last_root ab) st)"
proof (cases "ab = []")
  case True
  then show ?thesis using assms within_refl [OF assms(5)] by (simp add: close_submenu_def last_root_def node_def)
next
  case False
  obtain us l lcs where ab: "ab = us @ [Entry l lcs]" using False by (metis append_butlast_last_id mtree.exhaust)
  have l: "l \<noteq> m" "l \<in> set (preorder ab)" "l \<notin> set (preorder us) \<union> set (preorder lcs)" "l \<notin> set (preorder fs)" using assms(3) by (auto simp: ab)
  let ?st1 = "upd_menu m (\<lambda>r. r\<lparr>m_list := m_next r, m_next := m_next (menus st l)\<rparr>) st"
  let ?st2 = "upd_menu l (\<lambda>r. r\<lparr>m_next := None\<rparr>) ?st1"
  have c: "close_submenu m (last_root ab) st = ?st2" by (simp add: close_submenu_def last_root_def ab Let_def)
  have "links st l = (first_entry lcs, first_entry fs, Some m)" using assms(1) by (simp add: ab seg_append)
  then have L: "links ?st2 = (links st)(m := (first_entry ab, first_entry fs, q), l := (first_entry lcs, None, Some m))"
    using l(1) assms(2) False by (auto simp: links_upd_menu links_sel fun_eq_iff first_entry_append)
  have "seg ((links st)(l := (fst (links st l), None, snd (snd (links st l))))) m ab None"
    using seg_last [of "links st" m us l lcs "first_entry fs" None] assms(1) l(3) by (simp add: ab)
  moreover have "seg (links ?st2) m ab None \<longleftrightarrow> seg ((links st)(l := (fst (links st l), None, snd (snd (links st l))))) m ab None"
    by (rule seg_cong) (use assms(3) \<open>links st l = _\<close> in \<open>auto simp: L\<close>)
  moreover have "forest (links ?st2) par fs \<longleftrightarrow> forest (links st) par fs" for par
    by (rule forest_cong) (use assms(3) l(4) in \<open>auto simp: L\<close>)
  ultimately have "node (links ?st2) q m ab fs" using assms(4) l(1) by (auto simp: node_def forest_seg L split: option.splits)
  moreover have "sane ?st2" by (rule sane_upd_menu [OF sane_upd_menu [OF assms(5)]]) simp_all
  moreover have "next_menu ?st2 = next_menu st" by (simp add: upd_menu_def)
  ultimately show ?thesis using l(2) by (auto simp: c within_def L)
qed

lemma finalize_step:
  assumes "\<And>k. k < Suc n \<Longrightarrow> fin_spec k"
  shows "fin_spec (Suc n)"
  unfolding fin_spec_def
proof (intro allI impI)
  fix q m cs fs st
  assume a: "node (links st) q m cs fs" "distinct (m # preorder cs @ preorder fs)" "sane st"
    "length (preorder cs) + length (preorder fs) < next_menu st" "2 * (length (preorder cs) + length (preorder fs)) + 1 \<le> Suc n"
  let ?X = "set (m # preorder cs @ preorder fs)"
  let ?first = "if m_list (menus st m) \<noteq> None then do { st1 \<leftarrow> spread_deps m st; finalize_entries n (m_list (menus st1 m)) st1 }
      else case m_sym (menus st m) of None \<Rightarrow> Some st
        | Some s \<Rightarrow> do { base \<leftarrow> not_no st (case m_prompt (menus st m) of Some p \<Rightarrow> ev_expr (p_visible (props st p)) | None \<Rightarrow> None);
             (lst, st1) \<leftarrow> finalize_following n m s base (m_next (menus st m)) None st;
             Some (own_dep m s (close_submenu m lst st1)) }"
  have L: "links st m = (first_entry cs, first_entry fs, q)" "forest (links st) m cs" using a(1) by (simp_all add: node_def)
  have IH: "\<And>k. k < n \<Longrightarrow> fin_spec k" using assms by simp
  have "run False ?first (\<lambda>st1. within ?X st st1 \<and> (\<exists>cs' fs'. node (links st1) q m cs' fs' \<and> preorder cs' @ preorder fs' = preorder cs @ preorder fs))"
  proof (cases "cs = []")
    case False
    have "length cs \<le> next_menu st" using roots_length [of cs] a(4) by simp
    from entries_forest [OF L(2) this] L(1) obtain st1 where st1: "spread_deps m st = Some st1" "calm st st1"
      using spread_deps_calm [OF a(3), of m] by (auto simp: links_sel run_False)
    have f1: "forest (links st1) m cs" "next_menu st1 = next_menu st" "links st1 = links st" using L(2) st1(2) by (simp_all add: calm_def)
    obtain st2 cs' where st2: "finalize_entries n (first_entry cs) st1 = Some st2" "within (set (preorder cs)) st1 st2"
      "forest (links st2) m cs'" "preorder cs' = preorder cs"
      using finalize_entries_forest [where n = n, OF IH f1(1) _ calm_sane [OF st1(2)]] a(2,4,5) f1(2) by (auto simp: run_False)
    have o: "links st2 x = links st x" if "x \<notin> set (preorder cs)" for x using st2(2) f1(3) that by (simp add: within_def)
    have "forest (links st2) par fs \<longleftrightarrow> forest (links st) par fs" for par by (rule forest_cong) (use a(2) o in auto)
    then have "node (links st2) q m cs' fs" using a(1,2) st2(3,4) o [of m] by (auto simp: node_def first_entry_preorder split: option.splits)
    moreover have "within ?X st st2" by (rule within_trans [OF calm_within [OF st1(2), of "{}"] st2(2)]) auto
    moreover have "m_list (menus st m) \<noteq> None" "m_list (menus st1 m) = first_entry cs"
      using L(1) False first_entry_None [of cs] f1(3) by (simp_all add: links_sel)
    ultimately show ?thesis using st1(1) st2(1,4) by auto
  next
    case True
    have none: "m_list (menus st m) = None" using L(1) True by (simp add: links_sel)
    show ?thesis
    proof (cases "m_sym (menus st m)")
      case None
      then show ?thesis using none a(1) within_refl [OF a(3)] by auto
    next
      case (Some s)
      let ?dep = "case m_prompt (menus st m) of Some p \<Rightarrow> ev_expr (p_visible (props st p)) | None \<Rightarrow> None"
      have "cond ?dep" using a(3) by (auto simp: sane_except_def prop_ok_def split: option.split)
      then obtain b where b: "not_no st ?dep = Some (Some b)" "bool_expr b" using not_no_total by blast
      define par where "par = (case q of None \<Rightarrow> 0 | Some p \<Rightarrow> p)"
      have fp: "forest (links st) par fs" using a(1) by (auto simp: node_def par_def split: option.splits)
      obtain lst st1 ab fs' where st1: "finalize_following n m s (Some b) (first_entry fs) None st = Some (lst, st1)"
        "within (set (preorder fs)) st st1" "seg (links st1) m ab (first_entry fs')" "forest (links st1) par fs'" "lst = last_root ab"
        "preorder ab @ preorder fs' = preorder fs"
        using finalize_following_forest [where n = n and ab = "[]" and m = m and b = b and s = s, OF IH _ fp] a(2-5) b(2) True by (auto simp: run_False last_root_def)
      have f: "first_entry (ab @ fs') = first_entry fs" using st1(6) by (simp add: first_entry_preorder)
      have Lm: "links st1 m = (None, first_entry (ab @ fs'), q)" using st1(2) L(1) True a(2) f by (simp add: within_def)
      have q: "case q of None \<Rightarrow> fs' = [] | Some p \<Rightarrow> forest (links st1) p fs'"
        using st1(4,6) a(1) by (auto simp: node_def par_def split: option.splits)
      have d: "distinct (m # preorder ab @ preorder fs')" using a(2) st1(6) True by simp
      let ?st2 = "close_submenu m lst st1"
      have c: "node (links ?st2) q m ab fs'" "within (set (m # preorder ab)) st1 ?st2"
        using close_submenu_node [OF st1(3) Lm d q within_sane [OF st1(2)]] st1(5) by simp_all
      have o: "calm ?st2 (own_dep m s ?st2)" by (rule own_dep_calm [OF within_sane [OF c(2)]])
      have X: "set (m # preorder ab) \<subseteq> ?X" using arg_cong [OF st1(6), of set] True by auto
      have "within ?X st (own_dep m s ?st2)"
        by (rule within_trans [OF within_trans [OF st1(2) c(2), of ?X] calm_within [OF o, of "{}"]]) (use X in auto)
      moreover have "node (links (own_dep m s ?st2)) q m ab fs'" using c(1) o by (simp add: calm_def)
      moreover have "m_next (menus st m) = first_entry fs" using L(1) by (simp add: links_sel)
      ultimately show ?thesis using none Some b(1) st1(1,6) True by auto
    qed
  qed
  then obtain st1 cs1 fs1 where st1: "?first = Some st1" "within ?X st st1" "node (links st1) q m cs1 fs1"
    "preorder cs1 @ preorder fs1 = preorder cs @ preorder fs" by (auto simp: run_False simp del: run_bind)
  have len1: "length (preorder cs1) + length (preorder fs1) = length (preorder cs) + length (preorder fs)" using arg_cong [OF st1(4), of length] by simp
  have N: "links st1 m = (first_entry cs1, first_entry fs1, q)" "forest (links st1) m cs1" using st1(3) by (simp_all add: node_def)
  have d1: "distinct (m # preorder cs1 @ preorder fs1)" using a(2) st1(4) by simp
  have nm: "length (preorder cs1) \<le> next_menu st1" using st1(2) len1 a(4) by (simp add: within_def)
  obtain st2 cs2 where st2: "settle_entries (next_menu st1) m (m_sym (menus st1 m)) (first_entry cs1) st1 = Some st2" "within (set (preorder cs1)) st1 st2"
    "forest (links st2) m cs2" "preorder cs2 = preorder cs1"
    using settle_entries_forest [OF N(2) _ within_sane [OF st1(2)] nm nm, of "m_sym (menus st1 m)"] d1 by (auto simp: run_False)
  have o: "links st2 x = links st1 x" if "x \<notin> set (preorder cs1)" for x using st2(2) that by (simp add: within_def)
  have "forest (links st2) par fs1 \<longleftrightarrow> forest (links st1) par fs1" for par by (rule forest_cong) (use d1 o in auto)
  then have n2: "node (links st2) q m cs2 fs1" using st1(3) st2(3,4) o [of m] d1 by (auto simp: node_def first_entry_preorder split: option.splits)
  obtain st3 where st3: "(case m_sym (menus st2 m) of None \<Rightarrow> Some st2 | Some s \<Rightarrow> finish_symbol m s st2) = Some st3" "calm st2 st3"
    using finish_symbol_calm [OF within_sane [OF st2(2)], of m] calm_refl [OF within_sane [OF st2(2)]]
    by (cases "m_sym (menus st2 m)") (auto simp: run_False)
  have X1: "set (preorder cs1) \<subseteq> ?X" using arg_cong [OF st1(4), of set] by auto
  have w: "within ?X st st3"
    by (rule within_trans [OF within_trans [OF st1(2) st2(2), of ?X] calm_within [OF st3(2), of "{}"]]) (use X1 in auto)
  have "node (links st3) q m cs2 fs1" using n2 st3(2) by (simp add: calm_def)
  then have e: "\<exists>cs' fs'. node (links st3) q m cs' fs' \<and> preorder cs' @ preorder fs' = preorder cs @ preorder fs" using st2(4) st1(4) by metis
  have "menu_finalize (Suc n) m st = Some st3" using st1(1) st2(1) st3(1) N(1) unfolding menu_finalize.simps by (simp add: links_sel)
  then show "run False (menu_finalize (Suc n) m st) (\<lambda>st'. within ?X st st' \<and>
      (\<exists>cs' fs'. node (links st') q m cs' fs' \<and> preorder cs' @ preorder fs' = preorder cs @ preorder fs))"
    using w e by simp
qed

lemma menu_finalize_spec: "fin_spec n"
proof (induction n rule: less_induct)
  case (less n)
  show ?case
  proof (cases n)
    case 0
    then show ?thesis by (simp add: fin_spec_def)
  next
    case (Suc k)
    then show ?thesis using finalize_step [of k] less by blast
  qed
qed

lemma menu_finalize_tree:
  assumes "sane st" "forest (links st) rootmenu ts" "links st rootmenu = (first_entry ts, None, None)"
    and "distinct (rootmenu # preorder ts)" "length (preorder ts) < next_menu st" "2 * length (preorder ts) + 1 \<le> n"
  shows "\<exists>st' ts'. menu_finalize n rootmenu st = Some st' \<and> sane st' \<and> forest (links st') rootmenu ts' \<and>
    links st' rootmenu = (first_entry ts', None, None) \<and> preorder ts' = preorder ts"
proof -
  have "node (links st) None rootmenu ts []" using assms(2,3) by (simp add: node_def)
  with menu_finalize_spec [unfolded fin_spec_def, rule_format, of st None rootmenu ts "[]" n] assms
  show ?thesis by (auto simp: run_False node_def within_def)
qed

end
