(* ===== verification/Kconf_Parse_Sane.thy ===== *)
theory Kconf_Parse_Sane
  imports Kconf_Sane Kconf_Parse_Tree
begin

text \<open>The actions of the parser establish and keep the invariant of a parsed configuration.\<close>

section \<open>Conditions\<close>

lemma parse_expr_bool: "bool_expr (fst (parse_expr a st))"
  by (induction a arbitrary: st) (simp_all add: case_prod_unfold Let_def expr_alloc_symbol_def)

lemma parse_if_cond: "cond (fst (parse_if c st))"
  using parse_expr_bool by (cases c) (simp_all add: parse_if_def case_prod_unfold Let_def)

lemma check_dep_bool: "check_dep st e = Some e' \<Longrightarrow> bool_expr e \<Longrightarrow> bool_expr e'"
  by (induction st e arbitrary: e' rule: check_dep.induct) (auto simp: expr_alloc_symbol_def elim!: bind_eq_SomeE split: if_splits)

lemma menu_check_dep_cond: "menu_check_dep st d = Some d' \<Longrightarrow> cond d \<Longrightarrow> cond d'"
  using check_dep_bool by (cases d) (auto simp: menu_check_dep_def)

lemma add_visibilities_cond:
  assumes "sane_except X st" "cond e"
  shows "cond (add_visibilities st ms e)"
proof -
  have "cond (case m_visibility (menus st m) of None \<Rightarrow> e | Some v \<Rightarrow> expr_alloc_and e (expr_copy v))" if "cond e" for m e
  proof (cases "m_visibility (menus st m)")
    case (Some v)
    then have "bool_expr v" using assms(1) by (auto simp: sane_except_def) (metis cond_simps(2))
    then show ?thesis using cond_alloc [OF that, of "Some v"] Some by (simp add: expr_copy_bool)
  qed (use that in simp)
  then show ?thesis unfolding add_visibilities_def using assms(2) by (induction ms arbitrary: e) auto
qed

section \<open>Adding properties\<close>

lemma menu_add_prop_effect:
  assumes "menu_add_prop ty pr e d st = Some (p, st')" "sane_except X st" "cond d"
  obtains v x where "p = next_prop st" "next_prop st' = Suc p" "cond v"
    "props st' = (props st)(p := \<lparr>p_sym = m_sym (menus st (current_entry st)), p_type = ty, p_text = x, p_visible = \<lparr>ev_expr = v, ev_tri = No\<rparr>,
       p_expr = e, p_menu = Some (current_entry st)\<rparr>)"
    "\<And>s. sym_prop (syms st' s) = sym_prop (syms st s) @ (if m_sym (menus st (current_entry st)) = Some s then [p] else [])"
    "\<And>s. flags (syms st' s) = flags (syms st s)"
    "menus st' = (if pr = None then menus st else (menus st)(current_entry st := (menus st (current_entry st))\<lparr>m_prompt := Some p\<rparr>))"
    "current_entry st' = current_entry st"
proof -
  let ?ce = "current_entry st"
  let ?st1 = "snd (prop_alloc ty (m_sym (menus st ?ce)) st)"
  obtain dep1 where dep1: "menu_check_dep ?st1 d = Some dep1" using assms(1) by (auto simp: menu_add_prop_def Let_def case_prod_unfold elim!: bind_eq_SomeE)
  obtain vis where vis: "(if pr \<noteq> None \<and> ty = P_PROMPT then do { ms \<leftarrow> parents (next_menu ?st1) ?st1 ?ce; Some (add_visibilities ?st1 ms dep1) } else Some dep1) = Some vis"
    using assms(1) dep1 by (auto simp: menu_add_prop_def Let_def case_prod_unfold elim!: bind_eq_SomeE split: if_splits)
  have m1: "menus ?st1 = menus st" by (simp add: prop_alloc_def Let_def split: option.split)
  have "add_visibilities ?st1 ms x = add_visibilities st ms x" for ms x by (simp add: add_visibilities_def m1)
  then have cv: "cond vis" using vis menu_check_dep_cond [OF dep1 assms(3)] add_visibilities_cond [OF assms(2)]
    by (auto elim!: bind_eq_SomeE split: if_splits)
  let ?x = "map_option (dropWhile isspace) pr"
  have r: "p = next_prop st" "st' = (let st2 = upd_prop p (\<lambda>pr. pr\<lparr>p_menu := Some ?ce, p_expr := e,
      p_visible := (p_visible pr)\<lparr>ev_expr := vis\<rparr>, p_text := ?x\<rparr>) ?st1 in
      if pr \<noteq> None then upd_menu ?ce (\<lambda>r. r\<lparr>m_prompt := Some p\<rparr>) st2 else st2)"
    using assms(1) dep1 vis by (auto simp: menu_add_prop_def Let_def case_prod_unfold prop_alloc_def elim!: bind_eq_SomeE split: if_splits)
  show thesis
  proof (rule that [of vis ?x])
    show "props st' = (props st)(p := \<lparr>p_sym = m_sym (menus st ?ce), p_type = ty, p_text = ?x, p_visible = \<lparr>ev_expr = vis, ev_tri = No\<rparr>,
       p_expr = e, p_menu = Some ?ce\<rparr>)"
      unfolding r(2) by (auto simp: Let_def r(1) prop_alloc_def free_property_def upd_prop_def fun_eq_iff split: option.split)
  qed (use cv r(1) in \<open>auto simp: r(2) Let_def prop_alloc_def upd_prop_def upd_menu_def split: option.split\<close>)
qed

definition expr_for :: "prop_type \<Rightarrow> expr option \<Rightarrow> bool" where
  "expr_for ty e \<longleftrightarrow> (case ty of P_SELECT \<Rightarrow> \<exists>s. e = Some (XSymbol s) | P_DEFAULT \<Rightarrow> e \<noteq> None | P_RANGE \<Rightarrow> range_syms e \<noteq> None | _ \<Rightarrow> True)"

text \<open>A new property of a symbol, and perhaps the prompt of an entry.\<close>

lemma new_prop_sane:
  assumes sane: "sane_except X st" and p: "p = next_prop st" "next_prop st' = Suc p" and props: "props st' = (props st)(p := pr)" "prop_ok pr"
    and sym: "\<And>s. sym_prop (syms st' s) = sym_prop (syms st s) @ (if so = Some s then [p] else [])" "\<And>s. flags (syms st' s) = flags (syms st s)"
    and menus: "\<And>m. m_dep (menus st' m) = m_dep (menus st m)" "\<And>m. m_visibility (menus st' m) = m_visibility (menus st m)"
      "\<And>m q. m_prompt (menus st' m) = Some q \<Longrightarrow> q = p \<and> is_prompt (p_type pr) \<or> m_prompt (menus st m) = Some q"
  shows "p_type pr \<noteq> P_CHOICE \<Longrightarrow> sane_except X st'"
    "p_type pr = P_CHOICE \<Longrightarrow> list_prop pr \<Longrightarrow> so = Some s \<Longrightarrow> X \<subseteq> {s} \<Longrightarrow> sane st'"
proof -
  have lt: "\<And>s q. q \<in> set (sym_prop (syms st s)) \<Longrightarrow> q < p" "\<And>m q. m_prompt (menus st m) = Some q \<Longrightarrow> q < p \<and> is_prompt (p_type (props st q))"
    using sane p(1) by (auto simp: sane_except_def)
  have old: "props st' q = props st q" if "q < p" for q using that by (simp add: props(1))
  have ok: "prop_ok (props st' q)" for q using sane props by (simp add: sane_except_def)
  have conds: "cond (m_dep (menus st' m)) \<and> cond (m_visibility (menus st' m))" for m using sane by (simp add: menus sane_except_def)
  have prompts: "q < next_prop st' \<and> is_prompt (p_type (props st' q))" if "m_prompt (menus st' m) = Some q" for m q
    using menus(3) [OF that] lt(2) [of m q] old by (auto simp: p(2) props(1))
  have bound: "\<forall>q \<in> set (sym_prop (syms st' s)). q < next_prop st'" for s using lt(1) [of _ s] by (auto simp: p(2) sym(1) less_SucI)
  have choice: "choice_ok st' s" if "choice_ok st s" for s
    by (rule choice_prop_append [OF that sym(1)]) (use old lt(1) in auto)
  have all: "for_all_properties st' s P_CHOICE = for_all_properties st s P_CHOICE @ (if so = Some s \<and> p_type pr = P_CHOICE then [p] else [])" for s
  proof -
    have "filter (\<lambda>q. p_type (props st' q) = P_CHOICE) (sym_prop (syms st s)) = filter (\<lambda>q. p_type (props st q) = P_CHOICE) (sym_prop (syms st s))"
      by (rule filter_cong) (use old lt(1) in auto)
    then show ?thesis by (auto simp: for_all_properties_def props(1) sym(1))
  qed
  show "sane_except X st'" if "p_type pr \<noteq> P_CHOICE"
    using sane ok conds prompts bound choice all that sym(2) by (auto simp: sane_except_def)
  show "sane st'" if t: "p_type pr = P_CHOICE" "list_prop pr" "so = Some s" "X \<subseteq> {s}"
  proof -
    have "choice_ok st' y" if y: "sym_is_choice st' y" for y
    proof (cases "choice_ok st y")
      case False
      then have "y = s" "for_all_properties st s P_CHOICE = []" using sane y t(4) sym(2) by (auto simp: sane_except_def)
      then show ?thesis using t all [of s] by (simp add: choice_ok_def sym_get_choice_prop_def first_prop_def props(1))
    qed (rule choice)
    then show ?thesis using ok conds prompts bound by (auto simp: sane_except_def)
  qed
qed

lemma menu_add_prop_sane:
  assumes "menu_add_prop ty pr e d st = Some (p, st')" "sane_except X st" "cond d" "expr_for ty e" "pr \<noteq> None \<longrightarrow> is_prompt ty"
  shows "ty \<noteq> P_CHOICE \<Longrightarrow> sane_except X st'"
    "ty = P_CHOICE \<Longrightarrow> e = None \<Longrightarrow> m_sym (menus st (current_entry st)) = Some s \<Longrightarrow> X \<subseteq> {s} \<Longrightarrow> sane st'"
proof -
  obtain v x where f: "p = next_prop st" "next_prop st' = Suc p" "cond v"
    "props st' = (props st)(p := \<lparr>p_sym = m_sym (menus st (current_entry st)), p_type = ty, p_text = x, p_visible = \<lparr>ev_expr = v, ev_tri = No\<rparr>,
       p_expr = e, p_menu = Some (current_entry st)\<rparr>)"
    "\<And>s. sym_prop (syms st' s) = sym_prop (syms st s) @ (if m_sym (menus st (current_entry st)) = Some s then [p] else [])"
    "\<And>s. flags (syms st' s) = flags (syms st s)"
    "menus st' = (if pr = None then menus st else (menus st)(current_entry st := (menus st (current_entry st))\<lparr>m_prompt := Some p\<rparr>))"
    using menu_add_prop_effect [OF assms(1-3)] by metis
  let ?pr = "\<lparr>p_sym = m_sym (menus st (current_entry st)), p_type = ty, p_text = x, p_visible = \<lparr>ev_expr = v, ev_tri = No\<rparr>,
       p_expr = e, p_menu = Some (current_entry st)\<rparr>"
  have ok: "prop_ok ?pr" using assms(4) f(3) by (cases ty) (auto simp: prop_ok_def expr_for_def)
  note new = new_prop_sane [OF assms(2) f(1,2,4) ok f(5,6)]
  show "sane_except X st'" if "ty \<noteq> P_CHOICE"
    by (rule new(1)) (use that assms(5) in \<open>auto simp: f(7) split: if_splits\<close>)
  show "sane st'" if "ty = P_CHOICE" "e = None" "m_sym (menus st (current_entry st)) = Some s" "X \<subseteq> {s}"
    by (rule new(2)) (use that assms(5) in \<open>auto simp: f(7) list_prop_def split: if_splits\<close>)
qed

section \<open>Symbols\<close>

lemma sym_lookup_upd_prop:
  "sym_lookup n fl (upd_prop p f st) = map_prod id (upd_prop p f) (sym_lookup n fl st)"
proof -
  have "lookup_match (upd_prop p f st) = lookup_match st" by (intro ext) (simp add: lookup_match_def)
  then show ?thesis
    by (auto simp: sym_lookup_def alloc_symbol_def upd_prop_def Let_def split: option.split)
qed

lemma sane_alloc:
  assumes "sane st" "SYMBOL_CHOICE \<in> fl \<Longrightarrow> next_sym st \<in> X"
  shows "sane_except X (snd (alloc_symbol n fl h st))"
proof -
  let ?st = "snd (alloc_symbol n fl h st)"
  have e: "sym_prop (syms ?st s) = (if s = next_sym st then [] else sym_prop (syms st s))"
    "flags (syms ?st s) = (if s = next_sym st then fl else flags (syms st s))" "props ?st = props st" "menus ?st = menus st" "next_prop ?st = next_prop st" for s
    by (simp_all add: alloc_symbol_def Let_def free_symbol_def)
  have "choice_ok ?st s" if "choice_ok st s" "s \<noteq> next_sym st" for s
    using choice_ok_cong [of ?st s st] that by (simp add: e)
  moreover have "for_all_properties ?st (next_sym st) ty = []" for ty by (simp add: for_all_properties_def e)
  ultimately show ?thesis using assms by (auto simp: sane_except_def e)
qed

lemma sane_lookup:
  assumes "sane st"
  shows "SYMBOL_CHOICE \<notin> fl \<Longrightarrow> sane (snd (sym_lookup n fl st))"
    "sane_except {fst (sym_lookup n fl st)} (snd (sym_lookup n fl st))"
proof -
  have weak: "sane_except X st" for X using assms by (auto simp: sane_except_def)
  have a: "sane_except {fst (alloc_symbol n fl h st)} (snd (alloc_symbol n fl h st))" for n h
    by (rule sane_alloc [OF assms]) (simp add: alloc_symbol_def Let_def)
  show "SYMBOL_CHOICE \<notin> fl \<Longrightarrow> sane (snd (sym_lookup n fl st))"
    by (auto simp: sym_lookup_def assms intro!: sane_alloc split: option.split)
  show "sane_except {fst (sym_lookup n fl st)} (snd (sym_lookup n fl st))"
    by (auto simp: sym_lookup_def weak a split: option.split)
qed

lemma sane_parse_symbol: "sane st \<Longrightarrow> sane (snd (parse_symbol w st))"
  by (cases w) (simp_all add: sane_lookup)

lemma sane_parse_expr: "sane st \<Longrightarrow> sane (snd (parse_expr a st))"
  by (induction a arbitrary: st) (simp_all add: case_prod_unfold Let_def sane_parse_symbol)

lemma sane_parse_if: "sane st \<Longrightarrow> sane (snd (parse_if c st))"
  by (cases c) (simp_all add: parse_if_def case_prod_unfold Let_def sane_parse_expr)

lemma sane_set_flag: "sane_except X st \<Longrightarrow> SYMBOL_CHOICE \<notin> fs \<Longrightarrow> sane_except X (set_flag s fs st)"
  unfolding set_flag_def by (rule sane_upd_sym) auto


text \<open>A property allocated for a symbol and given its expression after a name has been looked up.\<close>

lemma prop_alloc_sane:
  assumes "sane st" "ty \<noteq> P_CHOICE" "expr_for ty e"
  shows "sane (upd_prop (fst (prop_alloc ty (Some s) st)) (\<lambda>pr. pr\<lparr>p_expr := e\<rparr>) (snd (prop_alloc ty (Some s) st)))"
proof -
  have ok: "prop_ok (free_property\<lparr>p_type := ty, p_sym := Some s, p_expr := e\<rparr>)"
    using assms(3) by (cases ty) (auto simp: prop_ok_def expr_for_def free_property_def)
  show ?thesis
    by (rule new_prop_sane(1) [OF assms(1) refl, of _ "free_property\<lparr>p_type := ty, p_sym := Some s, p_expr := e\<rparr>" "Some s"])
      (use ok assms(2) in \<open>auto simp: prop_alloc_def Let_def upd_prop_def fun_eq_iff\<close>)
qed

lemma alloc_lookup_sane:
  assumes "sane st" "ty = P_DEFAULT \<or> ty = P_ENV" "prop_alloc ty (Some s) st = (p, st1)" "sym_lookup (Some n) {SYMBOL_CONST} st1 = (d, st2)"
  shows "sane (upd_prop p (\<lambda>pr. pr\<lparr>p_expr := Some (expr_alloc_symbol d)\<rparr>) st2)"
proof -
  let ?f = "\<lambda>pr :: property. pr\<lparr>p_expr := Some (expr_alloc_symbol d)\<rparr>"
  have "sane (upd_prop p ?f st1)"
    using prop_alloc_sane [OF assms(1), of ty "Some (expr_alloc_symbol d)" s] assms(2,3) by (auto simp: expr_for_def)
  then have "sane (snd (sym_lookup (Some n) {SYMBOL_CONST} (upd_prop p ?f st1)))" by (rule sane_lookup) simp
  then show ?thesis by (simp add: sym_lookup_upd_prop assms(4))
qed

lemma sym_add_default_sane: "sane st \<Longrightarrow> sane (sym_add_default s n st)"
  using alloc_lookup_sane [of st P_DEFAULT s] by (auto simp: sym_add_default_def Let_def split: prod.split)

lemma sym_init_sane: "sane st \<Longrightarrow> sane (sym_init release st)"
  unfolding sym_init_def Let_def case_prod_unfold
  by (intro sym_add_default_sane sane_set_flag sane_upd_sym sane_lookup) auto

lemma sane_cong:
  assumes "sane_except X st" "syms st' = syms st" "props st' = props st" "menus st' = menus st" "next_prop st' = next_prop st"
  shows "sane_except X st'"
  using assms choice_ok_cong [of st' _ st] choice_props_cong [of st' _ st] by (simp add: sane_except_def)

lemma prop_add_env_sane:
  assumes "prop_add_env env var st = Some st'" "sane st"
  shows "sane st'"
proof -
  obtain s where s: "m_sym (menus st (current_entry st)) = Some s" using assms(1) by (auto simp: prop_add_env_def elim!: bind_eq_SomeE)
  let ?st1 = "set_flag s {SYMBOL_AUTO} st"
  have st1: "sane ?st1" using assms(2) by (simp add: sane_set_flag)
  obtain p st2 c st3 where ps: "prop_alloc P_ENV (Some s) ?st1 = (p, st2)" "sym_lookup (Some var) {SYMBOL_CONST} st2 = (c, st3)" by fastforce
  let ?st4 = "upd_prop p (\<lambda>pr. pr\<lparr>p_expr := Some (expr_alloc_symbol c)\<rparr>) st3"
  have "sane (?st4\<lparr>sym_env_list := s # sym_env_list ?st4\<rparr>)"
    by (rule sane_cong [OF alloc_lookup_sane [OF st1 _ ps]]) simp_all
  then show ?thesis using assms(1) s st1 ps sym_add_default_sane
    by (auto simp: prop_add_env_def Let_def split: if_splits option.splits)
qed

lemma menu_add_option_sane: "menu_add_option env tok arg st = Some (b, st') \<Longrightarrow> sane st \<Longrightarrow> sane st'"
  using prop_add_env_sane by (auto simp: menu_add_option_def Let_def split: option_token.splits option.splits intro: sane_cong)

section \<open>Entries\<close>

lemma new_entry_sane:
  assumes "sane_except X st" "cond (m_dep r)" "cond (m_visibility r)" "m_prompt r = None"
  shows "sane_except X (upd_menu m (\<lambda>_. r) (st\<lparr>next_menu := k\<rparr>))"
proof -
  let ?st = "upd_menu m (\<lambda>_. r) (st\<lparr>next_menu := k\<rparr>)"
  show ?thesis using assms choice_ok_cong [of ?st _ st] choice_props_cong [of ?st _ st] by (auto simp: sane_except_def)
qed

lemma menu_add_entry_sane:
  assumes "menu_add_entry s st = Some st'" "sane_except X st"
  shows "sane_except X st'" "m_sym (menus st' (current_entry st')) = s"
proof -
  let ?st1 = "upd_menu (next_menu st) (\<lambda>_. free_menu\<lparr>m_sym := s, m_parent := current_menu st\<rparr>) (st\<lparr>next_menu := Suc (next_menu st)\<rparr>)"
  let ?st2 = "(store_entry (last_entry ?st1) (next_menu st) ?st1)\<lparr>last_entry := AtNext (next_menu st), current_entry := next_menu st\<rparr>"
  have 1: "sane_except X ?st1" by (rule new_entry_sane [OF assms(2)]) (simp_all add: free_menu_def)
  have "sane_except X (store_entry (last_entry ?st1) (next_menu st) ?st1)"
    unfolding store_entry_def by (auto split: entry_ptr.split intro!: sane_upd_menu 1)
  then have 2: "sane_except X ?st2" by (rule sane_cong) simp_all
  have sy: "m_sym (menus ?st2 (current_entry ?st2)) = s" by (auto simp: store_entry_def split: entry_ptr.split)
  have "sane_except X st' \<and> m_sym (menus st' (current_entry st')) = s"
  proof (cases s)
    case None
    then show ?thesis using assms(1) 2 sy by (simp add: menu_add_entry_def Let_def)
  next
    case (Some y)
    then obtain p where p: "menu_add_prop P_SYMBOL None (Some (expr_alloc_symbol y)) None ?st2 = Some (p, st')"
      using assms(1) by (auto simp: menu_add_entry_def menu_add_symbol_def Let_def)
    have "m_sym (menus st' (current_entry st')) = s" using menu_add_prop_effect [OF p 2] sy by simp metis
    then show ?thesis using menu_add_prop_sane(1) [OF p 2] by (simp add: expr_for_def)
  qed
  then show "sane_except X st'" "m_sym (menus st' (current_entry st')) = s" by auto
qed

lemma menu_add_expr_sane:
  "menu_add_expr ty e d st = Some st' \<Longrightarrow> sane st \<Longrightarrow> cond d \<Longrightarrow> expr_for ty e \<Longrightarrow> ty \<noteq> P_CHOICE \<Longrightarrow> sane st'"
  using menu_add_prop_sane(1) [of ty None e d st _ st' "{}"] by (auto simp: menu_add_expr_def)

lemma menu_add_symbol_sane:
  "menu_add_symbol ty s d st = Some st' \<Longrightarrow> sane st \<Longrightarrow> cond d \<Longrightarrow> ty = P_SELECT \<or> ty = P_DEFAULT \<Longrightarrow> sane st'"
  using menu_add_prop_sane(1) [of ty None "Some (expr_alloc_symbol s)" d st _ st' "{}"]
  by (auto simp: menu_add_symbol_def expr_for_def expr_alloc_symbol_def)

lemma menu_add_prompt_sane:
  "menu_add_prompt ty t d st = Some (p, st') \<Longrightarrow> sane st \<Longrightarrow> cond d \<Longrightarrow> is_prompt ty \<Longrightarrow> sane st'"
  using menu_add_prop_sane(1) [of ty "Some t" None d st p st' "{}"]
  by (auto simp: menu_add_prompt_def expr_for_def is_prompt_def)

lemma menu_add_dep_sane: "menu_add_dep d st = Some st' \<Longrightarrow> sane st \<Longrightarrow> cond d \<Longrightarrow> sane st'"
  by (auto simp: menu_add_dep_def dest: menu_check_dep_cond intro!: sane_upd_menu elim!: bind_eq_SomeE simp: cond_alloc)

lemma menu_add_visibility_sane: "sane st \<Longrightarrow> cond e \<Longrightarrow> sane (menu_add_visibility e st)"
  unfolding menu_add_visibility_def by (rule sane_upd_menu) (simp_all add: cond_alloc)

lemma menu_set_type_sane: "menu_set_type ty st = Some (b, st') \<Longrightarrow> sane st \<Longrightarrow> sane st'"
  by (auto simp: menu_set_type_def split: if_splits elim!: bind_eq_SomeE intro!: sane_upd_sym)

lemma menuconfig_end_sane:
  assumes "sane st"
  shows "sane (menuconfig_end st)"
proof (cases "m_prompt (menus st (current_entry st))")
  case (Some p)
  let ?st = "upd_prop p (\<lambda>pr. pr\<lparr>p_type := P_MENU\<rparr>) st"
  have p: "is_prompt (p_type (props st p))" using assms Some by (simp add: sane_except_def)
  have "for_all_properties ?st s P_CHOICE = for_all_properties st s P_CHOICE" for s
    using p by (auto simp: for_all_properties_def is_prompt_def intro!: filter_cong)
  then have c: "choice_ok ?st s = choice_ok st s" for s
    by (auto simp: choice_ok_def sym_get_choice_prop_def first_prop_def list_prop_def)
  have "prop_ok ((props st p)\<lparr>p_type := P_MENU\<rparr>)" using assms by (simp add: sane_except_def prop_ok_def)
  then show ?thesis using assms c Some by (auto simp: menuconfig_end_def sane_except_def is_prompt_def)
qed (use assms in \<open>simp add: menuconfig_end_def\<close>)


section \<open>Statements\<close>

lemma parse_prompt_sane: "parse_prompt pr st = Some st' \<Longrightarrow> sane st \<Longrightarrow> sane st'"
  by (auto simp: parse_prompt_def case_prod_unfold Let_def is_prompt_def intro: menu_add_prompt_sane sane_parse_if parse_if_cond)

lemma parse_prompt_opt_sane: "parse_prompt_opt pr st = Some st' \<Longrightarrow> sane st \<Longrightarrow> sane st'"
  using parse_prompt_sane by (auto simp: parse_prompt_opt_def split: option.splits)

lemma parse_depends_sane: "parse_depends a st = Some st' \<Longrightarrow> sane st \<Longrightarrow> sane st'"
  by (auto simp: parse_depends_def case_prod_unfold Let_def parse_expr_bool intro: menu_add_dep_sane sane_parse_expr)

lemma parse_help_sane: "sane st \<Longrightarrow> sane (parse_help t st)"
  unfolding parse_help_def by (rule sane_upd_menu) simp_all

lemma parse_visible_sane: "parse_visible c st = Some st' \<Longrightarrow> sane st \<Longrightarrow> sane st'"
  by (auto simp: parse_visible_def case_prod_unfold Let_def intro: menu_add_visibility_sane sane_parse_if parse_if_cond)

lemma parse_all_holds:
  assumes "parse_all f xs st = Some st'" "P st" "\<And>x a b. x \<in> set xs \<Longrightarrow> f x a = Some b \<Longrightarrow> P a \<Longrightarrow> P b"
  shows "P st'"
  using assms by (induction xs arbitrary: st) (auto elim!: bind_eq_SomeE)

lemma parse_symbol_option_sane: "parse_symbol_option env o1 ps = Some ps' \<Longrightarrow> sane (snd ps) \<Longrightarrow> sane (snd ps')"
  by (cases ps; cases o1) (auto split: option.splits if_splits elim!: bind_eq_SomeE dest: menu_add_option_sane)

lemmas sane_steps = parse_prompt_sane parse_prompt_opt_sane parse_depends_sane parse_help_sane menu_set_type_sane
  menu_add_expr_sane menu_add_symbol_sane sane_parse_if sane_parse_expr sane_parse_symbol parse_if_cond

lemma parse_config_option_sane: "parse_config_option env c ps = Some ps' \<Longrightarrow> sane (snd ps) \<Longrightarrow> sane (snd ps')"
proof (cases ps)
  case (Pair errs st)
  assume p: "parse_config_option env c ps = Some ps'" "sane (snd ps)"
  then have st: "sane st" using Pair by simp
  show ?thesis
  proof (cases c)
    case (OType ty pr)
    then show ?thesis using p Pair by (auto elim!: bind_eq_SomeE dest: parse_prompt_opt_sane menu_set_type_sane)
  next
    case (OPrompt pr)
    then show ?thesis using p Pair by (auto dest: parse_prompt_sane)
  next
    case (ODefault ty a d)
    let ?st2 = "snd (parse_if d (snd (parse_expr a st)))"
    have "sane ?st2" using st by (intro sane_parse_if sane_parse_expr)
    moreover obtain st3 where "menu_add_expr P_DEFAULT (Some (fst (parse_expr a st))) (fst (parse_if d (snd (parse_expr a st)))) ?st2 = Some st3"
      "snd ps' = st3 \<or> (\<exists>b. menu_set_type ty st3 = Some (b, snd ps'))"
      using p Pair ODefault by (auto simp: case_prod_unfold Let_def elim!: bind_eq_SomeE split: if_splits)
    ultimately show ?thesis using menu_add_expr_sane [of P_DEFAULT] parse_if_cond menu_set_type_sane by (fastforce simp: expr_for_def)
  next
    case (OSelect w d)
    let ?st2 = "snd (sym_lookup (Some w) {} (snd (parse_if d st)))"
    have "sane ?st2" using st by (intro sane_lookup sane_parse_if) auto
    then show ?thesis using p Pair OSelect menu_add_symbol_sane [of P_SELECT] parse_if_cond by (auto simp: case_prod_unfold Let_def)
  next
    case (ORange v w d)
    let ?st3 = "snd (parse_if d (snd (parse_symbol w (snd (parse_symbol v st)))))"
    have "sane ?st3" using st by (intro sane_parse_if sane_parse_symbol)
    then show ?thesis using p Pair ORange menu_add_expr_sane [of P_RANGE] parse_if_cond
      by (fastforce simp: case_prod_unfold Let_def expr_for_def)
  next
    case (OOption os)
    then show ?thesis using p parse_all_holds [of "parse_symbol_option env" os ps ps' "\<lambda>x. sane (snd x)"] parse_symbol_option_sane by fastforce
  next
    case (ODepends a)
    then show ?thesis using p Pair by (auto dest: parse_depends_sane)
  next
    case (OHelp t)
    then show ?thesis using p Pair by (auto simp: parse_help_sane)
  qed
qed

lemma parse_choice_option_sane: "parse_choice_option c st = Some st' \<Longrightarrow> sane st \<Longrightarrow> sane st'"
proof (cases c)
  case (CDefault w d)
  assume p: "parse_choice_option c st = Some st'" "sane st"
  have "sane (snd (sym_lookup (Some w) {} (snd (parse_if d st))))" using p(2) by (intro sane_lookup sane_parse_if) auto
  then show ?thesis using p CDefault menu_add_symbol_sane [of P_DEFAULT] parse_if_cond by (auto simp: case_prod_unfold Let_def)
qed (auto elim!: bind_eq_SomeE dest: parse_prompt_opt_sane parse_prompt_sane parse_depends_sane menu_set_type_sane simp: parse_help_sane sane_set_flag)

lemma config_entry_start_sane:
  assumes "config_entry_start w st = Some st'" "sane st"
  shows "sane st'"
proof -
  have "sane (set_flag (fst (sym_lookup (Some w) {} st)) {SYMBOL_OPTIONAL} (snd (sym_lookup (Some w) {} st)))"
    by (intro sane_set_flag sane_lookup assms(2)) auto
  then show ?thesis using assms(1) menu_add_entry_sane(1) by (auto simp: config_entry_start_def case_prod_unfold Let_def)
qed

lemma choice_start_sane:
  assumes "choice_start w st = Some st'" "sane st"
  shows "sane st'"
proof -
  obtain s st1 where l: "sym_lookup w {SYMBOL_CHOICE} st = (s, st1)" by fastforce
  obtain st2 where st2: "menu_add_entry (Some s) (set_flag s {SYMBOL_AUTO} st1) = Some st2" "menu_add_expr P_CHOICE None None st2 = Some st'"
    using assms(1) l by (auto simp: choice_start_def elim!: bind_eq_SomeE)
  have "sane_except {s} st1" using sane_lookup(2) [OF assms(2), of w "{SYMBOL_CHOICE}"] l by simp
  then have "sane_except {s} (set_flag s {SYMBOL_AUTO} st1)" by (rule sane_set_flag) simp
  note e = menu_add_entry_sane [OF st2(1) this]
  obtain p where "menu_add_prop P_CHOICE None None None st2 = Some (p, st')" using st2(2) by (auto simp: menu_add_expr_def)
  from menu_add_prop_sane(2) [OF this e(1) _ _ _ refl refl e(2)] show ?thesis by (simp add: expr_for_def)
qed

lemma if_start_sane:
  assumes "if_start a st = Some st'" "sane st"
  shows "sane st'"
  using assms menu_add_entry_sane(1) [of None "snd (parse_expr a st)" _ "{}"] sane_parse_expr [OF assms(2), of a]
    menu_add_dep_sane [of "Some (fst (parse_expr a st))"] parse_expr_bool
  by (auto simp: if_start_def case_prod_unfold Let_def elim!: bind_eq_SomeE)

lemma prompt_entry_sane: "prompt_entry ty t st = Some st' \<Longrightarrow> sane st \<Longrightarrow> is_prompt ty \<Longrightarrow> sane st'"
  by (auto simp: prompt_entry_def elim!: bind_eq_SomeE dest: menu_add_entry_sane(1) menu_add_prompt_sane)

lemma menu_add_menu_sane: "sane st \<Longrightarrow> sane (menu_add_menu st)"
  by (rule sane_cong) (simp_all add: menu_add_menu_def)

lemma menu_end_menu_sane: "menu_end_menu st = Some st' \<Longrightarrow> sane st \<Longrightarrow> sane st'"
  by (auto simp: menu_end_menu_def elim!: bind_eq_SomeE intro: sane_cong)

lemma with_errs_sane:
  "with_errs f ps = Some ps' \<Longrightarrow> sane (snd ps) \<Longrightarrow> (\<And>st st'. f st = Some st' \<Longrightarrow> sane st \<Longrightarrow> sane st') \<Longrightarrow> sane (snd ps')"
  by (cases ps) (auto simp: with_errs_def)

lemma options_sane: "parse_all (parse_config_option env) os ps = Some ps' \<Longrightarrow> sane (snd ps) \<Longrightarrow> sane (snd ps')"
  using parse_all_holds [of "parse_config_option env" os ps ps' "\<lambda>x. sane (snd x)"] parse_config_option_sane by fastforce

lemma clauses_sane:
  "parse_all parse_choice_option os st = Some st' \<Longrightarrow> sane st \<Longrightarrow> sane st'"
  "parse_all parse_visible vs st = Some st' \<Longrightarrow> sane st \<Longrightarrow> sane st'"
  "parse_all parse_depends ds st = Some st' \<Longrightarrow> sane st \<Longrightarrow> sane st'"
  by (erule (1) parse_all_holds, erule (1) parse_choice_option_sane parse_visible_sane parse_depends_sane)+

lemma starts_sane:
  assumes "sane (snd ps)"
  shows "with_errs (config_entry_start w) ps = Some ps' \<Longrightarrow> sane (snd ps')" "with_errs (Some \<circ> menuconfig_end) ps = Some ps' \<Longrightarrow> sane (snd ps')"
    "with_errs (choice_start cw) ps = Some ps' \<Longrightarrow> sane (snd ps')" "with_errs (parse_all parse_choice_option os) ps = Some ps' \<Longrightarrow> sane (snd ps')"
    "with_errs menu_end_menu ps = Some ps' \<Longrightarrow> sane (snd ps')" "with_errs (if_start a) ps = Some ps' \<Longrightarrow> sane (snd ps')"
    "with_errs (prompt_entry P_MENU t) ps = Some ps' \<Longrightarrow> sane (snd ps')" "with_errs (prompt_entry P_COMMENT t) ps = Some ps' \<Longrightarrow> sane (snd ps')"
    "with_errs (parse_all parse_visible vs) ps = Some ps' \<Longrightarrow> sane (snd ps')" "with_errs (parse_all parse_depends ds) ps = Some ps' \<Longrightarrow> sane (snd ps')"
    "sane (snd (map_prod id menu_add_menu ps))"
proof -
  note w = with_errs_sane [OF _ assms]
  show "with_errs (config_entry_start w) ps = Some ps' \<Longrightarrow> sane (snd ps')" by (rule w) (auto dest: config_entry_start_sane)
  show "with_errs (Some \<circ> menuconfig_end) ps = Some ps' \<Longrightarrow> sane (snd ps')" by (rule w) (auto simp: menuconfig_end_sane)
  show "with_errs (choice_start cw) ps = Some ps' \<Longrightarrow> sane (snd ps')" by (rule w) (auto dest: choice_start_sane)
  show "with_errs (parse_all parse_choice_option os) ps = Some ps' \<Longrightarrow> sane (snd ps')" by (rule w) (auto dest: clauses_sane)
  show "with_errs menu_end_menu ps = Some ps' \<Longrightarrow> sane (snd ps')" by (rule w) (auto dest: menu_end_menu_sane)
  show "with_errs (if_start a) ps = Some ps' \<Longrightarrow> sane (snd ps')" by (rule w) (auto dest: if_start_sane)
  show "with_errs (prompt_entry P_MENU t) ps = Some ps' \<Longrightarrow> sane (snd ps')" by (rule w) (auto dest: prompt_entry_sane simp: is_prompt_def)
  show "with_errs (prompt_entry P_COMMENT t) ps = Some ps' \<Longrightarrow> sane (snd ps')" by (rule w) (auto dest: prompt_entry_sane simp: is_prompt_def)
  show "with_errs (parse_all parse_visible vs) ps = Some ps' \<Longrightarrow> sane (snd ps')" by (rule w) (auto dest: clauses_sane)
  show "with_errs (parse_all parse_depends ds) ps = Some ps' \<Longrightarrow> sane (snd ps')" by (rule w) (auto dest: clauses_sane)
  show "sane (snd (map_prod id menu_add_menu ps))" using menu_add_menu_sane [OF assms] by simp
qed

lemma parse_stmts_sane:
  "parse_stmt env x ps = Some ps' \<Longrightarrow> sane (snd ps) \<Longrightarrow> sane (snd ps')"
  "parse_stmts env xs ps = Some ps' \<Longrightarrow> sane (snd ps) \<Longrightarrow> sane (snd ps')"
proof (induction env x ps and env xs ps arbitrary: ps' and ps' rule: parse_stmt_parse_stmts.induct)
  case (1 env w os ps)
  from 1(1) obtain ps1 where "with_errs (config_entry_start w) ps = Some ps1" "parse_all (parse_config_option env) os ps1 = Some ps'"
    by (auto elim!: bind_eq_SomeE)
  then show ?case using 1(2) starts_sane(1) options_sane by blast
next
  case (2 env w os ps)
  from 2(1) obtain ps1 ps2 where "with_errs (config_entry_start w) ps = Some ps1" "parse_all (parse_config_option env) os ps1 = Some ps2"
    "with_errs (Some \<circ> menuconfig_end) ps2 = Some ps'" by (auto elim!: bind_eq_SomeE)
  then show ?case using 2(2) starts_sane(1,2) options_sane by blast
next
  case (3 env w os b ps)
  from 3(2) obtain ps1 ps2 ps3 where s: "with_errs (choice_start w) ps = Some ps1" "with_errs (parse_all parse_choice_option os) ps1 = Some ps2"
    "parse_stmts env b (map_prod id menu_add_menu ps2) = Some ps3" "with_errs menu_end_menu ps3 = Some ps'" by (auto elim!: bind_eq_SomeE)
  then have "sane (snd (map_prod id menu_add_menu ps2))" using 3(3) starts_sane(3,4,11) by blast
  then show ?case using 3(1) [OF s(1-3)] s(4) starts_sane(5) by blast
next
  case (4 env a b ps)
  from 4(2) obtain ps1 ps2 where s: "with_errs (if_start a) ps = Some ps1"
    "parse_stmts env b (map_prod id menu_add_menu ps1) = Some ps2" "with_errs menu_end_menu ps2 = Some ps'" by (auto elim!: bind_eq_SomeE)
  then have "sane (snd (map_prod id menu_add_menu ps1))" using 4(3) starts_sane(6,11) by blast
  then show ?case using 4(1) [OF s(1,2)] s(3) starts_sane(5) by blast
next
  case (5 env t vs ds b ps)
  from 5(2) obtain ps1 ps2 ps3 ps4 where s: "with_errs (prompt_entry P_MENU t) ps = Some ps1" "with_errs (parse_all parse_visible vs) ps1 = Some ps2"
    "with_errs (parse_all parse_depends ds) ps2 = Some ps3"
    "parse_stmts env b (map_prod id menu_add_menu ps3) = Some ps4" "with_errs menu_end_menu ps4 = Some ps'" by (auto elim!: bind_eq_SomeE)
  then have "sane (snd (map_prod id menu_add_menu ps3))" using 5(3) starts_sane(7,9,10,11) by blast
  then show ?case using 5(1) [OF s(1-4)] s(5) starts_sane(5) by blast
next
  case (6 env t ds ps)
  from 6(1) obtain ps1 where "with_errs (prompt_entry P_COMMENT t) ps = Some ps1" "with_errs (parse_all parse_depends ds) ps1 = Some ps'"
    by (auto elim!: bind_eq_SomeE)
  then show ?case using 6(2) starts_sane(8,10) by blast
next
  case (8 env x xs ps)
  from 8(3) obtain ps1 where "parse_stmt env x ps = Some ps1" "parse_stmts env xs ps1 = Some ps'" by (auto elim!: bind_eq_SomeE)
  then show ?case using 8(1,2,4) by blast
qed simp

lemma init_sane: "sane init_state"
  by (simp add: sane_except_def init_state_def free_property_def free_menu_def free_symbol_def const_symbol_def prop_ok_def)

theorem parse_file_sane:
  assumes "parse_file release env mainmenu ss init_state = Some (errs, st)"
  shows "sane st"
proof -
  obtain p st1 st3 where s: "menu_add_prompt P_MENU ''Buildroot Configuration'' None (menu_init (sym_init release init_state)) = Some (p, st1)"
    "(case mainmenu of None \<Rightarrow> Some (upd_menu rootmenu (\<lambda>r. r\<lparr>m_prompt := Some p\<rparr>) st1)
      | Some t \<Rightarrow> map_option snd (menu_add_prompt P_MENU t None (upd_menu rootmenu (\<lambda>r. r\<lparr>m_prompt := Some p\<rparr>) st1))) = Some st3"
    "parse_stmts env ss (0, st3) = Some (errs, st)" using assms by (auto simp: parse_file_def Let_def elim!: bind_eq_SomeE)
  have i: "sane (menu_init (sym_init release init_state))" by (rule sane_cong [OF sym_init_sane [OF init_sane]]) (simp_all add: menu_init_def)
  have p: "next_prop st1 = Suc p" "p_type (props st1 p) = P_MENU"
    by (rule menu_add_prop_effect [OF s(1) [unfolded menu_add_prompt_def] i]; simp)+
  have "sane st1" using menu_add_prompt_sane [OF s(1) i] by (simp add: is_prompt_def)
  then have "sane (upd_menu rootmenu (\<lambda>r. r\<lparr>m_prompt := Some p\<rparr>) st1)"
    using p choice_ok_cong [of "upd_menu rootmenu (\<lambda>r. r\<lparr>m_prompt := Some p\<rparr>) st1" _ st1] by (auto simp: sane_except_def is_prompt_def)
  then have "sane st3" using s(2) menu_add_prompt_sane [of P_MENU] by (auto simp: is_prompt_def split: option.splits)
  then show ?thesis using parse_stmts_sane(2) [OF s(3)] by simp
qed

end
