(* ===== verification/Kconf_Conf_Parse.thy ===== *)
theory Kconf_Conf_Parse
  imports Kconf_Finalize_Tree Kconf_Parse_Sane Kconf_Parse_Total Kconf_Walk Kconf_Deps_Props
begin

text \<open>
  \<^verbatim>\<open>conf_parse\<close> as a whole (\<^verbatim>\<open>support/kconfig/zconf.y\<close>) and what the program writes after it: the
  statements are read, the menus are finished, the dependencies are checked. The depth of the calls
  is bounded by numbers taken from the state: those for which the loops are shown to end.
\<close>

section \<open>The whole parser\<close>

datatype conf_result = Exited | Parsed kstate

text \<open>
  The second half of \<^verbatim>\<open>conf_parse\<close>, without translation of the title. \<^verbatim>\<open>exit(1)\<close> ends the program when
  the parser or the check of the dependencies has counted an error.
\<close>

definition expand_title :: "kstate \<Rightarrow> kstate option" where
  "expand_title st =
    do { p \<leftarrow> m_prompt (menus st rootmenu);
         t \<leftarrow> p_text (props st p);
         (t1, st1) \<leftarrow> sym_expand_string_value (sym_calc_value (Suc (next_sym st))) t st;
         Some (upd_prop p (\<lambda>pr. pr\<lparr>p_text := Some t1\<rparr>) st1) }"

definition default_modules :: "kstate \<Rightarrow> kstate" where
  "default_modules st = (if modules_sym st = None then st\<lparr>modules_sym := sym_find (Some ''n'') st\<rparr> else st)"

definition conf_parse ::
    "string \<Rightarrow> (string \<Rightarrow> string option) \<Rightarrow> string option \<Rightarrow> stmt list \<Rightarrow> kstate \<Rightarrow> conf_result option" where
  "conf_parse release env mainmenu ss st =
    do { (errs, st1) \<leftarrow> parse_file release env mainmenu ss st;
         if errs \<noteq> 0 then Some Exited
         else
           do { st2 \<leftarrow> expand_title (default_modules st1);
                st3 \<leftarrow> menu_finalize (2 * next_menu st2) rootmenu st2;
                (errs, c) \<leftarrow> conf_check_deps (2 * next_sym st3 + 2) st3;
                if errs \<noteq> 0 then Some Exited else Some (Parsed (sym_set_change_count 1 (ck c))) } }"

section \<open>The title\<close>

lemma sane_static:
  assumes "static st' = static st" "sane st"
  shows "sane st'"
proof -
  have m: "m_dep (menus st' m) = m_dep (menus st m)" "m_visibility (menus st' m) = m_visibility (menus st m)"
    "m_prompt (menus st' m) = m_prompt (menus st m)" "next_prop st' = next_prop st" for m
  proof -
    have "m_dep (menus (static x) m) = m_dep (menus x m)" "m_visibility (menus (static x) m) = m_visibility (menus x m)"
      "m_prompt (menus (static x) m) = m_prompt (menus x m)" "next_prop (static x) = next_prop x" for x
      by (simp_all add: static_def static_menu_def)
    then show "m_dep (menus st' m) = m_dep (menus st m)" "m_visibility (menus st' m) = m_visibility (menus st m)"
      "m_prompt (menus st' m) = m_prompt (menus st m)" "next_prop st' = next_prop st" using assms(1) by metis+
  qed
  note f = static_fields [OF assms(1)] and r = static_reads [OF assms(1)]
  have c: "choice_ok st' s = choice_ok st s" for s by (rule choice_ok_cong) (simp_all add: f)
  have p: "prop_ok (props st' p) = prop_ok (props st p)" for p by (cases "p_type (props st p)") (simp_all add: prop_ok_def f)
  show ?thesis using assms(2) unfolding sane_except_def p c m r(1,6) f(2,6) .
qed

lemma name_value_static:
  assumes "name_value (sym_calc_value k) n st = Some (v, st')"
  shows "static st' = static st"
proof (cases "sym_find (Some n) st")
  case (Some s)
  note call = frame.sym_calc_value_call [of st k]
  obtain st1 where st1: "sym_calc_value k s st = Some st1" "sym_get_string_value (sym_calc_value k) s st1 = Some (v, st')"
    using assms Some by (auto simp: name_value_def elim!: bind_eq_SomeE)
  have "static st1 = static st" using calc_call.scv_inv [OF call refl, of s] st1(1) by simp
  from calc_call.sym_get_string_value_inv [OF call this, of s] show ?thesis using st1(2) by simp
qed (use assms in \<open>simp add: name_value_def\<close>)

lemma expand_loop_static:
  "expand_loop (sym_calc_value k) inp res len st = Some (v, st') \<Longrightarrow> static st' = static st"
proof (induction "sym_calc_value k" inp res len st arbitrary: v st' rule: expand_loop.induct)
  case (1 inp res reslen st)
  show ?case
  proof (cases "dropWhile (\<lambda>c. c \<noteq> CHR ''$'') inp")
    case Nil
    then show ?thesis using 1(2) unfolding expand_loop.simps [of _ inp] Nil by (simp split: if_splits)
  next
    case (Cons a src)
    let ?res1 = "res @ takeWhile (\<lambda>c. c \<noteq> CHR ''$'') inp" and ?name = "takeWhile name_char src" and ?src1 = "dropWhile name_char src"
    obtain w st1 reslen1 where s: "name_value (sym_calc_value k) ?name st = Some (w, st1)"
      "expand_loop (sym_calc_value k) ?src1 (?res1 @ w) reslen1 st1 = Some (v, st')"
      "reslen1 = (if length ?res1 + length w + length ?src1 + 1 > reslen then length ?res1 + length w + length ?src1 + 1 else reslen)"
      "length ?res1 < reslen" "length ?name < SYMBOL_MAXLENGTH" "length ?res1 + length w < reslen1"
      using 1(2) unfolding expand_loop.simps [of _ inp] Cons by (auto simp: Let_def elim!: bind_eq_SomeE split: if_splits)
    have "static st' = static st1"
      by (rule 1(1) [OF Cons refl refl refl _ s(1) refl refl s(3) _ s(2)]) (use s in simp_all)
    then show ?thesis using name_value_static [OF s(1)] by simp
  qed
qed

lemma expand_title_keeps:
  assumes "expand_title st = Some st'" "sane st"
  shows "sane st'" "links st' = links st" "next_menu st' = next_menu st"
proof -
  obtain p t t1 st1 where s: "m_prompt (menus st rootmenu) = Some p" "sym_expand_string_value (sym_calc_value (Suc (next_sym st))) t st = Some (t1, st1)"
    "st' = upd_prop p (\<lambda>pr. pr\<lparr>p_text := Some t1\<rparr>) st1" using assms(1) by (auto simp: expand_title_def elim!: bind_eq_SomeE)
  have st1: "static st1 = static st" using expand_loop_static s(2) unfolding sym_expand_string_value_def .
  have sane1: "sane st1" by (rule sane_static [OF st1 assms(2)])
  show "sane st'" unfolding s(3) by (rule sane_upd_prop [OF sane1]) (use sane1 in \<open>auto simp: sane_except_def prop_ok_def\<close>)
  show "links st' = links st" using links_static [OF st1] by (simp add: s(3) links_def fun_eq_iff)
  have "next_menu (static x) = next_menu x" for x by (simp add: static_def)
  then show "next_menu st' = next_menu st" using arg_cong [OF st1, of next_menu] by (simp add: s(3))
qed

section \<open>The check of the dependencies\<close>

text \<open>It writes nothing but the marks of the symbols.\<close>

definition marks_only :: "(check_state \<Rightarrow> (symid option \<times> check_state) option) \<Rightarrow> bool" where
  "marks_only m \<longleftrightarrow> (\<forall>c r c'. m c = Some (r, c') \<longrightarrow> menus (ck c') = menus (ck c))"

lemma marks_onlyD: "marks_only m \<Longrightarrow> m c = Some (r, c') \<Longrightarrow> menus (ck c') = menus (ck c)"
  by (simp add: marks_only_def)

lemma menus_stack [simp]: "menus (ck (dep_stack_insert s c)) = menus (ck c)" "menus (ck (dep_stack_remove c)) = menus (ck c)"
  "menus (ck (set_stack_prop p c)) = menus (ck c)" "menus (ck (set_stack_expr e c)) = menus (ck c)"
  by (simp_all add: dep_stack_insert_def dep_stack_remove_def set_stack_prop_def set_stack_expr_def)

lemma marks_or_else:
  assumes "marks_only m1" "marks_only m2"
  shows "marks_only (or_else m1 m2)"
proof (unfold marks_only_def, intro allI impI)
  fix c r c'
  assume "or_else m1 m2 c = Some (r, c')"
  then obtain r1 c1 where "m1 c = Some (r1, c1)" "(case r1 of Some t \<Rightarrow> Some (Some t, c1) | None \<Rightarrow> m2 c1) = Some (r, c')"
    by (auto simp: or_else_def elim!: bind_eq_SomeE)
  then show "menus (ck c') = menus (ck c)"
    using marks_onlyD [OF assms(1), of c r1 c1] marks_onlyD [OF assms(2), of c1 r c'] by (cases r1) auto
qed

lemma marks_check_expr:
  assumes scd: "\<And>s. marks_only (scd s)"
  shows "marks_only (check_expr scd e)"
proof (induction e)
  case (XOr a b)
  then show ?case using marks_or_else [OF XOr] by (simp add: marks_only_def)
next
  case (XAnd a b)
  then show ?case using marks_or_else [OF XAnd] by (simp add: marks_only_def)
next
  case (XEqual a b)
  then show ?case using marks_or_else [OF scd scd] by (simp add: marks_only_def)
next
  case (XUnequal a b)
  then show ?case using marks_or_else [OF scd scd] by (simp add: marks_only_def)
qed (use scd in \<open>simp_all add: marks_only_def\<close>)

lemma marks_expr_deps: "(\<And>s. marks_only (scd s)) \<Longrightarrow> marks_only (sym_check_expr_deps scd e)"
  using marks_check_expr [of scd] by (cases e) (simp_all add: marks_only_def sym_check_expr_deps_def)

lemma marks_pre: "marks_only m \<Longrightarrow> (\<And>c. menus (ck (f c)) = menus (ck c)) \<Longrightarrow> marks_only (\<lambda>c. m (f c))"
  by (simp add: marks_only_def)

lemma marks_post: "marks_only m \<Longrightarrow> (\<And>c. menus (ck (f c)) = menus (ck c)) \<Longrightarrow> marks_only (\<lambda>c. do { (r, c1) \<leftarrow> m c; Some (g r, f c1) })"
  by (auto simp: marks_only_def elim!: bind_eq_SomeE)

lemma marks_dep_props:
  assumes scd: "\<And>s. marks_only (scd s)"
  shows "marks_only (check_dep_props scd s ps)"
proof (induction ps)
  case (Cons p ps)
  note e = marks_expr_deps [OF scd]
  have inner: "marks_only (\<lambda>c1. if p_type (props (ck c1) p) \<noteq> P_DEFAULT \<or> sym_is_choice (ck c1) s
      then check_dep_props scd s ps c1
      else or_else (sym_check_expr_deps scd (p_expr (props (ck c1) p)))
             (\<lambda>c2. check_dep_props scd s ps (set_stack_expr None c2)) (set_stack_expr (p_expr (props (ck c1) p)) c1))"
  proof -
    have "marks_only (or_else (sym_check_expr_deps scd x) (\<lambda>c2. check_dep_props scd s ps (set_stack_expr None c2)))" for x
      by (rule marks_or_else [OF e marks_pre [OF Cons]]) simp
    then show ?thesis using Cons unfolding marks_only_def by (auto split: if_splits)
  qed
  have "marks_only (\<lambda>c. or_else (sym_check_expr_deps scd x) (\<lambda>c1. if p_type (props (ck c1) p) \<noteq> P_DEFAULT \<or> sym_is_choice (ck c1) s
      then check_dep_props scd s ps c1
      else or_else (sym_check_expr_deps scd (p_expr (props (ck c1) p)))
             (\<lambda>c2. check_dep_props scd s ps (set_stack_expr None c2)) (set_stack_expr (p_expr (props (ck c1) p)) c1)) (set_stack_prop p c))" for x
    by (rule marks_pre [OF marks_or_else [OF e inner]]) simp
  then show ?case using Cons unfolding marks_only_def check_dep_props.simps by (auto split: if_splits)
qed (simp add: marks_only_def)

lemma marks_sym_deps:
  assumes scd: "\<And>s. marks_only (scd s)"
  shows "marks_only (sym_check_sym_deps scd s)"
proof -
  have "marks_only (or_else (sym_check_expr_deps scd x) (check_dep_props scd s ps))" for x ps
    by (rule marks_or_else [OF marks_expr_deps [OF scd] marks_dep_props [OF scd]])
  then show ?thesis unfolding marks_only_def sym_check_sym_deps_def Let_def
    by (auto elim!: bind_eq_SomeE)
qed

lemma menus_upd_ck: "(\<And>st. menus (f st) = menus st) \<Longrightarrow> menus (ck (upd_ck f c)) = menus (ck c)"
  by (simp add: upd_ck_def)

lemma menus_fold: "(\<And>x st. menus (f x st) = menus st) \<Longrightarrow> menus (fold f xs st) = menus st"
  by (induction xs arbitrary: st) simp_all

lemma menus_flags [simp]: "menus (set_flag s fs st) = menus st" "menus (clear_flag s fs st) = menus st"
  by (simp_all add: set_flag_def clear_flag_def)

lemma marks_values: "(\<And>s. marks_only (scd s)) \<Longrightarrow> marks_only (check_values scd vs)"
proof (induction vs)
  case (Cons v vs)
  have eq: "check_values scd (v # vs) = or_else (sym_check_sym_deps scd v) (check_values scd vs)" by (rule ext) simp
  show ?case unfolding eq by (rule marks_or_else [OF marks_sym_deps [of scd, OF Cons(2)] Cons(1) [OF Cons(2)]])
qed (simp add: marks_only_def)

lemma marks_choice:
  assumes scd: "\<And>s. marks_only (scd s)"
  shows "marks_only (sym_check_choice_deps scd s)"
proof (unfold marks_only_def, intro allI impI)
  fix c r c'
  assume a: "sym_check_choice_deps scd s c = Some (r, c')"
  let ?first = "\<lambda>c. do { (r, c') \<leftarrow> sym_check_sym_deps scd s c; Some (r, upd_ck (clear_flag s {SYMBOL_CHECK}) c') }"
  have "marks_only ?first" by (rule marks_post [OF marks_sym_deps [OF scd], of _ "\<lambda>r. r"]) (simp add: menus_upd_ck)
  then have m: "marks_only (or_else ?first (check_values scd ss))" for ss by (rule marks_or_else [OF _ marks_values [OF scd]])
  let ?mark = "\<lambda>ss. set_flag s {SYMBOL_CHECK, SYMBOL_CHECKED} \<circ> fold (\<lambda>v. set_flag v {SYMBOL_CHECK, SYMBOL_CHECKED}) ss"
  obtain ss where ss: "choice_list (ck (dep_stack_insert s c)) s = Some ss"
    using a by (auto simp: sym_check_choice_deps_def Let_def elim: bind_eq_SomeE)
  let ?c1 = "upd_ck (?mark ss) (dep_stack_insert s c)"
  obtain r2 c2 where s: "or_else ?first (check_values scd ss) ?c1 = Some (r2, c2)"
    using a ss by (cases "or_else ?first (check_values scd ss) ?c1") (auto simp: sym_check_choice_deps_def Let_def)
  have c': "c' = dep_stack_remove (upd_ck (fold (\<lambda>v. clear_flag v {SYMBOL_CHECK}) ss) c2)"
    using a unfolding sym_check_choice_deps_def Let_def ss bind.bind_lunit s prod.case by (rule bind_eq_SomeE) simp
  have "menus (ck ?c1) = menus (ck c)" by (subst menus_upd_ck) (simp_all add: menus_fold)
  moreover have "menus (ck c') = menus (ck c2)" unfolding c' by (simp add: menus_upd_ck menus_fold)
  ultimately show "menus (ck c') = menus (ck c)" using marks_onlyD [OF m s] by simp
qed

lemma print_recursive_ck:
  assumes "sym_check_print_recursive s c = Some c'"
  shows "ck c' = ck c"
proof -
  obtain start stack where "(case dropWhile (\<lambda>f. ds_sym f \<noteq> start) stack of
      [] \<Rightarrow> if sym_is_choice_value (ck c) s then None else Some (c\<lparr>printed := printed c @ [UnexpectedRecursive]\<rparr>)
    | f # _ \<Rightarrow> do { ls \<leftarrow> print_frames (ck c) start (f # rev (takeWhile (\<lambda>f. ds_sym f \<noteq> start) stack)) None;
                    Some (c\<lparr>printed := printed c @ ls\<rparr>) }) = Some c'"
    using assms unfolding sym_check_print_recursive_def by (rule bind_eq_SomeE) auto
  then show ?thesis
    by (cases "dropWhile (\<lambda>f. ds_sym f \<noteq> start) stack") (auto split: if_splits elim!: bind_eq_SomeE)
qed

lemma marks_step:
  assumes scd: "\<And>s. marks_only (scd s)"
  shows "marks_only (check_step scd s)"
proof (unfold marks_only_def, intro allI impI)
  fix c r c'
  assume a: "check_step scd s c = Some (r, c')"
  consider (print) "has_flag (ck c) s SYMBOL_CHECK" | (known) "\<not> has_flag (ck c) s SYMBOL_CHECK" "has_flag (ck c) s SYMBOL_CHECKED"
    | (val) cs r1 c1 where "scd cs (dep_stack_insert s c) = Some (r1, c1)" "c' = dep_stack_remove c1"
    | (choice) r1 where "sym_check_choice_deps scd s c = Some (r1, c')"
    | (plain) r1 c1 where "sym_check_sym_deps scd s (upd_ck (set_flag s {SYMBOL_CHECK, SYMBOL_CHECKED}) c) = Some (r1, c1)"
        "c' = upd_ck (clear_flag s {SYMBOL_CHECK}) c1"
    using a unfolding check_step_def by (auto elim!: bind_eq_SomeE split: if_splits)
  then show "menus (ck c') = menus (ck c)"
  proof cases
    case print
    then show ?thesis using a print_recursive_ck by (fastforce simp: check_step_def elim!: bind_eq_SomeE)
  next
    case known
    then show ?thesis using a by (simp add: check_step_def)
  next
    case val
    then show ?thesis using marks_onlyD [OF scd] by fastforce
  next
    case choice
    then show ?thesis using marks_onlyD [OF marks_choice [of scd s, OF scd]] by blast
  next
    case plain
    then show ?thesis using marks_onlyD [OF marks_sym_deps [of scd s, OF scd] plain(1)] by (simp add: menus_upd_ck)
  qed
qed

lemma sym_check_deps_marks: "marks_only (sym_check_deps n s)"
proof (induction n arbitrary: s)
  case (Suc n)
  then show ?case using marks_step [of "sym_check_deps n"] by (simp add: marks_only_def)
qed (simp add: marks_only_def)

lemma conf_check_deps_menus: "conf_check_deps n st = Some (errs, c) \<Longrightarrow> menus (ck c) = menus st"
proof -
  have "check_all_deps n ss e c0 = Some (errs, c) \<Longrightarrow> menus (ck c) = menus (ck c0)" for ss e c0
    by (induction ss arbitrary: e c0) (auto elim!: bind_eq_SomeE dest!: marks_onlyD [OF sym_check_deps_marks])
  then show "conf_check_deps n st = Some (errs, c) \<Longrightarrow> menus (ck c) = menus st" by (fastforce simp: conf_check_deps_def)
qed

section \<open>From the statements to the file\<close>

lemma height_le: "height ts \<le> length (preorder ts)"
  by (induction ts rule: height.induct) auto

lemma conf_parse_tree:
  assumes "conf_parse release env mainmenu ss init_state = Some (Parsed st)"
  obtains ts where "forest (links st) rootmenu ts" "links st rootmenu = (first_entry ts, None, None)"
    "preorder ts = [1..<Suc (entry_count ss)]" "conf_get_changed st"
proof -
  obtain st1 st2 st3 errs c where s: "parse_file release env mainmenu ss init_state = Some (0, st1)"
    "expand_title (default_modules st1) = Some st2" "menu_finalize (2 * next_menu st2) rootmenu st2 = Some st3"
    "conf_check_deps (2 * next_sym st3 + 2) st3 = Some (errs, c)" "st = sym_set_change_count 1 (ck c)"
    using assms by (auto simp: conf_parse_def elim!: bind_eq_SomeE split: if_splits)
  let ?ts = "shape 1 ss"
  have d: "sane (default_modules st1)" "links (default_modules st1) = links st1" "next_menu (default_modules st1) = next_menu st1"
    using parse_file_sane [OF s(1)] by (auto simp: default_modules_def links_def fun_eq_iff intro: sane_cong)
  note e = expand_title_keeps [OF s(2) d(1)]
  have t: "forest (links st2) rootmenu ?ts" "links st2 rootmenu = (first_entry ?ts, None, None)" "preorder ?ts = [1..<next_menu st2]"
    using parse_file_tree [OF s(1)] e(2,3) d(2,3) by simp_all
  have nm: "0 < next_menu st2" using parse_file_tree [OF s(1)] e(3) d(3) by simp
  then have len: "distinct (rootmenu # preorder ?ts)" "length (preorder ?ts) < next_menu st2" unfolding t(3) by auto
  obtain st' ts' where f: "menu_finalize (2 * next_menu st2) rootmenu st2 = Some st'" "forest (links st') rootmenu ts'"
    "links st' rootmenu = (first_entry ts', None, None)" "preorder ts' = preorder ?ts"
    using menu_finalize_tree [OF e(1) t(1,2) len, of "2 * next_menu st2"] len(2) by auto
  have "links st = links st3" using conf_check_deps_menus [OF s(4)] by (simp add: s(5) links_def sym_set_change_count_def fun_eq_iff)
  then show thesis using that [of ts'] f s(3,5) preorder_shape [of 1 ss] by (auto simp: conf_get_changed_def sym_set_change_count_def)
qed

text \<open>
  Property C28: the configuration file lists the entries in the order of the \<^verbatim>\<open>Kconfig\<close> statements. Whatever
  submenus \<^verbatim>\<open>menu_finalize\<close> forms and dissolves after the statements have been read, the file that
  \<^verbatim>\<open>conf_write\<close> writes from the state \<^verbatim>\<open>conf_parse\<close> leaves is the heading followed by what a pass over the
  entries in the order of their statements writes.
\<close>

theorem conf_write_statement_order:
  assumes "conf_parse release env mainmenu ss init_state = Some (Parsed st)" "2 * entry_count ss + 2 \<le> n"
  shows "conf_write n (sym_calc_value k) pfx st =
    do { h \<leftarrow> conf_write_heading kconfig_printer_cb st;
         (out, st2) \<leftarrow> walk_list (write_entry n (sym_calc_value k) pfx) [1..<Suc (entry_count ss)] (h, st);
         Some (out, sym_set_change_count 0 st2) }"
proof -
  obtain ts where t: "forest (links st) rootmenu ts" "links st rootmenu = (first_entry ts, None, None)"
    "preorder ts = [1..<Suc (entry_count ss)]" "conf_get_changed st" using conf_parse_tree [OF assms(1)] .
  have "length (preorder ts) = entry_count ss" by (simp only: t(3) length_upt)
  then have "length (preorder ts) + height ts + 2 \<le> n" using height_le [of ts] assms(2) by simp
  from conf_write_walk [OF t(1,2) this, of k pfx] show ?thesis using t(3,4) by simp
qed

text \<open>
  Property C27: \<^verbatim>\<open>menu_finalize\<close> keeps the order of the entries. For a parsed configuration whose menu
  entries form a tree below the root it ends without following a null pointer; the entries form a
  tree again, and a walk through it meets the same entries in the same order.
\<close>

theorem menu_finalize_keeps_order:
  assumes "sane st" "forest (links st) rootmenu ts" "links st rootmenu = (first_entry ts, None, None)"
    and "distinct (rootmenu # preorder ts)" "length (preorder ts) < next_menu st" "2 * length (preorder ts) + 1 \<le> n"
  shows "\<exists>st' ts'. menu_finalize n rootmenu st = Some st' \<and> sane st' \<and> forest (links st') rootmenu ts' \<and>
    links st' rootmenu = (first_entry ts', None, None) \<and> preorder ts' = preorder ts"
  by (rule menu_finalize_tree [OF assms])

text \<open>Two menu entries and a menu, as the parser leaves them.\<close>

theorem menu_finalize_keeps_order_witness:
  "\<exists>errs st st' ts'. parse_file ''4.9'' (\<lambda>_. None) None ex_stmts init_state = Some (errs, st) \<and>
    menu_finalize 9 rootmenu st = Some st' \<and> forest (links st') rootmenu ts' \<and> preorder ts' = [1, 2, 3, 4]"
proof -
  obtain errs st where p: "parse_file ''4.9'' (\<lambda>_. None) None ex_stmts init_state = Some (errs, st)"
    using parse_file_total [OF ex_stmts_ok] by metis
  have "preorder (shape 1 ex_stmts) = [1, 2, 3, 4]" unfolding ex_shape by simp
  moreover have "entry_count ex_stmts = 4" by (simp add: ex_stmts_def)
  ultimately show ?thesis
    using parse_file_tree [OF p] menu_finalize_keeps_order [OF parse_file_sane [OF p], of "shape 1 ex_stmts" 9] p by fastforce
qed

section \<open>An example\<close>

text \<open>
  One comment, on a system whose release is called \<^verbatim>\<open>y\<close>, so that the hash table holds a single symbol.
\<close>

definition ex_release :: symbol where
  "ex_release = free_symbol\<lparr>sym_name := Some ''UNAME_RELEASE'', sym_type := S_STRING, flags := {SYMBOL_AUTO}, sym_prop := [0]\<rparr>"

definition ex_init :: kstate where
  "ex_init = init_state\<lparr>syms := (syms init_state)(6 := ex_release), symbol_hash := (\<lambda>_. [])(hash_slot ''UNAME_RELEASE'' := [6]), next_sym := 7,
     props := (props init_state)(0 := free_property\<lparr>p_type := P_DEFAULT, p_sym := Some 6, p_expr := Some (XSymbol symbol_yes)\<rparr>), next_prop := 1\<rparr>"

lemma init_fields: "symbol_hash init_state = (\<lambda>_. [])" "next_sym init_state = 6" "next_prop init_state = 0" "props init_state = (\<lambda>_. free_property)"
  "menus init_state = (\<lambda>_. free_menu)" "next_menu init_state = 1" "current_entry init_state = 0" "current_menu init_state = Some 0" "last_entry init_state = AtList 0"
  by (simp_all add: init_state_def)

lemma ex_init_eq: "sym_init ''y'' init_state = ex_init"
proof -
  have "sym_lookup (Some ''UNAME_RELEASE'') {} init_state = alloc_symbol (Some ''UNAME_RELEASE'') {} (hash_slot ''UNAME_RELEASE'') init_state"
    by (simp add: sym_lookup_def const_name_def init_fields)
  moreover have "sym_lookup (Some ''y'') fl x = (symbol_yes, x)" for fl x by (simp add: sym_lookup_def const_name_def)
  ultimately show ?thesis
    by (simp add: sym_init_def sym_add_default_def alloc_symbol_def prop_alloc_def Let_def init_fields ex_init_def ex_release_def free_symbol_def
      upd_sym_def upd_prop_def set_flag_def expr_alloc_symbol_def)
qed

lemma ex_fields: "props ex_init = (\<lambda>_. free_property)(0 := free_property\<lparr>p_type := P_DEFAULT, p_sym := Some 6, p_expr := Some (XSymbol symbol_yes)\<rparr>)"
  "next_prop ex_init = 1" "next_sym ex_init = 7" "menus ex_init = (\<lambda>_. free_menu)" "next_menu ex_init = 1" "current_entry ex_init = 0"
  "current_menu ex_init = Some 0" "last_entry ex_init = AtList 0" "modules_sym ex_init = None"
  by (simp_all add: ex_init_def init_state_def)

definition ex_parsed :: kstate where
  "ex_parsed = ex_init\<lparr>props := (props ex_init)
      (1 := free_property\<lparr>p_type := P_MENU, p_text := Some ''Buildroot Configuration'', p_menu := Some 0\<rparr>,
       2 := free_property\<lparr>p_type := P_COMMENT, p_text := Some ''note'', p_menu := Some 1\<rparr>), next_prop := 3,
     menus := (\<lambda>_. free_menu)(0 := free_menu\<lparr>m_list := Some 1, m_prompt := Some 1\<rparr>, 1 := free_menu\<lparr>m_parent := Some 0, m_prompt := Some 2\<rparr>),
     next_menu := 2, current_menu := Some 0, current_entry := 1, last_entry := AtNext 1\<rparr>"

lemma ex_parsed_eq: "parse_file ''y'' (\<lambda>_. None) None [SComment ''note'' []] init_state = Some (0, ex_parsed)"
  by (simp add: parse_file_def ex_init_eq menu_init_def menu_add_prompt_def menu_add_prop_def prop_alloc_def Let_def ex_fields menu_check_dep_def
    upd_prop_def upd_menu_def with_errs_def prompt_entry_def menu_add_entry_def store_entry_def isspace_def free_menu_def free_property_def ex_parsed_def
      numeral_2_eq_2 numeral_3_eq_3)

lemma ex_parsed_fields: "props ex_parsed = (\<lambda>_. free_property)(0 := free_property\<lparr>p_type := P_DEFAULT, p_sym := Some 6, p_expr := Some (XSymbol symbol_yes)\<rparr>,
     1 := free_property\<lparr>p_type := P_MENU, p_text := Some ''Buildroot Configuration'', p_menu := Some 0\<rparr>,
     2 := free_property\<lparr>p_type := P_COMMENT, p_text := Some ''note'', p_menu := Some 1\<rparr>)"
  "menus ex_parsed = (\<lambda>_. free_menu)(0 := free_menu\<lparr>m_list := Some 1, m_prompt := Some 1\<rparr>, 1 := free_menu\<lparr>m_parent := Some 0, m_prompt := Some 2\<rparr>)"
  "next_menu ex_parsed = 2" "next_sym ex_parsed = 7" "syms ex_parsed = (syms init_state)(6 := ex_release)"
  "symbol_hash ex_parsed = (\<lambda>_. [])(hash_slot ''UNAME_RELEASE'' := [6])" "modules_sym ex_parsed = None"
  by (simp_all add: ex_parsed_def ex_fields) (simp_all add: ex_init_def)

lemma upd_same: "f (props st p) = props st p \<Longrightarrow> upd_prop p f st = st" "g (menus st m) = menus st m \<Longrightarrow> upd_menu m g st = st"
  by (simp_all add: upd_prop_def upd_menu_def fun_upd_idem)

definition ex_ready :: kstate where
  "ex_ready = ex_parsed\<lparr>modules_sym := Some symbol_no\<rparr>"

lemma ex_ready_fields: "props ex_ready = props ex_parsed" "menus ex_ready = menus ex_parsed" "next_menu ex_ready = 2" "next_sym ex_ready = 7"
  "syms ex_ready = syms ex_parsed" "symbol_hash ex_ready = symbol_hash ex_parsed"
  by (simp_all add: ex_ready_def ex_parsed_fields)

lemma ex_title: "expand_title (default_modules ex_parsed) = Some ex_ready"
proof -
  have "default_modules ex_parsed = ex_ready" by (simp add: default_modules_def ex_ready_def ex_parsed_fields sym_find_def const_name_def)
  then show ?thesis
    by (simp add: expand_title_def ex_ready_fields ex_parsed_fields sym_expand_string_value_def expand_loop.simps upd_same free_property_def free_menu_def)
qed

lemma ex_spread: "spread_deps rootmenu ex_ready = Some ex_ready"
  by (simp add: spread_deps_def ex_ready_fields ex_parsed_fields numeral_2_eq_2 free_menu_def free_property_def entry_dep_def with_base_def copy_opt_def
    expr_eliminate_dups_def entry_props_def prop_dep_def upd_same)

lemma ex_leaf: "menu_finalize (Suc n) 1 ex_ready = Some ex_ready"
  by (simp add: ex_ready_fields ex_parsed_fields free_menu_def)

lemma ex_final: "menu_finalize 4 rootmenu ex_ready = Some ex_ready"
  using ex_leaf
  by (simp add: eval_nat_numeral ex_spread ex_ready_fields ex_parsed_fields free_menu_def move_up_def)

lemma ex_symbols: "for_all_symbols ex_ready = [6]"
proof -
  have "hash_syms ex_ready = [6]" by (rule hash_syms_single [OF _ hash_slot_less]) (simp add: ex_ready_fields ex_parsed_fields)
  then show ?thesis by (simp add: for_all_symbols_def ex_ready_fields ex_parsed_fields ex_release_def free_symbol_def)
qed

lemma ex_checked: "\<exists>c. conf_check_deps 16 ex_ready = Some (0, c)"
  unfolding conf_check_deps_def ex_symbols
  by (simp add: eval_nat_numeral check_step_def ex_ready_fields ex_parsed_fields ex_release_def free_symbol_def init_state_def const_symbol_def
    sym_check_sym_deps_def Let_def sym_check_expr_deps_def or_else_def upd_ck_def set_flag_def clear_flag_def dep_stack_insert_def free_property_def
    set_stack_prop_def set_stack_expr_def)


theorem conf_write_statement_order_witness:
  "\<exists>st. conf_parse ''y'' (\<lambda>_. None) None [SComment ''note'' []] init_state = Some (Parsed st) \<and>
    conf_write 4 (sym_calc_value 2) ''BR2_'' st =
      do { h \<leftarrow> conf_write_heading kconfig_printer_cb st;
           (out, st2) \<leftarrow> write_entry 4 (sym_calc_value 2) ''BR2_'' 1 (h, st);
           Some (out, sym_set_change_count 0 st2) }"
proof -
  obtain c where "conf_check_deps 16 ex_ready = Some (0, c)" using ex_checked by blast
  then have p: "conf_parse ''y'' (\<lambda>_. None) None [SComment ''note'' []] init_state = Some (Parsed (sym_set_change_count 1 (ck c)))"
    by (simp add: conf_parse_def ex_parsed_eq ex_title ex_final ex_ready_fields)
  from p conf_write_statement_order [OF p, of 4 2 "''BR2_''"] show ?thesis by auto
qed

end
