(* ===== verification/Kconf_Print.thy ===== *)
theory Kconf_Print
  imports Kconf_Dups Kconf_Menu
begin

text \<open>
  Expressions as text (\<^verbatim>\<open>support/kconfig/expr.c\<close>), growing strings (\<^verbatim>\<open>util.c\<close>) and the help texts put together from
  both (\<^verbatim>\<open>menu.c\<close>). Texts are not translated. The file name and line number of a menu entry, which the
  records of the model leave out, are given by a function \<open>pos\<close>.
\<close>

section \<open>Expressions\<close>

text \<open>
  \<^verbatim>\<open>expr_compare_type(t1, t2)\<close>: the cases fall through, so that \<open>t2\<close> is compared with every type after \<open>t1\<close>. The
  result is 0 for equal types, else 1 or -1.
\<close>

definition weaker :: "expr_type \<Rightarrow> expr_type list" where
  "weaker t1 =
    (case t1 of
       E_EQUAL \<Rightarrow> [E_NOT, E_AND, E_OR, E_LIST, E_NONE]
     | E_UNEQUAL \<Rightarrow> [E_NOT, E_AND, E_OR, E_LIST, E_NONE]
     | E_NOT \<Rightarrow> [E_AND, E_OR, E_LIST, E_NONE]
     | E_AND \<Rightarrow> [E_OR, E_LIST, E_NONE]
     | E_OR \<Rightarrow> [E_LIST, E_NONE]
     | E_LIST \<Rightarrow> [E_NONE]
     | _ \<Rightarrow> [])"

definition expr_compare_type :: "expr_type \<Rightarrow> expr_type \<Rightarrow> int" where
  "expr_compare_type t1 t2 = (if t1 = t2 then 0 else if t2 \<in> set (weaker t1) then 1 else -1)"

text \<open>
  \<^verbatim>\<open>expr_print\<close>, as the list of the calls it makes of the function it is given: the symbol, if the call passes
  one, and the text. \<open>None\<close> stands for a null pointer passed as text, for a symbol without name.
\<close>

type_synonym piece = "symid option \<times> string"

definition sym_piece :: "kstate \<Rightarrow> symid \<Rightarrow> piece" where
  "sym_piece st s = (case sym_name (syms st s) of Some n \<Rightarrow> (Some s, n) | None \<Rightarrow> (None, ''<choice>''))"

definition named_piece :: "kstate \<Rightarrow> symid \<Rightarrow> piece option" where
  "named_piece st s = map_option (\<lambda>n. (Some s, n)) (sym_name (syms st s))"

fun list_pieces :: "kstate \<Rightarrow> symid list \<Rightarrow> piece list option" where
  "list_pieces st [] = Some []"
| "list_pieces st (s # ss) =
     do { p \<leftarrow> named_piece st s;
          ps \<leftarrow> list_pieces st ss;
          Some (p # (if ss = [] then [] else (None, '' ^ '') # ps)) }"

definition parens :: "expr_type \<Rightarrow> expr_type \<Rightarrow> piece list \<Rightarrow> piece list" where
  "parens prev t ps = (if expr_compare_type prev t > 0 then (None, ''('') # ps @ [(None, '')'')] else ps)"

fun expr_print :: "kstate \<Rightarrow> expr \<Rightarrow> expr_type \<Rightarrow> piece list option" where
  "expr_print st (XSymbol s) prev = Some (parens prev E_SYMBOL [sym_piece st s])"
| "expr_print st (XNot a) prev =
     map_option (\<lambda>ps. parens prev E_NOT ((None, ''!'') # ps)) (expr_print st a E_NOT)"
| "expr_print st (XEqual a b) prev =
     map_option (\<lambda>p. parens prev E_EQUAL [sym_piece st a, (None, ''=''), p]) (named_piece st b)"
| "expr_print st (XUnequal a b) prev =
     map_option (\<lambda>p. parens prev E_UNEQUAL [sym_piece st a, (None, ''!=''), p]) (named_piece st b)"
| "expr_print st (XOr a b) prev =
     do { ps \<leftarrow> expr_print st a E_OR; qs \<leftarrow> expr_print st b E_OR;
          Some (parens prev E_OR (ps @ (None, '' || '') # qs)) }"
| "expr_print st (XAnd a b) prev =
     do { ps \<leftarrow> expr_print st a E_AND; qs \<leftarrow> expr_print st b E_AND;
          Some (parens prev E_AND (ps @ (None, '' && '') # qs)) }"
| "expr_print st (XList ss) prev = map_option (parens prev E_LIST) (list_pieces st ss)"
| "expr_print st (XRange a b) prev =
     do { p \<leftarrow> named_piece st a; q \<leftarrow> named_piece st b;
          Some (parens prev E_RANGE [(None, ''[''), p, (None, '' ''), q, (None, '']'')]) }"
| "expr_print st XNone prev = Some (parens prev E_NONE [(None, ''<unknown type 0>'')])"

definition expr_print_opt :: "kstate \<Rightarrow> expr option \<Rightarrow> piece list option" where
  "expr_print_opt st e = (case e of None \<Rightarrow> Some [(None, ''y'')] | Some x \<Rightarrow> expr_print st x E_NONE)"

text \<open>\<^verbatim>\<open>expr_fprint\<close>: the texts one after the other.\<close>

definition expr_fprint :: "kstate \<Rightarrow> expr option \<Rightarrow> string option" where
  "expr_fprint st e = map_option (\<lambda>ps. concat (map snd ps)) (expr_print_opt st e)"

section \<open>Unmet dependencies\<close>

text \<open>
  \<^verbatim>\<open>expr_get_leftmost_symbol\<close> follows \<^verbatim>\<open>left.expr\<close> until it meets a symbol. A comparison holds a
  symbol there, not an expression: that case is \<open>None\<close>, as is any other without left operand.
\<close>

fun expr_get_leftmost_symbol :: "expr \<Rightarrow> expr option" where
  "expr_get_leftmost_symbol (XSymbol s) = Some (XSymbol s)"
| "expr_get_leftmost_symbol (XAnd a b) = expr_get_leftmost_symbol a"
| "expr_get_leftmost_symbol (XOr a b) = expr_get_leftmost_symbol a"
| "expr_get_leftmost_symbol (XNot a) = expr_get_leftmost_symbol a"
| "expr_get_leftmost_symbol _ = None"

fun expr_simplify_unmet_dep :: "kstate \<Rightarrow> expr \<Rightarrow> expr option \<Rightarrow> expr option option" where
  "expr_simplify_unmet_dep st (XOr a b) e2 =
     do { x \<leftarrow> expr_simplify_unmet_dep st a e2;
          y \<leftarrow> expr_simplify_unmet_dep st b e2;
          Some (expr_alloc_and x y) }"
| "expr_simplify_unmet_dep st (XAnd a b) e2 =
     do { e1' \<leftarrow> expr_copy (XAnd a b);
          e2' \<leftarrow> (case e2 of None \<Rightarrow> Some None | Some x \<Rightarrow> map_option Some (expr_copy x));
          e \<leftarrow> expr_eliminate_dups st (expr_alloc_and (Some e1') e2');
          x \<leftarrow> e;
          if \<not> expr_eq x (XAnd a b) then map_option Some (expr_get_leftmost_symbol (XAnd a b)) else Some None }"
| "expr_simplify_unmet_dep st e1 e2 = map_option Some (expr_get_leftmost_symbol e1)"

text \<open>The warning \<^verbatim>\<open>sym_calc_value\<close> prints for a symbol that is selected although its dependencies are not met.\<close>

definition unmet_warning :: "kstate \<Rightarrow> symid \<Rightarrow> string option" where
  "unmet_warning st s =
    do { rev \<leftarrow> ev_expr (rev_dep (syms st s));
         e \<leftarrow> expr_simplify_unmet_dep st rev (ev_expr (dir_dep (syms st s)));
         a \<leftarrow> expr_fprint st e;
         b \<leftarrow> expr_fprint st (ev_expr (dir_dep (syms st s)));
         Some (''warning: ('' @ a @ '') selects '' @ (case sym_name (syms st s) of Some n \<Rightarrow> n | None \<Rightarrow> ''(null)'') @
           '' which has unmet direct dependencies ('' @ b @ '')'' @ [CHR 0x0A]) }"

section \<open>Growing strings\<close>

record gstr =
  gs_s :: string
  gs_len :: nat
  max_width :: nat

definition str_new :: gstr where
  "str_new = \<lparr>gs_s = [], gs_len = 64, max_width = 0\<rparr>"

definition str_assign :: "string \<Rightarrow> gstr" where
  "str_assign s = \<lparr>gs_s = s, gs_len = length s + 1, max_width = 0\<rparr>"

definition str_append :: "gstr \<Rightarrow> string \<Rightarrow> gstr" where
  "str_append gs s =
    (let l = length (gs_s gs) + length s + 1 in
     gs\<lparr>gs_s := gs_s gs @ s, gs_len := if l > gs_len gs then l else gs_len gs\<rparr>)"

text \<open>\<^verbatim>\<open>str_printf\<close>: the formatted text goes through an array of 10000 bytes and is cut off there.\<close>

definition str_printf :: "gstr \<Rightarrow> string \<Rightarrow> gstr" where
  "str_printf gs s = str_append gs (take 9999 s)"

text \<open>The length of the last line, with the newline before it.\<close>

definition last_line_length :: "string \<Rightarrow> nat" where
  "last_line_length s =
    (if CHR 0x0A \<in> set s then Suc (length (takeWhile (\<lambda>c. c \<noteq> CHR 0x0A) (rev s))) else length s)"

definition expr_print_gstr_helper :: "calc \<Rightarrow> piece \<Rightarrow> gstr \<times> kstate \<Rightarrow> (gstr \<times> kstate) option" where
  "expr_print_gstr_helper scv p = (\<lambda>(gs, st). case p of (so, str) \<Rightarrow>
    do { (sym_str, st1) \<leftarrow>
           (case so of None \<Rightarrow> Some (None, st)
            | Some s \<Rightarrow> do { (v, st1) \<leftarrow> sym_get_string_value scv s st; Some (Some v, st1) });
         let extra = length str + (case sym_str of Some v \<Rightarrow> 4 + length v | None \<Rightarrow> 0);
         let gs1 = (if max_width gs \<noteq> 0 \<and> last_line_length (gs_s gs) + extra > max_width gs
                    then str_append gs [CHR 0x5C, CHR 0x0A] else gs);
         let gs2 = str_append gs1 str;
         Some (case (so, sym_str) of
                 (Some s, Some v) \<Rightarrow>
                   if sym_type (syms st1 s) \<noteq> S_UNKNOWN then str_printf gs2 ('' [='' @ v @ '']'') else gs2
               | _ \<Rightarrow> gs2, st1) })"

fun gstr_pieces :: "calc \<Rightarrow> piece list \<Rightarrow> gstr \<times> kstate \<Rightarrow> (gstr \<times> kstate) option" where
  "gstr_pieces scv [] r = Some r"
| "gstr_pieces scv (p # ps) r = do { r1 \<leftarrow> expr_print_gstr_helper scv p r; gstr_pieces scv ps r1 }"

definition expr_gstr_print :: "calc \<Rightarrow> expr option \<Rightarrow> gstr \<times> kstate \<Rightarrow> (gstr \<times> kstate) option" where
  "expr_gstr_print scv e = (\<lambda>(gs, st). do { ps \<leftarrow> expr_print_opt st e; gstr_pieces scv ps (gs, st) })"

section \<open>Help texts\<close>

record jump_key =
  jk_offset :: nat
  jk_target :: menuid
  jk_index :: nat

definition nl :: string where
  "nl = [CHR 0x0A]"

definition text_or_null :: "string option \<Rightarrow> string" where
  "text_or_null t = (case t of Some x \<Rightarrow> x | None \<Rightarrow> ''(null)'')"

text \<open>The menus above an entry, from the inside out, at most eight of them, each with whether it is visible.\<close>

fun parent_menus :: "nat \<Rightarrow> nat \<Rightarrow> calc \<Rightarrow> menuid option \<Rightarrow> kstate \<Rightarrow> ((menuid \<times> bool) list \<times> kstate) option" where
  "parent_menus 0 n scv mo st = Some ([], st)"
| "parent_menus (Suc i) n scv mo st =
     do { m \<leftarrow> mo;
          if m = rootmenu then Some ([], st)
          else
            do { (v, st1) \<leftarrow> menu_is_visible n scv m st;
                 (ms, st2) \<leftarrow> parent_menus i n scv (m_parent (menus st1 m)) st1;
                 Some ((m, v) # ms, st2) } }"

text \<open>
  The lines of the location, from the outermost menu to the innermost. The offset at which the menu to
  jump to starts is stored in the last key of the list.
\<close>

fun location_lines ::
    "calc \<Rightarrow> menuid option \<Rightarrow> nat \<Rightarrow> menuid list \<Rightarrow> gstr \<times> jump_key list \<times> kstate \<Rightarrow> (gstr \<times> jump_key list \<times> kstate) option" where
  "location_lines scv jump j [] r = Some r"
| "location_lines scv jump j (m # ms) (gs, keys, st) =
     do { let keys1 = (if jump = Some m \<and> keys \<noteq> []
                       then butlast keys @ [(last keys)\<lparr>jk_offset := length (gs_s gs)\<rparr>] else keys);
          let gs1 = str_printf gs (replicate j (CHR '' '') @ ''-> '' @ text_or_null (menu_get_prompt st m));
          (gs2, st1) \<leftarrow>
            (case m_sym (menus st m) of
               None \<Rightarrow> Some (gs1, st)
             | Some s \<Rightarrow>
                 do { (v, st1) \<leftarrow> sym_get_string_value scv s st;
                      Some (str_printf gs1 ('' ('' @ (case sym_name (syms st1 s) of Some n \<Rightarrow> n | None \<Rightarrow> ''<choice>'') @
                        '' [='' @ v @ ''])''), st1) });
          location_lines scv jump (j + 2) ms (str_append gs2 nl, keys1, st1) }"

text \<open>
  \<^verbatim>\<open>get_prompt_str\<close>; \<open>head\<close> is the list of places to jump to, if the caller passes one.
\<close>

definition get_prompt_str ::
    "nat \<Rightarrow> calc \<Rightarrow> propid \<Rightarrow> gstr \<times> jump_key list option \<times> kstate \<Rightarrow> (gstr \<times> jump_key list option \<times> kstate) option" where
  "get_prompt_str n scv p = (\<lambda>(gs, head, st).
    do { let gs1 = str_printf gs (''Prompt: '' @ text_or_null (p_text (props st p)) @ nl);
         pm \<leftarrow> p_menu (props st p);
         (ms, st1) \<leftarrow> parent_menus 8 n scv (m_parent (menus st pm)) st;
         let location = (case filter snd ms of [] \<Rightarrow> None | (m, _) # _ \<Rightarrow> Some m);
         (head1, st2) \<leftarrow>
           (case (head, location) of
              (Some keys, Some loc) \<Rightarrow>
                do { (v, st2) \<leftarrow> menu_is_visible n scv pm st1;
                     Some (Some (keys @ [\<lparr>jk_offset = 0, jk_target = if v then pm else loc,
                       jk_index = if keys = [] then 0 else jk_index (last keys) + 1\<rparr>]), st2) }
            | _ \<Rightarrow> Some (head, st1));
         if ms = [] then Some (gs1, head1, st2)
         else
           do { let jump = (if head = None then None else location);
                (gs2, keys, st3) \<leftarrow> location_lines scv jump 4 (rev (map fst ms))
                  (str_printf gs1 (''  Location:'' @ nl), (case head1 of Some k \<Rightarrow> k | None \<Rightarrow> []), st2);
                Some (gs2, map_option (\<lambda>_. keys) head1, st3) } })"

fun prompt_strs ::
    "nat \<Rightarrow> calc \<Rightarrow> propid list \<Rightarrow> gstr \<times> jump_key list option \<times> kstate \<Rightarrow> (gstr \<times> jump_key list option \<times> kstate) option" where
  "prompt_strs n scv [] r = Some r"
| "prompt_strs n scv (p # ps) r = do { r1 \<leftarrow> get_prompt_str n scv p r; prompt_strs n scv ps r1 }"

definition get_symbol_prop :: "kstate \<Rightarrow> symid \<Rightarrow> propid option" where
  "get_symbol_prop st s = first_prop st s P_SYMBOL"

text \<open>The first lines: name, value, type and range.\<close>

definition symbol_heading :: "calc \<Rightarrow> symid \<Rightarrow> gstr \<times> kstate \<Rightarrow> (gstr \<times> kstate) option" where
  "symbol_heading scv s = (\<lambda>(gs, st).
    case sym_name (syms st s) of
      None \<Rightarrow> Some (gs, st)
    | Some nm \<Rightarrow>
        do { (v, st1) \<leftarrow> sym_get_string_value scv s st;
             let gs2 = str_printf (str_printf gs (''Symbol: '' @ nm @ '' [='' @ v @ '']'' @ nl))
                         (''Type  : '' @ sym_type_name (sym_type (syms st1 s)) @ nl);
             if sym_type (syms st1 s) = S_INT \<or> sym_type (syms st1 s) = S_HEX
             then
               do { (prop, st2) \<leftarrow> sym_get_range_prop scv s st1;
                    case prop of
                      None \<Rightarrow> Some (gs2, st2)
                    | Some p \<Rightarrow>
                        do { (gs3, st3) \<leftarrow> expr_gstr_print scv (p_expr (props st2 p)) (str_printf gs2 ''Range : '', st2);
                             Some (str_append gs3 nl, st3) } }
             else Some (gs2, st1) })"

definition symbol_place :: "calc \<Rightarrow> (menuid \<Rightarrow> string \<times> nat) \<Rightarrow> symid \<Rightarrow> gstr \<times> kstate \<Rightarrow> (gstr \<times> kstate) option" where
  "symbol_place scv pos s = (\<lambda>(gs, st).
    case get_symbol_prop st s of
      None \<Rightarrow> Some (gs, st)
    | Some p \<Rightarrow>
        do { m \<leftarrow> p_menu (props st p);
             let gs1 = str_printf gs (''  Defined at '' @ fst (pos m) @ '':'' @ print_nat 10 (snd (pos m)) @ nl);
             if expr_is_yes (ev_expr (p_visible (props st p))) then Some (gs1, st)
             else
               do { (gs2, st1) \<leftarrow> expr_gstr_print scv (ev_expr (p_visible (props st p))) (str_append gs1 ''  Depends on: '', st);
                    Some (str_append gs2 nl, st1) } })"

fun select_lines :: "calc \<Rightarrow> bool \<Rightarrow> propid list \<Rightarrow> gstr \<times> kstate \<Rightarrow> (gstr \<times> kstate) option" where
  "select_lines scv hit [] (gs, st) = Some (if hit then str_append gs nl else gs, st)"
| "select_lines scv hit (p # ps) (gs, st) =
     do { let gs1 = (if hit then str_printf gs '' && '' else str_append gs ''  Selects: '');
          r \<leftarrow> expr_gstr_print scv (p_expr (props st p)) (gs1, st);
          select_lines scv True ps r }"

definition get_symbol_str ::
    "nat \<Rightarrow> calc \<Rightarrow> (menuid \<Rightarrow> string \<times> nat) \<Rightarrow> symid \<Rightarrow> gstr \<times> jump_key list option \<times> kstate \<Rightarrow>
     (gstr \<times> jump_key list option \<times> kstate) option" where
  "get_symbol_str n scv pos s = (\<lambda>(gs, head, st).
    do { (gs1, st1) \<leftarrow> symbol_heading scv s (gs, st);
         (gs2, head2, st2) \<leftarrow> prompt_strs n scv (for_all_prompts st1 s) (gs1, head, st1);
         (gs3, st3) \<leftarrow> symbol_place scv pos s (gs2, st2);
         (gs4, st4) \<leftarrow> select_lines scv False (for_all_properties st3 s P_SELECT) (gs3, st3);
         (gs5, st5) \<leftarrow>
           (case ev_expr (rev_dep (syms st4 s)) of
              None \<Rightarrow> Some (gs4, st4)
            | Some e \<Rightarrow>
                do { (gs5, st5) \<leftarrow> expr_gstr_print scv (Some e) (str_append gs4 ''  Selected by: '', st4);
                     Some (str_append gs5 nl, st5) });
         Some (str_append gs5 (nl @ nl), head2, st5) })"

fun relations_strs ::
    "nat \<Rightarrow> calc \<Rightarrow> (menuid \<Rightarrow> string \<times> nat) \<Rightarrow> symid list \<Rightarrow> gstr \<times> jump_key list option \<times> kstate \<Rightarrow>
     (gstr \<times> jump_key list option \<times> kstate) option" where
  "relations_strs n scv pos [] r = Some r"
| "relations_strs n scv pos (s # ss) r = do { r1 \<leftarrow> get_symbol_str n scv pos s r; relations_strs n scv pos ss r1 }"

definition get_relations_str ::
    "nat \<Rightarrow> calc \<Rightarrow> (menuid \<Rightarrow> string \<times> nat) \<Rightarrow> symid list \<Rightarrow> jump_key list option \<Rightarrow> kstate \<Rightarrow>
     (gstr \<times> jump_key list option \<times> kstate) option" where
  "get_relations_str n scv pos ss head st =
    (if ss = [] then Some (str_append str_new (''No matches found.'' @ nl), head, st)
     else relations_strs n scv pos ss (str_new, head, st))"

definition nohelp_text :: string where
  "nohelp_text = ''There is no help available for this option.''"

text \<open>\<^verbatim>\<open>menu_get_ext_help\<close>; \<open>pfx\<close> is the prefix of configuration names. An entry with a help text has a symbol.\<close>

definition menu_get_ext_help ::
    "nat \<Rightarrow> calc \<Rightarrow> (menuid \<Rightarrow> string \<times> nat) \<Rightarrow> string \<Rightarrow> menuid \<Rightarrow> gstr \<times> kstate \<Rightarrow> (gstr \<times> kstate) option" where
  "menu_get_ext_help n scv pos pfx m = (\<lambda>(gs, st).
    do { (gs1, text) \<leftarrow>
           (if menu_has_help st m
            then do { s \<leftarrow> m_sym (menus st m);
                      Some (case sym_name (syms st s) of
                              Some nm \<Rightarrow> str_printf gs (pfx @ nm @ '':'' @ nl @ nl)
                            | None \<Rightarrow> gs, menu_get_help st m) }
            else Some (gs, nohelp_text));
         let gs2 = str_printf gs1 (text @ nl);
         case m_sym (menus st m) of
           None \<Rightarrow> Some (gs2, st)
         | Some s \<Rightarrow>
             do { (gs3, _, st1) \<leftarrow> get_symbol_str n scv pos s (gs2, None, st); Some (gs3, st1) } })"

end
