(* ===== verification/Kconf_Print_Props.thy ===== *)
theory Kconf_Print_Props
  imports Kconf_Print Kconf_Expr_Value
begin

text \<open>
  What \<^verbatim>\<open>expr_print\<close> writes is read back by the grammar of \<^verbatim>\<open>zconf.y\<close> as an expression that differs at most in
  the grouping of equal operators, so that it has the same value. Growing strings never overrun their storage.
\<close>

section \<open>The grammar of expressions\<close>

text \<open>
  The rules for \<^verbatim>\<open>expr\<close> in \<^verbatim>\<open>zconf.y\<close>, with \<^verbatim>\<open>!\<close> binding tighter than \<^verbatim>\<open>&&\<close>, this tighter than \<^verbatim>\<open>||\<close>, and both
  grouping to the left. The tokens are the pieces of text; a piece that carries a symbol is its name. The tests that
  the rest is shorter only serve termination.
\<close>

function (sequential) parse_or :: "piece list \<Rightarrow> (expr \<times> piece list) option"
and parse_or_rest :: "expr \<Rightarrow> piece list \<Rightarrow> (expr \<times> piece list) option"
and parse_and :: "piece list \<Rightarrow> (expr \<times> piece list) option"
and parse_and_rest :: "expr \<Rightarrow> piece list \<Rightarrow> (expr \<times> piece list) option"
and parse_not :: "piece list \<Rightarrow> (expr \<times> piece list) option" where
  "parse_or ts = do { (e, r) \<leftarrow> parse_and ts; if length r < length ts then parse_or_rest e r else None }"
| "parse_or_rest e ((None, op) # ts) =
     (if op = '' || ''
      then do { (e2, r) \<leftarrow> parse_and ts; if length r < length ts then parse_or_rest (XOr e e2) r else None }
      else Some (e, (None, op) # ts))"
| "parse_or_rest e ts = Some (e, ts)"
| "parse_and ts = do { (e, r) \<leftarrow> parse_not ts; if length r < length ts then parse_and_rest e r else None }"
| "parse_and_rest e ((None, op) # ts) =
     (if op = '' && ''
      then do { (e2, r) \<leftarrow> parse_not ts; if length r < length ts then parse_and_rest (XAnd e e2) r else None }
      else Some (e, (None, op) # ts))"
| "parse_and_rest e ts = Some (e, ts)"
| "parse_not ((None, t) # ts) =
     (if t = ''!'' then map_option (\<lambda>(e, r). (XNot e, r)) (parse_not ts)
      else if t = ''('' then
        (case parse_or ts of
           Some (e, (None, c) # r) \<Rightarrow> if c = '')'' then Some (e, r) else None
         | _ \<Rightarrow> None)
      else None)"
| "parse_not ((Some a, _) # (None, t) # (Some b, y) # ts) =
     (if t = ''='' then Some (XEqual a b, ts)
      else if t = ''!='' then Some (XUnequal a b, ts)
      else Some (XSymbol a, (None, t) # (Some b, y) # ts))"
| "parse_not ((Some a, _) # ts) = Some (XSymbol a, ts)"
| "parse_not [] = None"
  by pat_completeness auto


termination
  by (relation "measure (\<lambda>x. case x of
      Inl (Inl ts) \<Rightarrow> 3 * length ts + 2 | Inl (Inr (e, ts)) \<Rightarrow> 3 * length ts + 2
    | Inr (Inl ts) \<Rightarrow> 3 * length ts + 1 | Inr (Inr (Inl (e, ts))) \<Rightarrow> 3 * length ts + 1
    | Inr (Inr (Inr ts)) \<Rightarrow> 3 * length ts)") auto

declare parse_or.simps [simp del] parse_and.simps [simp del]

text \<open>An expression with chains of equal operators grouped to the left.\<close>

fun join_ops :: "(expr \<Rightarrow> expr \<Rightarrow> expr) \<Rightarrow> expr list \<Rightarrow> expr" where
  "join_ops f [] = XNone"
| "join_ops f (e # es) = foldl f e es"

fun regroup :: "expr \<Rightarrow> expr" and or_ops :: "expr \<Rightarrow> expr list" and and_ops :: "expr \<Rightarrow> expr list" where
  "regroup (XOr a b) = join_ops XOr (or_ops a @ or_ops b)"
| "regroup (XAnd a b) = join_ops XAnd (and_ops a @ and_ops b)"
| "regroup (XNot a) = XNot (regroup a)"
| "regroup e = e"
| "or_ops (XOr a b) = or_ops a @ or_ops b"
| "or_ops (XAnd a b) = [join_ops XAnd (and_ops a @ and_ops b)]"
| "or_ops (XNot a) = [XNot (regroup a)]"
| "or_ops e = [e]"
| "and_ops (XAnd a b) = and_ops a @ and_ops b"
| "and_ops (XOr a b) = [join_ops XOr (or_ops a @ or_ops b)]"
| "and_ops (XNot a) = [XNot (regroup a)]"
| "and_ops e = [e]"


lemma join_ops_regroup:
  "join_ops XOr (or_ops e) = regroup e" "join_ops XAnd (and_ops e) = regroup e"
  by (cases e; simp)+

lemma ops_nonempty: "or_ops e \<noteq> []" "and_ops e \<noteq> []"
  by (induction e) simp_all

lemma regroup_val:
  "expr_val st (regroup e) = expr_val st e"
  "foldl EXPR_OR t (map (expr_val st) (or_ops e)) = EXPR_OR t (expr_val st e)"
  "foldl EXPR_AND t (map (expr_val st) (and_ops e)) = EXPR_AND t (expr_val st e)"
proof -
  have laws: "EXPR_OR No x = x" "EXPR_AND Yes x = x" "EXPR_OR (EXPR_OR x y) z = EXPR_OR x (EXPR_OR y z)"
    "EXPR_AND (EXPR_AND x y) z = EXPR_AND x (EXPR_AND y z)" for x y z
    by (cases x; simp add: EXPR_OR_def EXPR_AND_def)+
  have or: "expr_val st (foldl XOr e es) = foldl EXPR_OR (expr_val st e) (map (expr_val st) es)" for e es
    by (induction es arbitrary: e) simp_all
  have an: "expr_val st (foldl XAnd e es) = foldl EXPR_AND (expr_val st e) (map (expr_val st) es)" for e es
    by (induction es arbitrary: e) simp_all
  have "expr_val st (join_ops XOr es) = foldl EXPR_OR No (map (expr_val st) es)" "expr_val st (join_ops XAnd es) = foldl EXPR_AND Yes (map (expr_val st) es)"
    if "es \<noteq> []" for es using that by (cases es; simp add: or an laws)+
  then have j: "expr_val st (join_ops XOr (or_ops a @ or_ops b)) = foldl EXPR_OR No (map (expr_val st) (or_ops a @ or_ops b))"
    "expr_val st (join_ops XAnd (and_ops a @ and_ops b)) = foldl EXPR_AND Yes (map (expr_val st) (and_ops a @ and_ops b))" for a b
    by (simp_all add: ops_nonempty)
  show "expr_val st (regroup e) = expr_val st e"
    "foldl EXPR_OR t (map (expr_val st) (or_ops e)) = EXPR_OR t (expr_val st e)"
    "foldl EXPR_AND t (map (expr_val st) (and_ops e)) = EXPR_AND t (expr_val st e)"
  proof (induction e arbitrary: t)
  qed (simp_all add: j laws)
qed

section \<open>Reading what was printed\<close>

fun all_named :: "kstate \<Rightarrow> expr \<Rightarrow> bool" where
  "all_named st (XOr a b) = (all_named st a \<and> all_named st b)"
| "all_named st (XAnd a b) = (all_named st a \<and> all_named st b)"
| "all_named st (XNot a) = all_named st a"
| "all_named st (XEqual a b) = (sym_name (syms st a) \<noteq> None \<and> sym_name (syms st b) \<noteq> None)"
| "all_named st (XUnequal a b) = (sym_name (syms st a) \<noteq> None \<and> sym_name (syms st b) \<noteq> None)"
| "all_named st (XSymbol a) = (sym_name (syms st a) \<noteq> None)"
| "all_named st _ = True"

definition name_piece :: "kstate \<Rightarrow> symid \<Rightarrow> piece" where
  "name_piece st s = (Some s, the (sym_name (syms st s)))"

text \<open>The pieces of a condition all of whose symbols have names.\<close>

fun pieces :: "kstate \<Rightarrow> expr \<Rightarrow> expr_type \<Rightarrow> piece list" where
  "pieces st (XSymbol s) prev = [name_piece st s]"
| "pieces st (XNot a) prev = parens prev E_NOT ((None, ''!'') # pieces st a E_NOT)"
| "pieces st (XEqual a b) prev = [name_piece st a, (None, ''=''), name_piece st b]"
| "pieces st (XUnequal a b) prev = [name_piece st a, (None, ''!=''), name_piece st b]"
| "pieces st (XOr a b) prev = parens prev E_OR (pieces st a E_OR @ (None, '' || '') # pieces st b E_OR)"
| "pieces st (XAnd a b) prev = parens prev E_AND (pieces st a E_AND @ (None, '' && '') # pieces st b E_AND)"
| "pieces st _ prev = []"

lemma expr_print_pieces: "bool_expr e \<Longrightarrow> all_named st e \<Longrightarrow> expr_print st e prev = Some (pieces st e prev)"
proof -
  have "parens prev E_SYMBOL ps = ps" "parens prev E_EQUAL ps = ps" "parens prev E_UNEQUAL ps = ps" for prev ps
    by (cases prev; simp add: parens_def expr_compare_type_def weaker_def)+
  then show "bool_expr e \<Longrightarrow> all_named st e \<Longrightarrow> ?thesis"
    by (induction e arbitrary: prev) (auto simp: sym_piece_def named_piece_def name_piece_def)
qed

definition follow_and :: "piece list \<Rightarrow> bool" where
  "follow_and r \<longleftrightarrow> r = [] \<or> (\<exists>r' op. r = (None, op) # r' \<and> (op = '' && '' \<or> op = '' || '' \<or> op = '')''))"

definition follow_or :: "piece list \<Rightarrow> bool" where
  "follow_or r \<longleftrightarrow> r = [] \<or> (\<exists>r' op. r = (None, op) # r' \<and> (op = '' || '' \<or> op = '')''))"

lemma follow_simps:
  "follow_or r \<Longrightarrow> follow_and r" "follow_and ((None, '' && '') # r)" "follow_or ((None, '' || '') # r)" "follow_or ((None, '')'') # r)"
  "follow_or []"
  by (auto simp: follow_and_def follow_or_def)

lemma parse_stop: "follow_or r \<Longrightarrow> parse_and_rest e r = Some (e, r)" "parse_or_rest e ((None, '')'') # r) = Some (e, (None, '')'') # r)"
  "parse_or_rest e [] = Some (e, [])"
  by (auto simp: follow_or_def)

definition reads_not :: "piece list \<Rightarrow> expr \<Rightarrow> bool" where
  "reads_not ps e \<longleftrightarrow> (\<forall>r. follow_and r \<longrightarrow> parse_not (ps @ r) = Some (e, r))"

definition reads_and :: "piece list \<Rightarrow> expr list \<Rightarrow> bool" where
  "reads_and ps es \<longleftrightarrow> (\<forall>r. follow_and r \<longrightarrow> parse_and (ps @ r) = parse_and_rest (join_ops XAnd es) r \<and>
    (\<forall>acc. parse_and_rest acc ((None, '' && '') # ps @ r) = parse_and_rest (foldl XAnd acc es) r))"

definition reads_or :: "piece list \<Rightarrow> expr list \<Rightarrow> bool" where
  "reads_or ps es \<longleftrightarrow> (\<forall>r. follow_or r \<longrightarrow> parse_or (ps @ r) = parse_or_rest (join_ops XOr es) r \<and>
    (\<forall>acc. parse_or_rest acc ((None, '' || '') # ps @ r) = parse_or_rest (foldl XOr acc es) r))"

lemma reads_and_one: "reads_not ps e \<Longrightarrow> ps \<noteq> [] \<Longrightarrow> reads_and ps [e]"
  by (auto simp: reads_not_def reads_and_def parse_and.simps [of "ps @ r" for r])

lemma reads_or_one: "reads_and ps es \<Longrightarrow> ps \<noteq> [] \<Longrightarrow> reads_or ps [join_ops XAnd es]"
  by (auto simp: reads_and_def reads_or_def follow_simps parse_stop parse_or.simps [of "ps @ r" for r])

lemma reads_or_atom: "reads_not ps e \<Longrightarrow> ps \<noteq> [] \<Longrightarrow> reads_or ps [e]"
  using reads_or_one [OF reads_and_one] by simp

lemma reads_and_join: "reads_and ps es \<Longrightarrow> reads_and qs fs \<Longrightarrow> es \<noteq> [] \<Longrightarrow> reads_and (ps @ (None, '' && '') # qs) (es @ fs)"
  by (cases es) (auto simp: reads_and_def follow_simps simp del: parse_and_rest.simps)

lemma reads_or_join: "reads_or ps es \<Longrightarrow> reads_or qs fs \<Longrightarrow> es \<noteq> [] \<Longrightarrow> reads_or (ps @ (None, '' || '') # qs) (es @ fs)"
  by (cases es) (auto simp: reads_or_def follow_simps simp del: parse_or_rest.simps)

lemma reads_parens: "reads_or ps es \<Longrightarrow> reads_not ((None, ''('') # ps @ [(None, '')'')]) (join_ops XOr es)"
  by (auto simp: reads_or_def reads_not_def follow_simps parse_stop)

lemma reads_neg: "reads_not ps e \<Longrightarrow> reads_not ((None, ''!'') # ps) (XNot e)"
  by (auto simp: reads_not_def)

lemma reads_symbol: "reads_not [name_piece st s] (XSymbol s)"
  "reads_not [name_piece st a, (None, ''=''), name_piece st b] (XEqual a b)"
  "reads_not [name_piece st a, (None, ''!=''), name_piece st b] (XUnequal a b)"
proof -
  have "parse_not (name_piece st s # r) = Some (XSymbol s, r)" if "follow_and r" for r
  proof (cases r)
    case (Cons c r')
    then obtain op where "c = (None, op)" "op \<noteq> ''=''" "op \<noteq> ''!=''"
      using \<open>follow_and r\<close> by (auto simp: follow_and_def)
    then show ?thesis using Cons by (cases r'; cases "fst (hd r')") (auto simp: name_piece_def)
  qed (simp add: name_piece_def)
  then show "reads_not [name_piece st s] (XSymbol s)" by (simp add: reads_not_def)
qed (simp_all add: reads_not_def name_piece_def)

lemma pieces_nonempty: "bool_expr e \<Longrightarrow> pieces st e prev \<noteq> []"
  by (cases e) (simp_all add: parens_def)

lemma parens_simps:
  "parens E_NOT E_OR ps = (None, ''('') # ps @ [(None, '')'')]" "parens E_NOT E_AND ps = (None, ''('') # ps @ [(None, '')'')]"
  "parens E_AND E_OR ps = (None, ''('') # ps @ [(None, '')'')]" "parens E_AND E_AND ps = ps" "parens E_OR E_OR ps = ps"
  "parens E_OR E_AND ps = ps" "parens E_OR E_NOT ps = ps" "parens E_NOT E_NOT ps = ps" "parens E_AND E_NOT ps = ps" "parens E_NONE t ps = ps"
  by (simp_all add: parens_def expr_compare_type_def weaker_def)

lemma pieces_read:
  "bool_expr e \<Longrightarrow> reads_not (pieces st e E_NOT) (regroup e) \<and> reads_and (pieces st e E_AND) (and_ops e) \<and>
    reads_or (pieces st e E_OR) (or_ops e)"
proof (induction e)
  case (XOr a b)
  let ?p = "pieces st a E_OR @ (None, '' || '') # pieces st b E_OR"
  have o: "reads_or ?p (or_ops a @ or_ops b)" using XOr by (intro reads_or_join) (simp_all add: ops_nonempty)
  then have n: "reads_not ((None, ''('') # ?p @ [(None, '')'')]) (regroup (XOr a b))" using reads_parens by fastforce
  show ?case using o n reads_and_one [OF n] by (simp add: parens_simps)
next
  case (XAnd a b)
  let ?p = "pieces st a E_AND @ (None, '' && '') # pieces st b E_AND"
  have an: "reads_and ?p (and_ops a @ and_ops b)" using XAnd by (intro reads_and_join) (simp_all add: ops_nonempty)
  then have o: "reads_or ?p [regroup (XAnd a b)]" using reads_or_one [OF an] by simp
  show ?case using an o reads_parens [OF o] by (simp add: parens_simps)
next
  case (XNot a)
  have n: "reads_not ((None, ''!'') # pieces st a E_NOT) (regroup (XNot a))" using XNot reads_neg by simp
  then have "reads_and ((None, ''!'') # pieces st a E_NOT) [XNot (regroup a)]" using reads_and_one by simp
  from reads_or_one [OF this] this n show ?case by (simp add: parens_simps)
qed (simp_all add: reads_symbol reads_and_one reads_or_atom)



text \<open>The condition \<^verbatim>\<open>(y || m) && !m=y\<close>.\<close>

definition ex_cond :: expr where
  "ex_cond = XAnd (XOr (XSymbol symbol_yes) (XSymbol symbol_mod)) (XNot (XEqual symbol_mod symbol_yes))"


section \<open>Growing strings\<close>

text \<open>The storage of a growing string always has room for its text and the terminating null.\<close>

definition gstr_ok :: "gstr \<Rightarrow> bool" where
  "gstr_ok gs \<longleftrightarrow> length (gs_s gs) < gs_len gs"

lemma gstr_ok_ops:
  "gstr_ok str_new" "gstr_ok (str_assign s)" "gstr_ok gs \<Longrightarrow> gstr_ok (str_append gs s)" "gstr_ok gs \<Longrightarrow> gstr_ok (str_printf gs s)"
  by (simp_all add: gstr_ok_def str_new_def str_assign_def str_append_def str_printf_def Let_def)

lemma gstr_pieces_ok: "gstr_pieces scv ps (gs, st) = Some (gs', st') \<Longrightarrow> gstr_ok gs \<Longrightarrow> gstr_ok gs'"
proof (induction ps arbitrary: gs st)
  case (Cons p ps)
  obtain gs1 st1 where r: "expr_print_gstr_helper scv p (gs, st) = Some (gs1, st1)" "gstr_pieces scv ps (gs1, st1) = Some (gs', st')"
    using Cons.prems(1) by (auto elim!: bind_eq_SomeE)
  then have "gstr_ok gs1"
    using Cons.prems(2) by (auto simp: expr_print_gstr_helper_def Let_def gstr_ok_ops split: prod.splits option.splits elim!: bind_eq_SomeE)
  then show ?case using Cons.IH r(2) by blast
qed simp

end
