(* ===== verification/Kconf_Front.thy ===== *)
theory Kconf_Front
  imports Kconf_Print Kconf_Write
begin

text \<open>
  The line-oriented front end (\<^verbatim>\<open>support/kconfig/conf.c\<close>): the dialogue on standard input and output, and
  \<^verbatim>\<open>main\<close> after the Kconfig files are parsed. The static variables of the program are the record \<open>front\<close>, with the
  rest of its standard input and what it has printed. A function returns \<open>None\<close> for a null pointer that the code would
  follow, a write outside a buffer, or a bound that is too small; \<open>Inl\<close> is an exit with status 1. What goes to the
  standard error output is not modelled.
\<close>

datatype input_mode =
    oldaskconfig | silentoldconfig | oldconfig | allnoconfig | allyesconfig | allmodconfig | alldefconfig
  | randconfig | defconfig | savedefconfig | listnewconfig | olddefconfig

record front =
  kst :: kstate
  input_mode :: input_mode
  indent :: nat
  tty_stdio :: bool
  valid_stdin :: bool
  sync_kconfig :: bool
  conf_cnt :: nat
  line :: string
  rootEntry :: "menuid option"
  stdin_left :: string
  printed :: string

text \<open>
  What the functions below are given: bounds on the entries visited, the function to call for \<^verbatim>\<open>sym_calc_value\<close>,
  the positions of menu entries and the prefix of configuration names.
\<close>

record front_env =
  fe_bound :: nat
  fe_calc :: calc
  fe_pos :: "menuid \<Rightarrow> string \<times> nat"
  fe_pfx :: string

type_synonym 'a front_result = "(front + 'a \<times> front) option"

definition andthen :: "'a front_result \<Rightarrow> ('a \<Rightarrow> front \<Rightarrow> 'b front_result) \<Rightarrow> 'b front_result" where
  "andthen m f = (case m of None \<Rightarrow> None | Some (Inl x) \<Rightarrow> Some (Inl x) | Some (Inr (v, s)) \<Rightarrow> f v s)"

definition returns :: "'a \<Rightarrow> front \<Rightarrow> 'a front_result" where
  "returns v s = Some (Inr (v, s))"

definition on_k :: "(kstate \<Rightarrow> ('a \<times> kstate) option) \<Rightarrow> front \<Rightarrow> 'a front_result" where
  "on_k f s = (case f (kst s) of None \<Rightarrow> None | Some (v, k) \<Rightarrow> Some (Inr (v, s\<lparr>kst := k\<rparr>)))"

definition put :: "string \<Rightarrow> front \<Rightarrow> front" where
  "put t s = s\<lparr>printed := printed s @ t\<rparr>"

definition spaces :: "nat \<Rightarrow> string" where
  "spaces n = replicate n (CHR '' '')"

section \<open>Input\<close>

text \<open>\<^verbatim>\<open>fgets(line, n, stdin)\<close>: the line as a C string and the rest of the input; \<open>None\<close> at its end.\<close>

definition fgets :: "nat \<Rightarrow> string \<Rightarrow> (string \<times> string) option" where
  "fgets n inp =
    (if inp = [] then None
     else
       let l = take (n - 1) inp;
           k = length (takeWhile (\<lambda>c. c \<noteq> CHR 0x0A) l);
           got = take (Suc k) l in
       Some (takeWhile (\<lambda>c. c \<noteq> CHR 0x00) got, drop (length got) inp))"

definition xfgets :: "front \<Rightarrow> front" where
  "xfgets s = (case fgets 128 (stdin_left s) of None \<Rightarrow> s | Some (l, r) \<Rightarrow> s\<lparr>line := l, stdin_left := r\<rparr>)"

definition strip :: "string \<Rightarrow> string" where
  "strip str = rev (dropWhile isspace (rev (dropWhile isspace str)))"

definition check_stdin :: "front \<Rightarrow> unit front_result" where
  "check_stdin s =
    (if valid_stdin s then returns () s
     else Some (Inl (put (''aborted!'' @ nl @ nl @ ''Console input/output is redirected. '' @
       ''Run 'make oldconfig' to update configuration.'' @ nl @ nl) s)))"

definition print_help :: "front_env \<Rightarrow> menuid \<Rightarrow> front \<Rightarrow> unit front_result" where
  "print_help env m s =
    andthen (on_k (\<lambda>k. menu_get_ext_help (fe_bound env) (fe_calc env) (fe_pos env) (fe_pfx env) m (str_new, k)) s)
      (\<lambda>gs s1. returns () (put (nl @ gs_s gs @ nl) s1))"

text \<open>\<^verbatim>\<open>conf_askvalue\<close>: whether an answer is in \<^verbatim>\<open>line\<close>.\<close>

definition read_answer :: "front \<Rightarrow> bool front_result" where
  "read_answer s = (let s1 = xfgets s in returns True (if tty_stdio s1 then s1 else put nl s1))"

definition conf_askvalue :: "symid \<Rightarrow> string \<Rightarrow> front \<Rightarrow> bool front_result" where
  "conf_askvalue sy def s =
    (let has = sym_has_value (kst s) sy;
         s1 = (if has then s else put ''(NEW) '' s)\<lparr>line := nl\<rparr> in
     if \<not> sym_is_changable (kst s1) sy then returns False (put (def @ nl) s1)
     else if input_mode s1 = oldconfig \<or> input_mode s1 = silentoldconfig then
       (if has then returns False (put (def @ nl) s1)
        else andthen (check_stdin s1) (\<lambda>_ s2. read_answer s2))
     else if input_mode s1 = oldaskconfig then read_answer s1
     else returns True (put (if sym_get_type (kst s1) sy \<in> {S_INT, S_HEX, S_STRING} then def @ nl else line s1) s1))"

section \<open>Values\<close>

definition ask_text :: "menuid \<Rightarrow> front \<Rightarrow> string option" where
  "ask_text m s =
    do { p \<leftarrow> m_prompt (menus (kst s) m);
         Some (spaces (indent s - 1) @ text_or_null (p_text (props (kst s) p)) @ '' '') }"

text \<open>
  What \<^verbatim>\<open>conf_string\<close> makes of a line: \<open>None\<close> for an empty line, whose last character the code would
  overwrite; then the text to set, or nothing after a question mark.
\<close>

definition string_answer :: "string \<Rightarrow> string \<Rightarrow> string option option" where
  "string_answer def l =
    (case l of
       [] \<Rightarrow> None
     | c # cs \<Rightarrow>
         if c = CHR 0x0A then Some (Some def)
         else if c = CHR ''?'' \<and> take 1 cs = nl then Some None
         else Some (Some (butlast l)))"

fun conf_string :: "nat \<Rightarrow> front_env \<Rightarrow> menuid \<Rightarrow> symid \<Rightarrow> front \<Rightarrow> unit front_result" where
  "conf_string 0 env m sy s = None"
| "conf_string (Suc n) env m sy s =
     (case ask_text m s of
        None \<Rightarrow> None
      | Some t \<Rightarrow>
        andthen (on_k (sym_get_string_value (fe_calc env) sy)
                  (put (t @ ''('' @ text_or_null (sym_name (syms (kst s) sy)) @ '') '') s)) (\<lambda>def s1.
        andthen (on_k (sym_get_string_value (fe_calc env) sy) s1) (\<lambda>_ s2.
        andthen (conf_askvalue sy def (put (''['' @ def @ ''] '') s2)) (\<lambda>asked s3.
          if \<not> asked then returns () s3
          else
            case string_answer def (line s3) of
              None \<Rightarrow> None
            | Some None \<Rightarrow> andthen (print_help env m s3) (\<lambda>_ s4. conf_string n env m sy s4)
            | Some (Some v) \<Rightarrow>
                andthen (on_k (sym_set_string_value (fe_calc env) sy v) s3) (\<lambda>ok s4.
                  if ok then returns () s4 else conf_string n env m sy s4)))))"

datatype tri_answer = Ans_value tristate | Ans_same | Ans_help | Ans_again

definition sym_answer :: "string \<Rightarrow> tri_answer" where
  "sym_answer l =
    (case l of
       [] \<Rightarrow> Ans_same
     | c # cs \<Rightarrow>
         if c = CHR ''n'' \<or> c = CHR ''N'' then (if cs = [] \<or> cs = ''o'' then Ans_value No else Ans_again)
         else if c = CHR ''m'' \<or> c = CHR ''M'' then (if cs = [] then Ans_value Mod else Ans_again)
         else if c = CHR ''y'' \<or> c = CHR ''Y'' then (if cs = [] \<or> cs = ''es'' then Ans_value Yes else Ans_again)
         else if c = CHR ''?'' then Ans_help
         else Ans_again)"

definition tri_choices :: "kstate \<Rightarrow> symid \<Rightarrow> tristate \<Rightarrow> string" where
  "tri_choices st sy oldval =
    (case oldval of No \<Rightarrow> ''N'' | Mod \<Rightarrow> ''M'' | Yes \<Rightarrow> ''Y'') @
    (if oldval \<noteq> No \<and> sym_tristate_within_range st sy No then ''/n'' else []) @
    (if oldval \<noteq> Mod \<and> sym_tristate_within_range st sy Mod then ''/m'' else []) @
    (if oldval \<noteq> Yes \<and> sym_tristate_within_range st sy Yes then ''/y'' else [])"

fun conf_sym :: "nat \<Rightarrow> front_env \<Rightarrow> menuid \<Rightarrow> symid \<Rightarrow> front \<Rightarrow> unit front_result" where
  "conf_sym 0 env m sy s = None"
| "conf_sym (Suc n) env m sy s =
     (case ask_text m s of
        None \<Rightarrow> None
      | Some t \<Rightarrow>
        let nm = (case sym_name (syms (kst s) sy) of Some x \<Rightarrow> ''('' @ x @ '') '' | None \<Rightarrow> []);
            oldval = tri_of (kst s) sy;
            help = (if menu_has_help (kst s) m then ''/?'' else []) in
        andthen (on_k (sym_get_string_value (fe_calc env) sy)
                  (put (t @ nm @ ''['' @ tri_choices (kst s) sy oldval @ help @ ''] '') s)) (\<lambda>def s1.
        andthen (conf_askvalue sy def s1) (\<lambda>asked s2.
          if \<not> asked then returns () s2
          else
            let s3 = s2\<lparr>line := strip (line s2)\<rparr>;
                ask_help = andthen (print_help env m s3) (\<lambda>_ s4. conf_sym n env m sy s4);
                try_set = (\<lambda>v. andthen (on_k (sym_set_tristate_value (fe_calc env) sy v) s3) (\<lambda>ok s4.
                  if ok then returns () s4 else andthen (print_help env m s4) (\<lambda>_ s5. conf_sym n env m sy s5))) in
            case sym_answer (line s3) of
              Ans_value v \<Rightarrow> try_set v
            | Ans_same \<Rightarrow> try_set oldval
            | Ans_help \<Rightarrow> ask_help
            | Ans_again \<Rightarrow> conf_sym n env m sy s3)))"

section \<open>Choices\<close>

text \<open>
  The loop that lists the visible values of a choice and counts them: the count and the number of the
  value chosen now.
\<close>

fun list_values :: "nat \<Rightarrow> front_env \<Rightarrow> symid option \<Rightarrow> menuid option \<Rightarrow> nat \<times> nat \<Rightarrow> front \<Rightarrow> (nat \<times> nat) front_result" where
  "list_values n env def_sym None r s = returns r s"
| "list_values 0 env def_sym (Some c) r s = None"
| "list_values (Suc n) env def_sym (Some c) (cnt, def) s =
     andthen (on_k (menu_is_visible (fe_bound env) (fe_calc env) c) s) (\<lambda>v s1.
       let text = text_or_null (menu_get_prompt (kst s1) c);
           go_on = (\<lambda>r s2. list_values n env def_sym (m_next (menus (kst s2) c)) r s2) in
       if \<not> v then go_on (cnt, def) s1
       else
         case m_sym (menus (kst s1) c) of
           None \<Rightarrow> go_on (cnt, def) (put (spaces (indent s1 - 1) @ ''* '' @ text @ nl) s1)
         | Some sy \<Rightarrow>
             go_on (Suc cnt, if Some sy = def_sym then Suc cnt else def)
               (put (spaces (indent s1 - 1) @ (if Some sy = def_sym then ''>'' else '' '') @ '' '' @ print_nat 10 (Suc cnt) @
                  ''. '' @ text @ (case sym_name (syms (kst s1) sy) of Some nm \<Rightarrow> '' ('' @ nm @ '')'' | None \<Rightarrow> []) @
                  (if sym_has_value (kst s1) sy then [] else '' (NEW)'') @ nl) s1))"

text \<open>The loop at \<^verbatim>\<open>conf_childs\<close>: the visible value with the given number.\<close>

fun find_value :: "nat \<Rightarrow> front_env \<Rightarrow> menuid option \<Rightarrow> int \<Rightarrow> front \<Rightarrow> menuid option front_result" where
  "find_value n env None cnt s = returns None s"
| "find_value 0 env (Some c) cnt s = None"
| "find_value (Suc n) env (Some c) cnt s =
     (if m_sym (menus (kst s) c) = None then find_value n env (m_next (menus (kst s) c)) cnt s
      else
        andthen (on_k (menu_is_visible (fe_bound env) (fe_calc env) c) s) (\<lambda>v s1.
          if \<not> v then find_value n env (m_next (menus (kst s1) c)) cnt s1
          else if cnt - 1 = 0 then returns (Some c) s1
          else find_value n env (m_next (menus (kst s1) c)) (cnt - 1) s1))"

text \<open>
  The number the user chooses from \<open>cnt\<close> values, of which \<open>def\<close> is chosen now: \<open>None\<close> when the question is
  asked again.
\<close>

definition read_number :: "front_env \<Rightarrow> menuid \<Rightarrow> nat \<Rightarrow> front \<Rightarrow> int option front_result" where
  "read_number env m def s =
    (let s1 = xfgets s; s2 = s1\<lparr>line := strip (line s1)\<rparr> in
     case line s2 of
       [] \<Rightarrow> returns (Some (int def)) s2
     | c # _ \<Rightarrow>
         if c = CHR ''?'' then andthen (print_help env m s2) (\<lambda>_ s3. returns None s3)
         else if isdigit c then returns (Some (to_int32 (strtoll (line s2) 10))) s2
         else returns None s2)"

definition choose_number :: "front_env \<Rightarrow> menuid \<Rightarrow> bool \<Rightarrow> nat \<times> nat \<Rightarrow> front \<Rightarrow> int option front_result" where
  "choose_number env m is_new = (\<lambda>(cnt, def) s.
    if cnt = 1 then returns (Some 1) (put (''[1]: 1'' @ nl) s)
    else
      let s1 = put (''[1-'' @ print_nat 10 cnt @ (if menu_has_help (kst s) m then ''?'' else []) @ '']: '') s in
      if input_mode s1 = oldconfig \<or> input_mode s1 = silentoldconfig then
        (if \<not> is_new then returns (Some (int def)) (put (print_nat 10 def @ nl) s1)
         else andthen (check_stdin s1) (\<lambda>_ s2. read_number env m def s2))
      else if input_mode s1 = oldaskconfig then read_number env m def s1
      else returns (Some (int cnt)) s1)"

text \<open>
  The loop of \<^verbatim>\<open>conf_choice\<close> up to the choice of a value: the entry chosen.
\<close>

fun choose_value :: "nat \<Rightarrow> front_env \<Rightarrow> menuid \<Rightarrow> symid \<Rightarrow> bool \<Rightarrow> front \<Rightarrow> menuid front_result" where
  "choose_value 0 env m sy is_new s = None"
| "choose_value (Suc n) env m sy is_new s =
     (let s0 = (put (spaces (indent s - 1) @ text_or_null (menu_get_prompt (kst s) m) @ nl) s)\<lparr>line := []\<rparr>;
          def_sym = (case sv_val (curr (syms (kst s0) sy)) of VSym d \<Rightarrow> Some d | _ \<Rightarrow> None) in
      andthen (list_values n env def_sym (m_list (menus (kst s0) m)) (0, 0) s0) (\<lambda>r s1.
      andthen (choose_number env m is_new r (put (spaces (indent s1 - 1) @ ''choice'') s1)) (\<lambda>num s2.
        case num of
          None \<Rightarrow> choose_value n env m sy is_new s2
        | Some cnt \<Rightarrow>
            andthen (find_value n env (m_list (menus (kst s2) m)) cnt s2) (\<lambda>c s3.
              case c of
                None \<Rightarrow> choose_value n env m sy is_new s3
              | Some child \<Rightarrow>
                  if line s3 \<noteq> [] \<and> last (line s3) = CHR ''?''
                  then andthen (print_help env child s3) (\<lambda>_ s4. choose_value n env m sy is_new s4)
                  else returns child s3))))"

text \<open>
  The part of \<^verbatim>\<open>conf_choice\<close> before its loop: whether a value is to be chosen. The answer to the question of the
  choice itself is read by \<^verbatim>\<open>conf_sym\<close>.
\<close>

definition choice_open :: "nat \<Rightarrow> front_env \<Rightarrow> menuid \<Rightarrow> symid \<Rightarrow> front \<Rightarrow> bool front_result" where
  "choice_open n env m sy s =
    (if sym_is_changable (kst s) sy then
       andthen (conf_sym n env m sy s) (\<lambda>_ s1.
       andthen (on_k (\<lambda>k. map_option (Pair ()) (fe_calc env sy k)) s1) (\<lambda>_ s2.
         returns (tri_of (kst s2) sy = Yes) s2))
     else
       returns (tri_of (kst s) sy = Yes)
         (if tri_of (kst s) sy = Mod
          then put (spaces (indent s - 1) @ text_or_null (menu_get_prompt (kst s) m) @ nl) s else s))"

section \<open>Menus\<close>

definition heading :: "menuid \<Rightarrow> front \<Rightarrow> front" where
  "heading m s =
    (case menu_get_prompt (kst s) m of
       None \<Rightarrow> s
     | Some t \<Rightarrow>
         (let star = spaces (indent s - 1) @ ''*'' in put (star @ nl @ star @ '' '' @ t @ nl @ star @ nl) s))"

definition prompt_kind :: "menuid \<Rightarrow> front \<Rightarrow> prop_type" where
  "prompt_kind m s = (case m_prompt (menus (kst s) m) of Some p \<Rightarrow> p_type (props (kst s) p) | None \<Rightarrow> P_UNKNOWN)"

text \<open>Is the symbol of an entry new, so that \<^verbatim>\<open>check_conf\<close> has something to do?\<close>

definition is_new_symbol :: "kstate \<Rightarrow> symid \<Rightarrow> bool" where
  "is_new_symbol st sy \<longleftrightarrow>
    \<not> sym_has_value st sy \<and> (sym_is_changable st sy \<or> (sym_is_choice st sy \<and> tri_of st sy = Yes))"

definition new_line :: "front_env \<Rightarrow> symid \<Rightarrow> front \<Rightarrow> string" where
  "new_line env sy s =
    (case sym_name (syms (kst s) sy) of
       Some nm \<Rightarrow> if \<not> sym_is_choice_value (kst s) sy then fe_pfx env @ nm @ nl else []
     | None \<Rightarrow> [])"

text \<open>
  \<^verbatim>\<open>conf\<close>, \<^verbatim>\<open>conf_choice\<close> and \<^verbatim>\<open>check_conf\<close> call each other, and loop over the entries of a menu. Each takes the
  function \<open>go\<close> to use for such calls; \<open>run_task\<close> ties the knot, with a bound on the depth of calls that also
  bounds how often a question is asked again.
\<close>

datatype task =
    Conf menuid
  | Conf_list nat "menuid option"
  | Conf_choice menuid symid
  | Check_conf menuid
  | Check_list "menuid option"

type_synonym runner = "task \<Rightarrow> front \<Rightarrow> unit front_result"

definition conf :: "runner \<Rightarrow> nat \<Rightarrow> front_env \<Rightarrow> menuid \<Rightarrow> front \<Rightarrow> unit front_result" where
  "conf go n env m s =
     andthen (on_k (menu_is_visible (fe_bound env) (fe_calc env) m) s) (\<lambda>v s1.
       if \<not> v then returns () s1
       else if prompt_kind m s1 = P_MENU \<and> input_mode s1 \<in> {silentoldconfig, listnewconfig, olddefconfig} \<and> rootEntry s1 \<noteq> Some m
       then go (Check_conf m) s1
       else
         let s2 = (if prompt_kind m s1 \<in> {P_MENU, P_COMMENT} then heading m s1 else s1) in
         case m_sym (menus (kst s2) m) of
           None \<Rightarrow> go (Conf_list 0 (m_list (menus (kst s2) m))) s2
         | Some sy \<Rightarrow>
             if sym_is_choice (kst s2) sy then
               andthen (go (Conf_choice m sy) s2) (\<lambda>_ s3.
                 if tri_of (kst s3) sy \<noteq> Mod then returns () s3
                 else go (Conf_list 2 (m_list (menus (kst s3) m))) s3)
             else
               andthen (if sym_type (syms (kst s2) sy) \<in> {S_INT, S_HEX, S_STRING}
                        then conf_string n env m sy s2 else conf_sym n env m sy s2) (\<lambda>_ s3.
                 go (Conf_list 2 (m_list (menus (kst s3) m))) s3))"

text \<open>The loops over the entries; they are indented by \<open>d\<close> more than the menu.\<close>

definition conf_list :: "runner \<Rightarrow> nat \<Rightarrow> menuid option \<Rightarrow> front \<Rightarrow> unit front_result" where
  "conf_list go d co s =
    (case co of
       None \<Rightarrow> returns () s
     | Some c \<Rightarrow>
         andthen (go (Conf c) (s\<lparr>indent := indent s + d\<rparr>)) (\<lambda>_ s1.
           go (Conf_list d (m_next (menus (kst s1) c))) (s1\<lparr>indent := indent s1 - d\<rparr>)))"

definition conf_choice :: "runner \<Rightarrow> nat \<Rightarrow> front_env \<Rightarrow> menuid \<Rightarrow> symid \<Rightarrow> front \<Rightarrow> unit front_result" where
  "conf_choice go n env m sy s =
     (let is_new = (\<not> sym_has_value (kst s) sy) in
      andthen (choice_open n env m sy s) (\<lambda>open s1.
        if \<not> open then returns () s1
        else
          andthen (choose_value n env m sy is_new s1) (\<lambda>child s2.
            case m_sym (menus (kst s2) child) of
              None \<Rightarrow> None
            | Some cs \<Rightarrow>
                andthen (on_k (sym_set_choice_value (fe_calc env) sy cs) s2) (\<lambda>_ s3.
                  go (Conf_list 2 (m_list (menus (kst s3) child))) s3))))"

definition restart :: "runner \<Rightarrow> front_env \<Rightarrow> menuid \<Rightarrow> front \<Rightarrow> unit front_result" where
  "restart go env m s =
    (let s2 = (if conf_cnt s = 0 then put (''*'' @ nl @ ''* Restart config...'' @ nl @ ''*'' @ nl) s else s)
                \<lparr>conf_cnt := Suc (conf_cnt s)\<rparr> in
     case menu_get_parent_menu (fe_bound env) (kst s2) m of
       None \<Rightarrow> None
     | Some root \<Rightarrow> go (Conf root) (s2\<lparr>rootEntry := Some root\<rparr>))"

definition check_conf :: "runner \<Rightarrow> front_env \<Rightarrow> menuid \<Rightarrow> front \<Rightarrow> unit front_result" where
  "check_conf go env m s =
     andthen (on_k (menu_is_visible (fe_bound env) (fe_calc env) m) s) (\<lambda>v s1.
       if \<not> v then returns () s1
       else
         andthen
           (case m_sym (menus (kst s1) m) of
              None \<Rightarrow> returns () s1
            | Some sy \<Rightarrow>
                if \<not> is_new_symbol (kst s1) sy then returns () s1
                else if input_mode s1 = listnewconfig then returns () (put (new_line env sy s1) s1)
                else if input_mode s1 = olddefconfig then returns () s1
                else restart go env m s1)
           (\<lambda>_ s3. go (Check_list (m_list (menus (kst s3) m))) s3))"

definition check_list :: "runner \<Rightarrow> menuid option \<Rightarrow> front \<Rightarrow> unit front_result" where
  "check_list go co s =
    (case co of
       None \<Rightarrow> returns () s
     | Some c \<Rightarrow> andthen (go (Check_conf c) s) (\<lambda>_ s1. go (Check_list (m_next (menus (kst s1) c))) s1))"

fun run_task :: "nat \<Rightarrow> front_env \<Rightarrow> runner" where
  "run_task 0 env t s = None"
| "run_task (Suc n) env t s =
     (case t of
        Conf m \<Rightarrow> conf (run_task n env) n env m s
      | Conf_list d co \<Rightarrow> conf_list (run_task n env) d co s
      | Conf_choice m sy \<Rightarrow> conf_choice (run_task n env) n env m sy s
      | Check_conf m \<Rightarrow> check_conf (run_task n env) env m s
      | Check_list co \<Rightarrow> check_list (run_task n env) co s)"

section \<open>The program\<close>

text \<open>
  What \<^verbatim>\<open>main\<close> finds: the files that can be read, the names of the configuration file and of \<^verbatim>\<open>auto.conf\<close>, the
  argument of \<^verbatim>\<open>--defconfig\<close> and \<^verbatim>\<open>--savedefconfig\<close>, the default configuration, the environment variables it reads, the numbers
  \<^verbatim>\<open>rand\<close> returns during the \<open>i\<close>-th pass of \<^verbatim>\<open>randconfig\<close>, and whether files can be written.
\<close>

record main_env =
  ma_fs :: "string \<Rightarrow> string option"
  ma_cfg :: string
  ma_auto :: string
  ma_file :: "string option"
  ma_default :: string
  ma_allconfig :: "string option"
  ma_nosilentupdate :: "string option"
  ma_probability :: string
  ma_rand :: "nat \<Rightarrow> nat \<Rightarrow> nat"
  ma_writable :: bool

definition exits :: "front \<Rightarrow> 'a front_result" where
  "exits s = Some (Inl s)"

definition seed_name :: "input_mode \<Rightarrow> string" where
  "seed_name mode =
    (case mode of
       allnoconfig \<Rightarrow> ''allno.config''
     | allyesconfig \<Rightarrow> ''allyes.config''
     | allmodconfig \<Rightarrow> ''allmod.config''
     | alldefconfig \<Rightarrow> ''alldef.config''
     | _ \<Rightarrow> ''allrandom.config'')"

text \<open>Reading the seed configuration that \<^verbatim>\<open>KCONFIG_ALLCONFIG\<close> names.\<close>

definition read_seed :: "front_env \<Rightarrow> main_env \<Rightarrow> front \<Rightarrow> unit front_result" where
  "read_seed env ma s =
    (let read = (\<lambda>name. on_k (conf_read_simple (fe_calc env) (ma_fs ma) (ma_cfg ma) (fe_pfx env) (Some name) S_DEF_USER)) in
     case ma_allconfig ma of
       None \<Rightarrow> returns () s
     | Some name \<Rightarrow>
         if name \<noteq> [] \<and> name \<noteq> ''1''
         then andthen (read name s) (\<lambda>failed s1. if failed then exits s1 else returns () s1)
         else
           andthen (read (seed_name (input_mode s)) s) (\<lambda>failed s1.
             if \<not> failed then returns () s1
             else andthen (read ''all.config'' s1) (\<lambda>failed s2. if failed then exits s2 else returns () s2)))"

definition read_config :: "front_env \<Rightarrow> main_env \<Rightarrow> front \<Rightarrow> unit front_result" where
  "read_config env ma s =
    (let read = (\<lambda>name. on_k (conf_read (fe_calc env) (ma_fs ma) (ma_cfg ma) (fe_pfx env) name)) in
     if input_mode s = defconfig
     then andthen (read (Some (case ma_file ma of Some f \<Rightarrow> f | None \<Rightarrow> ma_default ma)) s) (\<lambda>failed s1.
            if failed then exits s1 else returns () s1)
     else if input_mode s \<in> {allnoconfig, allyesconfig, allmodconfig, alldefconfig, randconfig}
     then read_seed env ma s
     else andthen (read None s) (\<lambda>_ s1. returns () s1))"

definition def_mode :: "input_mode \<Rightarrow> conf_def_mode" where
  "def_mode mode =
    (case mode of allnoconfig \<Rightarrow> def_no | allyesconfig \<Rightarrow> def_yes | allmodconfig \<Rightarrow> def_mod | _ \<Rightarrow> def_default)"

fun rand_passes :: "nat \<Rightarrow> nat \<Rightarrow> front_env \<Rightarrow> main_env \<Rightarrow> front \<Rightarrow> unit front_result" where
  "rand_passes 0 i env ma s = None"
| "rand_passes (Suc n) i env ma s =
     andthen (on_k (conf_set_all_new_symbols (fe_calc env) (ma_rand ma i) def_random (ma_probability ma)) s) (\<lambda>changed s1.
       if changed then rand_passes n (Suc i) env ma s1 else returns () s1)"

text \<open>The loop that asks until a pass caused no more changes.\<close>

fun check_passes :: "nat \<Rightarrow> front_env \<Rightarrow> front \<Rightarrow> unit front_result" where
  "check_passes 0 env s = None"
| "check_passes (Suc n) env s =
     andthen (run_task n env (Check_conf rootmenu) (s\<lparr>conf_cnt := 0\<rparr>)) (\<lambda>_ s1.
       if conf_cnt s1 \<noteq> 0 \<and> input_mode s1 \<noteq> listnewconfig \<and> input_mode s1 \<noteq> olddefconfig
       then check_passes n env s1 else returns () s1)"

definition configure :: "nat \<Rightarrow> front_env \<Rightarrow> main_env \<Rightarrow> front \<Rightarrow> unit front_result" where
  "configure n env ma s =
    (case input_mode s of
       savedefconfig \<Rightarrow> returns () s
     | randconfig \<Rightarrow> rand_passes n 0 env ma s
     | oldaskconfig \<Rightarrow>
         andthen (run_task n env (Conf rootmenu) (s\<lparr>rootEntry := Some rootmenu\<rparr>)) (\<lambda>_ s1.
           check_passes n env (s1\<lparr>input_mode := silentoldconfig\<rparr>))
     | mode \<Rightarrow>
         if mode \<in> {oldconfig, listnewconfig, olddefconfig, silentoldconfig} then check_passes n env s
         else andthen (on_k (conf_set_all_new_symbols (fe_calc env) (ma_rand ma 0) (def_mode mode) (ma_probability ma)) s)
                (\<lambda>_ s1. returns () s1))"

text \<open>What the program has written in the end.\<close>

datatype saved =
    Nothing_saved
  | Saved_config string
  | Saved_defconfig string
  | Saved_auto "string option" "string list" "string \<times> string \<times> string"

definition save :: "nat \<Rightarrow> front_env \<Rightarrow> main_env \<Rightarrow> front \<Rightarrow> saved front_result" where
  "save n env ma s =
    (if sync_kconfig s then
       andthen (if conf_get_changed (kst s)
                then if \<not> ma_writable ma then exits s
                     else andthen (on_k (conf_write n (fe_calc env) (fe_pfx env)) s) (\<lambda>out s1. returns (Some out) s1)
                else returns None s) (\<lambda>cfg s1.
         if \<not> ma_writable ma then exits s1
         else
           andthen (on_k (\<lambda>k. map_option (\<lambda>(deps, out, k1). ((deps, out), k1))
             (conf_write_autoconf (fe_calc env) (ma_fs ma) (ma_cfg ma) (fe_pfx env) (ma_auto ma) k)) s1) (\<lambda>r s2.
               returns (Saved_auto cfg (fst r) (snd r)) s2))
     else if input_mode s = savedefconfig then
       (if \<not> ma_writable ma then exits s
        else andthen (on_k (conf_write_defconfig n (fe_calc env) (fe_pfx env)) s) (\<lambda>out s1. returns (Saved_defconfig out) s1))
     else if input_mode s \<noteq> listnewconfig then
       (if \<not> ma_writable ma then exits s
        else andthen (on_k (conf_write n (fe_calc env) (fe_pfx env)) s) (\<lambda>out s1. returns (Saved_config out) s1))
     else returns Nothing_saved s)"

text \<open>\<^verbatim>\<open>main\<close> from the end of \<^verbatim>\<open>conf_parse\<close> on. The configuration file must exist for \<^verbatim>\<open>silentoldconfig\<close>.\<close>

definition conf_main :: "nat \<Rightarrow> front_env \<Rightarrow> main_env \<Rightarrow> front \<Rightarrow> saved front_result" where
  "conf_main n env ma s =
    (if sync_kconfig s \<and> ma_fs ma (ma_cfg ma) = None then exits s
     else
       andthen (read_config env ma s) (\<lambda>_ s1.
         if sync_kconfig s1 \<and> conf_get_changed (kst s1) \<and> (case ma_nosilentupdate ma of Some v \<Rightarrow> v \<noteq> [] | None \<Rightarrow> False)
         then exits s1
         else
           andthen (configure n env ma (if sync_kconfig s1 then s1\<lparr>valid_stdin := tty_stdio s1\<rparr> else s1)) (\<lambda>_ s2.
             save n env ma s2)))"

text \<open>The state in which \<^verbatim>\<open>main\<close> starts, for the option given.\<close>

definition start_front :: "input_mode \<Rightarrow> bool \<Rightarrow> string \<Rightarrow> kstate \<Rightarrow> front" where
  "start_front mode tty inp k =
    \<lparr>kst = k, input_mode = mode, indent = 1, tty_stdio = tty, valid_stdin = True, sync_kconfig = (mode = silentoldconfig),
     conf_cnt = 0, line = [], rootEntry = None, stdin_left = inp, printed = []\<rparr>"

end
