(* ===== verification/Kconf_Front_Props.thy ===== *)
theory Kconf_Front_Props
  imports Kconf_Front Kconf_Walk "HOL-Library.Sublist"
begin

text \<open>
  The front end without a dialogue, in the modes \<^verbatim>\<open>olddefconfig\<close> and \<^verbatim>\<open>listnewconfig\<close>: it ends and reads nothing.
\<close>

lemma andthen_simps [simp]:
  "andthen None f = None" "andthen (Some (Inl x)) f = Some (Inl x)" "andthen (Some (Inr (v, s))) f = f v s"
  "andthen (returns v s) f = f v s"
  by (simp_all add: andthen_def returns_def)

section \<open>Visibility ends\<close>

lemma menu_is_visible_total:
  assumes call: "calc_call False Q scv" and st: "\<And>st. Q st \<Longrightarrow> links st = L"
  shows "forest L par ts \<Longrightarrow> 2 * length (preorder ts) + 1 \<le> n \<Longrightarrow> Q st \<Longrightarrow>
    run False (any_visible n scv (first_entry ts) st) (\<lambda>(v, st'). Q st')"
    and "forest L m cs \<Longrightarrow> fst (L m) = first_entry cs \<Longrightarrow> 2 * length (preorder cs) + 2 \<le> n \<Longrightarrow> Q st \<Longrightarrow>
    run False (menu_is_visible n scv m st) (\<lambda>(v, st'). Q st')"
proof -
  note pair = calc_call.then_run_pair [OF call] and inv = calc_call.axioms(1) [OF call]
  have vis: "run False (menu_is_visible (Suc n) scv m st) (\<lambda>(v, st'). Q st')"
    if any: "\<And>st. Q st \<Longrightarrow> run False (any_visible n scv (fst (L m)) st) (\<lambda>(v, st'). Q st')" and "Q st" for n m st
  proof -
    have l: "m_list (menus x m) = fst (L m)" if "Q x" for x using st [OF that] by (auto simp: links_def)
    have "run False (any_visible n scv (fst (L m)) x) (\<lambda>r. (fst r \<longrightarrow> Q (set_flag s {SYMBOL_DEF_USER} (snd r))) \<and> (\<not> fst r \<longrightarrow> Q (snd r)))"
      if "Q x" for x s
      by (rule run_mono [OF any [OF that]]) (auto simp: calc_inv.q_def_user [OF inv])
    then show ?thesis
      using \<open>Q st\<close> l
      by (auto simp: case_prod_unfold split: option.splits
          intro!: pair [OF calc_call.expr_calc_value_inv [OF call]] pair [OF calc_call.calc_prop_visible_inv [OF call]]
            run_mono [OF calc_call.scv_inv [OF call]])
  qed
  show any: "forest L par ts \<Longrightarrow> 2 * length (preorder ts) + 1 \<le> n \<Longrightarrow> Q st \<Longrightarrow>
    run False (any_visible n scv (first_entry ts) st) (\<lambda>(v, st'). Q st')" for par ts n st
  proof (induction ts arbitrary: par n st rule: preorder.induct)
    case (2 m cs ts)
    obtain n' where n': "n = Suc (Suc n')" using 2(4) by (cases n; cases "n - 1") auto
    have L: "L m = (first_entry cs, first_entry ts, Some par)" "forest L m cs" "forest L par ts" using 2(3) by simp_all
    have "run False (menu_is_visible (Suc n') scv m st) (\<lambda>(v, st'). Q st')"
      by (rule vis) (use 2(1) [OF L(2), of n'] 2(4,5) n' L(1) in auto)
    then have "run False (menu_is_visible (Suc n') scv m st) (\<lambda>x. run False
        (if fst x then Some (True, snd x) else any_visible (Suc n') scv (m_next (menus (snd x) m)) (snd x)) (\<lambda>(v, st'). Q st'))"
    proof (rule run_mono)
      fix x :: "bool \<times> kstate" assume "case x of (v, st') \<Rightarrow> Q st'"
      moreover from this have "links (snd x) m = L m" using st [of "snd x"] by (cases x) simp
      then have "m_next (menus (snd x) m) = first_entry ts" using L(1) by (simp add: links_def)
      ultimately show "run False (if fst x then Some (True, snd x) else any_visible (Suc n') scv (m_next (menus (snd x) m)) (snd x)) (\<lambda>(v, st'). Q st')"
        using 2(2) [OF L(3), of "Suc n'" "snd x"] 2(4) n' by (auto split: prod.splits)
    qed
    then show ?case using n' by (simp add: case_prod_unfold del: menu_is_visible.simps)
  qed (cases n; simp)
  show "forest L m cs \<Longrightarrow> fst (L m) = first_entry cs \<Longrightarrow> 2 * length (preorder cs) + 2 \<le> n \<Longrightarrow> Q st \<Longrightarrow>
    run False (menu_is_visible n scv m st) (\<lambda>(v, st'). Q st')"
    using vis [of "n - 1" m st] any [of m cs "n - 1"] by (cases n) auto
qed


section \<open>Modes without a dialogue\<close>

definition quiet :: "front \<Rightarrow> bool" where
  "quiet s \<longleftrightarrow> input_mode s = olddefconfig \<or> input_mode s = listnewconfig"

text \<open>The lines \<^verbatim>\<open>listnewconfig\<close> prints for a list of entries.\<close>

definition name_line :: "front_env \<Rightarrow> kstate \<Rightarrow> menuid \<Rightarrow> string" where
  "name_line env st m = (case m_sym (menus st m) of
     Some sy \<Rightarrow> (case sym_name (syms st sy) of Some nm \<Rightarrow> fe_pfx env @ nm @ nl | None \<Rightarrow> [])
   | None \<Rightarrow> [])"

text \<open>
  What a pass over the entries \<open>ms\<close> does in these modes: it ends; nothing is read; what is printed are the lines
  of some of the entries, in their order, and nothing at all for \<^verbatim>\<open>olddefconfig\<close>.
\<close>

definition passes_over :: "(kstate \<Rightarrow> bool) \<Rightarrow> front_env \<Rightarrow> menuid list \<Rightarrow> front \<Rightarrow> unit front_result \<Rightarrow> bool" where
  "passes_over Q env ms s r \<longleftrightarrow> (\<exists>k new.
     r = Some (Inr ((), s\<lparr>kst := k, printed := printed s @ concat (map (name_line env k) new)\<rparr>)) \<and> Q k \<and> subseq new ms \<and>
     (input_mode s = olddefconfig \<longrightarrow> new = []))"

lemma passes_over_quietly: "Q k \<Longrightarrow> passes_over Q env ms s (returns () (s\<lparr>kst := k\<rparr>))"
  by (auto simp: passes_over_def returns_def intro!: exI [of _ "[]"])

lemma passes_over_nothing: "Q (kst s) \<Longrightarrow> passes_over Q env ms s (returns () s)"
  using passes_over_quietly [of Q "kst s" env ms s] by simp

lemma passes_over_line:
  assumes "Q k" "m_sym (menus k m) = Some sy" "input_mode s \<noteq> olddefconfig"
  shows "passes_over Q env [m] s (returns () (put (new_line env sy (s\<lparr>kst := k\<rparr>)) (s\<lparr>kst := k\<rparr>)))"
proof (cases "new_line env sy (s\<lparr>kst := k\<rparr>) = []")
  case True
  then show ?thesis using passes_over_quietly [of Q k env "[m]" s] assms(1) by (simp add: put_def)
next
  case False
  then have "new_line env sy (s\<lparr>kst := k\<rparr>) = name_line env k m"
    using assms(2) by (auto simp: new_line_def name_line_def split: option.splits if_splits)
  then show ?thesis
    using assms unfolding passes_over_def returns_def by (intro exI [of _ k] exI [of _ "[m]"]) (simp add: put_def)
qed

lemma passes_over_seq:
  assumes "passes_over Q env ms s r"
    and "\<And>k. Q k \<Longrightarrow> name_line env k = N"
    and "\<And>s1. Q (kst s1) \<Longrightarrow> input_mode s1 = input_mode s \<Longrightarrow> passes_over Q env ns s1 (f () s1)"
  shows "passes_over Q env (ms @ ns) s (andthen r f)"
proof -
  obtain k new where r: "r = Some (Inr ((), s\<lparr>kst := k, printed := printed s @ concat (map (name_line env k) new)\<rparr>))"
    "Q k" "subseq new ms" "input_mode s = olddefconfig \<longrightarrow> new = []"
    using assms(1) by (auto simp: passes_over_def)
  let ?s1 = "s\<lparr>kst := k, printed := printed s @ concat (map (name_line env k) new)\<rparr>"
  have "passes_over Q env ns ?s1 (f () ?s1)" by (rule assms(3)) (use r(2) in simp_all)
  then obtain k' new' where r': "f () ?s1 = Some (Inr ((), ?s1\<lparr>kst := k', printed := printed ?s1 @ concat (map (name_line env k') new')\<rparr>))"
    "Q k'" "subseq new' ns" "input_mode s = olddefconfig \<longrightarrow> new' = []"
    by (auto simp: passes_over_def)
  show ?thesis
    unfolding passes_over_def using r r' assms(2) list_emb_append_mono [OF r(3) r'(3)]
    by (intro exI [of _ k'] exI [of _ "new @ new'"]) simp
qed


lemma check_conf_step:
  assumes call: "calc_call False Q (fe_calc env)" and st: "\<And>st. Q st \<Longrightarrow> links st = L" and N: "\<And>st. Q st \<Longrightarrow> name_line env st = N"
    and m: "forest L m cs" "fst (L m) = first_entry cs" "2 * length (preorder cs) + 2 \<le> fe_bound env"
    and s: "Q (kst s)" "quiet s"
    and go: "\<And>s1. Q (kst s1) \<Longrightarrow> quiet s1 \<Longrightarrow> passes_over Q env (preorder cs) s1 (go (Check_list (first_entry cs)) s1)"
  shows "passes_over Q env (m # preorder cs) s (check_conf go env m s)"
proof -
  obtain v k where vk: "menu_is_visible (fe_bound env) (fe_calc env) m (kst s) = Some (v, k)" "Q k"
    using menu_is_visible_total(2) [OF call st m s(1)] by (auto simp: run_False)
  let ?s1 = "s\<lparr>kst := k\<rparr>"
  have l: "m_list (menus x m) = first_entry cs" if "Q x" for x using st [OF that] m(2) by (auto simp: links_def)
  show ?thesis
  proof (cases v)
    case False
    then show ?thesis using vk by (simp add: check_conf_def on_k_def passes_over_quietly)
  next
    case True
    let ?new = "case m_sym (menus k m) of None \<Rightarrow> returns () ?s1 | Some sy \<Rightarrow>
        if \<not> is_new_symbol k sy then returns () ?s1
        else if input_mode s = listnewconfig then returns () (put (new_line env sy ?s1) ?s1)
        else if input_mode s = olddefconfig then returns () ?s1 else restart go env m ?s1"
    have "passes_over Q env [m] s ?new"
      using vk(2) s(2) by (auto simp: quiet_def passes_over_quietly passes_over_line split: option.splits)
    then have "passes_over Q env ([m] @ preorder cs) s (andthen ?new (\<lambda>_ s3. go (Check_list (m_list (menus (kst s3) m))) s3))"
    proof (rule passes_over_seq)
      fix s1 :: front assume "Q (kst s1)" "input_mode s1 = input_mode s"
      then show "passes_over Q env (preorder cs) s1 (go (Check_list (m_list (menus (kst s1) m))) s1)"
        using go l s(2) by (simp add: quiet_def)
    qed (rule N)
    then show ?thesis using True vk by (simp add: check_conf_def on_k_def split del: if_split cong: option.case_cong if_cong)
  qed
qed


lemma check_tasks_pass:
  assumes call: "calc_call False Q (fe_calc env)" and st: "\<And>st. Q st \<Longrightarrow> links st = L" and N: "\<And>st. Q st \<Longrightarrow> name_line env st = N"
  shows "forest L par ts \<Longrightarrow> 2 * length (preorder ts) + 1 \<le> n \<Longrightarrow> 2 * length (preorder ts) + 2 \<le> fe_bound env \<Longrightarrow>
    Q (kst s) \<Longrightarrow> quiet s \<Longrightarrow> passes_over Q env (preorder ts) s (run_task n env (Check_list (first_entry ts)) s)"
proof (induction ts arbitrary: par n s rule: preorder.induct)
  case 1
  then show ?case by (cases n) (simp_all add: check_list_def passes_over_nothing)
next
  case (2 m cs ts)
  obtain n' where n': "n = Suc (Suc n')" using 2(4) by (cases n; cases "n - 1") auto
  have L: "L m = (first_entry cs, first_entry ts, Some par)" "forest L m cs" "forest L par ts" using 2(3) by simp_all
  have nx: "m_next (menus x m) = first_entry ts" if "Q x" for x using st [OF that] L(1) by (auto simp: links_def)
  have "passes_over Q env (m # preorder cs) s (run_task (Suc n') env (Check_conf m) s)"
    unfolding run_task.simps task.case
    by (rule check_conf_step [OF call st N L(2)]) (use 2(1) [OF L(2), of n'] 2(4-7) L(1) n' in auto)
  then have "passes_over Q env ((m # preorder cs) @ preorder ts) s
      (andthen (run_task (Suc n') env (Check_conf m) s) (\<lambda>_ s1. run_task (Suc n') env (Check_list (m_next (menus (kst s1) m))) s1))"
  proof (rule passes_over_seq)
    fix s1 :: front assume "Q (kst s1)" "input_mode s1 = input_mode s"
    then show "passes_over Q env (preorder ts) s1 (run_task (Suc n') env (Check_list (m_next (menus (kst s1) m))) s1)"
      using 2(2) [OF L(3), of "Suc n'" s1] 2(4,5,7) n' nx by (simp add: quiet_def del: run_task.simps)
  qed (rule N)
  then show ?case using n' by (simp add: check_list_def del: run_task.simps) (simp add: check_list_def run_task.simps(2) [of "Suc n'"] del: run_task.simps)
qed


lemma name_line_static: "static st = static st' \<Longrightarrow> name_line env st = name_line env st'"
proof -
  have "name_line env (static st) = name_line env st" for st
    by (simp add: name_line_def fun_eq_iff static_def static_menu_def static_symbol_def split: option.split)
  then show "static st = static st' \<Longrightarrow> ?thesis" by metis
qed



text \<open>The symbols of \<open>ex_config\<close> in a menu, where \<^verbatim>\<open>NUM\<close> is new.\<close>

definition ex_menus :: kstate where
  "ex_menus = ex_config\<lparr>
     syms := (syms ex_config)(11 := (syms ex_config 11)\<lparr>flags := {}\<rparr>),
     props := (props ex_config)(4 := free_property\<lparr>p_type := P_MENU, p_text := Some ''Main''\<rparr>),
     menus := (\<lambda>_. free_menu)
       (0 := free_menu\<lparr>m_list := Some 1, m_prompt := Some 4\<rparr>,
        1 := free_menu\<lparr>m_parent := Some 0, m_next := Some 3, m_list := Some 2, m_sym := Some 9, m_prompt := Some 0\<rparr>,
        2 := free_menu\<lparr>m_parent := Some 1, m_sym := Some 10, m_prompt := Some 1\<rparr>,
        3 := free_menu\<lparr>m_parent := Some 0, m_sym := Some 11, m_prompt := Some 2\<rparr>)\<rparr>"

definition ex_front :: front where
  "ex_front = start_front listnewconfig False ''y'' ex_menus"

definition ex_front_env :: front_env where
  "ex_front_env = \<lparr>fe_bound = 12, fe_calc = sym_calc_value 5, fe_pos = (\<lambda>_. (''Config.in'', 1)), fe_pfx = ''BR2_''\<rparr>"

lemma ex_menus_wf: "calc_wf ex_menus"
  unfolding calc_wf_def
proof (intro conjI allI impI)
  fix s
  show "\<forall>p\<in>set (for_all_properties ex_menus s P_RANGE). range_syms (p_expr (props ex_menus p)) \<noteq> None"
    by (auto simp: for_all_properties_def ex_menus_def ex_config_defs split: if_splits)
qed (auto simp: ex_menus_def ex_config_defs split: if_splits)

lemma ex_menus_todo: "todo ex_menus = {9, 10, 11}" "need ex_menus = {}" "pending ex_menus = 3"
proof -
  show t: "todo ex_menus = {9, 10, 11}" "need ex_menus = {}"
    by (auto simp: todo_def need_def ex_menus_def ex_config_defs split: if_splits)
  show "pending ex_menus = 3" by (simp add: pending_def t)
qed

lemma ex_menus_links:
  "links ex_menus rootmenu = (Some 1, None, None)" "links ex_menus (Suc 0) = (Some 2, Some 3, Some 0)"
  "links ex_menus 2 = (None, None, Some 1)" "links ex_menus 3 = (None, None, Some 0)"
  by (simp_all add: ex_menus_def links_def free_menu_def)


end
