(* ===== verification/Kconf_Front_Inv.thy ===== *)
theory Kconf_Front_Inv
  imports Kconf_Front_Props
begin

text \<open>
  What a dialogue leaves alone. An invariant of the calculation that also survives setting user values is kept by
  every question and answer; what the Kconfig files define is one.
\<close>

section \<open>The rule\<close>

locale set_inv = calc_call True Q scv for Q scv +
  assumes s_def_val: "Q st \<Longrightarrow> Q (set_def_val s d v st)"
    and s_def_tri: "Q st \<Longrightarrow> Q (set_def_tri s d t st)"
    and s_valid: "Q st \<Longrightarrow> Q (clear_flag s {SYMBOL_VALID} st)"
    and s_count: "Q st \<Longrightarrow> Q (st\<lparr>sym_change_count := c\<rparr>)"

context set_inv
begin

lemma sym_clear_all_valid_inv: "Q st \<Longrightarrow> run True (sym_clear_all_valid scv st) Q"
proof -
  assume "Q st"
  then have "Q (clear_valid ss st)" for ss
    unfolding clear_valid_def by (induction ss arbitrary: st) (simp_all add: s_valid)
  then show ?thesis
    using s_count scv_inv
    by (auto simp: sym_clear_all_valid_def Let_def calc_opt_def sym_add_change_count_def sym_set_change_count_def split: option.splits)
qed

lemma mark_def_user_inv: "Q st \<Longrightarrow> Q (mark_def_user s st)"
  by (simp add: mark_def_user_def sym_set_changed_inv q_def_user)

lemma select_choice_value_inv: "Q st \<Longrightarrow> run True (select_choice_value s st) Q"
proof -
  assume "Q st"
  have "Q st1 \<Longrightarrow> Q (fold (\<lambda>t st. if visible (syms st t) \<noteq> No then set_flag t {SYMBOL_DEF_USER} st else st) ss st1)" for ss st1
    by (rule fold_closed) (auto simp: q_def_user)
  then show ?thesis
    using \<open>Q st\<close> by (auto simp: select_choice_value_def Let_def run_True q_def_user s_def_val elim!: bind_eq_SomeE)
qed

lemma sym_set_tristate_value_inv:
  assumes "Q st"
  shows "run True (sym_set_tristate_value scv s val st) (\<lambda>(ok, st'). Q st')"
proof -
  have clear: "run True (if b then sym_clear_all_valid scv x else Some x) (\<lambda>y. Q y)" if "Q x" for b x
    using sym_clear_all_valid_inv that by simp
  have "run True (if b then select_choice_value s x else Some x) (\<lambda>y. run True
      (if c then sym_clear_all_valid scv (set_def_tri s S_DEF_USER val y) else Some (set_def_tri s S_DEF_USER val y)) Q)" if "Q x" for b c x
  proof -
    have "run True (if b then select_choice_value s x else Some x) Q" using select_choice_value_inv that by simp
    then show ?thesis by (rule run_mono) (rule clear, rule s_def_tri)
  qed
  then show ?thesis
    using assms mark_def_user_inv by (simp add: sym_set_tristate_value_def Let_def)
qed

text \<open>What the functions of the calculation keep, as rules for results.\<close>

lemma calc_keeps:
  "scv s st = Some st' \<Longrightarrow> Q st \<Longrightarrow> Q st'"
  "first_visible scv ps st = Some (po, st') \<Longrightarrow> Q st \<Longrightarrow> Q st'"
  "sym_get_range_prop scv s st = Some (po, st') \<Longrightarrow> Q st \<Longrightarrow> Q st'"
  "sym_get_range_val scv s base st = Some (i, st') \<Longrightarrow> Q st \<Longrightarrow> Q st'"
  "sym_get_string_value scv s st = Some (v, st') \<Longrightarrow> Q st \<Longrightarrow> Q st'"
  "menu_is_visible n scv m st = Some (ok, st') \<Longrightarrow> Q st \<Longrightarrow> Q st'"
  "sym_clear_all_valid scv st = Some st' \<Longrightarrow> Q st \<Longrightarrow> Q st'"
  "sym_set_tristate_value scv s t st = Some (ok, st') \<Longrightarrow> Q st \<Longrightarrow> Q st'"
  using scv_inv [of st s] first_visible_inv [of st ps] first_visible_inv [of st "for_all_properties st s P_RANGE"]
    sym_get_range_val_inv [of st s base] sym_get_string_value_inv [of st s]
    menu_is_visible_inv [OF calc_call_axioms, THEN conjunct1, rule_format, of st n m] sym_clear_all_valid_inv [of st] sym_set_tristate_value_inv [of st s t]
  by (auto simp: sym_get_range_prop_def)

lemma number_within_range_keeps: "number_within_range scv s base str st = Some (ok, st') \<Longrightarrow> Q st \<Longrightarrow> Q st'"
  by (auto simp: number_within_range_def Let_def split: option.splits if_splits elim!: bind_eq_SomeE dest!: calc_keeps)

lemma sym_string_within_range_keeps: "sym_string_within_range scv s str st = Some (ok, st') \<Longrightarrow> Q st \<Longrightarrow> Q st'"
  by (auto simp: sym_string_within_range_def split: symbol_type.splits dest: number_within_range_keeps)

lemma sym_set_string_value_keeps: "sym_set_string_value scv s str st = Some (ok, st') \<Longrightarrow> Q st \<Longrightarrow> Q st'"
  by (auto simp: sym_set_string_value_def Let_def mark_def_user_inv s_def_val split: option.splits if_splits
      elim!: bind_eq_SomeE dest!: calc_keeps sym_string_within_range_keeps)

section \<open>Help texts\<close>

lemma expr_print_gstr_helper_keeps: "expr_print_gstr_helper scv p (gs, st) = Some (gs', st') \<Longrightarrow> Q st \<Longrightarrow> Q st'"
  by (auto simp: expr_print_gstr_helper_def Let_def split: prod.splits option.splits elim!: bind_eq_SomeE dest!: calc_keeps)

lemma gstr_pieces_keeps: "gstr_pieces scv ps (gs, st) = Some (gs', st') \<Longrightarrow> Q st \<Longrightarrow> Q st'"
  by (induction ps arbitrary: gs st) (auto elim!: bind_eq_SomeE dest!: expr_print_gstr_helper_keeps)

lemma expr_gstr_print_keeps: "expr_gstr_print scv e (gs, st) = Some (gs', st') \<Longrightarrow> Q st \<Longrightarrow> Q st'"
  by (auto simp: expr_gstr_print_def elim!: bind_eq_SomeE dest!: gstr_pieces_keeps)

lemma parent_menus_keeps: "parent_menus i n scv mo st = Some (ms, st') \<Longrightarrow> Q st \<Longrightarrow> Q st'"
  by (induction i arbitrary: mo ms st) (auto split: if_splits elim!: bind_eq_SomeE dest!: calc_keeps)

lemma location_lines_keeps: "location_lines scv jump j ms (gs, keys, st) = Some (gs', keys', st') \<Longrightarrow> Q st \<Longrightarrow> Q st'"
  by (induction ms arbitrary: j gs keys st) (auto simp: Let_def split: option.splits elim!: bind_eq_SomeE dest!: calc_keeps)

lemma get_prompt_str_keeps: "get_prompt_str n scv p (gs, head, st) = Some (gs', head', st') \<Longrightarrow> Q st \<Longrightarrow> Q st'"
  by (auto simp: get_prompt_str_def Let_def split: option.splits if_splits
      elim!: bind_eq_SomeE dest!: calc_keeps parent_menus_keeps location_lines_keeps)

lemma prompt_strs_keeps: "prompt_strs n scv ps (gs, head, st) = Some (gs', head', st') \<Longrightarrow> Q st \<Longrightarrow> Q st'"
  by (induction ps arbitrary: gs head st) (auto elim!: bind_eq_SomeE dest!: get_prompt_str_keeps)

lemma select_lines_keeps: "select_lines scv hit ps (gs, st) = Some (gs', st') \<Longrightarrow> Q st \<Longrightarrow> Q st'"
  by (induction ps arbitrary: hit gs st) (auto simp: Let_def elim!: bind_eq_SomeE dest!: expr_gstr_print_keeps)

lemma symbol_text_keeps:
  "symbol_heading scv s (gs, st) = Some (gs', st') \<Longrightarrow> Q st \<Longrightarrow> Q st'"
  "symbol_place scv pos s (gs, st) = Some (gs', st') \<Longrightarrow> Q st \<Longrightarrow> Q st'"
  by (auto simp: symbol_heading_def symbol_place_def Let_def split: option.splits if_splits
      elim!: bind_eq_SomeE dest!: calc_keeps expr_gstr_print_keeps)

lemma get_symbol_str_keeps: "get_symbol_str n scv pos s (gs, head, st) = Some (gs', head', st') \<Longrightarrow> Q st \<Longrightarrow> Q st'"
  by (auto simp: get_symbol_str_def split: option.splits
      elim!: bind_eq_SomeE dest!: symbol_text_keeps prompt_strs_keeps select_lines_keeps expr_gstr_print_keeps)

lemma menu_get_ext_help_keeps: "menu_get_ext_help n scv pos pfx m (gs, st) = Some (gs', st') \<Longrightarrow> Q st \<Longrightarrow> Q st'"
  by (auto simp: menu_get_ext_help_def Let_def split: option.splits if_splits elim!: bind_eq_SomeE dest!: get_symbol_str_keeps)

end

section \<open>The dialogue\<close>

text \<open>The invariant holds of the state in which a function returns or exits.\<close>

definition front_inv :: "(kstate \<Rightarrow> bool) \<Rightarrow> 'a front_result \<Rightarrow> bool" where
  "front_inv Q r \<longleftrightarrow> (case r of None \<Rightarrow> True | Some (Inl s) \<Rightarrow> Q (kst s) | Some (Inr (v, s)) \<Rightarrow> Q (kst s))"

lemma front_inv_simps [simp]:
  "front_inv Q None" "front_inv Q (Some (Inl s)) = Q (kst s)" "front_inv Q (Some (Inr (v, s))) = Q (kst s)"
  "front_inv Q (returns v s) = Q (kst s)" "front_inv Q (exits s) = Q (kst s)" "kst (put t s) = kst s"
  by (simp_all add: front_inv_def returns_def exits_def put_def)

lemma front_inv_unit:
  "front_inv Q r \<longleftrightarrow> (case r of None \<Rightarrow> True | Some (Inl s) \<Rightarrow> Q (kst s) | Some (Inr (_, s)) \<Rightarrow> Q (kst s))"
  by (simp add: front_inv_def split: option.split sum.split)

lemma front_inv_andthen: "front_inv Q m \<Longrightarrow> (\<And>v s. Q (kst s) \<Longrightarrow> front_inv Q (f v s)) \<Longrightarrow> front_inv Q (andthen m f)"
  by (cases m rule: option.exhaust) (auto simp: andthen_def front_inv_def split: sum.splits)

lemma front_inv_on_k: "Q (kst s) \<Longrightarrow> (\<And>v k. f (kst s) = Some (v, k) \<Longrightarrow> Q k) \<Longrightarrow> front_inv Q (on_k f s)"
  by (auto simp: on_k_def split: option.splits)

lemma kst_xfgets [simp]: "kst (xfgets s) = kst s"
  by (simp add: xfgets_def split: option.split prod.split)

locale dialogue_inv = set_inv Q "fe_calc env" for Q and env :: front_env
begin

lemma print_help_inv: "Q (kst s) \<Longrightarrow> front_inv Q (print_help env m s)"
  unfolding print_help_def by (auto intro!: front_inv_andthen front_inv_on_k dest: menu_get_ext_help_keeps)

lemma conf_askvalue_inv: "Q (kst s) \<Longrightarrow> front_inv Q (conf_askvalue sy def s)"
  by (auto simp: conf_askvalue_def Let_def read_answer_def check_stdin_def intro!: front_inv_andthen)

lemma conf_string_inv: "Q (kst s) \<Longrightarrow> front_inv Q (conf_string n env m sy s)"
proof (induction n arbitrary: s)
  case (Suc n)
  then show ?case
    by (auto split: option.splits simp: print_help_inv
        intro!: front_inv_andthen front_inv_on_k conf_askvalue_inv dest: calc_keeps sym_set_string_value_keeps)
qed simp

lemma on_k_keeps:
  "Q (kst s) \<Longrightarrow> front_inv Q (on_k (sym_get_string_value (fe_calc env) sy) s)"
  "Q (kst s) \<Longrightarrow> front_inv Q (on_k (sym_set_tristate_value (fe_calc env) sy v) s)"
  "Q (kst s) \<Longrightarrow> front_inv Q (on_k (sym_set_choice_value (fe_calc env) sy cs) s)"
  "Q (kst s) \<Longrightarrow> front_inv Q (on_k (menu_is_visible b (fe_calc env) m) s)"
  by (auto simp: sym_set_choice_value_def intro!: front_inv_on_k dest: calc_keeps(5) calc_keeps(6) calc_keeps(8))

lemma conf_sym_inv: "Q (kst s) \<Longrightarrow> front_inv Q (conf_sym n env m sy s)"
proof (induction n arbitrary: s)
  case (Suc n)
  then show ?case
    by (auto split: option.splits tri_answer.splits simp: Let_def print_help_inv
        intro!: front_inv_andthen on_k_keeps conf_askvalue_inv)
qed simp

lemma list_values_inv: "Q (kst s) \<Longrightarrow> front_inv Q (list_values n env d co r s)"
proof (induction n arbitrary: co r s)
  case (Suc n)
  show ?case
  proof (cases co)
    case (Some c)
    have "front_inv Q (case mo of None \<Rightarrow> list_values n env d (x s1) r (put t s1) | Some sy \<Rightarrow> list_values n env d (y s1 sy) (q sy) (put (u sy) s1))"
      if "Q (kst s1)" for mo s1 r q t x y and u :: "symid \<Rightarrow> string"
      using that Suc.IH by (simp split: option.split)
    then show ?thesis
      using Some Suc by (cases r) (auto simp: Let_def intro!: front_inv_andthen front_inv_on_k dest: calc_keeps split del: option.split)
  qed (use Suc in simp)
next
  case 0
  then show ?case by (cases co) simp_all
qed

lemma find_value_inv: "Q (kst s) \<Longrightarrow> front_inv Q (find_value n env co cnt s)"
proof (induction n arbitrary: co cnt s)
  case (Suc n)
  then show ?case
    by (cases co) (auto intro!: front_inv_andthen front_inv_on_k dest: calc_keeps)
next
  case 0
  then show ?case by (cases co) simp_all
qed

lemma choose_number_inv: "Q (kst s) \<Longrightarrow> front_inv Q (choose_number env m new r s)"
proof -
  have "Q (kst s) \<Longrightarrow> front_inv Q (read_number env m def s)" for def s
    by (auto simp: read_number_def Let_def split: list.split intro!: front_inv_andthen print_help_inv)
  then show "Q (kst s) \<Longrightarrow> ?thesis"
    by (auto simp: choose_number_def Let_def check_stdin_def split: prod.split intro!: front_inv_andthen)
qed

lemma choose_value_inv: "Q (kst s) \<Longrightarrow> front_inv Q (choose_value n env m sy new s)"
proof (induction n arbitrary: s)
  case (Suc n)
  then show ?case
    by (auto simp: Let_def split: option.splits
        intro!: front_inv_andthen list_values_inv choose_number_inv find_value_inv print_help_inv)
qed simp

lemma choice_open_inv: "Q (kst s) \<Longrightarrow> front_inv Q (choice_open n env m sy s)"
  by (auto simp: choice_open_def intro!: front_inv_andthen front_inv_on_k conf_sym_inv dest: calc_keeps)

lemma run_task_inv: "Q (kst s) \<Longrightarrow> front_inv Q (run_task n env t s)"
proof (induction n arbitrary: t s)
  case (Suc n)
  have "kst (heading m x) = kst x" for m x by (simp add: heading_def Let_def split: option.split)
  with Suc show ?case
    by (cases t) (auto simp: conf_def conf_list_def conf_choice_def check_conf_def check_list_def restart_def Let_def
        split: option.splits intro!: front_inv_andthen on_k_keeps conf_sym_inv conf_string_inv choice_open_inv choose_value_inv)
qed simp

lemma check_passes_inv: "Q (kst s) \<Longrightarrow> front_inv Q (check_passes n env s)"
  by (induction n arbitrary: s) (auto intro!: front_inv_andthen run_task_inv)

lemma configure_inv:
  assumes "Q (kst s)" "input_mode s \<in> {oldaskconfig, silentoldconfig, oldconfig, listnewconfig, olddefconfig}"
  shows "front_inv Q (configure n env ma s)"
  using assms by (auto simp: configure_def intro!: front_inv_andthen run_task_inv check_passes_inv)

end

section \<open>What the Kconfig files define\<close>

text \<open>
  The configuration without any values: neither the calculated ones nor those the user or a configuration file gave.
\<close>

definition kconfig_of :: "kstate \<Rightarrow> kstate" where
  "kconfig_of st = (static st)\<lparr>syms := (\<lambda>sy. sy\<lparr>sdef := \<lambda>d. \<lparr>sv_val = VNull, sv_tri = No\<rparr>\<rparr>) \<circ> syms (static st), sym_change_count := 0\<rparr>"

lemma kconfig_of_static: "static st = static st' \<Longrightarrow> kconfig_of st = kconfig_of st'"
  by (simp add: kconfig_of_def)

lemma kconfig_of_upd_sym:
  "static_symbol (f (syms st s))\<lparr>sdef := \<lambda>d. \<lparr>sv_val = VNull, sv_tri = No\<rparr>\<rparr> =
     static_symbol (syms st s)\<lparr>sdef := \<lambda>d. \<lparr>sv_val = VNull, sv_tri = No\<rparr>\<rparr> \<Longrightarrow>
   kconfig_of (upd_sym s f st) = kconfig_of st"
  by (auto simp: kconfig_of_def static_def upd_sym_def fun_eq_iff)

lemma kconfig_of_updates:
  "kconfig_of (set_def_val s d v st) = kconfig_of st" "kconfig_of (set_def_tri s d t st) = kconfig_of st"
  "kconfig_of (st\<lparr>sym_change_count := c\<rparr>) = kconfig_of st"
  unfolding set_def_val_def set_def_tri_def
  by (rule kconfig_of_upd_sym, simp add: static_symbol_def)+ (simp add: kconfig_of_def static_def)

lemmas kconfig_of_frame = static_updates [THEN kconfig_of_static]

lemma kconfig_of_type: "kconfig_of st = kconfig_of st' \<Longrightarrow> sym_type (syms st s) = sym_type (syms st' s)"
proof -
  have "sym_type (syms (kconfig_of st) s) = sym_type (syms st s)" for st by (simp add: kconfig_of_def static_sel)
  then show "kconfig_of st = kconfig_of st' \<Longrightarrow> ?thesis" by metis
qed

interpretation defined: calc_partial "\<lambda>st. kconfig_of st = kconfig_of st0" for st0
proof (unfold_locales, goal_cases)
qed (auto simp: kconfig_of_frame dynamic_flags_def intro: kconfig_of_type)

interpretation settable: set_inv "\<lambda>st. kconfig_of st = kconfig_of st0" "sym_calc_value n" for st0 n
  by (rule set_inv.intro [OF defined.sym_calc_value_call], rule set_inv_axioms.intro)
    (simp_all add: kconfig_of_updates kconfig_of_frame dynamic_flags_def)

interpretation dialogue: dialogue_inv "\<lambda>st. kconfig_of st = kconfig_of st0" "env\<lparr>fe_calc := sym_calc_value n\<rparr>" for st0 env n
  by (rule dialogue_inv.intro) (simp add: settable.set_inv_axioms)

text \<open>
  Property C30: a dialogue changes values only. Whatever is typed, and in each of the modes that ask the user or only
  check what is new, the program leaves the names, types, prompts, defaults, dependencies and menus that the Kconfig files
  define as they are: when the dialogue ends, and when it gives up because standard input is not a terminal.
\<close>

theorem conf_dialogue_keeps_config:
  assumes "fe_calc env = sym_calc_value d"
    and "input_mode s \<in> {oldaskconfig, silentoldconfig, oldconfig, listnewconfig, olddefconfig}"
  shows "case configure n env ma s of
      None \<Rightarrow> True
    | Some (Inl s') \<Rightarrow> kconfig_of (kst s') = kconfig_of (kst s)
    | Some (Inr (_, s')) \<Rightarrow> kconfig_of (kst s') = kconfig_of (kst s)"
proof -
  have env: "env\<lparr>fe_calc := sym_calc_value d\<rparr> = env" using assms(1) by (cases env) simp
  have "front_inv (\<lambda>st. kconfig_of st = kconfig_of (kst s)) (configure n (env\<lparr>fe_calc := sym_calc_value d\<rparr>) ma s)"
    by (rule dialogue.configure_inv) (use assms(2) in simp_all)
  then show ?thesis unfolding env front_inv_unit .
qed

text \<open>A dialogue that asks for the new symbol \<^verbatim>\<open>BAR\<close> and reads an answer.\<close>

definition ex_small :: kstate where
  "ex_small = ex_config\<lparr>
     syms := (syms ex_config)(9 := (syms ex_config 9)\<lparr>flags := {}\<rparr>),
     props := (props ex_config)(4 := free_property\<lparr>p_type := P_MENU, p_text := Some ''Main''\<rparr>),
     menus := (\<lambda>_. free_menu)
       (0 := free_menu\<lparr>m_list := Some 1, m_prompt := Some 4\<rparr>,
        1 := free_menu\<lparr>m_parent := Some 0, m_sym := Some 9, m_prompt := Some 0\<rparr>)\<rparr>"

definition ex_main_env :: main_env where
  "ex_main_env = \<lparr>ma_fs = (\<lambda>_. None), ma_cfg = ''.config'', ma_auto = ''auto.conf'', ma_file = None, ma_default = [], ma_allconfig = None,
     ma_nosilentupdate = None, ma_probability = [], ma_rand = (\<lambda>_ _. 0), ma_writable = True\<rparr>"

definition ex_dialogue :: front where
  "ex_dialogue = start_front oldconfig True (''n'' @ nl) ex_small"

lemma ex_dialogue_sets:
  "case configure 12 ex_front_env ex_main_env ex_dialogue of
      Some (Inr (_, s')) \<Rightarrow> sv_tri (sdef (syms (kst s') 9) S_DEF_USER) = No \<and> stdin_left s' = []
    | _ \<Rightarrow> False"
  by code_simp

theorem conf_dialogue_keeps_config_witness:
  "\<exists>s'. configure 12 ex_front_env ex_main_env ex_dialogue = Some (Inr ((), s')) \<and>
     sv_tri (sdef (syms (kst s') 9) S_DEF_USER) = No \<and> sv_tri (sdef (syms (kst ex_dialogue) 9) S_DEF_USER) = Mod \<and>
     kconfig_of (kst s') = kconfig_of (kst ex_dialogue)"
proof -
  have "sv_tri (sdef (syms (kst ex_dialogue) 9) S_DEF_USER) = Mod" by code_simp
  moreover obtain s' where s': "configure 12 ex_front_env ex_main_env ex_dialogue = Some (Inr ((), s'))"
    "sv_tri (sdef (syms (kst s') 9) S_DEF_USER) = No"
    using ex_dialogue_sets by (cases "configure 12 ex_front_env ex_main_env ex_dialogue") (simp_all split: sum.splits prod.splits)
  moreover have "fe_calc ex_front_env = sym_calc_value 5" "input_mode ex_dialogue = oldconfig"
    by (simp_all add: ex_front_env_def ex_dialogue_def start_front_def)
  then have "kconfig_of (kst s') = kconfig_of (kst ex_dialogue)"
    using conf_dialogue_keeps_config [of ex_front_env 5 ex_dialogue 12 ex_main_env] s'(1) by simp
  ultimately show ?thesis by blast
qed

end
