(* ===== verification/Byte_Prelude.thy ===== *)
theory Byte_Prelude
  imports "HOL-Library.Word"
begin

text \<open>
  Bytes, 32-bit words and arrays of bytes, for the programs that work on them: \<^verbatim>\<open>mcookie\<close>, \<^verbatim>\<open>mkpimage\<close> and the
  HTTP server of MJPG-streamer. Words are stored in little-endian order.
\<close>

unbundle bit_operations_syntax

type_synonym byte = "8 word"
type_synonym uint32 = "32 word"

definition bytes_word :: "byte list \<Rightarrow> uint32" where
  "bytes_word bs = ucast (bs ! 0) OR push_bit 8 (ucast (bs ! 1)) OR push_bit 16 (ucast (bs ! 2)) OR push_bit 24 (ucast (bs ! 3))"

definition word_bytes :: "uint32 \<Rightarrow> byte list" where
  "word_bytes w = [ucast w, ucast (drop_bit 8 w), ucast (drop_bit 16 w), ucast (drop_bit 24 w)]"

text \<open>\<^verbatim>\<open>memcpy(dst + i, src, length src)\<close>\<close>

definition put_bytes :: "nat \<Rightarrow> byte list \<Rightarrow> byte list \<Rightarrow> byte list" where
  "put_bytes i src dst = take i dst @ src @ drop (i + length src) dst"

lemma put_bytes_simps:
  "i + length s \<le> length d \<Longrightarrow> length (put_bytes i s d) = length d"
  "i \<le> length d \<Longrightarrow> take (i + length s) (put_bytes i s d) = take i d @ s"
  "length s = length d \<Longrightarrow> put_bytes 0 s d = s"
  by (simp_all add: put_bytes_def)

lemma length_word_bytes [simp]: "length (word_bytes w) = 4"
  by (simp add: word_bytes_def)

end
