(* ===== verification/Mcookie_MD5.thy ===== *)
theory Mcookie_MD5
  imports Byte_Prelude
begin

text \<open>
  The MD5 message digest of \<^verbatim>\<open>package/x11r7/mcookie/mcookie.c\<close>, for a little-endian host whose
  \<^verbatim>\<open>uint32\<close> has 32 bits: the context, \<^verbatim>\<open>MD5Init\<close>, \<^verbatim>\<open>MD5Update\<close>, \<^verbatim>\<open>MD5Final\<close> and the unrolled
  \<^verbatim>\<open>MD5Transform\<close>. An array is a list; the bytes of a buffer are read as words and written back
  in little-endian order.
\<close>

unbundle bit_operations_syntax

type_synonym md5_buf = "uint32 \<times> uint32 \<times> uint32 \<times> uint32"

record md5_context =
  md_buf :: md5_buf
  md_bits0 :: uint32
  md_bits1 :: uint32
  md_in :: "byte list"

section \<open>Bytes and words\<close>

text \<open>\<^verbatim>\<open>(uint32 *) in\<close>: the 16 words of a block of 64 bytes.\<close>

definition block_words :: "byte list \<Rightarrow> uint32 list" where
  "block_words bs = map (\<lambda>i. bytes_word (take 4 (drop (4 * i) bs))) [0..<16]"

section \<open>The transformation of a block\<close>

definition F1 :: "uint32 \<Rightarrow> uint32 \<Rightarrow> uint32 \<Rightarrow> uint32" where
  "F1 x y z = z XOR (x AND (y XOR z))"

definition F2 :: "uint32 \<Rightarrow> uint32 \<Rightarrow> uint32 \<Rightarrow> uint32" where
  "F2 x y z = F1 z x y"

definition F3 :: "uint32 \<Rightarrow> uint32 \<Rightarrow> uint32 \<Rightarrow> uint32" where
  "F3 x y z = x XOR y XOR z"

definition F4 :: "uint32 \<Rightarrow> uint32 \<Rightarrow> uint32 \<Rightarrow> uint32" where
  "F4 x y z = y XOR (x OR NOT z)"

text \<open>\<^verbatim>\<open>MD5STEP\<close>: the new value of its argument \<^verbatim>\<open>w\<close>.\<close>

definition MD5STEP ::
    "(uint32 \<Rightarrow> uint32 \<Rightarrow> uint32 \<Rightarrow> uint32) \<Rightarrow> uint32 \<Rightarrow> uint32 \<Rightarrow> uint32 \<Rightarrow> uint32 \<Rightarrow> uint32 \<Rightarrow> nat \<Rightarrow> uint32" where
  "MD5STEP f w x y z data s =
    (let w1 = w + (f x y z + data);
         w2 = push_bit s w1 OR drop_bit (32 - s) w1 in
     w2 + x)"

text \<open>
  Four consecutive lines of \<^verbatim>\<open>MD5Transform\<close>, which assign to \<^verbatim>\<open>a\<close>, \<^verbatim>\<open>d\<close>, \<^verbatim>\<open>c\<close> and \<^verbatim>\<open>b\<close>; \<^verbatim>\<open>MD5Transform\<close> is 16
  such groups.
\<close>

definition MD5QUAD ::
    "(uint32 \<Rightarrow> uint32 \<Rightarrow> uint32 \<Rightarrow> uint32) \<Rightarrow> nat \<times> nat \<times> nat \<times> nat \<Rightarrow> md5_buf \<Rightarrow> md5_buf \<Rightarrow> md5_buf" where
  "MD5QUAD f = (\<lambda>(s0, s1, s2, s3) (x0, x1, x2, x3) (a, b, c, d).
    let a = MD5STEP f a b c d x0 s0;
        d = MD5STEP f d a b c x1 s1;
        c = MD5STEP f c d a b x2 s2;
        b = MD5STEP f b c d a x3 s3 in
    (a, b, c, d))"

definition add_state :: "md5_buf \<Rightarrow> md5_buf \<Rightarrow> md5_buf" where
  "add_state = (\<lambda>(a0, b0, c0, d0) (a, b, c, d). (a0 + a, b0 + b, c0 + c, d0 + d))"

definition MD5Transform :: "md5_buf \<Rightarrow> uint32 list \<Rightarrow> md5_buf" where
  "MD5Transform buf0 inp =
    (let s1 = MD5QUAD F1 (7, 12, 17, 22) (inp ! 0 + 0xd76aa478, inp ! 1 + 0xe8c7b756, inp ! 2 + 0x242070db, inp ! 3 + 0xc1bdceee) buf0;
         s2 = MD5QUAD F1 (7, 12, 17, 22) (inp ! 4 + 0xf57c0faf, inp ! 5 + 0x4787c62a, inp ! 6 + 0xa8304613, inp ! 7 + 0xfd469501) s1;
         s3 = MD5QUAD F1 (7, 12, 17, 22) (inp ! 8 + 0x698098d8, inp ! 9 + 0x8b44f7af, inp ! 10 + 0xffff5bb1, inp ! 11 + 0x895cd7be) s2;
         s4 = MD5QUAD F1 (7, 12, 17, 22) (inp ! 12 + 0x6b901122, inp ! 13 + 0xfd987193, inp ! 14 + 0xa679438e, inp ! 15 + 0x49b40821) s3;
         s5 = MD5QUAD F2 (5, 9, 14, 20) (inp ! 1 + 0xf61e2562, inp ! 6 + 0xc040b340, inp ! 11 + 0x265e5a51, inp ! 0 + 0xe9b6c7aa) s4;
         s6 = MD5QUAD F2 (5, 9, 14, 20) (inp ! 5 + 0xd62f105d, inp ! 10 + 0x02441453, inp ! 15 + 0xd8a1e681, inp ! 4 + 0xe7d3fbc8) s5;
         s7 = MD5QUAD F2 (5, 9, 14, 20) (inp ! 9 + 0x21e1cde6, inp ! 14 + 0xc33707d6, inp ! 3 + 0xf4d50d87, inp ! 8 + 0x455a14ed) s6;
         s8 = MD5QUAD F2 (5, 9, 14, 20) (inp ! 13 + 0xa9e3e905, inp ! 2 + 0xfcefa3f8, inp ! 7 + 0x676f02d9, inp ! 12 + 0x8d2a4c8a) s7;
         s9 = MD5QUAD F3 (4, 11, 16, 23) (inp ! 5 + 0xfffa3942, inp ! 8 + 0x8771f681, inp ! 11 + 0x6d9d6122, inp ! 14 + 0xfde5380c) s8;
         s10 = MD5QUAD F3 (4, 11, 16, 23) (inp ! 1 + 0xa4beea44, inp ! 4 + 0x4bdecfa9, inp ! 7 + 0xf6bb4b60, inp ! 10 + 0xbebfbc70) s9;
         s11 = MD5QUAD F3 (4, 11, 16, 23) (inp ! 13 + 0x289b7ec6, inp ! 0 + 0xeaa127fa, inp ! 3 + 0xd4ef3085, inp ! 6 + 0x04881d05) s10;
         s12 = MD5QUAD F3 (4, 11, 16, 23) (inp ! 9 + 0xd9d4d039, inp ! 12 + 0xe6db99e5, inp ! 15 + 0x1fa27cf8, inp ! 2 + 0xc4ac5665) s11;
         s13 = MD5QUAD F4 (6, 10, 15, 21) (inp ! 0 + 0xf4292244, inp ! 7 + 0x432aff97, inp ! 14 + 0xab9423a7, inp ! 5 + 0xfc93a039) s12;
         s14 = MD5QUAD F4 (6, 10, 15, 21) (inp ! 12 + 0x655b59c3, inp ! 3 + 0x8f0ccc92, inp ! 10 + 0xffeff47d, inp ! 1 + 0x85845dd1) s13;
         s15 = MD5QUAD F4 (6, 10, 15, 21) (inp ! 8 + 0x6fa87e4f, inp ! 15 + 0xfe2ce6e0, inp ! 6 + 0xa3014314, inp ! 13 + 0x4e0811a1) s14;
         s16 = MD5QUAD F4 (6, 10, 15, 21) (inp ! 4 + 0xf7537e82, inp ! 11 + 0xbd3af235, inp ! 2 + 0x2ad7d2bb, inp ! 9 + 0xeb86d391) s15 in
     add_state buf0 s16)"

section \<open>The operations on a context\<close>

definition MD5Init :: "md5_context \<Rightarrow> md5_context" where
  "MD5Init ctx = ctx\<lparr>md_buf := (0x67452301, 0xefcdab89, 0x98badcfe, 0x10325476), md_bits0 := 0, md_bits1 := 0\<rparr>"

text \<open>The loop of \<^verbatim>\<open>MD5Update\<close> over blocks of 64 bytes; the rest of the data comes with the result.\<close>

function md5_blocks :: "md5_buf \<Rightarrow> byte list \<Rightarrow> byte list \<Rightarrow> md5_buf \<times> byte list \<times> byte list" where
  "md5_blocks buf inp data =
    (if 64 \<le> length data
     then md5_blocks (MD5Transform buf (block_words (put_bytes 0 (take 64 data) inp))) (put_bytes 0 (take 64 data) inp) (drop 64 data)
     else (buf, inp, data))"
  by pat_completeness auto

termination md5_blocks
  by (relation "measure (\<lambda>(_, _, data). length data)") auto

declare md5_blocks.simps [simp del]

text \<open>The bits counted so far, and how many bytes of the buffer are in use.\<close>

definition count_bits :: "nat \<Rightarrow> md5_context \<Rightarrow> md5_context" where
  "count_bits len ctx =
    (let t = md_bits0 ctx;
         b0 = t + push_bit 3 (of_nat len);
         b1 = (if b0 < t then md_bits1 ctx + 1 else md_bits1 ctx) in
     ctx\<lparr>md_bits0 := b0, md_bits1 := b1 + drop_bit 29 (of_nat len)\<rparr>)"

definition bytes_in_use :: "uint32 \<Rightarrow> nat" where
  "bytes_in_use b = unat (drop_bit 3 b AND 0x3f)"

definition MD5Update :: "md5_context \<Rightarrow> byte list \<Rightarrow> md5_context" where
  "MD5Update ctx data =
    (let t = bytes_in_use (md_bits0 ctx);
         ctx1 = count_bits (length data) ctx in
     if t \<noteq> 0 \<and> length data < 64 - t then ctx1\<lparr>md_in := put_bytes t data (md_in ctx1)\<rparr>
     else
       let (buf, inp, data1) =
             (if t \<noteq> 0
              then let inp = put_bytes t (take (64 - t) data) (md_in ctx1) in
                   (MD5Transform (md_buf ctx1) (block_words inp), inp, drop (64 - t) data)
              else (md_buf ctx1, md_in ctx1, data));
           (buf, inp, data2) = md5_blocks buf inp data1 in
       ctx1\<lparr>md_buf := buf, md_in := put_bytes 0 data2 inp\<rparr>)"

definition buf_bytes :: "md5_buf \<Rightarrow> byte list" where
  "buf_bytes = (\<lambda>(a, b, c, d). word_bytes a @ word_bytes b @ word_bytes c @ word_bytes d)"

text \<open>
  \<^verbatim>\<open>memset(ctx, 0, sizeof(ctx))\<close> clears as many bytes as a pointer has: with pointers of 4 bytes the
  first word of \<^verbatim>\<open>buf\<close>, with pointers of 8 bytes the first two.
\<close>

definition clear_start :: "nat \<Rightarrow> md5_buf \<Rightarrow> md5_buf" where
  "clear_start ptr = (\<lambda>(a, b, c, d). (0, if 8 \<le> ptr then 0 else b, c, d))"

definition MD5Final :: "nat \<Rightarrow> md5_context \<Rightarrow> byte list \<times> md5_context" where
  "MD5Final ptr ctx =
    (let count = bytes_in_use (md_bits0 ctx);
         inp = put_bytes count [0x80] (md_in ctx);
         pad = 64 - 1 - count;
         (buf, inp) =
           (if pad < 8
            then let inp = put_bytes (count + 1) (replicate pad 0) inp in
                 (MD5Transform (md_buf ctx) (block_words inp), put_bytes 0 (replicate 56 0) inp)
            else (md_buf ctx, put_bytes (count + 1) (replicate (pad - 8) 0) inp));
         inp = put_bytes 60 (word_bytes (md_bits1 ctx)) (put_bytes 56 (word_bytes (md_bits0 ctx)) inp);
         buf = MD5Transform buf (block_words inp) in
     (buf_bytes buf, ctx\<lparr>md_buf := clear_start ptr buf, md_in := inp\<rparr>))"

section \<open>The program\<close>

text \<open>
  What the system answers: the bytes of the time and of the process numbers, the results of the
  calls of \<^verbatim>\<open>read\<close> on the file of option \<^verbatim>\<open>-f\<close> until one returns no bytes, and the one call of \<^verbatim>\<open>read\<close> on each
  source of randomness, with the number of bytes asked for. \<open>None\<close> stands for a file that cannot be
  opened, the empty list for a call that fails or returns nothing.
\<close>

record mcookie_env =
  me_time :: "byte list"
  me_ppid :: "byte list"
  me_pid :: "byte list"
  me_file :: "string \<Rightarrow> byte list list option"
  me_read :: "string \<Rightarrow> nat \<Rightarrow> byte list option"

definition BUFFERSIZE :: nat where
  "BUFFERSIZE = 4096"

definition rngs :: "(string \<times> nat \<times> nat) list" where
  "rngs = [(''/dev/random'', 16, 16), (''/proc/interrupts'', 0, 0), (''/proc/slabinfo'', 0, 0), (''/proc/stat'', 0, 0),
     (''/dev/urandom'', 32, 64)]"

definition hash_file :: "md5_context \<Rightarrow> byte list list \<Rightarrow> md5_context \<times> nat" where
  "hash_file ctx reads =
    (let (ctx1, count) = foldl (\<lambda>(c, n) r. (MD5Update c r, n + length r)) (ctx, 0) reads in
     (MD5Update ctx1 [0], count))"

definition read_count :: "nat \<Rightarrow> nat" where
  "read_count maxlength = (if maxlength \<noteq> 0 \<and> BUFFERSIZE > maxlength then maxlength else BUFFERSIZE)"

fun hash_rngs :: "mcookie_env \<Rightarrow> (string \<times> nat \<times> nat) list \<Rightarrow> md5_context \<Rightarrow> md5_context" where
  "hash_rngs env [] ctx = ctx"
| "hash_rngs env ((path, minlength, maxlength) # rs) ctx =
     (case me_read env path (read_count maxlength) of
        None \<Rightarrow> hash_rngs env rs ctx
      | Some bs \<Rightarrow>
          let ctx1 = (if bs \<noteq> [] then MD5Update ctx bs else ctx) in
          if minlength \<noteq> 0 \<and> length bs \<ge> minlength then ctx1 else hash_rngs env rs ctx1)"

definition hex_digit :: "nat \<Rightarrow> char" where
  "hex_digit n = ''0123456789abcdef'' ! n"

text \<open>\<^verbatim>\<open>printf("%02x", b)\<close>\<close>

definition print_02x :: "byte \<Rightarrow> string" where
  "print_02x b = [hex_digit (unat b div 16), hex_digit (unat b mod 16)]"

text \<open>What the program prints on its standard output; \<open>ctx\<close> is the context before it is initialised.\<close>

definition mcookie :: "nat \<Rightarrow> md5_context \<Rightarrow> string option \<Rightarrow> mcookie_env \<Rightarrow> string" where
  "mcookie ptr ctx file env =
    (let ctx1 = MD5Update (MD5Update (MD5Update (MD5Init ctx) (me_time env)) (me_ppid env)) (me_pid env);
         ctx2 = (case Option.bind file (me_file env) of None \<Rightarrow> ctx1 | Some reads \<Rightarrow> fst (hash_file ctx1 reads));
         (digest, ctx3) = MD5Final ptr (hash_rngs env rngs ctx2) in
     concat (map print_02x digest) @ [CHR 0x0A])"

section \<open>The digest of a message\<close>

text \<open>
  The algorithm as RFC 1321 describes it: a message is padded to a multiple of 64 bytes that ends
  with its length in bits; the blocks are compressed one after the other by 64 steps, each with its
  function, word of the block, constant and rotation.
\<close>

definition step_fun :: "nat \<Rightarrow> uint32 \<Rightarrow> uint32 \<Rightarrow> uint32 \<Rightarrow> uint32" where
  "step_fun i x y z =
    (if i < 16 then (x AND y) OR (NOT x AND z)
     else if i < 32 then (x AND z) OR (y AND NOT z)
     else if i < 48 then x XOR y XOR z
     else y XOR (x OR NOT z))"

definition step_word :: "nat \<Rightarrow> nat" where
  "step_word i = (if i < 16 then i else if i < 32 then (1 + 5 * i) mod 16 else if i < 48 then (5 + 3 * i) mod 16 else (7 * i) mod 16)"

definition step_shift :: "nat \<Rightarrow> nat" where
  "step_shift i = [[7, 12, 17, 22], [5, 9, 14, 20], [4, 11, 16, 23], [6, 10, 15, 21]] ! (i div 16) ! (i mod 4)"

definition step_const :: "uint32 list" where
  "step_const =
    [0xd76aa478, 0xe8c7b756, 0x242070db, 0xc1bdceee, 0xf57c0faf, 0x4787c62a, 0xa8304613, 0xfd469501,
    0x698098d8, 0x8b44f7af, 0xffff5bb1, 0x895cd7be, 0x6b901122, 0xfd987193, 0xa679438e, 0x49b40821,
    0xf61e2562, 0xc040b340, 0x265e5a51, 0xe9b6c7aa, 0xd62f105d, 0x02441453, 0xd8a1e681, 0xe7d3fbc8,
    0x21e1cde6, 0xc33707d6, 0xf4d50d87, 0x455a14ed, 0xa9e3e905, 0xfcefa3f8, 0x676f02d9, 0x8d2a4c8a,
    0xfffa3942, 0x8771f681, 0x6d9d6122, 0xfde5380c, 0xa4beea44, 0x4bdecfa9, 0xf6bb4b60, 0xbebfbc70,
    0x289b7ec6, 0xeaa127fa, 0xd4ef3085, 0x04881d05, 0xd9d4d039, 0xe6db99e5, 0x1fa27cf8, 0xc4ac5665,
    0xf4292244, 0x432aff97, 0xab9423a7, 0xfc93a039, 0x655b59c3, 0x8f0ccc92, 0xffeff47d, 0x85845dd1,
    0x6fa87e4f, 0xfe2ce6e0, 0xa3014314, 0x4e0811a1, 0xf7537e82, 0xbd3af235, 0x2ad7d2bb, 0xeb86d391]"

definition rotate_left :: "nat \<Rightarrow> uint32 \<Rightarrow> uint32" where
  "rotate_left s w = word_rotl s w"

definition md5_step :: "uint32 list \<Rightarrow> nat \<Rightarrow> md5_buf \<Rightarrow> md5_buf" where
  "md5_step X i = (\<lambda>(a, b, c, d).
    (d, b + rotate_left (step_shift i) (a + step_fun i b c d + X ! step_word i + step_const ! i), b, c))"

definition md5_compress :: "md5_buf \<Rightarrow> byte list \<Rightarrow> md5_buf" where
  "md5_compress h block = add_state h (fold (md5_step (block_words block)) [0..<64] h)"

function md5_absorb :: "md5_buf \<Rightarrow> byte list \<Rightarrow> md5_buf" where
  "md5_absorb h m = (if 64 \<le> length m then md5_absorb (md5_compress h (take 64 m)) (drop 64 m) else h)"
  by pat_completeness auto

termination md5_absorb
  by (relation "measure (\<lambda>(_, m). length m)") auto

declare md5_absorb.simps [simp del]

definition length_bytes :: "nat \<Rightarrow> byte list" where
  "length_bytes n = map (\<lambda>i. of_nat (8 * n div 256 ^ i)) [0..<8]"

definition md5_pad :: "byte list \<Rightarrow> byte list" where
  "md5_pad m = m @ 0x80 # replicate ((119 - length m mod 64) mod 64) 0 @ length_bytes (length m)"

definition md5 :: "byte list \<Rightarrow> byte list" where
  "md5 m = buf_bytes (md5_absorb (0x67452301, 0xefcdab89, 0x98badcfe, 0x10325476) (md5_pad m))"

end
