(* ===== verification/Mcookie_Props.thy ===== *)
theory Mcookie_Props
  imports Mcookie_MD5
begin

text \<open>
  The context of \<^verbatim>\<open>mcookie.c\<close> computes the MD5 digest of the bytes it is given, in whatever pieces they come.
\<close>

section \<open>The transformation is the compression function\<close>

lemma rotate_or: "s < 32 \<Longrightarrow> 0 < s \<Longrightarrow> push_bit s w OR drop_bit (32 - s) w = rotate_left s w"
  for w :: uint32
  unfolding rotate_left_def by (rule bit_word_eqI) (auto simp: bit_simps mod_if le_diff_conv2 add.commute [of 32] dest: bit_imp_le_length)

lemma step_rotates: "0 < s \<Longrightarrow> s < 32 \<Longrightarrow> MD5STEP f w x y z data s = x + rotate_left s (w + f x y z + data)"
  by (simp add: MD5STEP_def Let_def rotate_or add.assoc)

lemma step_funs:
  "i < 16 \<Longrightarrow> step_fun i = F1" "16 \<le> i \<Longrightarrow> i < 32 \<Longrightarrow> step_fun i = F2"
  "32 \<le> i \<Longrightarrow> i < 48 \<Longrightarrow> step_fun i = F3" "48 \<le> i \<Longrightarrow> step_fun i = F4"
proof -
  show "i < 16 \<Longrightarrow> step_fun i = F1"
    by (intro ext, rule bit_word_eqI) (auto simp: step_fun_def F1_def bit_simps)
  show "16 \<le> i \<Longrightarrow> i < 32 \<Longrightarrow> step_fun i = F2"
    by (intro ext, rule bit_word_eqI) (auto simp: step_fun_def F1_def F2_def bit_simps)
qed (auto simp: step_fun_def F3_def F4_def fun_eq_iff)

lemma quad_steps:
  assumes "4 * q < 64" "f = step_fun (4 * q)"
    and "\<And>j. j < 4 \<Longrightarrow> step_fun (4 * q + j) = f"
    and "\<And>j. j < 4 \<Longrightarrow> 0 < step_shift (4 * q + j) \<and> step_shift (4 * q + j) < 32"
  shows "MD5QUAD f (step_shift (4 * q), step_shift (4 * q + 1), step_shift (4 * q + 2), step_shift (4 * q + 3))
      (X ! step_word (4 * q) + step_const ! (4 * q), X ! step_word (4 * q + 1) + step_const ! (4 * q + 1),
       X ! step_word (4 * q + 2) + step_const ! (4 * q + 2), X ! step_word (4 * q + 3) + step_const ! (4 * q + 3)) s =
    fold (md5_step X) [4 * q, 4 * q + 1, 4 * q + 2, 4 * q + 3] s"
proof -
  obtain a b c d where s: "s = (a, b, c, d)" by (cases s) auto
  have sh: "0 < step_shift (4 * q)" "step_shift (4 * q) < 32" "0 < step_shift (4 * q + 1)" "step_shift (4 * q + 1) < 32"
    "0 < step_shift (4 * q + 2)" "step_shift (4 * q + 2) < 32" "0 < step_shift (4 * q + 3)" "step_shift (4 * q + 3) < 32"
    using assms(4) [of 0] assms(4) [of 1] assms(4) [of 2] assms(4) [of 3] by auto
  have f: "step_fun (4 * q) = f" "step_fun (4 * q + 1) = f" "step_fun (4 * q + 2) = f" "step_fun (4 * q + 3) = f"
    using assms(3) [of 0] assms(3) [of 1] assms(3) [of 2] assms(3) [of 3] by auto
  show ?thesis by (simp only: s MD5QUAD_def md5_step_def prod.case Let_def fold_simps id_apply comp_apply step_rotates sh f add.assoc)
qed

definition quad_row :: "uint32 list \<Rightarrow> nat \<Rightarrow> md5_buf \<Rightarrow> md5_buf" where
  "quad_row X q = MD5QUAD (step_fun (4 * q)) (step_shift (4 * q), step_shift (4 * q + 1), step_shift (4 * q + 2), step_shift (4 * q + 3))
      (X ! step_word (4 * q) + step_const ! (4 * q), X ! step_word (4 * q + 1) + step_const ! (4 * q + 1),
       X ! step_word (4 * q + 2) + step_const ! (4 * q + 2), X ! step_word (4 * q + 3) + step_const ! (4 * q + 3))"

lemma quad_row_steps: "q < 16 \<Longrightarrow> quad_row X q s = fold (md5_step X) [4 * q..<4 * Suc q] s"
proof -
  assume q: "q < 16"
  have up: "[4 * q..<4 * Suc q] = [4 * q, 4 * q + 1, 4 * q + 2, 4 * q + 3]" by (simp add: upt_rec)
  have "step_fun (4 * q + j) = step_fun (4 * q)" if "j < 4" for j
  proof -
    have "(4 * q + j < 16) = (4 * q < 16)" "(4 * q + j < 32) = (4 * q < 32)" "(4 * q + j < 48) = (4 * q < 48)" using that by presburger+
    then show ?thesis by (simp add: step_fun_def fun_eq_iff)
  qed
  moreover have "\<forall>q < 16. \<forall>j < 4. 0 < step_shift (4 * q + j) \<and> step_shift (4 * q + j) < 32"
    by code_simp
  ultimately show ?thesis unfolding quad_row_def up using q by (intro quad_steps) auto
qed

lemma rows_steps: "n \<le> 16 \<Longrightarrow> fold (quad_row X) [0..<n] s = fold (md5_step X) [0..<4 * n] s"
proof (induction n)
  case (Suc n)
  have "[0..<4 * Suc n] = [0..<4 * n] @ [4 * n..<4 * Suc n]" using upt_add_eq_append [of 0 "4 * n" 4] by (simp add: add.commute)
  then show ?case using Suc quad_row_steps [of n] by simp
qed simp

lemma transform_rows: "MD5Transform h X = add_state h (fold (quad_row X) [0..<16] h)"
proof -
  have two: "X ! 2 = X ! Suc (Suc 0)" by (simp add: numeral_2_eq_2)
  show ?thesis
    by (simp add: MD5Transform_def Let_def quad_row_def upt_rec step_funs step_shift_def step_word_def step_const_def two)
qed

theorem MD5Transform_compresses: "MD5Transform h (block_words b) = md5_compress h b"
  unfolding md5_compress_def transform_rows by (simp only: rows_steps [of 16, simplified])

section \<open>Absorbing a message\<close>

lemma absorb_append:
  "64 dvd length m \<Longrightarrow> md5_absorb h (m @ m') = md5_absorb (md5_absorb h m) m'"
proof (induction h m rule: md5_absorb.induct)
  case (1 h m)
  show ?case
  proof (cases "64 \<le> length m")
    case True
    then have "64 dvd length (drop 64 m)" using 1(2) by (simp add: dvd_diff_nat)
    then show ?thesis using 1(1) [OF True] True by (simp add: md5_absorb.simps [of h])
  next
    case False
    then have "m = []" using 1(2) by (auto dest: dvd_imp_le)
    then show ?thesis by (simp add: md5_absorb.simps [of h "[]"])
  qed
qed

lemma absorb_block: "length b = 64 \<Longrightarrow> md5_absorb h b = md5_compress h b"
  by (simp add: md5_absorb.simps [of _ b] md5_absorb.simps [of _ "[]"])

lemma absorb_two: "length a = 64 \<Longrightarrow> length b = 64 \<Longrightarrow> md5_absorb h (a @ b) = md5_compress (md5_compress h a) b"
  using absorb_append [of a h b] absorb_block by simp

text \<open>The whole blocks of a message and what is behind them.\<close>

definition whole :: "byte list \<Rightarrow> byte list" where
  "whole m = take (64 * (length m div 64)) m"

definition rest :: "byte list \<Rightarrow> byte list" where
  "rest m = drop (64 * (length m div 64)) m"

lemma whole_rest: "whole m @ rest m = m" "length (rest m) = length m mod 64" "64 dvd length (whole m)"
  by (simp_all add: whole_def rest_def minus_mult_div_eq_mod)

lemma whole_restI:
  assumes "m = w @ r" "64 dvd length w" "length r < 64"
  shows "whole m = w" "rest m = r"
proof -
  obtain k where k: "length w = 64 * k" using assms(2) by blast
  then have "64 * (length m div 64) = length w" using assms(1,3) by simp
  then show "whole m = w" "rest m = r" by (simp_all add: whole_def rest_def assms(1))
qed

lemma md5_blocks_absorb:
  "length inp = 64 \<Longrightarrow> \<exists>inp'. length inp' = 64 \<and> md5_blocks h inp data = (md5_absorb h (whole data), inp', rest data)"
proof (induction h inp data rule: md5_blocks.induct)
  case (1 h inp data)
  show ?case
  proof (cases "64 \<le> length data")
    case True
    let ?b = "take 64 data" and ?d = "drop 64 data"
    have b: "put_bytes 0 ?b inp = ?b" "length ?b = 64" using 1(2) True by (auto simp: put_bytes_simps)
    have wr: "whole data = ?b @ whole ?d" "rest data = rest ?d"
      by (rule whole_restI [of data "?b @ whole ?d" "rest ?d"]; use whole_rest [of ?d] b in simp)+
    have "md5_absorb h (?b @ whole ?d) = md5_absorb (md5_compress h ?b) (whole ?d)" using absorb_append [of ?b h] absorb_block b by simp
    then show ?thesis using 1(1) [OF True] b wr True by (simp add: md5_blocks.simps [of h] MD5Transform_compresses)
  next
    case False
    then have "whole data = []" "rest data = data" by (simp_all add: whole_def rest_def)
    then show ?thesis using 1(2) False by (simp add: md5_blocks.simps [of h] md5_absorb.simps [of h "[]"])
  qed
qed

section \<open>The counter\<close>

lemma bytes_in_use_bits: "bytes_in_use (of_nat k) = k div 8 mod 64"
proof -
  have "drop_bit 3 (of_nat k :: uint32) AND 0x3f = take_bit 6 (drop_bit 3 (of_nat k))"
    by (simp add: take_bit_eq_mask mask_numeral)
  moreover have "unat (take_bit 6 (drop_bit 3 (of_nat k :: uint32))) = take_bit 6 (drop_bit 3 (take_bit 32 k))"
    by (simp add: unsigned_take_bit_eq unsigned_drop_bit_eq unsigned_of_nat)
  moreover have "take_bit 6 (drop_bit 3 (take_bit 32 k)) = take_bit 6 (drop_bit 3 k)" by (simp add: drop_bit_take_bit)
  moreover have "take_bit 6 (drop_bit 3 k) = k div 8 mod 64" by (simp add: take_bit_eq_mod drop_bit_eq_div)
  ultimately show ?thesis unfolding bytes_in_use_def by metis
qed

lemma carry_div:
  fixes x y W :: nat
  assumes W: "0 < W"
  shows "(x + y) div W = x div W + y div W + (if (x + y) mod W < x mod W then 1 else 0)"
proof -
  have m: "(x + y) mod W = (x mod W + y mod W) mod W" by (simp add: mod_add_eq)
  show ?thesis
  proof (cases "x mod W + y mod W < W")
    case True
    then show ?thesis using m by (simp add: div_add1_eq [of x y])
  next
    case False
    let ?s = "x mod W + y mod W"
    have less: "?s - W < W" "?s - W < x mod W" using False W mod_less_divisor [OF W, of x] mod_less_divisor [OF W, of y] by linarith+
    have "?s div W = 1" "?s mod W = ?s - W" using False less(1) W by (simp_all add: le_div_geq le_mod_geq)
    then show ?thesis using m less(2) by (simp add: div_add1_eq [of x y])
  qed
qed

text \<open>The counter holds the number of bits modulo \<open>2 ^ 64\<close>.\<close>

lemma count_bits_adds:
  assumes "md_bits0 ctx = of_nat (8 * k)" "md_bits1 ctx = of_nat (8 * k div 2 ^ 32)" "n < 2 ^ 32"
  shows "md_bits0 (count_bits n ctx) = of_nat (8 * (k + n))" "md_bits1 (count_bits n ctx) = of_nat (8 * (k + n) div 2 ^ 32)"
proof -
  have p: "push_bit 3 (of_nat n :: uint32) = of_nat (8 * n)" by (simp add: push_bit_eq_mult)
  have b0: "md_bits0 (count_bits n ctx) = of_nat (8 * k + 8 * n)" by (simp add: count_bits_def Let_def assms(1) p)
  have d: "drop_bit 29 (of_nat n :: uint32) = of_nat (8 * n div 2 ^ 32)"
  proof (rule word_unat_eq_iff [THEN iffD2])
    have "8 * n div 2 ^ 32 = n div 2 ^ 29" by (simp add: div_mult2_eq [of n 8, symmetric])
    moreover have "unat (drop_bit 29 (of_nat n :: uint32)) = drop_bit 29 (take_bit 32 n)" by (simp add: unsigned_drop_bit_eq unsigned_of_nat)
    moreover have "drop_bit 29 (take_bit 32 n) = n div 2 ^ 29" using assms(3) by (simp add: take_bit_eq_mod drop_bit_eq_div)
    moreover have "unat (of_nat (n div 2 ^ 29) :: uint32) = n div 2 ^ 29" using assms(3) by (simp add: unsigned_of_nat take_bit_eq_mod div_less_dividend)
    ultimately show "unat (drop_bit 29 (of_nat n :: uint32)) = unat (of_nat (8 * n div 2 ^ 32) :: uint32)" by metis
  qed
  have lt: "of_nat (8 * k + 8 * n) < (of_nat (8 * k) :: uint32) \<longleftrightarrow> (8 * k + 8 * n) mod 2 ^ 32 < 8 * k mod 2 ^ 32"
    unfolding word_less_nat_alt unsigned_of_nat take_bit_eq_mod by simp
  have "md_bits1 (count_bits n ctx) = of_nat (8 * k div 2 ^ 32 + 8 * n div 2 ^ 32 + (if (8 * k + 8 * n) mod 2 ^ 32 < 8 * k mod 2 ^ 32 then 1 else 0))"
    using b0 lt by (simp add: count_bits_def Let_def assms(1,2) p d)
  then show "md_bits1 (count_bits n ctx) = of_nat (8 * (k + n) div 2 ^ 32)" using carry_div [of "2 ^ 32" "8 * k" "8 * n"] by (simp add: algebra_simps)
  show "md_bits0 (count_bits n ctx) = of_nat (8 * (k + n))" using b0 by (simp add: algebra_simps)
qed

section \<open>Contexts and messages\<close>

abbreviation (input) md5_start :: md5_buf where
  "md5_start \<equiv> (0x67452301, 0xefcdab89, 0x98badcfe, 0x10325476)"

text \<open>What a context knows of the bytes \<open>m\<close> it has been given.\<close>

definition represents :: "byte list \<Rightarrow> md5_context \<Rightarrow> bool" where
  "represents m ctx \<longleftrightarrow> md_buf ctx = md5_absorb md5_start (whole m) \<and> md_bits0 ctx = of_nat (8 * length m) \<and>
    md_bits1 ctx = of_nat (8 * length m div 2 ^ 32) \<and> length (md_in ctx) = 64 \<and> take (length m mod 64) (md_in ctx) = rest m"

lemma MD5Init_represents: "length (md_in ctx) = 64 \<Longrightarrow> represents [] (MD5Init ctx)"
  by (simp add: represents_def MD5Init_def whole_def rest_def md5_absorb.simps [of _ "[]"])

lemma MD5Update_represents:
  assumes r: "represents m ctx" and len: "length d < 2 ^ 32"
  shows "represents (m @ d) (MD5Update ctx d)"
proof -
  let ?t = "length m mod 64" and ?c = "count_bits (length d) ctx"
  have t: "bytes_in_use (md_bits0 ctx) = ?t" using r bytes_in_use_bits [of "8 * length m"] by (simp add: represents_def)
  have cb: "md_bits0 ?c = of_nat (8 * length (m @ d))" "md_bits1 ?c = of_nat (8 * length (m @ d) div 2 ^ 32)"
    using count_bits_adds [of ctx "length m" "length d"] r len by (auto simp: represents_def)
  have same: "md_buf ?c = md_buf ctx" "md_in ?c = md_in ctx" by (simp_all add: count_bits_def Let_def)
  have inp: "length (md_in ctx) = 64" "take ?t (md_in ctx) = rest m" "md_buf ctx = md5_absorb md5_start (whole m)"
    using r by (simp_all add: represents_def)
  have ctx': "represents (m @ d) (?c\<lparr>md_buf := b, md_in := i\<rparr>)"
    if "b = md5_absorb md5_start (whole (m @ d))" "length i = 64" "take (length (m @ d) mod 64) i = rest (m @ d)" for b i
    using that cb by (simp add: represents_def)
  have tt: "?t < 64" by simp
  show ?thesis
  proof (cases "?t \<noteq> 0 \<and> length d < 64 - ?t")
    case True
    have wr: "whole (m @ d) = whole m" "rest (m @ d) = rest m @ d"
      using whole_restI [of "m @ d" "whole m" "rest m @ d"] True whole_rest [of m] by (simp_all add: less_diff_conv)
    have l: "length (m @ d) mod 64 = ?t + length d" using wr(2) whole_rest(2) [of "m @ d"] whole_rest(2) [of m] by simp
    have "represents (m @ d) (?c\<lparr>md_buf := md_buf ctx, md_in := put_bytes ?t d (md_in ctx)\<rparr>)"
      by (rule ctx') (use True inp wr l in \<open>simp_all add: put_bytes_simps\<close>)
    moreover have "MD5Update ctx d = ?c\<lparr>md_buf := md_buf ctx, md_in := put_bytes ?t d (md_in ctx)\<rparr>"
      using True by (simp add: MD5Update_def t Let_def same)
    ultimately show ?thesis by simp
  next
    case False
    define k where "k = (if ?t = 0 then 0 else 64 - ?t)"
    define d1 where "d1 = take k d"
    define d2 where "d2 = drop k d"
    let ?b1 = "md5_absorb md5_start (whole m @ rest m @ d1)"
    have k: "k \<le> length d" "64 dvd length (whole m @ rest m @ d1)"
      using False whole_rest(2,3) [of m] tt by (auto simp: k_def d1_def dvd_add_right_iff)
    have "m @ d = (whole m @ rest m @ d1) @ d2" using whole_rest(1) [of m] by (simp add: d1_def d2_def)
    then have split: "m @ d = ((whole m @ rest m @ d1) @ whole d2) @ rest d2" using whole_rest(1) [of d2] by simp
    have wr: "whole (m @ d) = (whole m @ rest m @ d1) @ whole d2" "rest (m @ d) = rest d2"
      by (rule whole_restI [OF split]; use k(2) whole_rest(2,3) [of d2] in \<open>simp only: length_append dvd_add mod_less_divisor\<close>)+
    obtain inp1 where 1: "(if ?t \<noteq> 0
        then let inp = put_bytes ?t (take (64 - ?t) d) (md_in ?c) in (MD5Transform (md_buf ?c) (block_words inp), inp, drop (64 - ?t) d)
        else (md_buf ?c, md_in ?c, d)) = (?b1, inp1, d2)" "length inp1 = 64"
    proof (cases "?t = 0")
      case True
      then have "rest m = []" using whole_rest(2) [of m] by simp
      then show thesis using that [of "md_in ctx"] True inp same by (simp add: k_def d1_def d2_def whole_rest)
    next
      case t0: False
      let ?b = "rest m @ d1"
      have lb: "length ?b = 64" using t0 k(1) whole_rest(2) [of m] tt by (simp add: k_def d1_def)
      have "put_bytes ?t (take (64 - ?t) d) (md_in ctx) = ?b"
        using inp t0 k(1) tt by (simp add: put_bytes_def k_def d1_def)
      moreover have "md5_absorb md5_start (whole m @ ?b) = md5_compress (md5_absorb md5_start (whole m)) ?b"
        using absorb_append [OF whole_rest(3)] absorb_block [OF lb] by simp
      ultimately show thesis using that [of ?b] t0 lb inp same by (simp add: MD5Transform_compresses Let_def k_def d2_def)
    qed
    obtain inp2 where 2: "length inp2 = 64" "md5_blocks ?b1 inp1 d2 = (md5_absorb ?b1 (whole d2), inp2, rest d2)"
      using md5_blocks_absorb [OF 1(2)] by metis
    have "MD5Update ctx d = ?c\<lparr>md_buf := md5_absorb ?b1 (whole d2), md_in := put_bytes 0 (rest d2) inp2\<rparr>"
      unfolding MD5Update_def t Let_def [of ?t] Let_def [of ?c] if_not_P [OF False] 1(1) by (simp add: 2(2))
    moreover have "represents (m @ d) (?c\<lparr>md_buf := md5_absorb ?b1 (whole d2), md_in := put_bytes 0 (rest d2) inp2\<rparr>)"
    proof (rule ctx')
      show "md5_absorb ?b1 (whole d2) = md5_absorb md5_start (whole (m @ d))" unfolding wr(1) using absorb_append [OF k(2)] by simp
      have lr: "length (rest d2) = length (m @ d) mod 64" using whole_rest(2) [of "m @ d"] wr(2) by simp
      then have "length (rest d2) \<le> 64" by (simp add: less_imp_le)
      then show "length (put_bytes 0 (rest d2) inp2) = 64" using 2(1) by (simp add: put_bytes_simps)
      show "take (length (m @ d) mod 64) (put_bytes 0 (rest d2) inp2) = rest (m @ d)"
        using put_bytes_simps(2) [of 0 inp2 "rest d2"] wr(2) lr by simp
    qed
    ultimately show ?thesis by simp
  qed
qed

section \<open>The digest\<close>

lemma length_bytes_counter:
  "length_bytes n = word_bytes (of_nat (8 * n)) @ word_bytes (of_nat (8 * n div 2 ^ 32))"
proof -
  have b: "(ucast (drop_bit i (of_nat k :: uint32)) :: byte) = of_nat (k div 2 ^ i)" if "i + 8 \<le> 32" for i k
  proof (rule word_unat_eq_iff [THEN iffD2])
    have "unat (ucast (drop_bit i (of_nat k :: uint32)) :: byte) = take_bit 8 (drop_bit i (take_bit 32 k))"
      by (simp add: unsigned_ucast_eq unsigned_drop_bit_eq unsigned_of_nat)
    also have "\<dots> = take_bit 8 (drop_bit i k)" using that by (simp add: drop_bit_take_bit)
    finally show "unat (ucast (drop_bit i (of_nat k :: uint32)) :: byte) = unat (of_nat (k div 2 ^ i) :: byte)"
      by (simp add: unsigned_of_nat drop_bit_eq_div)
  qed
  have w: "word_bytes (of_nat k) = map (\<lambda>i. of_nat (k div 256 ^ i)) [0..<4]" for k
    using b [of 0 k] b [of 8 k] b [of 16 k] b [of 24 k] by (simp add: word_bytes_def upt_rec)
  have e: "8 * n div 2 ^ 32 div 256 ^ i = 8 * n div 256 ^ (i + 4)" for i
    by (simp only: div_mult2_eq [symmetric] power_add) (simp add: mult.commute)
  have "[0..<8] = [0..<4] @ map (\<lambda>i. i + 4) [0..<4]" by (simp add: upt_rec)
  then show ?thesis unfolding length_bytes_def w e by (simp only: map_append map_map comp_def)
qed

lemma put_counter:
  "length x = 64 \<Longrightarrow> put_bytes 60 (word_bytes u) (put_bytes 56 (word_bytes w) x) = take 56 x @ word_bytes w @ word_bytes u"
  by (simp add: put_bytes_def)

lemma last_block:
  assumes "length inp = 64" "take c inp = r" "length r = c" "c < 56"
  shows "put_bytes 60 (word_bytes u) (put_bytes 56 (word_bytes w) (put_bytes (c + 1) (replicate (63 - c - 8) 0) (put_bytes c [0x80] inp))) =
    r @ 0x80 # replicate (55 - c) 0 @ word_bytes w @ word_bytes u"
proof -
  let ?x = "put_bytes (c + 1) (replicate (63 - c - 8) 0) (put_bytes c [0x80] inp)"
  have "56 - c = Suc (55 - c)" using assms(4) by simp
  then have "length ?x = 64" "take 56 ?x = r @ 0x80 # replicate (55 - c) 0" using assms by (simp_all add: put_bytes_def)
  then show ?thesis by (simp add: put_counter)
qed

lemma final_short:
  fixes m
  defines "c \<equiv> length m mod 64"
  defines "b ctx \<equiv> rest m @ 0x80 # replicate (55 - c) 0 @ word_bytes (md_bits0 ctx) @ word_bytes (md_bits1 ctx)"
  assumes "represents m ctx" "c < 56"
  shows "MD5Final ptr ctx = (buf_bytes (md5_compress (md_buf ctx) (b ctx)),
    ctx\<lparr>md_buf := clear_start ptr (md5_compress (md_buf ctx) (b ctx)), md_in := b ctx\<rparr>)"
proof -
  have u: "bytes_in_use (md_bits0 ctx) = c" "length (md_in ctx) = 64" "take c (md_in ctx) = rest m"
    using assms(3) bytes_in_use_bits [of "8 * length m"] by (simp_all add: represents_def c_def)
  have "\<not> 64 - 1 - c < 8" using assms(4) by simp
  moreover have "put_bytes 60 (word_bytes (md_bits1 ctx)) (put_bytes 56 (word_bytes (md_bits0 ctx))
      (put_bytes (c + 1) (replicate (64 - 1 - c - 8) 0) (put_bytes c [0x80] (md_in ctx)))) = b ctx"
    using last_block [OF u(2,3)] assms(4) by (simp add: b_def c_def whole_rest(2))
  ultimately show ?thesis by (simp only: MD5Final_def Let_def u(1) if_False prod.case MD5Transform_compresses)
qed

lemma MD5Final_digest:
  assumes "represents m ctx"
  shows "fst (MD5Final ptr ctx) = md5 m"
proof -
  let ?c = "length m mod 64" and ?L = "word_bytes (md_bits0 ctx) @ word_bytes (md_bits1 ctx)"
  have r: "md_buf ctx = md5_absorb md5_start (whole m)" "length (md_in ctx) = 64" "take ?c (md_in ctx) = rest m" "bytes_in_use (md_bits0 ctx) = ?c"
    "length_bytes (length m) = ?L"
    using assms bytes_in_use_bits [of "8 * length m"] by (simp_all add: represents_def length_bytes_counter)
  have c: "?c < 64" "length (rest m) = ?c" by (simp_all add: whole_rest)
  show ?thesis
  proof (cases "64 - 1 - ?c < 8")
    case True
    let ?b1 = "rest m @ 0x80 # replicate (63 - ?c) 0" and ?b2 = "replicate 56 0 @ ?L"
    have "put_bytes (?c + 1) (replicate (63 - ?c) 0) (put_bytes ?c [0x80] (md_in ctx)) = ?b1"
      using r c by (simp add: put_bytes_def)
    moreover have "put_bytes 60 (word_bytes (md_bits1 ctx)) (put_bytes 56 (word_bytes (md_bits0 ctx)) (put_bytes 0 (replicate 56 0) ?b1)) = ?b2"
    proof -
      have "length (put_bytes 0 (replicate 56 0) ?b1) = 64" "take 56 (put_bytes 0 (replicate 56 0) ?b1) = replicate 56 0"
        using c by (simp_all add: put_bytes_def)
      then show ?thesis by (simp only: put_counter)
    qed
    ultimately have "fst (MD5Final ptr ctx) = buf_bytes (md5_compress (md5_compress (md5_absorb md5_start (whole m)) ?b1) ?b2)"
      using True r by (simp add: MD5Final_def Let_def MD5Transform_compresses)
    moreover have "md5_pad m = whole m @ ?b1 @ ?b2"
    proof -
      have "(119 - ?c) mod 64 = (63 - ?c) + 56" using True c(1) by simp
      then have "replicate ((119 - ?c) mod 64) (0 :: byte) = replicate (63 - ?c) 0 @ replicate 56 0" by (simp only: replicate_add)
      then show ?thesis unfolding md5_pad_def r(5) using arg_cong [OF whole_rest(1) [of m], of "\<lambda>x. x @ y" for y] by simp
    qed
    moreover have "length ?b1 = 64" "length ?b2 = 64" using c by simp_all
    ultimately show ?thesis by (simp only: md5_def absorb_append whole_rest(3) absorb_two)
  next
    case False
    let ?b = "rest m @ 0x80 # replicate (55 - ?c) 0 @ ?L"
    have "fst (MD5Final ptr ctx) = buf_bytes (md5_compress (md5_absorb md5_start (whole m)) ?b)"
      using final_short [OF assms] False r(1) by simp
    moreover have "md5_pad m = whole m @ ?b"
    proof -
      have "64 \<le> 119 - ?c" using False by simp
      then have "(119 - ?c) mod 64 = 55 - ?c" by (simp add: le_mod_geq)
      then show ?thesis unfolding md5_pad_def r(5) using arg_cong [OF whole_rest(1) [of m], of "\<lambda>x. x @ y" for y] by simp
    qed
    moreover have "length ?b = 64" using c False by simp
    ultimately show ?thesis by (simp only: md5_def absorb_append whole_rest(3) absorb_block)
  qed
qed


lemma MD5_pieces:
  assumes "represents m ctx" "\<forall>d \<in> set ds. length d < 2 ^ 32"
  shows "represents (m @ concat ds) (foldl MD5Update ctx ds)"
  using assms by (induction ds arbitrary: m ctx) (simp_all add: MD5Update_represents flip: append_assoc)

text \<open>
  Property C32: \<^verbatim>\<open>MD5Update\<close> may be called with the data in any pieces: from \<^verbatim>\<open>MD5Init\<close> on, after any sequence of
  calls, each with fewer than \<open>2 ^ 32\<close> bytes, \<^verbatim>\<open>MD5Final\<close> returns the MD5 digest of all the bytes, as RFC
  1321 defines it (with the number of bits modulo \<open>2 ^ 64\<close>).
\<close>

theorem md5_incremental:
  assumes "length (md_in ctx) = 64" "\<forall>d \<in> set ds. length d < 2 ^ 32"
  shows "fst (MD5Final ptr (foldl MD5Update (MD5Init ctx) ds)) = md5 (concat ds)"
  using MD5Final_digest [OF MD5_pieces [OF MD5Init_represents [OF assms(1)] assms(2)]] by simp

definition ex_context :: md5_context where
  "ex_context = \<lparr>md_buf = (0, 0, 0, 0), md_bits0 = 0, md_bits1 = 0, md_in = replicate 64 0\<rparr>"

theorem md5_incremental_witness:
  "fst (MD5Final 8 (foldl MD5Update (MD5Init ex_context) [[97], [], [98, 99]])) = md5 [97, 98, 99]"
  using md5_incremental [of ex_context "[[97], [], [98, 99]]" 8] by (simp add: ex_context_def)

text \<open>
  \<^verbatim>\<open>MD5Final\<close> leaves the message behind. The \<^verbatim>\<open>memset\<close> that should erase the context clears only as
  many bytes as a pointer has: the last block with the end of the message stays in \<^verbatim>\<open>in\<close>, and half of
  the digest in \<^verbatim>\<open>buf\<close>.
\<close>

lemma MD5Final_leaves_data:
  assumes "represents m ctx" "length m mod 64 < 56" "MD5Final ptr ctx = (digest, ctx')"
  shows "take (length m mod 64) (md_in ctx') = rest m \<and> word_bytes (fst (snd (snd (md_buf ctx')))) = take 4 (drop 8 digest)"
proof -
  let ?c = "length m mod 64"
  let ?b = "rest m @ 0x80 # replicate (55 - ?c) 0 @ word_bytes (md_bits0 ctx) @ word_bytes (md_bits1 ctx)"
  obtain w x y z where "md5_compress (md_buf ctx) ?b = (w, x, y, z)" by (rule prod_cases4)
  then show ?thesis using assms(3) final_short [OF assms(1,2)] whole_rest(2) [of m] by (auto simp: buf_bytes_def clear_start_def)
qed

section \<open>The cookie\<close>

text \<open>\<^verbatim>\<open>read\<close> returns at most as many bytes as it is asked for.\<close>

definition env_ok :: "mcookie_env \<Rightarrow> bool" where
  "env_ok env \<longleftrightarrow> (\<forall>path n bs. me_read env path n = Some bs \<longrightarrow> length bs \<le> n) \<and>
    (\<forall>f rs. me_file env f = Some rs \<longrightarrow> list_all (\<lambda>r. length r \<le> BUFFERSIZE) rs) \<and>
    length (me_time env) < 2 ^ 32 \<and> length (me_ppid env) < 2 ^ 32 \<and> length (me_pid env) < 2 ^ 32"

text \<open>The bytes read from the sources, up to the first that gives enough of them.\<close>

fun rng_bytes :: "mcookie_env \<Rightarrow> (string \<times> nat \<times> nat) list \<Rightarrow> byte list" where
  "rng_bytes env [] = []"
| "rng_bytes env ((path, minlength, maxlength) # rs) =
     (case me_read env path (read_count maxlength) of
        None \<Rightarrow> rng_bytes env rs
      | Some bs \<Rightarrow> bs @ (if minlength \<noteq> 0 \<and> length bs \<ge> minlength then [] else rng_bytes env rs))"

definition cookie_bytes :: "string option \<Rightarrow> mcookie_env \<Rightarrow> byte list" where
  "cookie_bytes file env = me_time env @ me_ppid env @ me_pid env @
    (case Option.bind file (me_file env) of None \<Rightarrow> [] | Some reads \<Rightarrow> concat reads @ [0]) @ rng_bytes env rngs"

lemma read_count_less: "read_count n < 2 ^ 32"
  by (simp add: read_count_def BUFFERSIZE_def)

lemma hash_rngs_represents:
  "env_ok env \<Longrightarrow> represents m ctx \<Longrightarrow> represents (m @ rng_bytes env rs) (hash_rngs env rs ctx)"
proof (induction env rs ctx arbitrary: m rule: hash_rngs.induct)
  case (2 env path mn mx rs ctx)
  show ?case
  proof (cases "me_read env path (read_count mx)")
    case (Some bs)
    have "length bs \<le> read_count mx" using 2(3) Some by (simp add: env_ok_def)
    then have "length bs < 2 ^ 32" using read_count_less [of mx] by (rule le_less_trans)
    then have r: "represents (m @ bs) (if bs \<noteq> [] then MD5Update ctx bs else ctx)" using MD5Update_represents [OF 2(4)] 2(4) by simp
    then show ?thesis
    proof (cases "mn \<noteq> 0 \<and> length bs \<ge> mn")
      case False
      from 2(2) [OF Some refl False 2(3) r] show ?thesis using Some False by (simp only: hash_rngs.simps rng_bytes.simps option.case Let_def if_False append_assoc)
    qed (use Some in \<open>simp only: hash_rngs.simps rng_bytes.simps option.case Let_def if_True simp_thms append_Nil2\<close>)
  qed (use 2 in simp)
qed simp

lemma hash_file_represents:
  assumes "represents m ctx" "list_all (\<lambda>r. length r \<le> BUFFERSIZE) rs"
  shows "represents (m @ concat rs @ [0]) (fst (hash_file ctx rs))"
proof -
  have "fst (foldl (\<lambda>(c, n) r. (MD5Update c r, n + length r)) (c, k) rs) = foldl MD5Update c rs" for c and k :: nat
    by (induction rs arbitrary: c k) auto
  moreover have "\<forall>r \<in> set rs. length r < 2 ^ 32" using assms(2) by (auto simp: list_all_iff BUFFERSIZE_def)
  ultimately show ?thesis using MD5Update_represents [OF MD5_pieces [OF assms(1)], of rs "[0]"]
    by (simp add: hash_file_def case_prod_unfold)
qed

text \<open>
  Property C33: \<^verbatim>\<open>mcookie\<close> prints the MD5 digest of everything it has read: the time, the process numbers, the
  file of option \<^verbatim>\<open>-f\<close> and a null byte, and the sources of randomness up to the first one that gives the
  bytes asked of it. The output is 32 hexadecimal digits and a newline.
\<close>

theorem mcookie_prints_digest:
  assumes "length (md_in ctx) = 64" "env_ok env"
  shows "mcookie ptr ctx file env = concat (map print_02x (md5 (cookie_bytes file env))) @ [CHR 0x0A] \<and>
    length (mcookie ptr ctx file env) = 33"
proof -
  let ?ctx1 = "MD5Update (MD5Update (MD5Update (MD5Init ctx) (me_time env)) (me_ppid env)) (me_pid env)"
  let ?ctx2 = "case Option.bind file (me_file env) of None \<Rightarrow> ?ctx1 | Some reads \<Rightarrow> fst (hash_file ?ctx1 reads)"
  have "\<forall>d \<in> set [me_time env, me_ppid env, me_pid env]. length d < 2 ^ 32" using assms(2) by (simp add: env_ok_def)
  from MD5_pieces [OF MD5Init_represents [OF assms(1)] this]
  have 1: "represents (me_time env @ me_ppid env @ me_pid env) ?ctx1" by simp
  have "represents (me_time env @ me_ppid env @ me_pid env @
      (case Option.bind file (me_file env) of None \<Rightarrow> [] | Some reads \<Rightarrow> concat reads @ [0])) ?ctx2"
  proof (cases "Option.bind file (me_file env)")
    case (Some rs)
    then have "list_all (\<lambda>r. length r \<le> BUFFERSIZE) rs" using assms(2) by (auto simp: env_ok_def elim!: bind_eq_Some_conv [THEN iffD1, elim_format])
    from hash_file_represents [OF 1 this] show ?thesis using Some by simp
  qed (use 1 in simp)
  from hash_rngs_represents [OF assms(2) this, of rngs]
  have "represents (cookie_bytes file env) (hash_rngs env rngs ?ctx2)" by (simp add: cookie_bytes_def)
  from MD5Final_digest [OF this, of ptr]
  have m: "mcookie ptr ctx file env = concat (map print_02x (md5 (cookie_bytes file env))) @ [CHR 0x0A]"
    unfolding mcookie_def Let_def case_prod_unfold by simp
  have "length (md5 x) = 16" for x by (simp add: md5_def buf_bytes_def case_prod_unfold)
  then have "length (concat (map print_02x (md5 x))) = 32" for x by (simp add: length_concat print_02x_def comp_def sum_list_triv)
  then show ?thesis using m by simp
qed

definition ex_env :: mcookie_env where
  "ex_env = \<lparr>me_time = [1, 2, 3, 4], me_ppid = [1], me_pid = [7], me_file = (\<lambda>_. Some [[65, 66], [67]]),
     me_read = (\<lambda>path n. if path = ''/dev/random'' then Some (replicate n 5) else None)\<rparr>"

theorem mcookie_prints_digest_witness:
  "mcookie 8 ex_context (Some ''seed'') ex_env =
    concat (map print_02x (md5 ([1, 2, 3, 4, 1, 7, 65, 66, 67, 0] @ replicate 16 5))) @ [CHR 0x0A]"
proof -
  have "env_ok ex_env" by (auto simp: env_ok_def ex_env_def BUFFERSIZE_def split: if_splits)
  moreover have "cookie_bytes (Some ''seed'') ex_env = [1, 2, 3, 4, 1, 7, 65, 66, 67, 0] @ replicate 16 5"
    by (simp add: cookie_bytes_def ex_env_def rngs_def read_count_def BUFFERSIZE_def)
  ultimately show ?thesis using mcookie_prints_digest [of ex_context ex_env 8 "Some ''seed''"] by (simp add: ex_context_def)
qed

end
