(* ===== verification/Toolchain_Wrapper.thy ===== *)
theory Toolchain_Wrapper
  imports Kconf_Strings
begin

text \<open>
  The wrapper Buildroot installs in place of the compiler (\<^verbatim>\<open>toolchain/toolchain-wrapper.c\<close>): it finds the
  directory it is installed in, puts the options of the configured target before those of the user,
  checks the directories named by \<^verbatim>\<open>-I\<close> and \<^verbatim>\<open>-L\<close>, and executes the real compiler. Allocation does not
  fail. \<open>None\<close> stands for a write past the end of the argument array.
\<close>

section \<open>Configuration and environment\<close>

text \<open>The macros the wrapper is compiled with; \<open>None\<close> or \<open>False\<close> if a macro is not defined.\<close>

record wrapper_config =
  br_ccache :: bool
  br_abi :: "string option"
  br_fpu :: "string option"
  br_softfloat :: bool
  br_mode :: "string option"
  br_64 :: bool
  br_omit_lock_prefix :: bool
  br_binfmt_flat :: bool
  br_little_endian :: bool
  br_big_endian :: bool
  br_additional_cflags :: "string list"
  br_cross_path_rel :: "string option"
  br_cross_path_abs :: "string option"
  br_cross_path_suffix :: string
  br_sysroot :: string
  br_float_abi :: "string option"
  br_arch :: "string option"
  br_cpu :: "string option"
  br_ccache_hash :: "string option"
  br_ccache_basedir :: "string option"

text \<open>What the system answers: \<^verbatim>\<open>realpath\<close>, \<^verbatim>\<open>readlink\<close> of \<^verbatim>\<open>/proc/self/exe\<close>, the environment and whether \<^verbatim>\<open>setenv\<close> succeeds.\<close>

record wrapper_system =
  ws_realpath :: "string \<Rightarrow> string option"
  ws_self_exe :: "string option"
  ws_getenv :: "string \<Rightarrow> string option"
  ws_setenv :: "string \<Rightarrow> bool"

text \<open>The lines on standard error and how \<^verbatim>\<open>main\<close> ends.\<close>

datatype wrapper_line = Unsafe_path bool string | Trace string

datatype wrapper_end = Return nat | Exit nat | Exec "string list"

definition PATH_MAX :: nat where
  "PATH_MAX = 4096"

definition EXCLUSIVE_ARGS :: nat where
  "EXCLUSIVE_ARGS = 3"

definition quote :: char where
  "quote = CHR 0x27"

definition slash :: char where
  "slash = CHR ''/''"

section \<open>Directories\<close>

text \<open>\<^verbatim>\<open>strrchr(progpath, '/')\<close>: what is before and behind the last slash.\<close>

definition split_slash :: "string \<Rightarrow> (string \<times> string) option" where
  "split_slash s =
    (if slash \<in> set s
     then Some (rev (tl (dropWhile (\<lambda>c. c \<noteq> slash) (rev s))), rev (takeWhile (\<lambda>c. c \<noteq> slash) (rev s)))
     else None)"

text \<open>The loop that cuts three components off the path of the executable.\<close>

fun strip_loop :: "nat \<Rightarrow> nat \<Rightarrow> string \<Rightarrow> string" where
  "strip_loop 0 count s = s"
| "strip_loop (Suc i) count s =
     (if Suc i < length s \<and> s ! Suc i = slash
      then if Suc count = 3 then take (Suc i) s else strip_loop i (Suc count) (take (Suc i) s)
      else strip_loop i count s)"

definition base_dir :: "wrapper_system \<Rightarrow> string \<Rightarrow> (string \<times> string) option" where
  "base_dir sys progpath =
    (case split_slash progpath of
       Some (dir, basename) \<Rightarrow> map_option (\<lambda>d. (d, basename)) (ws_realpath sys (dir @ ''/../..''))
     | None \<Rightarrow>
         (case ws_self_exe sys of
            None \<Rightarrow> None
          | Some exe \<Rightarrow> let e = take PATH_MAX exe in Some (strip_loop (length e) 0 e, progpath)))"

definition compiler_path :: "wrapper_config \<Rightarrow> string \<Rightarrow> string \<Rightarrow> string" where
  "compiler_path cfg absbasedir basename =
    (case br_cross_path_rel cfg of
       Some rel \<Rightarrow> absbasedir @ ''/'' @ rel @ ''/'' @ basename @ br_cross_path_suffix cfg
     | None \<Rightarrow>
         (case br_cross_path_abs cfg of
            Some ab \<Rightarrow> ab @ ''/'' @ basename @ br_cross_path_suffix cfg
          | None \<Rightarrow> absbasedir @ ''/usr/bin/'' @ basename @ br_cross_path_suffix cfg))"

definition ccache_path :: "string \<Rightarrow> string" where
  "ccache_path absbasedir = absbasedir @ ''/usr/bin/ccache''"

definition sysroot_path :: "wrapper_config \<Rightarrow> string \<Rightarrow> string" where
  "sysroot_path cfg absbasedir = absbasedir @ ''/'' @ br_sysroot cfg"

section \<open>Arguments\<close>

definition opt_arg :: "string \<Rightarrow> string option \<Rightarrow> string list" where
  "opt_arg pre v = (case v of None \<Rightarrow> [] | Some x \<Rightarrow> [pre @ x])"

definition predef_args :: "wrapper_config \<Rightarrow> string \<Rightarrow> string \<Rightarrow> string list" where
  "predef_args cfg absbasedir basename =
    (if br_ccache cfg then [ccache_path absbasedir] else []) @
    [compiler_path cfg absbasedir basename, ''--sysroot'', sysroot_path cfg absbasedir] @
    opt_arg ''-mabi='' (br_abi cfg) @ opt_arg ''-mfpu='' (br_fpu cfg) @
    (if br_softfloat cfg then [''-msoft-float''] else []) @
    opt_arg ''-m'' (br_mode cfg) @
    (if br_64 cfg then [''-m64''] else []) @
    (if br_omit_lock_prefix cfg then [''-Wa,-momit-lock-prefix=yes''] else []) @
    (if br_binfmt_flat cfg then [''-Wl,-elf2flt''] else []) @
    (if br_little_endian cfg then [''-EL''] else []) @
    (if br_big_endian cfg then [''-EB''] else []) @
    br_additional_cflags cfg"

definition starts :: "string \<Rightarrow> string \<Rightarrow> bool" where
  "starts p s \<longleftrightarrow> take (length p) s = p"

definition float_arg :: "string \<Rightarrow> bool" where
  "float_arg a \<longleftrightarrow> starts ''-mfloat-abi='' a \<or> a = ''-msoft-float'' \<or> a = ''-mhard-float''"

definition arch_arg :: "string \<Rightarrow> bool" where
  "arch_arg a \<longleftrightarrow> starts ''-march='' a \<or> starts ''-mtune='' a \<or> starts ''-mcpu='' a"

text \<open>Storing at \<^verbatim>\<open>cur\<close>: the arguments so far and the number of entries allocated.\<close>

definition store :: "nat \<Rightarrow> 'a list \<Rightarrow> 'a list \<Rightarrow> 'a list option" where
  "store n new args = (if length args + length new \<le> n then Some (args @ new) else None)"

section \<open>Unsafe paths\<close>

definition unsafe_paths :: "string list" where
  "unsafe_paths = [''/lib'', ''/usr/include'', ''/usr/lib'', ''/usr/local/include'', ''/usr/local/lib'']"

text \<open>The lines printed, and whether the program exits.\<close>

fun check_unsafe_path :: "string list \<Rightarrow> string \<Rightarrow> bool \<Rightarrow> wrapper_line list \<times> bool" where
  "check_unsafe_path [] path paranoid = ([], False)"
| "check_unsafe_path (c # cs) path paranoid =
     (if starts c path
      then if paranoid then ([Unsafe_path paranoid path], True)
           else let (ls, ex) = check_unsafe_path cs path paranoid in (Unsafe_path paranoid path # ls, ex)
      else check_unsafe_path cs path paranoid)"

fun check_args :: "bool \<Rightarrow> string list \<Rightarrow> wrapper_line list \<times> bool" where
  "check_args paranoid [] = ([], False)"
| "check_args paranoid (a # as) =
     (if \<not> starts ''-I'' a \<and> \<not> starts ''-L'' a then check_args paranoid as
      else if length a = 2 then
        (case as of
           [] \<Rightarrow> ([], False)
         | b # bs \<Rightarrow>
             let (ls, ex) = check_unsafe_path unsafe_paths b paranoid in
             if ex then (ls, True) else let (ls', ex') = check_args paranoid bs in (ls @ ls', ex'))
      else
        let (ls, ex) = check_unsafe_path unsafe_paths (drop 2 a) paranoid in
        if ex then (ls, True) else let (ls', ex') = check_args paranoid as in (ls @ ls', ex'))"

section \<open>The program\<close>

text \<open>\<^verbatim>\<open>atoi\<close>, as the C library computes it: \<^verbatim>\<open>strtol\<close> cut to 32 bits.\<close>

definition atoi :: "string \<Rightarrow> int" where
  "atoi s = signed_take_bit 31 (strtoll s 10)"

definition trace :: "wrapper_config \<Rightarrow> wrapper_system \<Rightarrow> string list \<Rightarrow> wrapper_line list" where
  "trace cfg sys args =
    (case ws_getenv sys ''BR2_DEBUG_WRAPPER'' of
       None \<Rightarrow> []
     | Some d \<Rightarrow>
         if atoi d > 0
         then let sep = (if atoi d = 2 then CHR 0x0A # ''    '' else '' '') in
              [Trace (''Toolchain wrapper executing:'' @
                (case br_ccache_hash cfg of None \<Rightarrow> [] | Some h \<Rightarrow> sep @ ''CCACHE_COMPILERCHECK='' @ [quote] @ ''string:'' @ h @ [quote]) @
                (case br_ccache_basedir cfg of None \<Rightarrow> [] | Some h \<Rightarrow> sep @ ''CCACHE_BASEDIR='' @ [quote] @ h @ [quote]) @
                concat (map (\<lambda>a. sep @ [quote] @ a @ [quote]) args))]
         else [])"

definition paranoid :: "wrapper_system \<Rightarrow> bool" where
  "paranoid sys = (case ws_getenv sys ''BR_COMPILER_PARANOID_UNSAFE_PATH'' of None \<Rightarrow> False | Some p \<Rightarrow> length p > 0)"

definition too_long :: "wrapper_config \<Rightarrow> string \<Rightarrow> string \<Rightarrow> bool" where
  "too_long cfg absbasedir basename \<longleftrightarrow> length (compiler_path cfg absbasedir basename) \<ge> PATH_MAX \<or>
    br_ccache cfg \<and> length (ccache_path absbasedir) \<ge> PATH_MAX \<or> length (sysroot_path cfg absbasedir) \<ge> PATH_MAX"

definition set_ccache :: "wrapper_config \<Rightarrow> wrapper_system \<Rightarrow> bool" where
  "set_ccache cfg sys \<longleftrightarrow> (br_ccache_hash cfg \<noteq> None \<longrightarrow> ws_setenv sys ''CCACHE_COMPILERCHECK'') \<and>
    (br_ccache_basedir cfg \<noteq> None \<longrightarrow> ws_setenv sys ''CCACHE_BASEDIR'')"

definition exclusive_args :: "wrapper_config \<Rightarrow> string list \<Rightarrow> nat \<Rightarrow> string list \<Rightarrow> string list option" where
  "exclusive_args cfg argv n args0 =
    do { args1 \<leftarrow> (case br_float_abi cfg of
                     None \<Rightarrow> Some args0
                   | Some abi \<Rightarrow> if list_ex float_arg (tl argv) then Some args0 else store n [''-mfloat-abi='' @ abi] args0);
         if list_ex arch_arg (tl argv) then Some args1
         else
           do { args2 \<leftarrow> (case br_arch cfg of None \<Rightarrow> Some args1 | Some x \<Rightarrow> store n [''-march='' @ x] args1);
                (case br_cpu cfg of None \<Rightarrow> Some args2 | Some x \<Rightarrow> store n [''-mcpu='' @ x] args2) } }"

text \<open>\<^verbatim>\<open>main\<close>; the last entry of the array is the terminating null pointer.\<close>

definition wrapper :: "wrapper_config \<Rightarrow> wrapper_system \<Rightarrow> string list \<Rightarrow> (wrapper_line list \<times> wrapper_end) option" where
  "wrapper cfg sys argv =
    (case base_dir sys (hd argv) of
       None \<Rightarrow> Some ([], Return 2)
     | Some (absbasedir, basename) \<Rightarrow>
         if too_long cfg absbasedir basename then Some ([], Return 3)
         else
           let predef = predef_args cfg absbasedir basename;
               n = length predef + (length argv + EXCLUSIVE_ARGS) in
           do { args0 \<leftarrow> store n predef [];
                args1 \<leftarrow> exclusive_args cfg argv n args0;
                let (ls, ex) = check_args (paranoid sys) (tl argv);
                if ex then Some (ls, Exit 1)
                else
                  do { args2 \<leftarrow> store n (tl argv) args1;
                       _ \<leftarrow> store n [[]] args2;
                       let exec_args = (if br_ccache cfg \<and> ws_getenv sys ''BR_NO_CCACHE'' \<noteq> None then tl args2 else args2);
                       Some (ls @ trace cfg sys exec_args, if set_ccache cfg sys then Exec exec_args else Return 3) } })"

section \<open>Results\<close>

lemma starts_Cons: "starts p s \<Longrightarrow> \<exists>t. s = p @ t"
  unfolding starts_def by (metis append_take_drop_id)

lemma exclusive_args_fit:
  assumes "length args0 + 3 \<le> n"
  shows "\<exists>ex. exclusive_args cfg argv n args0 = Some (args0 @ ex) \<and> length ex \<le> 3 \<and>
    (\<forall>a \<in> set ex. (float_arg a \<longrightarrow> \<not> list_ex float_arg (tl argv)) \<and> (arch_arg a \<longrightarrow> \<not> list_ex arch_arg (tl argv)))"
  using assms
  by (auto simp: exclusive_args_def store_def float_arg_def arch_arg_def starts_def split: option.split)

text \<open>The directories the options \<^verbatim>\<open>-I\<close> and \<^verbatim>\<open>-L\<close> name, in one argument or in two.\<close>

fun search_dirs :: "string list \<Rightarrow> string list" where
  "search_dirs [] = []"
| "search_dirs (a # as) =
     (if a = ''-I'' \<or> a = ''-L'' then (case as of [] \<Rightarrow> [] | b # bs \<Rightarrow> b # search_dirs bs)
      else if starts ''-I'' a \<or> starts ''-L'' a then drop 2 a # search_dirs as
      else search_dirs as)"

definition unsafe :: "string \<Rightarrow> bool" where
  "unsafe d \<longleftrightarrow> (\<exists>p \<in> set unsafe_paths. starts p d)"

lemma check_path_spec:
  "check_unsafe_path cs d par = (ls, ex) \<Longrightarrow> ex = (par \<and> (\<exists>p \<in> set cs. starts p d)) \<and>
    set ls = (if \<exists>p \<in> set cs. starts p d then {Unsafe_path par d} else {})"
  by (induction cs arbitrary: ls ex) (auto split: if_splits prod.splits)

lemma check_args_spec:
  "check_args par as = (ls, ex) \<Longrightarrow> ex = (par \<and> (\<exists>d \<in> set (search_dirs as). unsafe d)) \<and>
    (\<not> ex \<longrightarrow> set ls = Unsafe_path par ` {d \<in> set (search_dirs as). unsafe d})"
proof (induction as arbitrary: ls ex rule: measure_induct_rule [of length])
  case (less bs0)
  show ?case
  proof (cases bs0)
    case Nil
    then show ?thesis using less(2) by simp
  next
  case (Cons a as)
  have IL: "(starts ''-I'' a \<or> starts ''-L'' a) \<and> length a = 2 \<longleftrightarrow> a = ''-I'' \<or> a = ''-L''"
    by (auto simp: starts_def)
  have step: "ex = (par \<and> (unsafe d \<or> (\<exists>d \<in> set (search_dirs xs). unsafe d))) \<and>
      (\<not> ex \<longrightarrow> set ls = Unsafe_path par ` {e \<in> insert d (set (search_dirs xs)). unsafe e})"
    if "(let (ls1, ex1) = check_unsafe_path unsafe_paths d par in
         if ex1 then (ls1, True) else let (ls', ex') = check_args par xs in (ls1 @ ls', ex')) = (ls, ex)"
      "\<And>ls ex. check_args par xs = (ls, ex) \<Longrightarrow> ex = (par \<and> (\<exists>d \<in> set (search_dirs xs). unsafe d)) \<and>
        (\<not> ex \<longrightarrow> set ls = Unsafe_path par ` {d \<in> set (search_dirs xs). unsafe d})" for d xs
  proof -
    obtain ls1 ex1 ls2 ex2 where c: "check_unsafe_path unsafe_paths d par = (ls1, ex1)" "check_args par xs = (ls2, ex2)" by fastforce
    from check_path_spec [OF c(1)] that(2) [OF c(2)] show ?thesis using that(1) c
      by (cases ex1) (auto simp: unsafe_def [symmetric] split: if_splits)
  qed
  show ?thesis
  proof (cases "starts ''-I'' a \<or> starts ''-L'' a")
    case False
    then have "a \<noteq> ''-I'' \<and> a \<noteq> ''-L''" by (auto simp: starts_def)
    then show ?thesis using less(1) [of as ls ex] less(2) False Cons by simp
  next
    case opt: True
    then have il: "(\<not> starts ''-I'' a \<and> \<not> starts ''-L'' a) = False" "(starts ''-I'' a \<or> starts ''-L'' a) = True" by auto
    show ?thesis
    proof (cases "length a = 2")
      case False
      then have "a \<noteq> ''-I'' \<and> a \<noteq> ''-L''" by auto
      then show ?thesis using step [of "drop 2 a" as] less(1) [of as] less(2) False Cons by (simp add: il del: de_Morgan_disj)
    next
      case True
      then have a: "a = ''-I'' \<or> a = ''-L''" using IL opt by blast
      show ?thesis
      proof (cases as)
        case Nil
        then show ?thesis using less(2) a True \<open>bs0 = a # as\<close> by (auto simp: il simp del: de_Morgan_disj)
      next
        case (Cons b bs)
        then show ?thesis using step [of b bs] less(1) [of bs] less(2) a True \<open>bs0 = a # as\<close> by (simp add: il del: de_Morgan_disj)
      qed
    qed
  qed
  qed
qed

lemma wrapper_runs:
  assumes "base_dir sys prog = Some (base, name)" "\<not> too_long cfg base name"
  obtains ex ls d where "length ex \<le> 3" "check_args (paranoid sys) args = (ls, d)"
    "\<forall>a \<in> set ex. (float_arg a \<longrightarrow> \<not> list_ex float_arg args) \<and> (arch_arg a \<longrightarrow> \<not> list_ex arch_arg args)"
    "wrapper cfg sys (prog # args) = Some (if d then (ls, Exit 1)
      else let xs = (if br_ccache cfg \<and> ws_getenv sys ''BR_NO_CCACHE'' \<noteq> None then tl (predef_args cfg base name @ ex @ args)
                     else predef_args cfg base name @ ex @ args) in
        (ls @ trace cfg sys xs, if set_ccache cfg sys then Exec xs else Return 3))"
proof -
  let ?p = "predef_args cfg base name" and ?n = "length (predef_args cfg base name) + (length (prog # args) + EXCLUSIVE_ARGS)"
  obtain ex where ex: "exclusive_args cfg (prog # args) ?n ?p = Some (?p @ ex)" "length ex \<le> 3"
    "\<forall>a \<in> set ex. (float_arg a \<longrightarrow> \<not> list_ex float_arg args) \<and> (arch_arg a \<longrightarrow> \<not> list_ex arch_arg args)"
    using exclusive_args_fit [of ?p ?n cfg "prog # args"] by (auto simp: EXCLUSIVE_ARGS_def)
  obtain ls d where c: "check_args (paranoid sys) args = (ls, d)" by fastforce
  have "store ?n ?p [] = Some ?p" "store ?n args (?p @ ex) = Some (?p @ ex @ args)" "store ?n [[]] (?p @ ex @ args) = Some ((?p @ ex @ args) @ [[]])"
    using ex(2) by (simp_all add: store_def EXCLUSIVE_ARGS_def)
  then show thesis using that [OF ex(2) c ex(3)] assms ex(1) c by (simp add: wrapper_def Let_def)
qed


text \<open>
  Property C35: unsafe directories. If the environment asks for it, the wrapper exits instead of executing the
  compiler exactly when an option \<^verbatim>\<open>-I\<close> or \<^verbatim>\<open>-L\<close>, in one argument or in two, names a directory that begins with
  one of the five of the host; otherwise the compiler runs, and each such directory gets a warning, and no other.
\<close>

theorem wrapper_unsafe_paths:
  assumes "base_dir sys prog = Some (base, name)" "\<not> too_long cfg base name" "wrapper cfg sys (prog # args) = Some (ls, r)"
  shows "(r = Exit 1 \<longleftrightarrow> paranoid sys \<and> (\<exists>d \<in> set (search_dirs args). unsafe d)) \<and>
    (r \<noteq> Exit 1 \<longrightarrow> {l \<in> set ls. \<exists>p d. l = Unsafe_path p d} = Unsafe_path False ` {d \<in> set (search_dirs args). unsafe d})"
proof -
  obtain ex ls0 d where w: "check_args (paranoid sys) args = (ls0, d)"
    "wrapper cfg sys (prog # args) = Some (if d then (ls0, Exit 1)
      else let xs = (if br_ccache cfg \<and> ws_getenv sys ''BR_NO_CCACHE'' \<noteq> None then tl (predef_args cfg base name @ ex @ args)
                     else predef_args cfg base name @ ex @ args) in
        (ls0 @ trace cfg sys xs, if set_ccache cfg sys then Exec xs else Return 3))"
    using wrapper_runs [OF assms(1,2), of args] by metis
  note c = check_args_spec [OF w(1)]
  have t: "\<forall>l \<in> set (trace cfg sys xs). \<exists>t. l = Trace t" for xs by (auto simp: trace_def Let_def split: option.splits if_splits)
  show ?thesis
  proof (cases d)
    case True
    then show ?thesis using w(2) assms(3) c by simp
  next
    case False
    then obtain xs where "ls = ls0 @ trace cfg sys xs" "r \<noteq> Exit 1" using w(2) assms(3) by (auto simp: Let_def split: if_splits)
    moreover have "set ls0 = Unsafe_path False ` {d \<in> set (search_dirs args). unsafe d}" using c False by (cases "paranoid sys") auto
    ultimately show ?thesis using c False t [of xs] by auto
  qed
qed

section \<open>An example\<close>

definition ex_wrapper :: wrapper_config where
  "ex_wrapper = \<lparr>br_ccache = True, br_abi = Some ''aapcs-linux'', br_fpu = None, br_softfloat = False, br_mode = Some ''arm'', br_64 = False,
     br_omit_lock_prefix = False, br_binfmt_flat = False, br_little_endian = False, br_big_endian = False, br_additional_cflags = [],
     br_cross_path_rel = None, br_cross_path_abs = None, br_cross_path_suffix = ''.br_real'', br_sysroot = ''usr/arm/sysroot'',
     br_float_abi = Some ''soft'', br_arch = None, br_cpu = Some ''arm926ej-s'', br_ccache_hash = None, br_ccache_basedir = None\<rparr>"

definition ex_system :: "string option \<Rightarrow> wrapper_system" where
  "ex_system p = \<lparr>ws_realpath = (\<lambda>_. Some ''/out/host''), ws_self_exe = None,
     ws_getenv = (\<lambda>v. if v = ''BR_COMPILER_PARANOID_UNSAFE_PATH'' then p else None), ws_setenv = (\<lambda>_. True)\<rparr>"

lemma ex_base: "base_dir (ex_system p) ''/out/host/usr/bin/arm-gcc'' = Some (''/out/host'', ''arm-gcc'')"
  by (simp add: base_dir_def split_slash_def slash_def ex_system_def)

lemma ex_short: "\<not> too_long ex_wrapper ''/out/host'' ''arm-gcc''"
  by (simp add: too_long_def compiler_path_def ccache_path_def sysroot_path_def ex_wrapper_def PATH_MAX_def)

definition ex_args :: "string list" where
  "ex_args = [''-mcpu=arm7'', ''-I'', ''/usr/include/x'']"

definition ex_exec :: "string list" where
  "ex_exec = [''/out/host/usr/bin/ccache'', ''/out/host/usr/bin/arm-gcc.br_real'', ''--sysroot'', ''/out/host/usr/arm/sysroot'',
     ''-mabi=aapcs-linux'', ''-marm'', ''-mfloat-abi=soft'', ''-mcpu=arm7'', ''-I'', ''/usr/include/x'']"

lemma ex_run: "wrapper ex_wrapper (ex_system None) (''/out/host/usr/bin/arm-gcc'' # ex_args) = Some ([Unsafe_path False ''/usr/include/x''], Exec ex_exec)"
  by code_simp


lemma ex_refused:
  "wrapper ex_wrapper (ex_system (Some ''1'')) [''/out/host/usr/bin/arm-gcc'', ''-L/usr/lib''] = Some ([Unsafe_path True ''/usr/lib''], Exit 1)"
  by code_simp

theorem wrapper_unsafe_paths_witness:
  "paranoid (ex_system (Some ''1'')) \<and> (\<exists>d \<in> set (search_dirs [''-L/usr/lib'']). unsafe d)"
  using wrapper_unsafe_paths [OF ex_base ex_short ex_refused] by blast

end
