(* ===== verification/Ch34x_Buffer.thy ===== *)
theory Ch34x_Buffer
  imports Main
begin

text \<open>
  The circular buffer of the CH340/CH341 serial driver (\<^verbatim>\<open>contrib/packages/ch34/src/ch34x.c\<close>) and its
  contract. The pointers \<^verbatim>\<open>buf_get\<close> and \<^verbatim>\<open>buf_put\<close> are offsets from \<^verbatim>\<open>buf_buf\<close>; they are less than \<^verbatim>\<open>buf_size\<close>, so
  that no difference below is negative. Allocation does not fail.
\<close>

section \<open>The buffer\<close>

record 'a ch34x_buf =
  buf_size :: nat
  buf_buf :: "'a list"
  buf_get :: nat
  buf_put :: nat

definition ch34x_buf_alloc :: "'a list \<Rightarrow> 'a ch34x_buf option" where
  "ch34x_buf_alloc mem =
    (if length mem = 0 then None else Some \<lparr>buf_size = length mem, buf_buf = mem, buf_get = 0, buf_put = 0\<rparr>)"

definition ch34x_buf_clear :: "'a ch34x_buf \<Rightarrow> 'a ch34x_buf" where
  "ch34x_buf_clear pb = pb\<lparr>buf_get := buf_put pb\<rparr>"

definition ch34x_buf_data_avail :: "'a ch34x_buf \<Rightarrow> nat" where
  "ch34x_buf_data_avail pb = (buf_size pb + buf_put pb - buf_get pb) mod buf_size pb"

definition ch34x_buf_space_avail :: "'a ch34x_buf \<Rightarrow> nat" where
  "ch34x_buf_space_avail pb = (buf_size pb + buf_get pb - buf_put pb - 1) mod buf_size pb"

text \<open>\<^verbatim>\<open>memcpy(mem + i, src, length src)\<close>\<close>

definition copy_in :: "nat \<Rightarrow> 'a list \<Rightarrow> 'a list \<Rightarrow> 'a list" where
  "copy_in i src mem = take i mem @ src @ drop (i + length src) mem"

text \<open>The number of bytes copied and the buffer after it; the bytes to store are the list.\<close>

definition ch34x_buf_put :: "'a ch34x_buf \<Rightarrow> 'a list \<Rightarrow> nat \<times> 'a ch34x_buf" where
  "ch34x_buf_put pb src =
    (let len = ch34x_buf_space_avail pb;
         count = (if length src > len then len else length src) in
     if length src \<le> len \<and> count = 0 then (0, pb)
     else
       let len = buf_size pb - buf_put pb in
       if count > len then
         (count, pb\<lparr>buf_buf := copy_in 0 (take (count - len) (drop len src)) (copy_in (buf_put pb) (take len src) (buf_buf pb)),
                    buf_put := count - len\<rparr>)
       else
         (count, pb\<lparr>buf_buf := copy_in (buf_put pb) (take count src) (buf_buf pb),
                    buf_put := (if count < len then buf_put pb + count else if count = len then 0 else buf_put pb)\<rparr>))"

text \<open>The bytes copied out, at most \<open>n\<close>.\<close>

definition ch34x_buf_get :: "'a ch34x_buf \<Rightarrow> nat \<Rightarrow> 'a list \<times> 'a ch34x_buf" where
  "ch34x_buf_get pb n =
    (let len = ch34x_buf_data_avail pb;
         count = (if n > len then len else n) in
     if n \<le> len \<and> count = 0 then ([], pb)
     else
       let len = buf_size pb - buf_get pb in
       if count > len then
         (take len (drop (buf_get pb) (buf_buf pb)) @ take (count - len) (buf_buf pb), pb\<lparr>buf_get := count - len\<rparr>)
       else
         (take count (drop (buf_get pb) (buf_buf pb)),
          pb\<lparr>buf_get := (if count < len then buf_get pb + count else if count = len then 0 else buf_get pb)\<rparr>))"

section \<open>The contract\<close>

text \<open>A queue of bounded length, as the transmitting side of the driver uses it.\<close>

datatype 'a queue_op = Put "'a list" | Get nat | Clear

text \<open>A sequence of operations: the bytes accepted and the bytes delivered, in order.\<close>

fun transfer :: "('q \<Rightarrow> 'a list \<Rightarrow> nat \<times> 'q) \<Rightarrow> ('q \<Rightarrow> nat \<Rightarrow> 'a list \<times> 'q) \<Rightarrow> ('q \<Rightarrow> 'q) \<Rightarrow> 'a queue_op list \<Rightarrow> 'q \<Rightarrow>
    'a list \<times> 'a list \<times> 'q" where
  "transfer put get clear [] q = ([], [], q)"
| "transfer put get clear (Put xs # ops) q =
     (let (n, q1) = put q xs; (acc, del, q2) = transfer put get clear ops q1 in (take n xs @ acc, del, q2))"
| "transfer put get clear (Get k # ops) q =
     (let (ys, q1) = get q k; (acc, del, q2) = transfer put get clear ops q1 in (acc, ys @ del, q2))"
| "transfer put get clear (Clear # ops) q = transfer put get clear ops (clear q)"

locale bounded_queue =
  fixes inv :: "'q \<Rightarrow> bool" and contents :: "'q \<Rightarrow> 'a list" and capacity :: "'q \<Rightarrow> nat"
    and put :: "'q \<Rightarrow> 'a list \<Rightarrow> nat \<times> 'q" and get :: "'q \<Rightarrow> nat \<Rightarrow> 'a list \<times> 'q" and clear :: "'q \<Rightarrow> 'q"
  assumes put_law: "inv q \<Longrightarrow> put q xs = (n, q') \<Longrightarrow> inv q' \<and> capacity q' = capacity q \<and>
      n = min (length xs) (capacity q - length (contents q)) \<and> contents q' = contents q @ take n xs"
    and get_law: "inv q \<Longrightarrow> get q k = (ys, q') \<Longrightarrow> inv q' \<and> capacity q' = capacity q \<and>
      ys = take k (contents q) \<and> contents q' = drop k (contents q)"
    and clear_law: "inv q \<Longrightarrow> inv (clear q) \<and> capacity (clear q) = capacity q \<and> contents (clear q) = []"
    and bound: "inv q \<Longrightarrow> length (contents q) \<le> capacity q"
begin

lemma transfer_fifo:
  "inv q \<Longrightarrow> Clear \<notin> set ops \<Longrightarrow> transfer put get clear ops q = (acc, del, q') \<Longrightarrow>
    inv q' \<and> capacity q' = capacity q \<and> contents q @ acc = del @ contents q'"
proof (induction ops arbitrary: q acc del q')
  case (Cons x ops)
  show ?case
  proof (cases x)
    case (Put xs)
    obtain n q1 acc1 del1 q2 where s: "put q xs = (n, q1)" "transfer put get clear ops q1 = (acc1, del1, q2)" by (metis prod_cases3 surj_pair)
    note p = put_law [OF Cons.prems(1) s(1)]
    from Cons.IH [OF _ _ s(2)] p Cons.prems(2) have "inv q2 \<and> capacity q2 = capacity q1 \<and> contents q1 @ acc1 = del1 @ contents q2" by auto
    then show ?thesis using Cons.prems(3) s p Put by auto
  next
    case (Get k)
    obtain ys q1 acc1 del1 q2 where s: "get q k = (ys, q1)" "transfer put get clear ops q1 = (acc1, del1, q2)" by (metis prod_cases3 surj_pair)
    note p = get_law [OF Cons.prems(1) s(1)]
    from Cons.IH [OF _ _ s(2)] p Cons.prems(2) have i: "inv q2 \<and> capacity q2 = capacity q1 \<and> contents q1 @ acc1 = del1 @ contents q2" by auto
    have "contents q = ys @ contents q1" using p by simp
    then have "contents q @ acc1 = ys @ del1 @ contents q2" using i by simp
    then show ?thesis using Cons.prems(3) s p i Get by simp
  qed (use Cons.prems(2) in auto)
qed auto

end

section \<open>The circular buffer keeps the contract\<close>

definition buf_inv :: "'a ch34x_buf \<Rightarrow> bool" where
  "buf_inv pb \<longleftrightarrow> length (buf_buf pb) = buf_size pb \<and> buf_get pb < buf_size pb \<and> buf_put pb < buf_size pb"

text \<open>The bytes from \<^verbatim>\<open>buf_get\<close> to \<^verbatim>\<open>buf_put\<close>, around the end of the memory.\<close>

definition buf_contents :: "'a ch34x_buf \<Rightarrow> 'a list" where
  "buf_contents pb =
    (if buf_get pb \<le> buf_put pb then take (buf_put pb - buf_get pb) (drop (buf_get pb) (buf_buf pb))
     else drop (buf_get pb) (buf_buf pb) @ take (buf_put pb) (buf_buf pb))"

definition buf_capacity :: "'a ch34x_buf \<Rightarrow> nat" where
  "buf_capacity pb = buf_size pb - 1"

lemma avail_length: "buf_inv pb \<Longrightarrow> ch34x_buf_data_avail pb = length (buf_contents pb)"
  by (auto simp: buf_inv_def buf_contents_def ch34x_buf_data_avail_def mod_if)

lemma space_room: "buf_inv pb \<Longrightarrow> ch34x_buf_space_avail pb = buf_capacity pb - length (buf_contents pb)"
  by (auto simp: buf_inv_def buf_contents_def ch34x_buf_space_avail_def buf_capacity_def mod_if)

text \<open>The effect of a get and of a put, with the number of bytes that are copied.\<close>

lemma buf_get_effect:
  assumes "buf_inv pb"
  defines "c k \<equiv> min k (length (buf_contents pb))"
  shows "ch34x_buf_get pb k =
    (take (c k) (drop (buf_get pb) (buf_buf pb)) @ take (c k - (buf_size pb - buf_get pb)) (buf_buf pb),
     pb\<lparr>buf_get := (if buf_get pb + c k < buf_size pb then buf_get pb + c k else buf_get pb + c k - buf_size pb)\<rparr>)"
  using assms(1) by (auto simp: ch34x_buf_get_def avail_length [OF assms(1)] c_def Let_def buf_inv_def min_def)

lemma buf_get_law:
  assumes inv: "buf_inv pb" and get: "ch34x_buf_get pb k = (ys, pb')"
  shows "buf_inv pb' \<and> buf_capacity pb' = buf_capacity pb \<and> ys = take k (buf_contents pb) \<and> buf_contents pb' = drop k (buf_contents pb)"
proof -
define n where "n = min k (length (buf_contents pb))"
note eff = buf_get_effect [OF inv, of k, folded n_def]
show ?thesis
proof (cases "buf_get pb \<le> buf_put pb")
  case True
  then have c: "buf_contents pb = take (buf_put pb - buf_get pb) (drop (buf_get pb) (buf_buf pb))" by (simp add: buf_contents_def)
  have le: "buf_get pb + n \<le> buf_put pb" "length (buf_contents pb) = buf_put pb - buf_get pb" using True inv c by (auto simp: buf_inv_def n_def)
  have e: "ys = take n (drop (buf_get pb) (buf_buf pb))" "pb' = pb\<lparr>buf_get := buf_get pb + n\<rparr>"
    using get le inv unfolding eff by (auto simp: buf_inv_def)
  have "buf_contents pb' = take (buf_put pb - (buf_get pb + n)) (drop (buf_get pb + n) (buf_buf pb))"
    using le(1) by (simp add: e(2) buf_contents_def)
  then have "buf_contents pb' = drop n (buf_contents pb)" by (simp add: c drop_take add.commute)
  moreover have "ys = take n (buf_contents pb)" using le by (simp add: e(1) c n_def min_def)
  ultimately show ?thesis using inv le by (auto simp: buf_inv_def buf_capacity_def e(2) n_def min_def)
next
  case False
  then have c: "buf_contents pb = drop (buf_get pb) (buf_buf pb) @ take (buf_put pb) (buf_buf pb)" by (simp add: buf_contents_def)
  have l: "length (buf_contents pb) = buf_size pb - buf_get pb + buf_put pb" "length (buf_buf pb) = buf_size pb" using inv c by (auto simp: buf_inv_def)
  have nb: "n - (buf_size pb - buf_get pb) \<le> buf_put pb" using l by (simp add: n_def)
  have ys: "ys = take n (drop (buf_get pb) (buf_buf pb)) @ take (n - (buf_size pb - buf_get pb)) (buf_buf pb)"
    using get unfolding eff by simp
  have "ys = take n (buf_contents pb)" unfolding ys using l nb by (simp add: c min_absorb1)
  moreover have "buf_contents pb' = drop n (buf_contents pb)"
  proof (cases "buf_get pb + n < buf_size pb")
    case T: True
    then have "pb' = pb\<lparr>buf_get := buf_get pb + n\<rparr>" using get unfolding eff by simp
    then show ?thesis using False T l by (simp add: buf_contents_def add.commute)
  next
    case F: False
    then have "pb' = pb\<lparr>buf_get := buf_get pb + n - buf_size pb\<rparr>" using get unfolding eff by simp
    moreover have "buf_get pb + n - buf_size pb \<le> buf_put pb" using l inv by (auto simp: buf_inv_def n_def)
    ultimately have "buf_contents pb' = take (buf_put pb - (buf_get pb + n - buf_size pb)) (drop (buf_get pb + n - buf_size pb) (buf_buf pb))"
      by (simp add: buf_contents_def)
    moreover have "drop n (buf_contents pb) = drop (n - (buf_size pb - buf_get pb)) (take (buf_put pb) (buf_buf pb))"
      using F l inv by (simp add: c buf_inv_def)
    moreover have "n - (buf_size pb - buf_get pb) = buf_get pb + n - buf_size pb" using F inv by (simp add: buf_inv_def)
    ultimately show ?thesis by (simp add: drop_take)
  qed
  moreover have "buf_inv pb' \<and> buf_capacity pb' = buf_capacity pb"
    using get inv l unfolding eff by (auto simp: buf_inv_def buf_capacity_def n_def)
  ultimately show ?thesis by (simp add: n_def min_def)
qed
qed

lemma buf_put_law:
  assumes inv: "buf_inv pb" and put: "ch34x_buf_put pb xs = (n, pb')"
  shows "buf_inv pb' \<and> buf_capacity pb' = buf_capacity pb \<and> n = min (length xs) (buf_capacity pb - length (buf_contents pb)) \<and>
    buf_contents pb' = buf_contents pb @ take n xs"
proof -
  define c where "c = min (length xs) (buf_capacity pb - length (buf_contents pb))"
  let ?g = "buf_get pb" and ?p = "buf_put pb" and ?S = "buf_size pb" and ?m = "buf_buf pb"
  have S: "length ?m = ?S" "?g < ?S" "?p < ?S" using inv by (simp_all add: buf_inv_def)
  have cap: "c \<le> ?S - 1 - length (buf_contents pb)" "c \<le> length xs" by (simp_all add: c_def buf_capacity_def)
  have cS: "c < ?S" using cap(1) S by linarith
  have eff: "n = c" "buf_put pb' = (if ?p + c < ?S then ?p + c else ?p + c - ?S)" "buf_get pb' = ?g" "buf_size pb' = ?S"
    "buf_buf pb' = (if ?S < ?p + c then copy_in 0 (take (c - (?S - ?p)) (drop (?S - ?p) xs)) (copy_in ?p (take (?S - ?p) xs) ?m) else copy_in ?p (take c xs) ?m)"
  proof -
    have c': "(if length xs > ch34x_buf_space_avail pb then ch34x_buf_space_avail pb else length xs) = c"
      by (simp add: c_def space_room [OF inv] min_def)
    have z: "copy_in ?p [] ?m = ?m" by (simp add: copy_in_def)
    have "(n, pb') = (if length xs \<le> ch34x_buf_space_avail pb \<and> c = 0 then (0, pb)
      else if c > ?S - ?p then (c, pb\<lparr>buf_buf := copy_in 0 (take (c - (?S - ?p)) (drop (?S - ?p) xs)) (copy_in ?p (take (?S - ?p) xs) ?m), buf_put := c - (?S - ?p)\<rparr>)
      else (c, pb\<lparr>buf_buf := copy_in ?p (take c xs) ?m, buf_put := (if c < ?S - ?p then ?p + c else if c = ?S - ?p then 0 else ?p)\<rparr>))"
      using put unfolding ch34x_buf_put_def Let_def c' by simp
    then show "n = c" "buf_put pb' = (if ?p + c < ?S then ?p + c else ?p + c - ?S)" "buf_get pb' = ?g" "buf_size pb' = ?S"
      "buf_buf pb' = (if ?S < ?p + c then copy_in 0 (take (c - (?S - ?p)) (drop (?S - ?p) xs)) (copy_in ?p (take (?S - ?p) xs) ?m) else copy_in ?p (take c xs) ?m)"
      using S z by (auto split: if_splits)
  qed
  have len: "length (buf_buf pb') = ?S" using S cap(2) cS by (auto simp: eff(5) copy_in_def)
  have "buf_contents pb' = buf_contents pb @ take c xs"
  proof (cases "?g \<le> ?p")
    case True
    have L: "c \<le> ?S - 1 - (?p - ?g)" "buf_contents pb = drop ?g (take ?p ?m)" using True cap(1) S by (simp_all add: buf_contents_def drop_take)
    consider (a) "?p + c < ?S" | (b) "?p + c = ?S" | (c) "?S < ?p + c" by linarith
    then show ?thesis
    proof cases
      case a
      then show ?thesis using True L(2) S cap(2) cS a by (simp add: buf_contents_def [of pb'] eff copy_in_def)
    next
      case b
      have "0 < ?g" using L(1) b S by simp
      then show ?thesis using True L(2) S cap(2) cS b by (simp add: buf_contents_def [of pb'] eff copy_in_def)
    next
      case c
      have "?p + c - ?S < ?g" using L(1) c S True by simp
      moreover have "take (?S - ?p) xs @ take (?p + c - ?S) (drop (?S - ?p) xs) = take c xs"
        using take_add [of "?S - ?p" "?p + c - ?S" xs] c S by simp
      ultimately show ?thesis using True L(2) S cap(2) cS c by (simp add: buf_contents_def [of pb'] eff copy_in_def)
    qed
  next
    case False
    then have "c < ?g - ?p" using cap(1) S by (auto simp: buf_contents_def)
    then have "?p + c < ?S" "\<not> ?g \<le> ?p + c" using S by linarith+
    then show ?thesis using False S cap(2) cS by (simp add: buf_contents_def eff copy_in_def)
  qed
  moreover have "buf_inv pb'" using S len eff(2-4) cS by (auto simp: buf_inv_def)
  ultimately show ?thesis using eff(1,4) by (simp add: buf_capacity_def c_def)
qed

lemma buf_bound: "buf_inv pb \<Longrightarrow> length (buf_contents pb) \<le> buf_capacity pb"
  by (auto simp: buf_inv_def buf_contents_def buf_capacity_def)

lemma buf_clear_law:
  "buf_inv pb \<Longrightarrow> buf_inv (ch34x_buf_clear pb) \<and> buf_capacity (ch34x_buf_clear pb) = buf_capacity pb \<and> buf_contents (ch34x_buf_clear pb) = []"
  by (simp add: buf_inv_def buf_contents_def ch34x_buf_clear_def buf_capacity_def)

interpretation ring: bounded_queue buf_inv buf_contents buf_capacity ch34x_buf_put ch34x_buf_get ch34x_buf_clear
  by (unfold_locales) (fact buf_put_law buf_get_law buf_clear_law buf_bound)+

lemma alloc_empty: "ch34x_buf_alloc mem = Some pb \<Longrightarrow> buf_inv pb \<and> buf_contents pb = [] \<and> buf_capacity pb = length mem - 1"
  by (auto simp: ch34x_buf_alloc_def buf_inv_def buf_contents_def buf_capacity_def split: if_splits)

text \<open>
  Property C36: the circular buffer is a queue. From a new buffer of any size, through any sequence of
  \<^verbatim>\<open>ch34x_buf_put\<close> and \<^verbatim>\<open>ch34x_buf_get\<close>, the bytes handed out and the bytes still held are the bytes accepted, in
  their order; the buffer never holds more than its size less one, and \<^verbatim>\<open>ch34x_buf_data_avail\<close> and
  \<^verbatim>\<open>ch34x_buf_space_avail\<close> count what it holds and what it still accepts.
\<close>

theorem ch34x_buffer_fifo:
  assumes "ch34x_buf_alloc mem = Some pb" "Clear \<notin> set ops"
    and "transfer ch34x_buf_put ch34x_buf_get ch34x_buf_clear ops pb = (accepted, delivered, pb')"
  shows "accepted = delivered @ buf_contents pb' \<and> ch34x_buf_data_avail pb' = length (buf_contents pb') \<and>
    ch34x_buf_data_avail pb' + ch34x_buf_space_avail pb' = length mem - 1"
proof -
  note a = alloc_empty [OF assms(1)]
  have t: "buf_inv pb'" "buf_capacity pb' = length mem - 1" "accepted = delivered @ buf_contents pb'"
    using ring.transfer_fifo [OF _ assms(2,3)] a by auto
  show ?thesis using avail_length [OF t(1)] space_room [OF t(1)] ring.bound [OF t(1)] t(2,3) by simp
qed

definition ex_ops :: "nat queue_op list" where
  "ex_ops = [Put [1, 2, 3], Get 2, Put [4, 5, 6, 7], Get 3]"

lemma ex_transfer:
  "transfer ch34x_buf_put ch34x_buf_get ch34x_buf_clear ex_ops \<lparr>buf_size = 4, buf_buf = [0, 0, 0, 0], buf_get = 0, buf_put = 0\<rparr> =
     ([1, 2, 3, 4, 5], [1, 2, 3, 4, 5], \<lparr>buf_size = 4, buf_buf = [5, 2, 3, 4], buf_get = 1, buf_put = 1\<rparr>)"
  by code_simp

theorem ch34x_buffer_fifo_witness:
  "[1, 2, 3, 4, 5] = [1, 2, 3, 4, 5] @ buf_contents \<lparr>buf_size = 4, buf_buf = [5, 2, 3, 4 :: nat], buf_get = 1, buf_put = 1\<rparr>"
proof -
  have "ch34x_buf_alloc [0, 0, 0, 0 :: nat] = Some \<lparr>buf_size = 4, buf_buf = [0, 0, 0, 0], buf_get = 0, buf_put = 0\<rparr>"
    by (simp add: ch34x_buf_alloc_def)
  from ch34x_buffer_fifo [OF this _ ex_transfer] show ?thesis by (simp add: ex_ops_def)
qed

end
