(* ===== verification/Ch34x_Send.thy ===== *)
theory Ch34x_Send
  imports Ch34x_Buffer
begin

text \<open>
  The transmitting side of the CH340/CH341 serial driver (\<^verbatim>\<open>contrib/packages/ch34/src/ch34x.c\<close>): \<^verbatim>\<open>ch34x_write\<close>
  puts bytes into the circular buffer, \<^verbatim>\<open>ch34x_send\<close> hands a part of them to the USB core as one request
  (URB), and \<^verbatim>\<open>ch34x_write_bulk_callback\<close> runs when the request has ended. The handlers are atomic steps. What
  the USB core answers is an argument: whether a request is accepted, and how it ends.
\<close>

section \<open>The handlers\<close>

text \<open>The request holds the first \<^verbatim>\<open>transfer_buffer_length\<close> bytes of its buffer.\<close>

record 'a ch34x_port =
  tx_buf :: "'a ch34x_buf"
  write_urb_in_use :: bool
  write_urb :: "'a list"

definition ch34x_send :: "nat \<Rightarrow> bool \<Rightarrow> 'a ch34x_port \<Rightarrow> 'a ch34x_port" where
  "ch34x_send bulk_out_size submitted port =
    (if write_urb_in_use port then port
     else
       let (bytes, pb) = ch34x_buf_get (tx_buf port) bulk_out_size;
           port1 = port\<lparr>tx_buf := pb\<rparr> in
       if length bytes = 0 then port1
       else port1\<lparr>write_urb_in_use := submitted, write_urb := bytes\<rparr>)"

definition ch34x_write :: "nat \<Rightarrow> bool \<Rightarrow> 'a list \<Rightarrow> 'a ch34x_port \<Rightarrow> nat \<times> 'a ch34x_port" where
  "ch34x_write bulk_out_size submitted bytes port =
    (if bytes = [] then (0, port)
     else let (count, pb) = ch34x_buf_put (tx_buf port) bytes in
          (count, ch34x_send bulk_out_size submitted (port\<lparr>tx_buf := pb\<rparr>)))"

text \<open>The status of a request; a failed one is submitted again with one byte, and the flag says whether that succeeds.\<close>

datatype urb_status = Success | Terminated | Failed bool

definition ch34x_write_bulk_callback :: "nat \<Rightarrow> urb_status \<Rightarrow> bool \<Rightarrow> 'a ch34x_port \<Rightarrow> 'a ch34x_port" where
  "ch34x_write_bulk_callback bulk_out_size status submitted port =
    (case status of
       Success \<Rightarrow> ch34x_send bulk_out_size submitted (port\<lparr>write_urb_in_use := False\<rparr>)
     | Terminated \<Rightarrow> port\<lparr>write_urb_in_use := False\<rparr>
     | Failed resubmitted \<Rightarrow>
         let port1 = port\<lparr>write_urb := take 1 (write_urb port)\<rparr> in
         if resubmitted then port1
         else ch34x_send bulk_out_size submitted (port1\<lparr>write_urb_in_use := False\<rparr>))"

definition ch34x_write_room :: "'a ch34x_port \<Rightarrow> nat" where
  "ch34x_write_room port = ch34x_buf_space_avail (tx_buf port)"

definition ch34x_chars_in_buffer :: "'a ch34x_port \<Rightarrow> nat" where
  "ch34x_chars_in_buffer port = ch34x_buf_data_avail (tx_buf port)"

section \<open>Runs\<close>

text \<open>
  The port with the bytes that \<^verbatim>\<open>ch34x_write\<close> has accepted and those the device has received. The USB core
  accepts every request, and every request ends with success.
\<close>

type_synonym 'a run_state = "'a ch34x_port \<times> 'a list \<times> 'a list"

definition complete :: "nat \<Rightarrow> 'a run_state \<Rightarrow> 'a run_state" where
  "complete n = (\<lambda>(p, acc, sent).
    if write_urb_in_use p then (ch34x_write_bulk_callback n Success True p, acc, sent @ write_urb p) else (p, acc, sent))"

inductive run_step :: "nat \<Rightarrow> 'a run_state \<Rightarrow> 'a run_state \<Rightarrow> bool" for n where
  written: "ch34x_write n True bs p = (k, p') \<Longrightarrow> run_step n (p, acc, sent) (p', acc @ take k bs, sent)"
| completed: "write_urb_in_use p \<Longrightarrow> run_step n (p, acc, sent) (complete n (p, acc, sent))"

inductive reachable :: "nat \<Rightarrow> 'a list \<Rightarrow> 'a run_state \<Rightarrow> bool" for n mem where
  start: "ch34x_buf_alloc mem = Some pb \<Longrightarrow> reachable n mem (\<lparr>tx_buf = pb, write_urb_in_use = False, write_urb = urb\<rparr>, [], [])"
| step: "reachable n mem s \<Longrightarrow> run_step n s s' \<Longrightarrow> reachable n mem s'"

definition pending :: "'a ch34x_port \<Rightarrow> 'a list" where
  "pending p = (if write_urb_in_use p then write_urb p else []) @ buf_contents (tx_buf p)"

text \<open>Nothing is lost, and while bytes wait, a request that will fetch them is under way.\<close>

definition run_ok :: "'a run_state \<Rightarrow> bool" where
  "run_ok = (\<lambda>(p, acc, sent). buf_inv (tx_buf p) \<and> acc = sent @ pending p \<and>
    (write_urb_in_use p \<longrightarrow> write_urb p \<noteq> []) \<and> (\<not> write_urb_in_use p \<longrightarrow> buf_contents (tx_buf p) = []))"

lemma send_keeps:
  assumes "buf_inv (tx_buf p)" "0 < n" "write_urb_in_use p \<longrightarrow> write_urb p \<noteq> []"
  shows "buf_inv (tx_buf (ch34x_send n True p)) \<and> pending (ch34x_send n True p) = pending p \<and>
    (write_urb_in_use (ch34x_send n True p) \<longrightarrow> write_urb (ch34x_send n True p) \<noteq> []) \<and>
    (\<not> write_urb_in_use (ch34x_send n True p) \<longrightarrow> buf_contents (tx_buf (ch34x_send n True p)) = [])"
proof (cases "write_urb_in_use p")
  case False
  obtain bs pb where g: "ch34x_buf_get (tx_buf p) n = (bs, pb)" by fastforce
  note l = ring.get_law [OF assms(1) g]
  show ?thesis using False g l assms(2) by (auto simp: ch34x_send_def Let_def pending_def)
qed (use assms in \<open>simp add: ch34x_send_def\<close>)

lemma write_ok:
  assumes "run_ok (p, acc, sent)" "ch34x_write n True bs p = (k, p')" "0 < n"
  shows "run_ok (p', acc @ take k bs, sent)"
proof (cases "bs = []")
  case False
  obtain pb where g: "ch34x_buf_put (tx_buf p) bs = (k, pb)" "p' = ch34x_send n True (p\<lparr>tx_buf := pb\<rparr>)"
    using assms(2) False by (auto simp: ch34x_write_def split: prod.splits)
  have i: "buf_inv (tx_buf p)" using assms(1) by (simp add: run_ok_def)
  note l = ring.put_law [OF i g(1)]
  have "pending (p\<lparr>tx_buf := pb\<rparr>) = pending p @ take k bs" using l by (simp add: pending_def)
  then show ?thesis using send_keeps [of "p\<lparr>tx_buf := pb\<rparr>" n] assms(1,3) l g(2) by (auto simp: run_ok_def)
qed (use assms in \<open>auto simp: ch34x_write_def\<close>)

lemma complete_ok:
  assumes "run_ok (p, acc, sent)" "0 < n"
  shows "run_ok (complete n (p, acc, sent))"
proof (cases "write_urb_in_use p")
  case True
  have "pending p = write_urb p @ pending (p\<lparr>write_urb_in_use := False\<rparr>)" using True by (simp add: pending_def)
  then show ?thesis using send_keeps [of "p\<lparr>write_urb_in_use := False\<rparr>" n] assms True
    by (auto simp: run_ok_def complete_def ch34x_write_bulk_callback_def)
qed (use assms in \<open>simp add: complete_def\<close>)

lemma reachable_ok: "reachable n mem s \<Longrightarrow> 0 < n \<Longrightarrow> run_ok s"
proof (induction rule: reachable.induct)
  case (start pb urb)
  then show ?case using alloc_empty [OF start(1)] by (simp add: run_ok_def pending_def)
next
  case (step s s')
  from step(2,3,4) show ?case by (cases rule: run_step.cases) (auto simp: write_ok complete_ok)
qed

lemma drains:
  "run_ok (p, acc, sent) \<Longrightarrow> 0 < n \<Longrightarrow> length acc - length sent \<le> k \<Longrightarrow>
    \<exists>p'. (complete n ^^ k) (p, acc, sent) = (p', acc, acc) \<and> run_ok (p', acc, acc)"
proof (induction k arbitrary: p sent)
  case 0
  then have "sent = acc" by (auto simp: run_ok_def)
  then show ?case using 0 by auto
next
  case (Suc k)
  show ?case
  proof (cases "write_urb_in_use p")
    case True
    let ?p = "ch34x_write_bulk_callback n Success True p" and ?sent = "sent @ write_urb p"
    have c: "complete n (p, acc, sent) = (?p, acc, ?sent)" using True by (simp add: complete_def)
    have "write_urb p \<noteq> []" using Suc(2) True by (simp add: run_ok_def)
    then have "length acc - length ?sent \<le> k" using Suc(4) by (cases "write_urb p") auto
    from Suc(1) [OF _ Suc(3) this, of ?p] show ?thesis using complete_ok [OF Suc(2,3)] c by (simp add: funpow_Suc_right del: funpow.simps)
  next
    case False
    then have "sent = acc" "complete n (p, acc, sent) = (p, acc, sent)" using Suc(2) by (simp_all add: run_ok_def pending_def complete_def)
    then show ?thesis using Suc(1) [of p sent] Suc(2,3) by (simp add: funpow_Suc_right del: funpow.simps)
  qed
qed

text \<open>
  Property C37: what is written is transmitted. When the USB core accepts the requests and they succeed, then
  at every moment the device has received a part of the accepted bytes, in their order, and after at most
  as many completed requests as bytes are missing it has received all of them; the driver is then idle.
\<close>

theorem ch34x_write_transmitted:
  assumes "reachable n mem (p, acc, sent)" "0 < n" "length acc - length sent \<le> k"
  shows "acc = sent @ pending p \<and>
    (\<exists>p'. (complete n ^^ k) (p, acc, sent) = (p', acc, acc) \<and> \<not> write_urb_in_use p' \<and> ch34x_chars_in_buffer p' = 0)"
proof -
  have ok: "run_ok (p, acc, sent)" by (rule reachable_ok [OF assms(1,2)])
  from drains [OF this assms(2,3)] obtain p' where p': "(complete n ^^ k) (p, acc, sent) = (p', acc, acc)" "run_ok (p', acc, acc)" by blast
  then have "pending p' = []" by (simp add: run_ok_def)
  then have "\<not> write_urb_in_use p'" "buf_contents (tx_buf p') = []" using p'(2) by (auto simp: run_ok_def pending_def split: if_splits)
  then show ?thesis using p' ok avail_length [of "tx_buf p'"] by (auto simp: run_ok_def ch34x_chars_in_buffer_def)
qed

section \<open>Examples\<close>

definition ex_port :: "nat ch34x_port" where
  "ex_port = \<lparr>tx_buf = \<lparr>buf_size = 4, buf_buf = [0, 0, 0, 0], buf_get = 0, buf_put = 0\<rparr>, write_urb_in_use = False, write_urb = []\<rparr>"

theorem ch34x_write_transmitted_witness:
  "\<exists>p'. (complete 2 ^^ 3) (snd (ch34x_write 2 True [7, 8, 9] ex_port), [7, 8, 9], []) = (p', [7, 8, 9], [7, 8, 9]) \<and> \<not> write_urb_in_use p'"
proof -
  have "reachable 2 [0, 0, 0, 0] (ex_port, [], [])"
    unfolding ex_port_def by (rule reachable.start) (simp add: ch34x_buf_alloc_def)
  moreover have w: "fst (ch34x_write 2 True [7, 8, 9] ex_port) = 3" by code_simp
  have "run_step 2 (ex_port, [], []) (snd (ch34x_write 2 True [7, 8, 9] ex_port), [] @ take (fst (ch34x_write 2 True [7, 8, 9] ex_port)) [7, 8, 9], [])"
    by (rule run_step.written) simp
  ultimately have "reachable 2 [0, 0, 0, 0] (snd (ch34x_write 2 True [7, 8, 9] ex_port), [7, 8, 9], [])"
    unfolding w by (auto intro: reachable.step)
  from ch34x_write_transmitted [OF this, of 3] show ?thesis by auto
qed

text \<open>
  When a request fails, \<^verbatim>\<open>ch34x_write_bulk_callback\<close> submits it again with its first byte only; the other bytes of
  the request are lost. When \<^verbatim>\<open>usb_submit_urb\<close> refuses a request, its bytes are lost, and the bytes behind them
  wait in the buffer although no request is under way.
\<close>

lemma ch34x_failed_urb_loses_bytes:
  "write_urb (ch34x_write_bulk_callback n (Failed True) True (p\<lparr>write_urb_in_use := True, write_urb := [1, 2, 3]\<rparr>)) = [1]"
  by (simp add: ch34x_write_bulk_callback_def)

lemma ch34x_refused_urb_stalls:
  "let (k, p) = ch34x_write 2 False [7, 8, 9] ex_port in k = 3 \<and> \<not> write_urb_in_use p \<and> buf_contents (tx_buf p) = [9]"
  by code_simp

end
