(* ===== verification/Mkpimage.thy ===== *)
theory Mkpimage
  imports Byte_Prelude
begin

text \<open>
  \<^verbatim>\<open>mkpimage\<close> (\<^verbatim>\<open>package/mkpimage/mkpimage.c\<close>), which makes a boot image for the SoC FPGA: it writes the header
  the boot ROM checks into the input, pads it to whole words and appends a CRC. The program runs on a
  little-endian host. The system is a parameter: the sizes and contents of files, and how many bytes each call of
  \<^verbatim>\<open>read\<close> and \<^verbatim>\<open>write\<close> moves.
\<close>

unbundle bit_operations_syntax

definition VALIDATION_WORD :: uint32 where
  "VALIDATION_WORD = 0x31305341"

definition MAX_IMAGE_SIZE :: nat where
  "MAX_IMAGE_SIZE = 60 * 1024 - 4"

definition bb_header :: "uint32 list" where
  "bb_header =
   [0xea00007e, 0xeafffffe, 0xeafffffe, 0xeafffffe, 0xeafffffe, 0xeafffffe, 0xeafffffe, 0xeafffffe,
    0x65726162, 0x00786f62, 0x00000000, 0x00000000, 0x00000000, 0x00000000, 0x00000000, 0x00000000,
    0x00000000, 0x00000000, 0x00000000, 0xea00006b]"

section \<open>Input and output\<close>

text \<open>
  What a call of \<^verbatim>\<open>read\<close> or \<^verbatim>\<open>write\<close> does: it fails, or moves at most the given number of bytes. A \<^verbatim>\<open>read\<close>
  moves at least one byte unless the file has ended.
\<close>

datatype io_result = Moved nat | Failed

function read_full :: "(nat \<Rightarrow> io_result) \<Rightarrow> nat \<Rightarrow> byte list \<Rightarrow> nat \<Rightarrow> byte list \<Rightarrow> int \<times> byte list" where
  "read_full io k file sz got =
    (if sz = 0 then (int (length got), got)
     else case io k of
            Failed \<Rightarrow> (-1, got)
          | Moved n \<Rightarrow>
              let now = min (Suc n) (min sz (length file)) in
              if now = 0 then (int (length got), got)
              else read_full io (Suc k) (drop now file) (sz - now) (got @ take now file))"
  by pat_completeness auto

termination read_full
  by (relation "measure (\<lambda>(io, k, file, sz, got). sz)") auto

function write_full :: "(nat \<Rightarrow> io_result) \<Rightarrow> nat \<Rightarrow> byte list \<Rightarrow> byte list \<Rightarrow> int \<times> byte list" where
  "write_full io k buf written =
    (if buf = [] then (int (length written), written)
     else case io k of
            Failed \<Rightarrow> (-1, written)
          | Moved n \<Rightarrow>
              if n = 0 then (0, written)
              else write_full io (Suc k) (drop n buf) (written @ take n buf))"
  by pat_completeness auto

termination write_full
  by (relation "measure (\<lambda>(io, k, buf, written). length buf)") auto

declare read_full.simps [simp del] write_full.simps [simp del]

section \<open>The checksum\<close>

definition crc_table :: "uint32 list" where
  "crc_table =
   [0x00000000, 0x04c11db7, 0x09823b6e, 0x0d4326d9, 0x130476dc, 0x17c56b6b, 0x1a864db2, 0x1e475005,
    0x2608edb8, 0x22c9f00f, 0x2f8ad6d6, 0x2b4bcb61, 0x350c9b64, 0x31cd86d3, 0x3c8ea00a, 0x384fbdbd,
    0x4c11db70, 0x48d0c6c7, 0x4593e01e, 0x4152fda9, 0x5f15adac, 0x5bd4b01b, 0x569796c2, 0x52568b75,
    0x6a1936c8, 0x6ed82b7f, 0x639b0da6, 0x675a1011, 0x791d4014, 0x7ddc5da3, 0x709f7b7a, 0x745e66cd,
    0x9823b6e0, 0x9ce2ab57, 0x91a18d8e, 0x95609039, 0x8b27c03c, 0x8fe6dd8b, 0x82a5fb52, 0x8664e6e5,
    0xbe2b5b58, 0xbaea46ef, 0xb7a96036, 0xb3687d81, 0xad2f2d84, 0xa9ee3033, 0xa4ad16ea, 0xa06c0b5d,
    0xd4326d90, 0xd0f37027, 0xddb056fe, 0xd9714b49, 0xc7361b4c, 0xc3f706fb, 0xceb42022, 0xca753d95,
    0xf23a8028, 0xf6fb9d9f, 0xfbb8bb46, 0xff79a6f1, 0xe13ef6f4, 0xe5ffeb43, 0xe8bccd9a, 0xec7dd02d,
    0x34867077, 0x30476dc0, 0x3d044b19, 0x39c556ae, 0x278206ab, 0x23431b1c, 0x2e003dc5, 0x2ac12072,
    0x128e9dcf, 0x164f8078, 0x1b0ca6a1, 0x1fcdbb16, 0x018aeb13, 0x054bf6a4, 0x0808d07d, 0x0cc9cdca,
    0x7897ab07, 0x7c56b6b0, 0x71159069, 0x75d48dde, 0x6b93dddb, 0x6f52c06c, 0x6211e6b5, 0x66d0fb02,
    0x5e9f46bf, 0x5a5e5b08, 0x571d7dd1, 0x53dc6066, 0x4d9b3063, 0x495a2dd4, 0x44190b0d, 0x40d816ba,
    0xaca5c697, 0xa864db20, 0xa527fdf9, 0xa1e6e04e, 0xbfa1b04b, 0xbb60adfc, 0xb6238b25, 0xb2e29692,
    0x8aad2b2f, 0x8e6c3698, 0x832f1041, 0x87ee0df6, 0x99a95df3, 0x9d684044, 0x902b669d, 0x94ea7b2a,
    0xe0b41de7, 0xe4750050, 0xe9362689, 0xedf73b3e, 0xf3b06b3b, 0xf771768c, 0xfa325055, 0xfef34de2,
    0xc6bcf05f, 0xc27dede8, 0xcf3ecb31, 0xcbffd686, 0xd5b88683, 0xd1799b34, 0xdc3abded, 0xd8fba05a,
    0x690ce0ee, 0x6dcdfd59, 0x608edb80, 0x644fc637, 0x7a089632, 0x7ec98b85, 0x738aad5c, 0x774bb0eb,
    0x4f040d56, 0x4bc510e1, 0x46863638, 0x42472b8f, 0x5c007b8a, 0x58c1663d, 0x558240e4, 0x51435d53,
    0x251d3b9e, 0x21dc2629, 0x2c9f00f0, 0x285e1d47, 0x36194d42, 0x32d850f5, 0x3f9b762c, 0x3b5a6b9b,
    0x0315d626, 0x07d4cb91, 0x0a97ed48, 0x0e56f0ff, 0x1011a0fa, 0x14d0bd4d, 0x19939b94, 0x1d528623,
    0xf12f560e, 0xf5ee4bb9, 0xf8ad6d60, 0xfc6c70d7, 0xe22b20d2, 0xe6ea3d65, 0xeba91bbc, 0xef68060b,
    0xd727bbb6, 0xd3e6a601, 0xdea580d8, 0xda649d6f, 0xc423cd6a, 0xc0e2d0dd, 0xcda1f604, 0xc960ebb3,
    0xbd3e8d7e, 0xb9ff90c9, 0xb4bcb610, 0xb07daba7, 0xae3afba2, 0xaafbe615, 0xa7b8c0cc, 0xa379dd7b,
    0x9b3660c6, 0x9ff77d71, 0x92b45ba8, 0x9675461f, 0x8832161a, 0x8cf30bad, 0x81b02d74, 0x857130c3,
    0x5d8a9099, 0x594b8d2e, 0x5408abf7, 0x50c9b640, 0x4e8ee645, 0x4a4ffbf2, 0x470cdd2b, 0x43cdc09c,
    0x7b827d21, 0x7f436096, 0x7200464f, 0x76c15bf8, 0x68860bfd, 0x6c47164a, 0x61043093, 0x65c52d24,
    0x119b4be9, 0x155a565e, 0x18197087, 0x1cd86d30, 0x029f3d35, 0x065e2082, 0x0b1d065b, 0x0fdc1bec,
    0x3793a651, 0x3352bbe6, 0x3e119d3f, 0x3ad08088, 0x2497d08d, 0x2056cd3a, 0x2d15ebe3, 0x29d4f654,
    0xc5a92679, 0xc1683bce, 0xcc2b1d17, 0xc8ea00a0, 0xd6ad50a5, 0xd26c4d12, 0xdf2f6bcb, 0xdbee767c,
    0xe3a1cbc1, 0xe760d676, 0xea23f0af, 0xeee2ed18, 0xf0a5bd1d, 0xf464a0aa, 0xf9278673, 0xfde69bc4,
    0x89b8fd09, 0x8d79e0be, 0x803ac667, 0x84fbdbd0, 0x9abc8bd5, 0x9e7d9662, 0x933eb0bb, 0x97ffad0c,
    0xafb010b1, 0xab710d06, 0xa6322bdf, 0xa2f33668, 0xbcb4666d, 0xb8757bda, 0xb5365d03, 0xb1f740b4]"

definition crc_step :: "uint32 \<Rightarrow> byte \<Rightarrow> uint32" where
  "crc_step crc b = push_bit 8 crc XOR crc_table ! unat ((drop_bit 24 crc XOR ucast b) AND 0xff)"

definition crc32 :: "uint32 \<Rightarrow> byte list \<Rightarrow> uint32" where
  "crc32 crc buf = foldl crc_step crc buf"

section \<open>The header\<close>

text \<open>\<open>None\<close> is \<^verbatim>\<open>-EINVAL\<close>.\<close>

definition add_socfpga_header :: "byte list \<Rightarrow> nat \<Rightarrow> byte list option" where
  "add_socfpga_header buf sz =
    (let len = sz div 4 in
     if sz mod 4 \<noteq> 0 then None
     else
       let buf1 = put_bytes 0x40 (word_bytes VALIDATION_WORD @ [0, 0, of_nat len, of_nat (len div 256), 0, 0]) buf;
           checksum = sum_list (map ucast (take 10 (drop 0x40 buf1))) :: uint32;
           buf2 = put_bytes 0x4a [ucast checksum, ucast (drop_bit 8 checksum)] buf1;
           crc = crc32 0xffffffff (take (sz - 4) buf2) XOR 0xffffffff in
       Some (put_bytes (sz - 4) (word_bytes crc) buf2))"

section \<open>The program\<close>

datatype option_arg = Opt_b | Opt_h | Opt_o string | Opt_invalid

record image_options =
  add_barebox_header :: bool
  outfile :: "string option"
  min_image_size :: nat
  max_image_size :: nat
  addsize :: nat

definition no_options :: image_options where
  "no_options = \<lparr>add_barebox_header = False, outfile = None, min_image_size = 80, max_image_size = MAX_IMAGE_SIZE, addsize = 0\<rparr>"

text \<open>The loop over the options; \<open>Inl\<close> is the status of an exit.\<close>

fun image_opts :: "option_arg list \<Rightarrow> image_options \<Rightarrow> int + image_options" where
  "image_opts [] opts = Inr opts"
| "image_opts (Opt_b # as) opts =
     image_opts as (opts\<lparr>add_barebox_header := True, min_image_size := 0, max_image_size := MAX_IMAGE_SIZE - 512,
       addsize := 512\<rparr>)"
| "image_opts (Opt_h # as) opts = Inl 0"
| "image_opts (Opt_o f # as) opts = image_opts as (opts\<lparr>outfile := Some f\<rparr>)"
| "image_opts (Opt_invalid # as) opts = Inl 1"

record image_system =
  sys_stat :: "string \<Rightarrow> nat option"
  sys_open :: "string \<Rightarrow> byte list option"
  sys_read :: "nat \<Rightarrow> io_result"
  sys_creat :: "string \<Rightarrow> bool"
  sys_write :: "nat \<Rightarrow> io_result"

definition pad_bytes :: "nat \<Rightarrow> nat" where
  "pad_bytes n = (if n mod 4 \<noteq> 0 then 4 - n mod 4 else 0)"

definition bb_header_bytes :: "byte list" where
  "bb_header_bytes = concat (map word_bytes bb_header)"

text \<open>
  The image of an input of \<open>n\<close> bytes, of which \<open>got\<close> were read: the buffer as the program
  fills it before the header is added.
\<close>

definition image_buffer :: "image_options \<Rightarrow> nat \<Rightarrow> byte list \<Rightarrow> byte list" where
  "image_buffer opts n got =
    (let buf = put_bytes (addsize opts) got (replicate (n + 4 + addsize opts + pad_bytes n) 0) in
     if add_barebox_header opts then put_bytes 0 bb_header_bytes buf else buf)"

text \<open>
  The status the program exits with and what it has written to the output file, if it has opened it. An
  output file that was not named cannot be opened.
\<close>

definition mkpimage :: "image_system \<Rightarrow> option_arg list \<Rightarrow> string option \<Rightarrow> int \<times> (string \<times> byte list) option" where
  "mkpimage sys args infile =
    (case image_opts args no_options of
       Inl status \<Rightarrow> (status, None)
     | Inr opts \<Rightarrow>
       case infile of
         None \<Rightarrow> (1, None)
       | Some f \<Rightarrow>
       case sys_stat sys f of
         None \<Rightarrow> (1, None)
       | Some n \<Rightarrow>
         if n < min_image_size opts \<or> n > max_image_size opts then (1, None)
         else
           case sys_open sys f of
             None \<Rightarrow> (1, None)
           | Some file \<Rightarrow>
             let (ret, got) = read_full (sys_read sys) 0 file n [] in
             if ret < 0 then (1, None)
             else
               case add_socfpga_header (image_buffer opts n got) (n + 4 + addsize opts + pad_bytes n) of
                 None \<Rightarrow> (1, None)
               | Some buf \<Rightarrow>
                 case outfile opts of
                   None \<Rightarrow> (1, None)
                 | Some out \<Rightarrow>
                   if \<not> sys_creat sys out then (1, None)
                   else
                     let (ret, written) = write_full (sys_write sys) 0 buf [] in
                     (if ret < 0 then 1 else 0, Some (out, written)))"

end
