(* ===== verification/Mkpimage_Props.thy ===== *)
theory Mkpimage_Props
  imports Mkpimage
begin

text \<open>
  The image \<^verbatim>\<open>mkpimage\<close> writes passes the checks of the boot ROM, stated with the CRC computed bit by bit from its
  polynomial: the table of \<^verbatim>\<open>mkpimage.c\<close> is shown to give the same.
\<close>

unbundle bit_operations_syntax

section \<open>The CRC, bit by bit\<close>

text \<open>
  The register is shifted left by one bit for each bit of the data, the first bit of a byte being the most
  significant one; when the bit shifted out differs from the bit of the data, the polynomial
  \<open>x\<^sup>3\<^sup>2 + x\<^sup>2\<^sup>6 + \<dots> + x + 1\<close> is subtracted.
\<close>

definition crc_bit :: "uint32 \<Rightarrow> bool \<Rightarrow> uint32" where
  "crc_bit r b = push_bit 1 r XOR (if bit r 31 \<noteq> b then 0x04c11db7 else 0)"

definition byte_bits :: "byte \<Rightarrow> bool list" where
  "byte_bits b = map (bit b) [7, 6, 5, 4, 3, 2, 1, 0]"

definition crc_bits :: "uint32 \<Rightarrow> byte list \<Rightarrow> uint32" where
  "crc_bits r bs = foldl crc_bit r (concat (map byte_bits bs))"


abbreviation shift_in :: "uint32 \<Rightarrow> uint32" where
  "shift_in r \<equiv> crc_bit r False"

lemma shift_in_xor: "shift_in (r XOR s) = shift_in r XOR shift_in s"
  by (rule bit_word_eqI) (auto simp: crc_bit_def bit_simps)

lemma shift_in_small: "\<not> bit r 31 \<Longrightarrow> shift_in r = push_bit 1 r"
  by (simp add: crc_bit_def)

lemma crc_bit_shift: "crc_bit r b = shift_in (r XOR push_bit 31 (of_bool b))"
  by (rule bit_word_eqI) (auto simp: crc_bit_def bit_simps simp del: push_bit_of_1)

lemma shifts_xor: "(shift_in ^^ n) (r XOR s) = (shift_in ^^ n) r XOR (shift_in ^^ n) s"
  by (induction n) (simp_all add: shift_in_xor)

lemma shifts_small: "(\<And>i. 32 - n \<le> i \<Longrightarrow> i < 32 \<Longrightarrow> \<not> bit r i) \<Longrightarrow> n \<le> 32 \<Longrightarrow> (shift_in ^^ n) r = push_bit n r"
proof (induction n)
  case (Suc n)
  have "\<not> bit (push_bit n r) 31"
    using Suc.prems(1) [of "31 - n"] Suc.prems(2) by (auto simp: bit_simps)
  moreover have "(shift_in ^^ n) r = push_bit n r" using Suc by simp
  ultimately show ?case by (simp add: shift_in_small push_bit_push_bit del: push_bit_Suc)
qed simp

definition table_entry :: "uint32 \<Rightarrow> uint32" where
  "table_entry w = (shift_in ^^ 8) (push_bit 24 w)"

lemma crc_bits_shift:
  "foldl crc_bit r bs = (shift_in ^^ length bs) r XOR foldl crc_bit 0 bs"
proof (induction bs arbitrary: r)
  case (Cons b bs)
  have "foldl crc_bit r (b # bs) = (shift_in ^^ length bs) (crc_bit r b) XOR foldl crc_bit 0 bs"
    using Cons [of "crc_bit r b"] by simp
  also have "crc_bit r b = shift_in r XOR crc_bit 0 b"
    using crc_bit_shift [of r b] crc_bit_shift [of 0 b] by (simp add: shift_in_xor)
  also have "(shift_in ^^ length bs) \<dots> = (shift_in ^^ length (b # bs)) r XOR (shift_in ^^ length bs) (crc_bit 0 b)"
    by (simp only: shifts_xor length_Cons funpow_Suc_right o_apply)
  finally show ?case using Cons [of "crc_bit 0 b"] by (simp add: xor.assoc)
qed simp


definition bits_word :: "bool list \<Rightarrow> uint32" where
  "bits_word = foldl (\<lambda>w b. push_bit 1 w XOR of_bool b) 0"

lemma crc_bits_word:
  "length bs \<le> 32 \<Longrightarrow> foldl crc_bit 0 bs = (shift_in ^^ length bs) (push_bit (32 - length bs) (bits_word bs))"
proof (induction bs rule: rev_induct)
  case Nil
  have "push_bit 32 (w :: uint32) = 0" for w by (rule bit_word_eqI) (simp add: bit_simps)
  then show ?case by simp
next
  case (snoc b bs)
  let ?n = "length bs"
  have n: "32 - ?n = Suc (31 - ?n)" using snoc.prems by simp
  have last: "push_bit 31 (of_bool b) = (shift_in ^^ ?n) (push_bit (31 - ?n) (of_bool b))"
    using snoc.prems by (subst shifts_small) (auto simp: bit_simps push_bit_push_bit split: if_splits)
  have "foldl crc_bit 0 (bs @ [b]) =
      shift_in ((shift_in ^^ ?n) (push_bit (32 - ?n) (bits_word bs) XOR push_bit (31 - ?n) (of_bool b)))"
    using snoc by (simp add: crc_bit_shift [of _ b] last shifts_xor del: push_bit_of_1)
  also have "push_bit (32 - ?n) (bits_word bs) XOR push_bit (31 - ?n) (of_bool b) = push_bit (31 - ?n) (bits_word (bs @ [b]))"
    unfolding n bits_word_def by (simp add: push_bit_xor push_bit_push_bit del: push_bit_of_1 push_bit_Suc)
  finally show ?case using snoc.prems by simp
qed

lemma length_byte_bits: "length (byte_bits b) = 8"
  by (simp add: byte_bits_def)

lemma bit_bits_word: "n < 32 \<Longrightarrow> bit (bits_word bs) n = (n < length bs \<and> rev bs ! n)"
proof (induction bs arbitrary: n rule: rev_induct)
  case (snoc b bs)
  have "bits_word (bs @ [b]) = push_bit 1 (bits_word bs) XOR of_bool b" by (simp add: bits_word_def)
  then show ?case using snoc by (cases n) (simp_all only: bit_simps, auto simp: bit_simps)
qed (simp add: bits_word_def)

lemma bits_word_byte: "bits_word (byte_bits b) = ucast b"
proof (rule bit_word_eqI)
  fix n :: nat
  assume n: "n < LENGTH(32)"
  have "rev (byte_bits b) = map (bit b) [0..<8]" by (simp add: byte_bits_def numeral_eq_Suc)
  then show "bit (bits_word (byte_bits b)) n = bit (ucast b :: uint32) n"
    using n bit_imp_le_length [of b n] by (auto simp: bit_bits_word length_byte_bits bit_simps)
qed

lemma byte_shift: "foldl crc_bit 0 (byte_bits b) = table_entry (ucast b)"
  using crc_bits_word [of "byte_bits b"] length_byte_bits [of b]
  by (simp add: bits_word_byte table_entry_def del: funpow.simps)

lemma crc_step_bits: "foldl crc_bit r (byte_bits b) = push_bit 8 r XOR table_entry (ucast (drop_bit 24 r) XOR ucast b)"
proof -
  let ?lo = "take_bit 24 r" and ?hi = "push_bit 24 (drop_bit 24 r)"
  have r: "r = ?lo XOR ?hi"
    by (rule bit_word_eqI) (auto simp: bit_simps)
  have lo: "(shift_in ^^ 8) ?lo = push_bit 8 r"
  proof -
    have "(shift_in ^^ 8) ?lo = push_bit 8 ?lo" by (rule shifts_small) (auto simp: bit_simps)
    also have "\<dots> = push_bit 8 r" by (rule bit_word_eqI) (auto simp: bit_simps)
    finally show ?thesis .
  qed
  have "(shift_in ^^ 8) r = push_bit 8 r XOR table_entry (drop_bit 24 r)"
    by (subst r) (simp add: shifts_xor lo table_entry_def del: funpow.simps)
  then show ?thesis
    using crc_bits_shift [of r "byte_bits b"] byte_shift [of b] length_byte_bits [of b]
    by (simp add: table_entry_def push_bit_xor shifts_xor xor.assoc del: funpow.simps)
qed


section \<open>The table\<close>

text \<open>The entries for \<open>2 i\<close> and \<open>2 i + 1\<close> from the entry for \<open>i\<close>.\<close>

definition next_entries :: "uint32 list \<Rightarrow> uint32 list" where
  "next_entries rs = concat (map (\<lambda>r. [shift_in r, shift_in r XOR 0x04c11db7]) rs)"

lemma crc_table_doubles: "crc_table = next_entries (take 128 crc_table)"
  by (simp add: crc_table_def next_entries_def crc_bit_def)


lemma nth_next_entries:
  "i < length rs \<Longrightarrow> next_entries rs ! (2 * i) = shift_in (rs ! i)"
  "i < length rs \<Longrightarrow> next_entries rs ! (2 * i + 1) = shift_in (rs ! i) XOR 0x04c11db7"
proof (induction rs arbitrary: i)
  case (Cons r rs)
  { case 1 with Cons.IH(1) show ?case by (cases i) (auto simp: next_entries_def) }
  { case 2 with Cons.IH(2) show ?case by (cases i) (auto simp: next_entries_def) }
qed simp_all

lemma table_entry_double:
  assumes "i < 128"
  shows "table_entry (of_nat (2 * i)) = shift_in (table_entry (of_nat i))"
proof -
  have b: "\<not> bit (push_bit 24 (of_nat i :: uint32)) 31"
  proof -
    have "\<not> bit i 7" using assms by (simp add: bit_iff_odd)
    then show ?thesis by (simp add: bit_simps)
  qed
  have "push_bit 24 (of_nat (2 * i) :: uint32) = push_bit 1 (push_bit 24 (of_nat i))"
    by (simp add: push_bit_eq_mult mult.commute)
  then have "table_entry (of_nat (2 * i)) = (shift_in ^^ 8) (shift_in (push_bit 24 (of_nat i)))"
    by (simp only: table_entry_def shift_in_small [OF b])
  then show ?thesis using funpow_swap1 [of shift_in 8] by (simp only: table_entry_def)
qed

lemma table_entry_one: "table_entry 1 = 0x04c11db7"
proof -
  have "(shift_in ^^ 7) (push_bit 24 1) = push_bit 7 (push_bit 24 1)"
    by (rule shifts_small) (auto simp: bit_simps bit_1_iff simp del: push_bit_of_1)
  then have "(shift_in ^^ Suc 7) (push_bit 24 1) = shift_in (push_bit 31 1)"
    by (simp only: funpow.simps o_apply push_bit_push_bit) simp
  then show ?thesis by (simp add: table_entry_def crc_bit_def del: funpow.simps)
qed

lemma table_entry_xor: "table_entry (v XOR w) = table_entry v XOR table_entry w"
  by (simp only: table_entry_def push_bit_xor shifts_xor)

lemma crc_table_entry: "i < 256 \<Longrightarrow> crc_table ! i = table_entry (of_nat i)"
proof (induction i rule: less_induct)
  case (less i)
  have len: "length (take 128 crc_table) = 128" by (simp add: crc_table_def)
  show ?case
  proof (cases "i = 0")
    case True
    have "(shift_in ^^ 8) 0 = push_bit 8 0" by (rule shifts_small) simp_all
    with True show ?thesis by (simp add: crc_table_def table_entry_def del: funpow.simps)
  next
    case False
    let ?j = "i div 2"
    have j: "?j < i" "?j < 128" using False less.prems by auto
    then have "crc_table ! ?j = table_entry (of_nat ?j)" using less by simp
    then have e: "shift_in (take 128 crc_table ! ?j) = table_entry (of_nat (2 * ?j))"
      using j(2) by (simp only: nth_take table_entry_double)
    have "even i \<Longrightarrow> ?thesis"
      using nth_next_entries(1) [of ?j "take 128 crc_table"] e len j(2) crc_table_doubles by simp
    moreover have "?thesis" if "odd i"
    proof -
      have i: "2 * ?j + 1 = i" using that by simp
      have "(of_nat (2 * ?j) :: uint32) XOR 1 = of_nat i"
        by (subst i [symmetric]) (simp add: xor_one_eq)
      then have "table_entry (of_nat i) = table_entry (of_nat (2 * ?j)) XOR 0x04c11db7"
        by (metis table_entry_xor table_entry_one)
      then show ?thesis
        using nth_next_entries(2) [of ?j "take 128 crc_table"] e len j(2) crc_table_doubles i by simp
    qed
    ultimately show ?thesis by blast
  qed
qed

lemma crc32_bits: "crc32 crc buf = crc_bits crc buf"
proof -
  have "crc_step r b = foldl crc_bit r (byte_bits b)" for r b
  proof -
    let ?w = "drop_bit 24 r XOR ucast b"
    have m: "(0xff :: uint32) = mask 8" by (simp add: mask_eq_exp_minus_1)
    have "?w AND mask 8 = ?w"
      by (rule bit_word_eqI) (auto simp: bit_simps dest: bit_imp_le_length)
    then have w: "?w AND 0xff = ?w" "take_bit 8 ?w = ?w" by (simp_all add: m take_bit_eq_mask)
    from w(2) have "unat ?w < 2 ^ 8" by (metis take_bit_nat_less_exp unsigned_take_bit_eq)
    then show ?thesis
      by (simp add: crc_step_def w(1) crc_step_bits crc_table_entry)
  qed
  then show ?thesis
    by (induction buf arbitrary: crc) (simp_all add: crc32_def crc_bits_def)
qed


section \<open>Reading and writing whole files\<close>

lemma read_full_whole:
  "(\<forall>i. io i \<noteq> Failed) \<Longrightarrow> read_full io k cts (length cts) got = (int (length got + length cts), got @ cts)"
proof (induction "length cts" arbitrary: k cts got rule: less_induct)
  case less
  show ?case
  proof (cases "cts = []")
    case False
    obtain n where n: "io k = Moved n" using less.prems io_result.exhaust by metis
    let ?now = "min (Suc n) (length cts)"
    have "?now > 0" "length (drop ?now cts) < length cts" using False by auto
    from less.hyps [OF this(2) less.prems, of "Suc k" "got @ take ?now cts"] \<open>?now > 0\<close> False n
    show ?thesis by (subst read_full.simps) (simp add: Let_def)
  qed (simp add: read_full.simps)
qed

lemma write_full_whole:
  "(\<forall>i. \<exists>n. io i = Moved (Suc n)) \<Longrightarrow> write_full io k buf written = (int (length written + length buf), written @ buf)"
proof (induction "length buf" arbitrary: k buf written rule: less_induct)
  case less
  show ?case
  proof (cases "buf = []")
    case False
    obtain n where n: "io k = Moved (Suc n)" using less.prems by blast
    have "length (drop (Suc n) buf) < length buf" using False by simp
    from less.hyps [OF this less.prems, of "Suc k" "written @ take (Suc n) buf"] False n
    show ?thesis by (subst write_full.simps) (simp add: min_def)
  qed (simp add: write_full.simps)
qed

section \<open>The image\<close>

text \<open>What the boot ROM checks of an image: the validation word, the length in words, the sum of the header and the CRC.\<close>

definition valid_image :: "byte list \<Rightarrow> bool" where
  "valid_image img \<longleftrightarrow>
    (let h = drop 0x40 img in
     0x4c \<le> length img \<and> length img \<le> 60 * 1024 \<and>
     take 4 h = [0x41, 0x53, 0x30, 0x31] \<and>
     4 * (unat (h ! 6) + 256 * unat (h ! 7)) = length img \<and>
     unat (h ! 10) + 256 * unat (h ! 11) = sum_list (map unat (take 10 h)) \<and>
     drop (length img - 4) img = word_bytes (NOT (crc_bits 0xffffffff (take (length img - 4) img))))"


lemma two_bytes:
  assumes "m < 65536"
  shows "unat (of_nat m :: byte) + 256 * unat (of_nat (m div 256) :: byte) = m"
  using assms by (simp add: unat_of_nat)

lemma ucast_bytes:
  assumes "unat (w :: uint32) = m"
  shows "(ucast w :: byte) = of_nat m" "(ucast (drop_bit 8 w) :: byte) = of_nat (m div 256)"
proof -
  show "(ucast w :: byte) = of_nat m" using of_nat_unat [of w] assms by metis
  have "unat (drop_bit 8 w) = m div 256" using assms by (simp add: unsigned_drop_bit_eq drop_bit_eq_div take_bit_eq_mod unat_div_distrib)
  then show "(ucast (drop_bit 8 w) :: byte) = of_nat (m div 256)" using of_nat_unat [of "drop_bit 8 w"] by metis
qed

text \<open>The header of an image of \<open>L\<close> bytes, and the image with the bytes \<open>p\<close> before and \<open>r\<close> behind its header.\<close>

definition header_fields :: "nat \<Rightarrow> byte list" where
  "header_fields L = [0x41, 0x53, 0x30, 0x31, 0, 0, of_nat (L div 4), of_nat (L div 4 div 256), 0, 0]"

definition header_sum :: "nat \<Rightarrow> nat" where
  "header_sum L = sum_list (map unat (header_fields L))"

definition full_header :: "nat \<Rightarrow> byte list" where
  "full_header L = header_fields L @ [of_nat (header_sum L), of_nat (header_sum L div 256)]"

definition boot_image :: "nat \<Rightarrow> byte list \<Rightarrow> byte list \<Rightarrow> byte list" where
  "boot_image L p r = (let d = p @ full_header L @ r in d @ word_bytes (NOT (crc_bits 0xffffffff d)))"

lemma length_header [simp]: "length (header_fields L) = 10" "length (full_header L) = 12"
  by (simp_all add: header_fields_def full_header_def)

lemma header_sum_bound: "header_sum L < 65536"
proof -
  have "unat (w :: byte) < 256" for w using unsigned_less [of w, where 'a = nat] by simp
  from this [of "of_nat (L div 4)"] this [of "of_nat (L div 4 div 256)"]
  show ?thesis by (simp add: header_sum_def header_fields_def)
qed

lemma checksum_bytes:
  fixes w :: uint32
  assumes "w = sum_list (map ucast (header_fields L))"
  shows "[ucast w, ucast (drop_bit 8 w)] = [of_nat (header_sum L) :: byte, of_nat (header_sum L div 256)]"
proof -
  have "w = of_nat (header_sum L)" by (simp add: assms header_sum_def header_fields_def of_nat_unat)
  then have "unat w = header_sum L" using header_sum_bound [of L] by (simp add: unat_of_nat)
  from ucast_bytes [OF this] show ?thesis by simp
qed

lemma add_socfpga_header_image:
  assumes "length p = 64" "length q = 12" "length c = 4" "L = length (p @ q @ r @ c)" "L mod 4 = 0"
  shows "add_socfpga_header (p @ q @ r @ c) L = Some (boot_image L p r)"
proof -
  let ?h = "header_fields L" and ?t = "[of_nat (header_sum L), of_nat (header_sum L div 256)]"
  have fields: "word_bytes VALIDATION_WORD @ [0, 0, of_nat (L div 4), of_nat (L div 4 div 256), 0, 0] = ?h"
    by (simp add: header_fields_def VALIDATION_WORD_def word_bytes_def)
  have buf1: "put_bytes 0x40 ?h (p @ q @ r @ c) = p @ ?h @ drop 10 q @ r @ c"
    using assms by (simp add: put_bytes_def)
  have h: "take 10 (drop 0x40 (p @ ?h @ drop 10 q @ r @ c)) = ?h" using assms by simp
  have buf2: "put_bytes 0x4a ?t (p @ ?h @ drop 10 q @ r @ c) = (p @ full_header L @ r) @ c"
    using assms by (simp add: put_bytes_def full_header_def)
  have L: "L - 4 = length (p @ full_header L @ r)" using assms by simp
  have crc: "take (L - 4) ((p @ full_header L @ r) @ c) = p @ full_header L @ r"
    unfolding L by simp
  have img: "put_bytes (L - 4) v ((p @ full_header L @ r) @ c) = (p @ full_header L @ r) @ v" if "length v = 4" for v
    using that assms unfolding L put_bytes_def by simp
  have xor: "w XOR 0xffffffff = NOT w" for w :: uint32
  proof -
    have "(0xffffffff :: uint32) = -1" by simp
    then show ?thesis by (simp only: bit.xor_one_right)
  qed
  show ?thesis
    using assms(5) by (simp del: take_append drop_append append_assoc
        add: add_socfpga_header_def Let_def fields buf1 h checksum_bytes [OF refl] buf2 crc img xor crc32_bits boot_image_def)
qed

lemma image_valid:
  assumes "length p = 64" "L = length p + length r + 16" "L mod 4 = 0" "L \<le> 60 * 1024"
  shows "valid_image (boot_image L p r)" "length (boot_image L p r) = L"
proof -
  let ?d = "p @ full_header L @ r"
  have d: "drop 64 (boot_image L p r) = header_fields L @ drop 10 (full_header L) @ r @ word_bytes (NOT (crc_bits 0xffffffff ?d))"
    using assms(1) by (simp add: boot_image_def Let_def full_header_def)
  have L: "L - 4 = length ?d" using assms by simp
  show len: "length (boot_image L p r) = L" using assms by (simp add: boot_image_def Let_def)
  have "4 * (L div 4) = L" "L div 4 < 65536" using assms(3,4) by presburger+
  then have "4 * (unat (header_fields L ! 6) + 256 * unat (header_fields L ! 7)) = L"
    using two_bytes [of "L div 4"] by (simp add: header_fields_def)
  moreover have "unat (drop 10 (full_header L) ! 0) + 256 * unat (drop 10 (full_header L) ! 1) = header_sum L"
    using two_bytes [OF header_sum_bound] by (simp add: full_header_def)
  moreover have "drop (L - 4) (boot_image L p r) = word_bytes (NOT (crc_bits 0xffffffff ?d))" "take (L - 4) (boot_image L p r) = ?d"
    unfolding L boot_image_def Let_def by simp_all
  moreover have "take 4 (header_fields L) = [0x41, 0x53, 0x30, 0x31]" by (simp add: header_fields_def)
  ultimately show "valid_image (boot_image L p r)"
    unfolding valid_image_def len Let_def d using assms by (simp add: nth_append header_sum_def)
qed

lemma add_socfpga_header_valid:
  assumes "length b = L" "L mod 4 = 0" "80 \<le> L" "L \<le> 60 * 1024"
  obtains img where "add_socfpga_header b L = Some img" "length img = L" "valid_image img"
    "\<And>i. i < L - 4 \<Longrightarrow> i < 0x40 \<or> 0x4c \<le> i \<Longrightarrow> img ! i = b ! i"
proof -
  define p q r c where "p = take 64 b" and "q = take 12 (drop 64 b)" and "r = take (L - 80) (drop 76 b)" and "c = drop (L - 4) b"
  have l: "length p = 64" "length q = 12" "length r = L - 80" "length c = 4"
    using assms by (simp_all add: p_def q_def r_def c_def)
  have "drop 76 b = r @ c"
    unfolding r_def c_def using assms(3) append_take_drop_id [of "L - 80" "drop 76 b"] by simp
  moreover have "drop 64 b = q @ drop 76 b"
    unfolding q_def using append_take_drop_id [of 12 "drop 64 b"] by simp
  ultimately have b: "b = p @ q @ r @ c" unfolding p_def by (metis append_take_drop_id)
  show ?thesis
  proof
    show "add_socfpga_header b L = Some (boot_image L p r)"
      unfolding b by (rule add_socfpga_header_image) (use l assms b in auto)
    show "valid_image (boot_image L p r)" "length (boot_image L p r) = L" by (rule image_valid; use l assms in simp)+
    show "boot_image L p r ! i = b ! i" if "i < L - 4" "i < 0x40 \<or> 0x4c \<le> i" for i
      using that l assms(3) by (auto simp: b boot_image_def Let_def nth_append)
  qed
qed

lemma pad_bytes_mod: "(n + pad_bytes n) mod 4 = 0" "pad_bytes n < 4"
  by (auto simp: pad_bytes_def) presburger

lemma image_opts_limits:
  "image_opts args no_options = Inr opts \<Longrightarrow>
    (add_barebox_header opts \<and> addsize opts = 512 \<and> min_image_size opts = 0 \<and> max_image_size opts = MAX_IMAGE_SIZE - 512) \<or>
    (\<not> add_barebox_header opts \<and> addsize opts = 0 \<and> min_image_size opts = 80 \<and> max_image_size opts = MAX_IMAGE_SIZE)"
proof -
  have "image_opts args o1 = Inr opts \<Longrightarrow>
    (add_barebox_header o1 \<and> addsize o1 = 512 \<and> min_image_size o1 = 0 \<and> max_image_size o1 = MAX_IMAGE_SIZE - 512) \<or>
    (\<not> add_barebox_header o1 \<and> addsize o1 = 0 \<and> min_image_size o1 = 80 \<and> max_image_size o1 = MAX_IMAGE_SIZE) \<Longrightarrow>
    (add_barebox_header opts \<and> addsize opts = 512 \<and> min_image_size opts = 0 \<and> max_image_size opts = MAX_IMAGE_SIZE - 512) \<or>
    (\<not> add_barebox_header opts \<and> addsize opts = 0 \<and> min_image_size opts = 80 \<and> max_image_size opts = MAX_IMAGE_SIZE)" for o1
    by (induction args o1 rule: image_opts.induct) auto
  then show "image_opts args no_options = Inr opts \<Longrightarrow> ?thesis" by (simp add: no_options_def)
qed


lemma nth_put_bytes:
  "j + length src \<le> length dst \<Longrightarrow> put_bytes j src dst ! i =
    (if i < j then dst ! i else if i < j + length src then src ! (i - j) else dst ! i)"
  by (auto simp: put_bytes_def nth_append)

lemma length_bb_header_bytes: "length bb_header_bytes = 80"
  by (simp add: bb_header_bytes_def bb_header_def)

lemma image_buffer_simps:
  assumes "image_opts args no_options = Inr opts" "length got = n"
  shows "length (image_buffer opts n got) = n + 4 + addsize opts + pad_bytes n"
    and "i < n \<Longrightarrow> image_buffer opts n got ! (addsize opts + i) = got ! i"
    and "add_barebox_header opts \<Longrightarrow> i < 80 \<Longrightarrow> image_buffer opts n got ! i = bb_header_bytes ! i"
  using image_opts_limits [OF assms(1)] assms(2) length_bb_header_bytes
  by (auto simp: image_buffer_def Let_def put_bytes_simps nth_put_bytes)

text \<open>
  Property C38: when the files can be read and written, \<^verbatim>\<open>mkpimage\<close> exits with success and writes, in whatever
  pieces \<^verbatim>\<open>read\<close> and \<^verbatim>\<open>write\<close> move the data, an image that passes the checks of the boot ROM and contains the input
  behind the room for a barebox header, all but the bytes the header takes; with \<^verbatim>\<open>-b\<close> the image starts with
  the barebox header. Inputs that are too small or too large are refused and nothing is written.
\<close>

theorem mkpimage_image_valid:
  assumes opts: "image_opts args no_options = Inr opts" "outfile opts = Some out"
    and infile: "sys_stat sys f = Some (length cts)" "sys_open sys f = Some cts" "\<forall>i. sys_read sys i \<noteq> Failed"
    and out: "sys_creat sys out" "\<forall>i. \<exists>n. sys_write sys i = Moved (Suc n)"
  shows "if min_image_size opts \<le> length cts \<and> length cts \<le> max_image_size opts
    then \<exists>img. mkpimage sys args (Some f) = (0, Some (out, img)) \<and> valid_image img \<and>
      (\<forall>i. i < length cts \<and> (addsize opts + i < 0x40 \<or> 0x4c \<le> addsize opts + i) \<longrightarrow> img ! (addsize opts + i) = cts ! i) \<and>
      (add_barebox_header opts \<longrightarrow> take 0x40 img = take 0x40 bb_header_bytes)
    else mkpimage sys args (Some f) = (1, None)"
proof (cases "min_image_size opts \<le> length cts \<and> length cts \<le> max_image_size opts")
  case True
  let ?n = "length cts" and ?b = "image_buffer opts (length cts) cts"
  let ?L = "?n + 4 + addsize opts + pad_bytes ?n"
  note lim = image_opts_limits [OF opts(1)] and buf = image_buffer_simps [OF opts(1) refl]
  have pad: "(?n + pad_bytes ?n) mod 4 = 0" "pad_bytes ?n < 4" by (rule pad_bytes_mod)+
  have L: "length ?b = ?L" "?L mod 4 = 0" "80 \<le> ?L" "?L \<le> 60 * 1024"
  proof -
    obtain k where k: "?n + pad_bytes ?n = 4 * k" using pad(1) by (metis mod_eq_0_iff_dvd dvd_def)
    then have "?L = 4 * (k + 1) + addsize opts" by simp
    moreover have "addsize opts mod 4 = 0" using lim by auto
    ultimately show "?L mod 4 = 0" by presburger
    show "80 \<le> ?L" "?L \<le> 60 * 1024"
      using lim True pad(2) k by (auto simp: MAX_IMAGE_SIZE_def)
  qed (rule buf(1))
  obtain img where img: "add_socfpga_header ?b ?L = Some img" "length img = ?L" "valid_image img"
    "\<And>i. i < ?L - 4 \<Longrightarrow> i < 0x40 \<or> 0x4c \<le> i \<Longrightarrow> img ! i = ?b ! i"
    by (rule add_socfpga_header_valid [OF L]) (rule that)
  have "mkpimage sys args (Some f) = (0, Some (out, img))"
    using opts infile out True read_full_whole [OF infile(3), of 0 cts "[]"] write_full_whole [OF out(2), of 0 img "[]"] img(1)
    by (simp add: mkpimage_def)
  moreover have "img ! (addsize opts + i) = cts ! i"
    if "i < ?n" "addsize opts + i < 0x40 \<or> 0x4c \<le> addsize opts + i" for i
    using that img(4) [of "addsize opts + i"] buf(2) [of i cts] by simp
  moreover have "take 0x40 img = take 0x40 bb_header_bytes" if "add_barebox_header opts"
    using that img(2,4) buf(3) [of _ cts] lim length_bb_header_bytes by (intro nth_equalityI) auto
  ultimately show ?thesis using True img(3) by auto
next
  case False
  then show ?thesis using opts infile(1) by (auto simp: mkpimage_def)
qed


text \<open>Three bytes are read one by one, with \<^verbatim>\<open>-b\<close> and \<^verbatim>\<open>-o out\<close>.\<close>

definition demo_system :: image_system where
  "demo_system = \<lparr>sys_stat = (\<lambda>f. Some 3), sys_open = (\<lambda>f. Some [7, 8, 9]), sys_read = (\<lambda>_. Moved 0),
     sys_creat = (\<lambda>_. True), sys_write = (\<lambda>_. Moved (Suc 0))\<rparr>"

lemma mkpimage_image_valid_witness:
  "\<exists>img. mkpimage demo_system [Opt_b, Opt_o ''out''] (Some ''in'') = (0, Some (''out'', img)) \<and> valid_image img \<and>
    (\<forall>i. i < length [7, 8, 9 :: byte] \<and> (512 + i < 0x40 \<or> 0x4c \<le> 512 + i) \<longrightarrow> img ! (512 + i) = [7, 8, 9] ! i) \<and>
    (True \<longrightarrow> take 0x40 img = take 0x40 bb_header_bytes)"
  using mkpimage_image_valid [of "[Opt_b, Opt_o ''out'']" "no_options\<lparr>add_barebox_header := True, min_image_size := 0,
      max_image_size := MAX_IMAGE_SIZE - 512, addsize := 512, outfile := Some ''out''\<rparr>" "''out''" demo_system "''in''" "[7, 8, 9]"]
  by (simp add: demo_system_def no_options_def MAX_IMAGE_SIZE_def)
end
