(* ===== verification/Makedevs.thy ===== *)
theory Makedevs
  imports Kconf_Strings
begin

text \<open>
  \<^verbatim>\<open>makedevs\<close> (\<^verbatim>\<open>package/makedevs/makedevs.c\<close>), which reads a device table and creates the directories and device
  nodes it lists. The operating system is a parameter: a function from the calls made so far and the next
  call to its result, so that any deterministic behaviour is an instance. The calls are recorded in the order in
  which the program makes them. Messages are not modelled; \<open>Dies\<close> is an exit with status 1, and \<open>Overrun\<close> stands
  for a write past the end of a buffer.
\<close>

unbundle bit_operations_syntax

section \<open>The operating system\<close>

datatype errno = EEXIST | EISDIR | EOTHER

datatype file_kind = Regular_file | Directory | Other_file

datatype syscall =
    Chdir string
  | Umask nat
  | Mkdir string nat
  | Stat string
  | Chmod string nat
  | Chown string nat nat
  | Mknod string nat nat nat
  | Nftw string
  | Set_cap string string

datatype sysresult = Success | Fails errno | Is_kind file_kind | Lists "string list"

type_synonym os = "syscall list \<Rightarrow> syscall \<Rightarrow> sysresult"

record makedevs_state =
  trace :: "syscall list"
  umask_val :: nat
  ret_failure :: bool
  full_name :: "string option"

datatype 'a outcome = Continues 'a | Dies makedevs_state | Overrun

definition sys_call :: "os \<Rightarrow> syscall \<Rightarrow> makedevs_state \<Rightarrow> sysresult \<times> makedevs_state" where
  "sys_call os c st = (os (trace st) c, st\<lparr>trace := trace st @ [c]\<rparr>)"

fun failed :: "sysresult \<Rightarrow> bool" where
  "failed (Fails e) = True"
| "failed _ = False"

definition fail :: "makedevs_state \<Rightarrow> makedevs_state" where
  "fail st = st\<lparr>ret_failure := True\<rparr>"

text \<open>\<^verbatim>\<open>umask\<close> always succeeds and returns the mask it replaces.\<close>

definition set_umask :: "os \<Rightarrow> nat \<Rightarrow> makedevs_state \<Rightarrow> nat \<times> makedevs_state" where
  "set_umask os m st = (umask_val st, (snd (sys_call os (Umask m) st))\<lparr>umask_val := m\<rparr>)"

section \<open>Directories\<close>

text \<open>The position behind the next component of a path and the slashes that follow it.\<close>

definition next_component :: "string \<Rightarrow> nat \<Rightarrow> nat" where
  "next_component path s =
    (let t = drop s path;
         a = length (takeWhile (\<lambda>c. c \<noteq> CHR ''/'') t) in
     s + a + length (takeWhile (\<lambda>c. c = CHR ''/'') (drop a t)))"

lemma next_component_grows:
  assumes "next_component path s < length path"
  shows "s < next_component path s"
proof -
  have "drop s path \<noteq> []" using assms by (auto simp: next_component_def Let_def)
  then obtain c t where "drop s path = c # t" by (cases "drop s path") auto
  then show ?thesis by (cases "c = CHR ''/''") (simp_all add: next_component_def Let_def)
qed

lemma next_component_less:
  "next_component path s < length path \<Longrightarrow> length path - next_component path s < length path - s"
  using next_component_grows [of path s] by simp

text \<open>
  The loop of \<^verbatim>\<open>bb_make_directory\<close> with \<^verbatim>\<open>FILEUTILS_RECUR\<close>, for a mode other than \<open>-1\<close>; \<open>old\<close> is the mask to
  restore. Permissions are bit masks: \<open>0x1ff\<close> is octal 777. The result of the function is not used by its caller.
\<close>

function make_dirs :: "os \<Rightarrow> string \<Rightarrow> nat \<Rightarrow> nat \<Rightarrow> nat \<Rightarrow> makedevs_state \<Rightarrow> makedevs_state" where
  "make_dirs os path mode old s st =
    (let n = next_component path s; final = (length path \<le> n);
         (r, st1) = sys_call os (Mkdir (take n path) 0x1ff) st in
     case r of
       Fails e \<Rightarrow>
         if e \<noteq> EEXIST \<and> e \<noteq> EISDIR then snd (set_umask os old st1)
         else
           (let (k, st2) = sys_call os (Stat (take n path)) st1 in
            if k \<noteq> Is_kind Directory then snd (set_umask os old st2)
            else if final then snd (set_umask os old st2)
            else make_dirs os path mode old n st2)
     | _ \<Rightarrow>
         if final then snd (sys_call os (Chmod path mode) (snd (set_umask os old st1)))
         else make_dirs os path mode old n st1)"
  by pat_completeness auto

termination make_dirs
  by (relation "measure (\<lambda>(os, path, mode, old, s, st). length path - s)")
    (auto simp: not_le intro: next_component_less)

declare make_dirs.simps [simp del]

definition bb_make_directory :: "os \<Rightarrow> string \<Rightarrow> nat \<Rightarrow> makedevs_state \<Rightarrow> makedevs_state" where
  "bb_make_directory os path mode st =
    (let (old, st1) = set_umask os 0 st;
         (_, st2) = set_umask os (old - (old AND 0xc0)) st1 in
     make_dirs os path mode old 0 st2)"

section \<open>Lines\<close>

definition GROWBY :: nat where
  "GROWBY = 80"

text \<open>
  \<^verbatim>\<open>private_get_line_from_file(file, 1)\<close>: \<open>sz\<close> is the size of the buffer, null while it is 0, \<open>acc\<close> what it
  holds before the index; \<open>broken\<close> says that the file ends with a read error. The result is the line, if there is one,
  and the rest of the file; the outer option is \<open>None\<close> for a write past the buffer.
\<close>

fun get_line :: "bool \<Rightarrow> string \<Rightarrow> nat \<Rightarrow> string \<Rightarrow> (string option \<times> string) option" where
  "get_line broken [] sz acc =
     (if sz = 0 then Some (None, [])
      else if broken then Some (None, [])
      else if length acc < sz then Some (Some acc, []) else None)"
| "get_line broken (ch # rest) sz acc =
     (let sz1 = (if length acc + 2 > sz then sz + GROWBY else sz) in
      if \<not> length acc < sz1 then None
      else if ch = CHR 0x00 then Some (Some acc, rest)
      else if ch = CHR 0x0A then Some (Some acc, rest)
      else get_line broken rest sz1 (acc @ [ch]))"

lemma get_line_shorter: "get_line broken cts sz acc = Some (Some l, rest) \<Longrightarrow> sz = 0 \<Longrightarrow> length rest < length cts"
proof -
  have "get_line broken cts sz acc = Some (lo, rest) \<Longrightarrow> length rest \<le> length cts" for cts sz acc lo
    by (induction broken cts sz acc rule: get_line.induct) (auto simp: Let_def split: if_splits)
  then show "get_line broken cts sz acc = Some (Some l, rest) \<Longrightarrow> sz = 0 \<Longrightarrow> length rest < length cts"
    by (cases cts) (auto simp: Let_def less_Suc_eq_le split: if_splits)
qed

section \<open>Names and numbers\<close>

definition last_char_is :: "string \<Rightarrow> char \<Rightarrow> bool" where
  "last_char_is s c \<longleftrightarrow> s \<noteq> [] \<and> last s = c"

definition concat_path_file :: "string \<Rightarrow> string \<Rightarrow> string" where
  "concat_path_file path filename =
    path @ (if last_char_is path (CHR ''/'') then [] else ''/'') @ dropWhile (\<lambda>c. c = CHR ''/'') filename"

text \<open>
  \<^verbatim>\<open>strtoul\<close>, for 64 bits: white space, a sign, digits; saturating, with the sign applied last. The second
  component is the rest of the string, \<open>None\<close> when there is no number.
\<close>

definition strtoul :: "nat \<Rightarrow> string \<Rightarrow> (nat \<times> string) option" where
  "strtoul b s =
    (let t = dropWhile isspace s;
         neg = (case t of c # _ \<Rightarrow> c = CHR ''-'' | [] \<Rightarrow> False);
         u = (case t of c # cs \<Rightarrow> if c = CHR ''-'' \<or> c = CHR ''+'' then cs else t | [] \<Rightarrow> []);
         v = read_digits b 0 u in
     if takeWhile (base_digit b) u = [] then None
     else Some (if v \<ge> 2 ^ 64 then 2 ^ 64 - 1 else if neg \<and> v \<noteq> 0 then 2 ^ 64 - v else v,
                dropWhile (base_digit b) u))"

text \<open>
  \<^verbatim>\<open>get_ug_id\<close>, with the result converted to the 32 bits of \<^verbatim>\<open>uid_t\<close>. \<open>db\<close> is the list of entries of the passwd or
  group file, if it can be opened; \<open>None\<close> is the exit for an unknown name.
\<close>

definition my_getnam :: "(string \<times> nat) list option \<Rightarrow> string \<Rightarrow> nat option" where
  "my_getnam db nm = Option.bind db (\<lambda>es. map_of es nm)"

definition get_ug_id :: "(string \<times> nat) list option \<Rightarrow> string \<Rightarrow> nat option" where
  "get_ug_id db s =
    (case strtoul 10 s of
       Some (v, []) \<Rightarrow> Some (v mod 2 ^ 32)
     | _ \<Rightarrow> map_option (\<lambda>v. v mod 2 ^ 32) (my_getnam db s))"

section \<open>Entries\<close>

record dev_entry =
  de_name :: string
  de_type :: char
  de_mode :: nat
  de_user :: string
  de_group :: string
  de_major :: nat
  de_minor :: nat
  de_start :: nat
  de_increment :: nat
  de_count :: nat

text \<open>
  The conversions of \<^verbatim>\<open>sscanf\<close>: a word of at most \<open>n\<close> characters, a character behind white space, and an
  unsigned number of 32 bits.
\<close>

definition scan_word :: "nat \<Rightarrow> string \<Rightarrow> (string \<times> string) option" where
  "scan_word n s =
    (let t = dropWhile isspace s; w = take n (takeWhile (\<lambda>c. \<not> isspace c) t) in
     if w = [] then None else Some (w, drop (length w) t))"

definition scan_char :: "string \<Rightarrow> (char \<times> string) option" where
  "scan_char s = (case dropWhile isspace s of [] \<Rightarrow> None | c # cs \<Rightarrow> Some (c, cs))"

definition scan_number :: "nat \<Rightarrow> string \<Rightarrow> (nat \<times> string) option" where
  "scan_number b s = map_option (\<lambda>(v, r). (v mod 2 ^ 32, r)) (strtoul b s)"

text \<open>
  The conversions one after the other, each with what it stores, up to the first that fails: their
  number and the entry.
\<close>

type_synonym scanner = "dev_entry \<Rightarrow> string \<Rightarrow> (dev_entry \<times> string) option"

definition store_scan :: "(string \<Rightarrow> ('v \<times> string) option) \<Rightarrow> ('v \<Rightarrow> dev_entry \<Rightarrow> dev_entry) \<Rightarrow> scanner" where
  "store_scan scan put e s = map_option (\<lambda>(v, r). (put v e, r)) (scan s)"

fun scan_all :: "scanner list \<Rightarrow> dev_entry \<Rightarrow> string \<Rightarrow> nat \<times> dev_entry" where
  "scan_all [] e s = (0, e)"
| "scan_all (d # ds) e s =
     (case d e s of
        None \<Rightarrow> (0, e)
      | Some (e1, r) \<Rightarrow> (case scan_all ds e1 r of (k, e2) \<Rightarrow> (Suc k, e2)))"

definition entry_format :: "scanner list" where
  "entry_format =
    [store_scan (scan_word 4095) (\<lambda>v e. e\<lparr>de_name := v\<rparr>),
     store_scan scan_char (\<lambda>v e. e\<lparr>de_type := v\<rparr>),
     store_scan (scan_number 8) (\<lambda>v e. e\<lparr>de_mode := v\<rparr>),
     store_scan (scan_word 40) (\<lambda>v e. e\<lparr>de_user := v\<rparr>),
     store_scan (scan_word 40) (\<lambda>v e. e\<lparr>de_group := v\<rparr>),
     store_scan (scan_number 10) (\<lambda>v e. e\<lparr>de_major := v\<rparr>),
     store_scan (scan_number 10) (\<lambda>v e. e\<lparr>de_minor := v\<rparr>),
     store_scan (scan_number 10) (\<lambda>v e. e\<lparr>de_start := v\<rparr>),
     store_scan (scan_number 10) (\<lambda>v e. e\<lparr>de_increment := v\<rparr>),
     store_scan (scan_number 10) (\<lambda>v e. e\<lparr>de_count := v\<rparr>)]"

text \<open>
  The variables of the loop before the line is scanned. Name, type, user and group are not initialised:
  \<open>stale\<close> is what they hold.
\<close>

definition fresh_entry :: "dev_entry \<Rightarrow> dev_entry" where
  "fresh_entry stale =
    stale\<lparr>de_mode := 0x1ed, de_major := 0, de_minor := 0, de_count := 0, de_increment := 0, de_start := 0\<rparr>"

definition invalid_entry :: "nat \<Rightarrow> dev_entry \<Rightarrow> bool" where
  "invalid_entry k e \<longleftrightarrow>
    2 > k \<or> de_major e OR de_minor e OR de_start e OR de_count e OR de_increment e > 0xfffff"

section \<open>Nodes\<close>

abbreviation (input) NO_MODE :: nat where "NO_MODE \<equiv> 2 ^ 32 - 1"

text \<open>\<^verbatim>\<open>mknod\<close>, \<^verbatim>\<open>chown\<close> and \<^verbatim>\<open>chmod\<close> for one device node.\<close>

definition make_node :: "os \<Rightarrow> string \<Rightarrow> nat \<Rightarrow> nat \<Rightarrow> nat \<Rightarrow> nat \<Rightarrow> nat \<Rightarrow> makedevs_state \<Rightarrow> makedevs_state" where
  "make_node os nm mode maj mnr uid gid st =
    (let (r, st1) = sys_call os (Mknod nm mode maj mnr) st;
         st2 = (if failed r then fail st1
                else let (r1, st2) = sys_call os (Chown nm uid gid) st1 in if failed r1 then fail st2 else st2) in
     if mode \<noteq> NO_MODE
     then let (r2, st3) = sys_call os (Chmod nm mode) st2 in if failed r2 then fail st3 else st3
     else st2)"

text \<open>
  The loop over the nodes of an entry with a count. The buffer for the name has 8 bytes more than the
  name; \<^verbatim>\<open>start + i\<close> and \<^verbatim>\<open>minor + i * increment\<close> are unsigned, and the former is printed as a signed number.
\<close>

definition print_d :: "nat \<Rightarrow> string" where
  "print_d w = (if w < 2 ^ 31 then print_nat 10 w else CHR ''-'' # print_nat 10 (2 ^ 32 - w))"

definition node_name :: "string \<Rightarrow> dev_entry \<Rightarrow> nat \<Rightarrow> string" where
  "node_name nm e i = nm @ print_d ((de_start e + i) mod 2 ^ 32)"

definition node_minor :: "dev_entry \<Rightarrow> nat \<Rightarrow> nat" where
  "node_minor e i = (de_minor e + i * de_increment e) mod 2 ^ 32"

fun make_nodes :: "os \<Rightarrow> string \<Rightarrow> dev_entry \<Rightarrow> nat \<Rightarrow> nat \<Rightarrow> nat \<Rightarrow> nat list \<Rightarrow> makedevs_state \<Rightarrow> makedevs_state outcome" where
  "make_nodes os nm e mode uid gid [] st = Continues st"
| "make_nodes os nm e mode uid gid (i # is) st =
     (if length (node_name nm e i) + 1 > length nm + 8 then Overrun
      else make_nodes os nm e mode uid gid is
             (make_node os (node_name nm e i) mode (de_major e) (node_minor e i) uid gid st))"

text \<open>\<^verbatim>\<open>nftw\<close> with \<^verbatim>\<open>bb_recursive\<close>: the walk ends when the function fails for a file.\<close>

fun recursive_files :: "os \<Rightarrow> nat \<Rightarrow> nat \<Rightarrow> nat \<Rightarrow> string list \<Rightarrow> makedevs_state \<Rightarrow> bool \<times> makedevs_state" where
  "recursive_files os mode uid gid [] st = (True, st)"
| "recursive_files os mode uid gid (f # fs) st =
     (let (r, st1) = sys_call os (Chown f uid gid) st in
      if failed r then (False, st1)
      else if mode \<noteq> NO_MODE
      then let (r1, st2) = sys_call os (Chmod f mode) st1 in
           if failed r1 then (False, st2) else recursive_files os mode uid gid fs st2
      else recursive_files os mode uid gid fs st1)"

text \<open>\<^verbatim>\<open>chown\<close> and \<^verbatim>\<open>chmod\<close> for directories and files; the second only if the first succeeds.\<close>

definition set_owner :: "os \<Rightarrow> string \<Rightarrow> nat \<Rightarrow> nat \<Rightarrow> nat \<Rightarrow> makedevs_state \<Rightarrow> makedevs_state" where
  "set_owner os nm mode uid gid st =
    (let (r, st1) = sys_call os (Chown nm uid gid) st in
     if failed r then fail st1
     else if mode \<noteq> NO_MODE
     then let (r1, st2) = sys_call os (Chmod nm mode) st1 in if failed r1 then fail st2 else st2
     else st1)"

definition device_kind :: "char \<Rightarrow> nat option" where
  "device_kind t =
    (if t = CHR ''p'' then Some 0x1000
     else if t = CHR ''c'' then Some 0x2000
     else if t = CHR ''b'' then Some 0x6000
     else None)"

definition make_entry :: "os \<Rightarrow> string \<Rightarrow> dev_entry \<Rightarrow> nat \<Rightarrow> nat \<Rightarrow> makedevs_state \<Rightarrow> makedevs_state outcome" where
  "make_entry os nm e uid gid st =
    (if de_type e = CHR ''d'' then
       Continues (set_owner os nm (de_mode e) uid gid (bb_make_directory os nm (de_mode e OR 0x4000) st))
     else if de_type e = CHR ''f'' then
       (let (k, st1) = sys_call os (Stat nm) st in
        Continues (if k \<noteq> Is_kind Regular_file then fail st1 else set_owner os nm (de_mode e) uid gid st1))
     else if de_type e = CHR ''r'' then
       (case sys_call os (Nftw nm) st of
          (Lists fs, st1) \<Rightarrow>
            (let (ok, st2) = recursive_files os (de_mode e) uid gid fs st1 in
             Continues (if ok then st2 else fail st2))
        | (_, st1) \<Rightarrow> Continues (fail st1))
     else
       (case device_kind (de_type e) of
          None \<Rightarrow> Continues (fail st)
        | Some kind \<Rightarrow>
            if de_count e > 0 then make_nodes os nm e (de_mode e OR kind) uid gid [0..<de_count e] st
            else Continues (make_node os nm (de_mode e OR kind) (de_major e) (de_minor e) uid gid st)))"

section \<open>The program\<close>

text \<open>
  The system the program runs on: the passwd and group files below the root directory, the identity of
  the process, what uninitialised variables hold for each line, and whether extended attributes are compiled in.
\<close>

record makedevs_env =
  env_passwd :: "(string \<times> nat) list option"
  env_group :: "(string \<times> nat) list option"
  env_uid :: nat
  env_gid :: nat
  env_stale :: "nat \<Rightarrow> dev_entry"
  env_xattr :: bool

definition scan_xattr :: "string \<Rightarrow> string option" where
  "scan_xattr l = (if take 6 l = ''|xattr'' then map_option fst (scan_word 254 (drop 6 l)) else None)"

definition owner_id :: "(string \<times> nat) list option \<Rightarrow> nat \<Rightarrow> string \<Rightarrow> nat option" where
  "owner_id db self nm = (if nm \<noteq> [] then get_ug_id db nm else Some self)"

definition xattr_line :: "os \<Rightarrow> makedevs_env \<Rightarrow> string \<Rightarrow> makedevs_state \<Rightarrow> makedevs_state outcome" where
  "xattr_line os env x st =
    (if \<not> env_xattr env then Dies st
     else case full_name st of
            None \<Rightarrow> Dies st
          | Some f \<Rightarrow> (let (r, st1) = sys_call os (Set_cap f x) st in if failed r then Dies st1 else Continues st1))"

definition is_blank :: "string \<Rightarrow> bool" where
  "is_blank l = (case l of [] \<Rightarrow> True | c # _ \<Rightarrow> c = CHR ''#'' \<or> isspace c)"

definition table_line :: "os \<Rightarrow> makedevs_env \<Rightarrow> string \<Rightarrow> nat \<Rightarrow> string \<Rightarrow> makedevs_state \<Rightarrow> makedevs_state outcome" where
  "table_line os env rootdir linenum l st =
    (case scan_xattr l of
       Some x \<Rightarrow> xattr_line os env x st
     | None \<Rightarrow>
       (case scan_all entry_format (fresh_entry (env_stale env linenum)) l of (k, e) \<Rightarrow>
        if invalid_entry k e then Continues (if is_blank l then st else fail st)
        else if take 1 (de_name e) = ''#'' then Continues st
        else
          case owner_id (env_group env) (env_gid env) (de_group e) of
            None \<Rightarrow> Dies st
          | Some gid \<Rightarrow>
          case owner_id (env_passwd env) (env_uid env) (de_user e) of
            None \<Rightarrow> Dies st
          | Some uid \<Rightarrow>
            (let nm = concat_path_file rootdir (de_name e) in
             make_entry os nm e uid gid (st\<lparr>full_name := Some nm\<rparr>))))"

function table_lines ::
    "os \<Rightarrow> makedevs_env \<Rightarrow> string \<Rightarrow> bool \<Rightarrow> nat \<Rightarrow> string \<Rightarrow> makedevs_state \<Rightarrow> makedevs_state outcome" where
  "table_lines os env rootdir broken linenum cts st =
    (case get_line broken cts 0 [] of
       None \<Rightarrow> Overrun
     | Some (None, rest) \<Rightarrow> Continues st
     | Some (Some l, rest) \<Rightarrow>
         (case table_line os env rootdir (Suc linenum) l st of
            Continues st1 \<Rightarrow> table_lines os env rootdir broken (Suc linenum) rest st1
          | r \<Rightarrow> r))"
  by pat_completeness auto

termination table_lines
  by (relation "measure (\<lambda>(os, env, rootdir, broken, linenum, cts, st). length cts)") (auto dest: get_line_shorter)

declare table_lines.simps [simp del]

definition start_state :: "nat \<Rightarrow> makedevs_state" where
  "start_state um = \<lparr>trace = [], umask_val = um, ret_failure = False, full_name = None\<rparr>"

text \<open>
  \<^verbatim>\<open>main\<close>: \<open>table\<close> is the contents of the table, if it can be opened, \<open>rootdir\<close> the argument, if there is one.
\<close>

definition makedevs :: "os \<Rightarrow> makedevs_env \<Rightarrow> nat \<Rightarrow> (string \<times> bool) option \<Rightarrow> string option \<Rightarrow> makedevs_state outcome" where
  "makedevs os env um table rootdir =
    (case table of
       None \<Rightarrow> Dies (start_state um)
     | Some (cts, broken) \<Rightarrow>
     case rootdir of
       None \<Rightarrow> Dies (start_state um)
     | Some root \<Rightarrow>
       (let (r, st1) = sys_call os (Chdir root) (start_state um) in
        if failed r then Dies st1
        else table_lines os env root broken 0 cts (snd (set_umask os 0 st1))))"

end
