(* ===== verification/Spec2Isabelle.thy ===== *)
theory Spec2Isabelle
  imports Kconf_Expr_Props Kconf_Calc_Correct Kconf_Conf_Props Kconf_Deps_Props Kconf_Parse_Total Kconf_Dups_Props Kconf_Conf_Parse
    Kconf_Print_Props Kconf_Front_Inv Mcookie_Props Toolchain_Wrapper Ch34x_Send Mkpimage_Props Makedevs_Props
begin

text \<open>
  Verification of the programs of this Buildroot tree that carry logic of their own. The
  paths below are relative to the repository; \<^verbatim>\<open>kconfig\<close> stands for \<^verbatim>\<open>buildroot/support/kconfig\<close>.

  \<^bold>\<open>The configuration language processor\<close> (\<^verbatim>\<open>kconfig\<close>) is the core. Its parser reads the
  \<^verbatim>\<open>Config.in\<close> files and builds symbols, their properties and a tree of menu entries; from these and the
  values the user set it calculates the value of every symbol; it reads and writes \<^verbatim>\<open>.config\<close> files. The
  parts share one global state, which is the record \<open>kstate\<close>: pointers to symbols, properties and menu
  entries are identifiers into stores of it, since the code shares and updates these objects, and a
  pointer that may be null has an \<open>option\<close> type. A function whose code may follow a null pointer returns an
  option, and \<open>None\<close> stands for that (and, where a function takes a bound, for a bound that is too small).

  \<^item> \<open>Kconf_Prelude\<close>: the three values of Kconfig (\<^verbatim>\<open>tristate\<close>) with their order, the collections of
    rewrite rules, the predicate \<open>run\<close> for computations that may stop (total with \<open>run False\<close>, partial with
    \<open>run True\<close>), shared lemmas.
  \<^item> \<open>Kconf_Data\<close>: \<^verbatim>\<open>expr.h\<close>, \<^verbatim>\<open>lkc.h\<close> and the file-level variables.
  \<^item> \<open>Kconf_Expr\<close>, \<open>Kconf_Transform\<close>, \<open>Kconf_Dups\<close>: \<^verbatim>\<open>expr.c\<close>. \<open>Kconf_Expr_Value\<close>, \<open>Kconf_Expr_Props\<close> and
    \<open>Kconf_Dups_Props\<close> show that the normal forms and the factoring keep the value of a condition
    (\<^verbatim>\<open>expr_eliminate_dups\<close> only while no symbol of it is \<^verbatim>\<open>m\<close>, with a counterexample otherwise),
    that comparison is sound, and that the loops end.
  \<^item> \<open>Kconf_Strings\<close>, \<open>Kconf_Symtab\<close>: the text of values and the symbol table of \<^verbatim>\<open>symbol.c\<close>. The locale
    \<open>symbol_table\<close> states what the clients of the table rely on and is interpreted on \<^verbatim>\<open>sym_lookup\<close> and
    \<^verbatim>\<open>sym_find\<close>. Escaping and number printing are undone by the readers; string expansion equals a reference
    definition.
  \<^item> \<open>Kconf_Calc\<close>, \<open>Kconf_Set\<close>: \<^verbatim>\<open>sym_calc_value\<close> and everything it calls, the functions that set user values
    (\<^verbatim>\<open>symbol.c\<close>), and \<^verbatim>\<open>conf_set_all_new_symbols\<close> (\<^verbatim>\<open>confdata.c\<close>). The recursion through
    expressions is opened: the functions take the function \<open>scv\<close> to call for \<^verbatim>\<open>sym_calc_value\<close>, and \<open>sym_calc_value\<close>
    closes the knot with a bound on the depth of nested calls. \<open>Kconf_Calc_Inv\<close> gives a rule for invariants of this
    recursion as the locales \<open>calc_inv\<close>, \<open>calc_call\<close> and \<open>calc_partial\<close>; \<open>Kconf_Calc_Frame\<close> interprets them for
    termination, for the types of the stored values and for what the calculation leaves alone.
    \<open>Kconf_Calc_Sem\<close> states the meaning of a configuration without a calculation, and \<open>Kconf_Calc_Correct\<close>
    shows that the code computes it for configurations without choices, in whatever order the symbols are asked for.
  \<^item> \<open>Kconf_Menu\<close>, \<open>Kconf_Parse\<close>, \<open>Kconf_Finalize\<close>: \<^verbatim>\<open>menu.c\<close> and the actions of the grammar in
    \<^verbatim>\<open>zconf.y\<close>, with \<^verbatim>\<open>conf_parse\<close>. \<open>Kconf_Parse_Tree\<close>, \<open>Kconf_Parse_Total\<close>, \<open>Kconf_Sane\<close>, \<open>Kconf_Parse_Sane\<close> and
    \<open>Kconf_Finalize_Tree\<close> show that the actions never follow a null pointer, that the entries are linked as the
    statements are nested, and that \<^verbatim>\<open>menu_finalize\<close> ends and keeps their order.
  \<^item> \<open>Kconf_Deps\<close>, \<open>Kconf_Deps_Props\<close>: the search for recursive dependencies (\<^verbatim>\<open>sym_check_deps\<close>) against the
    dependency graph.
  \<^item> \<open>Kconf_Confdata\<close>, \<open>Kconf_Write\<close>: reading and writing configuration files (\<^verbatim>\<open>confdata.c\<close>). \<open>Kconf_Conf_Props\<close>:
    the line buffer is never overrun, and what is written is read back. \<open>Kconf_Walk\<close>: the loops that climb the
    links of the menu tree visit it in preorder. \<open>Kconf_Conf_Parse\<close>: parsing and writing together.
  \<^item> \<open>Kconf_Print\<close>, \<open>Kconf_Print_Props\<close>: expressions as text, growing strings (\<^verbatim>\<open>util.c\<close>) and the help texts of
    \<^verbatim>\<open>menu.c\<close>. What \<^verbatim>\<open>expr_print\<close> writes is read back by the grammar with the same value, so the
    parentheses it leaves out are not needed.
  \<^item> \<open>Kconf_Front\<close>: \<^verbatim>\<open>conf.c\<close>, the front end that asks its questions line by line, with \<^verbatim>\<open>main\<close> after the parser. Its
    static variables, the rest of its input and what it has printed are the record \<open>front\<close>. \<open>Kconf_Front_Props\<close>: the modes
    without a dialogue end and read nothing. \<open>Kconf_Front_Inv\<close>: the locales \<open>set_inv\<close> and \<open>dialogue_inv\<close> are a rule for
    invariants of the dialogue, interpreted for what the Kconfig files define, which no dialogue changes.

  \<^bold>\<open>The other programs\<close> do not share state with the processor or with each other. \<open>Byte_Prelude\<close> has what the
  programs on binary data share: bytes and their grouping into words.

  \<^item> \<open>Toolchain_Wrapper\<close>: \<^verbatim>\<open>buildroot/toolchain/toolchain-wrapper.c\<close>, which Buildroot installs in place of the
    compiler, for every setting of the macros it is compiled with. Its array of arguments is never overrun, and unsafe
    directories are found.
  \<^item> \<open>Mcookie_MD5\<close>, \<open>Mcookie_Props\<close>: \<^verbatim>\<open>buildroot/package/x11r7/mcookie/mcookie.c\<close>. The incremental MD5 is that of RFC 1321 on
    the whole message, and the program prints the digest of what it has read.
  \<^item> \<open>Mkpimage\<close>, \<open>Mkpimage_Props\<close>: \<^verbatim>\<open>buildroot/package/mkpimage/mkpimage.c\<close>. The image it writes passes the checks of
    the boot ROM, with the checksum stated bit by bit rather than by table.
  \<^item> \<open>Makedevs\<close>, \<open>Makedevs_Props\<close>: \<^verbatim>\<open>buildroot/package/makedevs/makedevs.c\<close>, as the list of calls of the operating
    system it makes; what these return is a parameter. No buffer is overrun, and a line of the table makes the nodes it names.
  \<^item> \<open>Ch34x_Buffer\<close>, \<open>Ch34x_Send\<close>: \<^verbatim>\<open>contrib/packages/ch34/src/ch34x.c\<close>, the circular buffer of the serial driver and its
    transmitting side. The locale \<open>bounded_queue\<close> is what the driver relies on, interpreted on the buffer, and a step relation
    of the driver and the USB core shows that what is written is transmitted in order.

  \<^bold>\<open>Bounds.\<close> A recursion that the data of the code bounds, but not the type of the model, takes a bound, and
  running out of it is \<open>None\<close>, so the theorems that such a function returns are proved for bounds that
  suffice: \<open>sym_calc_value\<close> takes the depth of nested calls, and one more than the number of symbols not yet calculated
  is enough; \<open>sym_check_deps\<close> takes \<open>2 * n + 2\<close> for \<open>n\<close> symbols; the loops over the menu tree take its number of
  entries plus its height plus 2; the loops of \<open>expr_eliminate_dups\<close> the square of the size plus one;
  \<open>menu_finalize\<close>, \<open>menu_is_visible\<close> and \<open>check_conf\<close> twice the number of entries plus at most 3. The dialogue of the
  front end may repeat a question for ever, so its theorem is about the states in which it returns.

  \<^bold>\<open>Assumptions.\<close> Allocation succeeds. A handler of the serial driver runs to its end before the next one, as under its
  lock. Hosts are little-endian, and \<^verbatim>\<open>uint32\<close> has 32 bits. Messages are not translated.

  \<^bold>\<open>Not modelled.\<close> The lexer \<^verbatim>\<open>zconf.l\<close> is a specification for flex; the model starts from the statements the grammar
  recognises. The curses, GTK and Qt front ends are calls of graphical libraries around the modelled operations.
  \<^verbatim>\<open>sym_re_search\<close> depends on the regular expressions of the C library, and the opening, renaming and touching of files on
  the file system; the parsing of options is done by \<^verbatim>\<open>getopt\<close>. Of the serial driver, the control transfers, the
  receiving side and the registration with the kernel are left out; of \<^verbatim>\<open>makedevs\<close>, the encoding of capabilities by libcap.
  \<^verbatim>\<open>contrib/packages/cp210x\<close> and \<^verbatim>\<open>addons/spidev.h\<close> are kernel interfaces; \<^verbatim>\<open>mkpasswd\<close> and \<^verbatim>\<open>addons/create_inode.c\<close>
  are imported and consist of calls of crypt and libext2fs; \<^verbatim>\<open>addons/mjpg-streamer-experimental\<close> is imported too: sockets, threads,
  camera drivers, pictures as data and Broadcom's MMAL library.
\<close>

end
